(* ===== verification/Prelude.thy ===== *)
theory Prelude
  imports Main "HOL-Library.Word"
begin

text \<open>
  Shared vocabulary of the development: the machine types of the C sources, the byte-buffer
  conventions used by every codec theory, and generic lemmas on words and lists.

  A C pointer pair \<open>(bytes, bytes_max)\<close> used for reading is the list of the bytes that
  lie between the two pointers; \<open>NULL\<close> is \<open>None\<close>.  A pointer pair used for writing is the number of
  bytes that may still be written, and the result of a write is the list of bytes written.
\<close>

unbundle bit_operations_syntax

type_synonym u8 = "8 word"
type_synonym u16 = "16 word"
type_synonym u32 = "32 word"
type_synonym u64 = "64 word"
type_synonym bytes = "u8 list"

text \<open>Collections that carry the component proofs.\<close>

named_theorems codec_simps \<open>definitions and equations of the byte codecs\<close>
named_theorems word_bounds \<open>bounds and conversions of machine words\<close>

subsection \<open>Bits of bytes and words\<close>

text \<open>The C cast \<open>(uint8_t)(n >> k)\<close>.\<close>

definition byte_at :: "nat \<Rightarrow> 'a::len word \<Rightarrow> u8" where
  "byte_at k n = ucast (drop_bit k n)"

text \<open>The big-endian accumulation \<open>v <<= 8; v += b\<close> of the decoders.\<close>

definition shift_in :: "'a::len word \<Rightarrow> u8 \<Rightarrow> 'a word" where
  "shift_in v b = push_bit 8 v + ucast b"

lemma diff_less_conv: "0 < c \<Longrightarrow> i - a < c \<longleftrightarrow> i < a + (c :: nat)"
  by arith

lemma bit_byte_at [bit_simps]:
  "bit (byte_at k (n :: 'a::len word)) i \<longleftrightarrow> i < 8 \<and> bit n (k + i)"
  by (auto simp: byte_at_def bit_simps dest: bit_imp_le_length)

lemma byte_disjoint: "push_bit 8 (v :: 'a::len word) AND ucast (b :: u8) = 0"
  by (rule bit_word_eqI) (auto simp: bit_simps dest: bit_imp_le_length)

lemma shift_in_or: "shift_in v b = push_bit 8 v OR ucast b"
  by (simp add: shift_in_def disjunctive_add_eq_or byte_disjoint)

lemma bit_shift_in:
  "bit (shift_in (v :: 'a::len word) b) i \<longleftrightarrow>
     i < LENGTH('a) \<and> (if i < 8 then bit b i else bit v (i - 8))"
  by (auto simp: shift_in_or bit_simps dest: bit_imp_le_length)

text \<open>
  One step of every multi-byte round trip: reading back the byte that was written at bit
  position \<open>k\<close> extends the value known above position \<open>k + 8\<close> down to position \<open>k\<close>.
\<close>

lemma shift_in_byte_at:
  "shift_in (drop_bit (k + 8) n) (byte_at k n) = drop_bit k (n :: 'a::len word)"
  by (rule bit_word_eqI) (auto simp: bit_shift_in bit_simps dest: bit_imp_le_length)

lemma not_bit_if_less:
  assumes "unat (n :: 'a::len word) < 2 ^ m" and "m \<le> i"
  shows "\<not> bit n i"
proof -
  have "take_bit m (unat n) = unat n"
    using assms(1) by (simp add: take_bit_nat_eq_self_iff)
  then have "\<not> bit (unat n) i"
    using assms(2) by (metis bit_take_bit_iff not_le)
  then show ?thesis
    by (simp add: bit_unsigned_iff)
qed

lemma drop_bit_eq_0_if_less:
  "unat (n :: 'a::len word) < 2 ^ k \<Longrightarrow> drop_bit k n = 0"
  by (metis div_less drop_bit_eq_div unat_drop_bit_eq unsigned_eq_0_iff)

lemma unat_u8_less [word_bounds]: "unat (b :: u8) < 256"
  using unsigned_less [of b] by simp

lemma unat_ucast_byte [simp]:
  "8 \<le> LENGTH('a::len) \<Longrightarrow> unat (ucast (b :: u8) :: 'a word) = unat b"
proof -
  assume "8 \<le> LENGTH('a)"
  then have "unat b < 2 ^ LENGTH('a)"
    using unat_u8_less [of b] power_increasing [of 8 "LENGTH('a)" "2::nat"] by simp
  then show ?thesis
    by (simp add: unsigned_ucast_eq take_bit_nat_eq_self_iff)
qed

lemma unat_take_bit_less: "unat (take_bit k (n :: 'a::len word)) < 2 ^ k"
  by (simp add: unsigned_take_bit_eq)

lemma word_xor_eq_0_iff: "(a :: 'a::len word) XOR b = 0 \<longleftrightarrow> a = b"
  by (auto simp: bit_eq_iff bit_simps)

text \<open>Equality of bytes, bit by bit.\<close>

lemma u8_eqI:
  assumes "bit a 0 = bit b 0" "bit a 1 = bit b 1" "bit a 2 = bit b 2" "bit a 3 = bit b 3"
    "bit a 4 = bit b 4" "bit a 5 = bit b 5" "bit a 6 = bit b 6" "bit a 7 = bit (b :: u8) 7"
  shows "a = b"
proof (rule bit_word_eqI)
  fix i
  assume "i < LENGTH(8)"
  then consider "i = 0" | "i = 1" | "i = 2" | "i = 3" | "i = 4" | "i = 5" | "i = 6" | "i = 7" by fastforce
  then show "bit a i = bit b i" using assms by cases simp_all
qed

subsection \<open>Calls that may go wrong\<close>

text \<open>The outcome of a call whose C code may dereference an invalid pointer or otherwise leave the
  defined behaviour of the language.\<close>

datatype 'a outcome = Fault | Returned 'a

end
