(* ===== verification/Picosplay.thy ===== *)
theory Picosplay
  imports Prelude "HOL-Library.Tree"
begin

text \<open>
  The splay tree of \<^verbatim>\<open>picoquic/picosplay.c\<close>, which holds the SACK ranges, the streams, the
  received stream segments and the connection wake-up list.

  A C node with its \<open>parent\<close>, \<open>left\<close> and \<open>right\<close> pointers is a location: the subtree
  rooted at the node and the path of ancestors above it (\<open>parent\<close> is the head of the path, an empty
  path is a \<open>NULL\<close> parent).  The value of a node is what \<open>tree->node_value\<close> returns; the
  comparator \<open>comp\<close> returns a signed integer.  The lemmas express every operation by its effect on
  the in-order sequence of the tree.
\<close>

subsection \<open>Locations\<close>

datatype 'a crumb = LeftOf 'a "'a tree" | RightOf "'a tree" 'a

type_synonym 'a loc = "'a tree \<times> 'a crumb list"

text \<open>Following the \<open>parent\<close> pointer, and rebuilding the whole tree from a node.\<close>

fun up1 :: "'a tree \<Rightarrow> 'a crumb \<Rightarrow> 'a tree" where
  "up1 t (LeftOf p c) = Node t p c"
| "up1 t (RightOf a p) = Node a p t"

fun plug :: "'a tree \<Rightarrow> 'a crumb list \<Rightarrow> 'a tree" where
  "plug t [] = t"
| "plug t (c # cs) = plug (up1 t c) cs"

fun is_left :: "'a crumb \<Rightarrow> bool" where
  "is_left (LeftOf _ _) = True"
| "is_left (RightOf _ _) = False"

subsection \<open>Rotation and splaying\<close>

text \<open>
  \<open>rotate\<close> (with \<open>mark_gp\<close>): the child takes its parent's place below the grandparent, whose path
  is untouched.  The C code asserts that the parent exists; the root is returned unchanged here.
\<close>

fun rotate_node :: "'a loc \<Rightarrow> 'a loc" where
  "rotate_node (Node a x b, LeftOf p c # cs) = (Node a x (Node b p c), cs)"
| "rotate_node (Node b x c, RightOf a p # cs) = (Node (Node a p b) x c, cs)"
| "rotate_node l = l"

fun zig :: "'a loc \<Rightarrow> 'a loc" where
  "zig l = rotate_node l"

text \<open>\<open>rotate(p)\<close> while holding the child \<open>x\<close> of \<open>p\<close>: go up, rotate, come back down.\<close>

fun rotate_parent :: "'a loc \<Rightarrow> 'a loc" where
  "rotate_parent (t, c # cs) =
     (case (c, rotate_node (up1 t c, cs)) of
        (LeftOf _ _, (Node l p r, cs')) \<Rightarrow> (l, LeftOf p r # cs')
      | (RightOf _ _, (Node l p r, cs')) \<Rightarrow> (r, RightOf l p # cs')
      | (_, (Leaf, cs')) \<Rightarrow> (Leaf, cs'))"
| "rotate_parent l = l"

fun zigzig :: "'a loc \<Rightarrow> 'a loc" where
  "zigzig l = rotate_node (rotate_parent l)"

fun zigzag :: "'a loc \<Rightarrow> 'a loc" where
  "zigzag l = rotate_node (rotate_node l)"

lemma rotate_node_path: "length (snd (rotate_node l)) \<le> length (snd l)"
  by (cases l rule: rotate_node.cases) auto

lemma rotate_node_Node_path [simp]:
  "t \<noteq> Leaf \<Longrightarrow> snd (rotate_node (t, c # cs)) = cs"
  "t \<noteq> Leaf \<Longrightarrow> fst (rotate_node (t, cs)) \<noteq> Leaf"
  by (cases t; cases c; simp) (cases "(t, cs)" rule: rotate_node.cases, auto)

text \<open>The loop of \<open>splay\<close>; the result is the new root.\<close>

function splay :: "'a tree \<Rightarrow> 'a crumb list \<Rightarrow> 'a tree" where
  "splay Leaf cs = plug Leaf cs"
| "splay (Node l x r) [] = Node l x r"
| "splay (Node l x r) [p] = (case zig (Node l x r, [p]) of (t, cs) \<Rightarrow> splay t cs)"
| "splay (Node l x r) (p # g # cs) =
     (if is_left p = is_left g
      then (case zigzig (Node l x r, p # g # cs) of (t, cs') \<Rightarrow> splay t cs')
      else (case zigzag (Node l x r, p # g # cs) of (t, cs') \<Rightarrow> splay t cs'))"
  by pat_completeness auto
termination
proof (relation "measure (\<lambda>(t, cs). length cs)", goal_cases)
  case (2 l x r p a b)
  then show ?case by (cases p) auto
next
  case (3 l x r p g cs a b)
  then show ?case by (cases p; cases g) auto
next
  case (4 l x r p g cs a b)
  then show ?case by (cases p; cases g) auto
qed simp

subsection \<open>The tree operations\<close>

text \<open>
  \<open>create\<close> returns the node for a value, \<open>None\<close> when the allocation fails; \<open>size\<close> is the C
  field of type \<open>int\<close>.
\<close>

record 'a picosplay_tree =
  root :: "'a tree"
  comp :: "'a \<Rightarrow> 'a \<Rightarrow> int"
  create :: "'a \<Rightarrow> 'a option"
  tree_size :: int

definition picosplay_init_tree :: "('a \<Rightarrow> 'a \<Rightarrow> int) \<Rightarrow> ('a \<Rightarrow> 'a option) \<Rightarrow> 'a picosplay_tree" where
  "picosplay_init_tree cmp mk = \<lparr>root = Leaf, comp = cmp, create = mk, tree_size = 0\<rparr>"

definition picosplay_new_tree ::
  "bool \<Rightarrow> ('a \<Rightarrow> 'a \<Rightarrow> int) \<Rightarrow> ('a \<Rightarrow> 'a option) \<Rightarrow> 'a picosplay_tree option" where
  "picosplay_new_tree malloc_ok cmp mk =
     (if malloc_ok then Some (picosplay_init_tree cmp mk) else None)"

text \<open>The descent of \<open>picosplay_insert\<close>: the path to the \<open>NULL\<close> link where the new node goes.\<close>

fun insert_path :: "('a \<Rightarrow> 'a \<Rightarrow> int) \<Rightarrow> 'a \<Rightarrow> 'a tree \<Rightarrow> 'a crumb list \<Rightarrow> 'a crumb list" where
  "insert_path cmp v Leaf cs = cs"
| "insert_path cmp v (Node l x r) cs =
     (if cmp v x < 0 then insert_path cmp v l (LeftOf x r # cs)
      else insert_path cmp v r (RightOf l x # cs))"

definition picosplay_insert :: "'a picosplay_tree \<Rightarrow> 'a \<Rightarrow> 'a picosplay_tree \<times> 'a option" where
  "picosplay_insert t v =
     (case create t v of
        None \<Rightarrow> (t, None)
      | Some nd \<Rightarrow>
          (t\<lparr>root := splay (Node Leaf nd Leaf) (insert_path (comp t) nd (root t) []),
             tree_size := tree_size t + 1\<rparr>, Some nd))"

fun find_loc :: "('a \<Rightarrow> 'a \<Rightarrow> int) \<Rightarrow> 'a \<Rightarrow> 'a tree \<Rightarrow> 'a crumb list \<Rightarrow> 'a loc option" where
  "find_loc cmp v Leaf cs = None"
| "find_loc cmp v (Node l x r) cs =
     (let relation = cmp v x in
      if relation = 0 then Some (Node l x r, cs)
      else if relation < 0 then find_loc cmp v l (LeftOf x r # cs)
      else find_loc cmp v r (RightOf l x # cs))"

text \<open>After the splay the node found is the root, so the location returned has an empty path.\<close>

definition picosplay_find :: "'a picosplay_tree \<Rightarrow> 'a \<Rightarrow> 'a picosplay_tree \<times> 'a loc option" where
  "picosplay_find t v =
     (case find_loc (comp t) v (root t) [] of
        None \<Rightarrow> (t, None)
      | Some (nd, cs) \<Rightarrow> (t\<lparr>root := splay nd cs\<rparr>, Some (splay nd cs, [])))"

fun find_previous_loc ::
  "('a \<Rightarrow> 'a \<Rightarrow> int) \<Rightarrow> 'a \<Rightarrow> 'a tree \<Rightarrow> 'a crumb list \<Rightarrow> 'a loc option \<Rightarrow> 'a loc option" where
  "find_previous_loc cmp v Leaf cs previous = previous"
| "find_previous_loc cmp v (Node l x r) cs previous =
     (let relation = cmp v x in
      if relation = 0 then Some (Node l x r, cs)
      else if relation < 0 then find_previous_loc cmp v l (LeftOf x r # cs) previous
      else find_previous_loc cmp v r (RightOf l x # cs) (Some (Node l x r, cs)))"

definition picosplay_find_previous :: "'a picosplay_tree \<Rightarrow> 'a \<Rightarrow> 'a loc option" where
  "picosplay_find_previous t v = find_previous_loc (comp t) v (root t) [] None"

text \<open>\<open>leftmost\<close> and \<open>rightmost\<close> below a node; \<open>None\<close> for an empty subtree.\<close>

fun leftmost :: "'a tree \<Rightarrow> 'a crumb list \<Rightarrow> 'a loc option" where
  "leftmost Leaf cs = None"
| "leftmost (Node Leaf x r) cs = Some (Node Leaf x r, cs)"
| "leftmost (Node (Node ll y lr) x r) cs = leftmost (Node ll y lr) (LeftOf x r # cs)"

fun rightmost :: "'a tree \<Rightarrow> 'a crumb list \<Rightarrow> 'a loc option" where
  "rightmost Leaf cs = None"
| "rightmost (Node l x Leaf) cs = Some (Node l x Leaf, cs)"
| "rightmost (Node l x (Node rl y rr)) cs = rightmost (Node rl y rr) (RightOf l x # cs)"

text \<open>Unlinking the root, as \<open>picosplay_delete_hint\<close> does after its splay: the leftmost node
  \<open>x\<close> of the right subtree replaces it.  \<open>unlink_leftmost\<close> is the right subtree once
  \<open>x\<close> has been taken out of it.\<close>

fun unlink_leftmost :: "'a tree \<Rightarrow> 'a tree" where
  "unlink_leftmost Leaf = Leaf"
| "unlink_leftmost (Node Leaf x r) = r"
| "unlink_leftmost (Node l x r) = Node (unlink_leftmost l) x r"

fun delete_root :: "'a tree \<Rightarrow> 'a tree" where
  "delete_root Leaf = Leaf"
| "delete_root (Node Leaf _ r) = r"
| "delete_root (Node l _ Leaf) = l"
| "delete_root (Node l _ r) =
     (case leftmost r [] of
        Some (Node _ x _, _) \<Rightarrow> Node l x (unlink_leftmost r)
      | _ \<Rightarrow> l)"

definition picosplay_delete_hint :: "'a picosplay_tree \<Rightarrow> 'a loc option \<Rightarrow> 'a picosplay_tree" where
  "picosplay_delete_hint t node =
     (case node of
        None \<Rightarrow> t
      | Some (nd, cs) \<Rightarrow>
          t\<lparr>root := delete_root (splay nd cs), tree_size := tree_size t - 1\<rparr>)"

definition picosplay_delete :: "'a picosplay_tree \<Rightarrow> 'a \<Rightarrow> 'a picosplay_tree" where
  "picosplay_delete t v = (case picosplay_find t v of (t', node) \<Rightarrow> picosplay_delete_hint t' node)"

text \<open>The loop of \<open>picosplay_empty_tree\<close>: the root is its own splay, so each round unlinks it.\<close>

lemma size_unlink_leftmost: "t \<noteq> Leaf \<Longrightarrow> size (unlink_leftmost t) = size t - 1"
  by (induction t rule: unlink_leftmost.induct) auto

lemma size_delete_root: "t \<noteq> Leaf \<Longrightarrow> size (delete_root t) < size t"
  by (cases t rule: delete_root.cases)
    (auto simp: size_unlink_leftmost split: option.splits tree.splits)

function empty_root :: "'a tree \<Rightarrow> int \<Rightarrow> 'a tree \<times> int" where
  "empty_root Leaf n = (Leaf, n)"
| "empty_root (Node l x r) n = empty_root (delete_root (splay (Node l x r) [])) (n - 1)"
  by pat_completeness auto
termination
  by (relation "measure (\<lambda>(t, n). size t)") (auto simp: size_delete_root [of "Node _ _ _", simplified])

definition picosplay_empty_tree :: "'a picosplay_tree \<Rightarrow> 'a picosplay_tree" where
  "picosplay_empty_tree t =
     (case empty_root (root t) (tree_size t) of (r, n) \<Rightarrow> t\<lparr>root := r, tree_size := n\<rparr>)"

definition picosplay_first :: "'a picosplay_tree \<Rightarrow> 'a loc option" where
  "picosplay_first t = leftmost (root t) []"

definition picosplay_last :: "'a picosplay_tree \<Rightarrow> 'a loc option" where
  "picosplay_last t = rightmost (root t) []"

text \<open>The climbs of \<open>picosplay_next\<close> and \<open>picosplay_previous\<close>.\<close>

fun climb_right :: "'a tree \<Rightarrow> 'a crumb list \<Rightarrow> 'a loc option" where
  "climb_right t [] = None"
| "climb_right t (LeftOf p c # cs) = Some (Node t p c, cs)"
| "climb_right t (RightOf a p # cs) = climb_right (Node a p t) cs"

fun climb_left :: "'a tree \<Rightarrow> 'a crumb list \<Rightarrow> 'a loc option" where
  "climb_left t [] = None"
| "climb_left t (RightOf a p # cs) = Some (Node a p t, cs)"
| "climb_left t (LeftOf p c # cs) = climb_left (Node t p c) cs"

fun picosplay_next :: "'a loc \<Rightarrow> 'a loc option" where
  "picosplay_next (Leaf, cs) = None"
| "picosplay_next (Node l x r, cs) =
     (if r \<noteq> Leaf then leftmost r (RightOf l x # cs) else climb_right (Node l x r) cs)"

fun picosplay_previous :: "'a loc \<Rightarrow> 'a loc option" where
  "picosplay_previous (Leaf, cs) = None"
| "picosplay_previous (Node l x r, cs) =
     (if l \<noteq> Leaf then rightmost l (LeftOf x r # cs) else climb_left (Node l x r) cs)"

subsection \<open>The in-order sequence\<close>

fun before :: "'a crumb list \<Rightarrow> 'a list" where
  "before [] = []"
| "before (LeftOf p c # cs) = before cs"
| "before (RightOf a p # cs) = before cs @ inorder a @ [p]"

fun after :: "'a crumb list \<Rightarrow> 'a list" where
  "after [] = []"
| "after (LeftOf p c # cs) = p # inorder c @ after cs"
| "after (RightOf a p # cs) = after cs"

lemma inorder_plug: "inorder (plug t cs) = before cs @ inorder t @ after cs"
proof (induction cs arbitrary: t)
  case (Cons c cs)
  then show ?case by (cases c) auto
qed simp

lemma plug_rotate_node: "inorder (plug (fst (rotate_node l)) (snd (rotate_node l))) = inorder (plug (fst l) (snd l))"
  by (cases l rule: rotate_node.cases) (auto simp: inorder_plug)

lemma plug_rotate_parent:
  "inorder (plug (fst (rotate_parent l)) (snd (rotate_parent l))) = inorder (plug (fst l) (snd l))"
proof (cases l rule: rotate_parent.cases)
  case (1 t c cs)
  show ?thesis
  proof (cases c)
    case (LeftOf p b)
    then show ?thesis using plug_rotate_node [of "(Node t p b, cs)"] rotate_node_Node_path(2) [of "Node t p b" cs]
      by (auto simp: 1 inorder_plug split: prod.splits tree.splits)
  next
    case (RightOf a p)
    then show ?thesis using plug_rotate_node [of "(Node a p t, cs)"] rotate_node_Node_path(2) [of "Node a p t" cs]
      by (auto simp: 1 inorder_plug split: prod.splits tree.splits)
  qed
qed simp

lemma inorder_splay: "inorder (splay t cs) = before cs @ inorder t @ after cs"
proof (induction t cs rule: splay.induct)
  case (3 l x r p)
  show ?case by (cases p) auto
next
  case (4 l x r p g cs)
  then show ?case by (cases p; cases g) auto
qed (auto simp: inorder_plug)

text \<open>A node's place in the sequence: the values before it, its own, the values after it.\<close>

fun node_at :: "'a loc \<Rightarrow> 'a list \<Rightarrow> 'a \<Rightarrow> 'a list \<Rightarrow> bool" where
  "node_at (Leaf, cs) pre v suf = False"
| "node_at (Node l x r, cs) pre v suf =
     (pre = before cs @ inorder l \<and> v = x \<and> suf = inorder r @ after cs)"

lemma node_at_seq: "node_at (t, cs) pre v suf \<Longrightarrow> inorder (plug t cs) = pre @ v # suf"
  by (cases t) (auto simp: inorder_plug)

lemma node_at_splay: "node_at (t, cs) pre v suf \<Longrightarrow> inorder (splay t cs) = pre @ v # suf"
  by (cases t) (auto simp: inorder_splay)

lemma leftmost_at:
  "t \<noteq> Leaf \<Longrightarrow> \<exists>nd cs' v suf. leftmost t cs = Some (nd, cs') \<and> plug nd cs' = plug t cs \<and>
     node_at (nd, cs') (before cs) v suf \<and> inorder t @ after cs = v # suf"
  by (induction t cs rule: leftmost.induct) auto

lemma rightmost_at:
  "t \<noteq> Leaf \<Longrightarrow> \<exists>nd cs' pre v. rightmost t cs = Some (nd, cs') \<and> plug nd cs' = plug t cs \<and>
     node_at (nd, cs') pre v (after cs) \<and> before cs @ inorder t = pre @ [v]"
  by (induction t cs rule: rightmost.induct) auto

lemma climb_right_at:
  "case climb_right t cs of
     None \<Rightarrow> after cs = []
   | Some (nd, cs') \<Rightarrow> plug nd cs' = plug t cs \<and>
       (\<exists>v suf. node_at (nd, cs') (before cs @ inorder t) v suf \<and> after cs = v # suf)"
  by (induction t cs rule: climb_right.induct) (auto split: option.splits)

lemma climb_left_at:
  "case climb_left t cs of
     None \<Rightarrow> before cs = []
   | Some (nd, cs') \<Rightarrow> plug nd cs' = plug t cs \<and>
       (\<exists>v pre. node_at (nd, cs') pre v (inorder t @ after cs) \<and> before cs = pre @ [v])"
  by (induction t cs rule: climb_left.induct) (auto split: option.splits)

lemma next_at:
  assumes "node_at (t, cs) pre x suf"
  shows "case picosplay_next (t, cs) of
     None \<Rightarrow> suf = []
   | Some (nd, cs') \<Rightarrow> plug nd cs' = plug t cs \<and>
       (\<exists>v suf'. node_at (nd, cs') (pre @ [x]) v suf' \<and> suf = v # suf')"
proof (cases t)
  case Leaf
  with assms show ?thesis by simp
next
  case (Node l y r)
  show ?thesis
  proof (cases "r = Leaf")
    case True
    then show ?thesis
      using assms climb_right_at [where t = "Node l y r" and cs = cs] by (auto simp: Node split: option.splits)
  next
    case False
    then show ?thesis
      using assms leftmost_at [of r "RightOf l y # cs"] by (auto simp: Node)
  qed
qed

lemma previous_at:
  assumes "node_at (t, cs) pre x suf"
  shows "case picosplay_previous (t, cs) of
     None \<Rightarrow> pre = []
   | Some (nd, cs') \<Rightarrow> plug nd cs' = plug t cs \<and>
       (\<exists>v pre'. node_at (nd, cs') pre' v (x # suf) \<and> pre = pre' @ [v])"
proof (cases t)
  case Leaf
  with assms show ?thesis by simp
next
  case (Node l y r)
  show ?thesis
  proof (cases "l = Leaf")
    case True
    then show ?thesis
      using assms climb_left_at [where t = "Node l y r" and cs = cs] by (auto simp: Node split: option.splits)
  next
    case False
    then show ?thesis
      using assms rightmost_at [of l "LeftOf y r # cs"] by (auto simp: Node)
  qed
qed

lemma inorder_unlink_leftmost:
  "t \<noteq> Leaf \<Longrightarrow> \<exists>nd cs v. leftmost t [] = Some (nd, cs) \<and> (\<exists>l r. nd = Node l v r) \<and>
     inorder t = v # inorder (unlink_leftmost t)"
proof -
  have "t \<noteq> Leaf \<Longrightarrow> \<exists>nd cs' v. leftmost t cs = Some (nd, cs') \<and> (\<exists>l r. nd = Node l v r) \<and>
     inorder t = v # inorder (unlink_leftmost t)" for cs
    by (induction t cs rule: leftmost.induct) auto
  then show "t \<noteq> Leaf \<Longrightarrow> ?thesis" by blast
qed

lemma inorder_delete_root: "inorder (delete_root (Node l x r)) = inorder l @ inorder r"
proof (cases "l = Leaf \<or> r = Leaf")
  case True
  then show ?thesis by (cases l; cases r) auto
next
  case False
  then obtain nd cs v l' r' where "leftmost r [] = Some (nd, cs)" "nd = Node l' v r'"
    "inorder r = v # inorder (unlink_leftmost r)"
    using inorder_unlink_leftmost [of r] by blast
  with False show ?thesis by (cases l; cases r) (auto simp del: leftmost.simps unlink_leftmost.simps)
qed

text \<open>Splaying a node brings that very node to the root.\<close>

lemma rotate_node_at: "node_at l pre v suf \<Longrightarrow> node_at (rotate_node l) pre v suf"
  by (cases l rule: rotate_node.cases) auto

lemma splay_at: "node_at (t, cs) pre v suf \<Longrightarrow> node_at (splay t cs, []) pre v suf"
proof (induction t cs rule: splay.induct)
  case (3 l x r p)
  then show ?case by (cases p) auto
next
  case (4 l x r p g cs)
  then show ?case by (cases p; cases g) auto
qed auto

text \<open>Deleting a node removes exactly that node from the sequence.\<close>

lemma delete_at:
  assumes "node_at (nd, cs) pre v suf"
  shows "inorder (delete_root (splay nd cs)) = pre @ suf"
  using splay_at [OF assms] by (cases "splay nd cs") (auto simp: inorder_delete_root)

lemma empty_root_Leaf: "empty_root t n = (Leaf, n - int (size t))"
proof (induction t n rule: empty_root.induct)
  case (2 l x r n)
  have "length (inorder (delete_root (Node l x r))) = size l + size r"
    by (simp add: inorder_delete_root)
  with 2 show ?case by (simp del: delete_root.simps)
qed simp

subsection \<open>Ordered trees\<close>

text \<open>
  The contract between the tree and the comparator its client supplies: on the values the client
  stores, the sign of \<open>cmp\<close> is the order of an integer key.
\<close>

locale splay_order =
  fixes cmp :: "'a \<Rightarrow> 'a \<Rightarrow> int" and key :: "'a \<Rightarrow> int" and stored :: "'a \<Rightarrow> bool"
  assumes cmp_neg: "stored a \<Longrightarrow> stored b \<Longrightarrow> cmp a b < 0 \<longleftrightarrow> key a < key b"
    and cmp_zero: "stored a \<Longrightarrow> stored b \<Longrightarrow> cmp a b = 0 \<longleftrightarrow> key a = key b"
begin

lemma split_at_node:
  assumes "sorted (map key (l @ x # r))"
  shows "k < key x \<Longrightarrow> takeWhile (\<lambda>y. key y \<le> k) (l @ x # r) = takeWhile (\<lambda>y. key y \<le> k) l"
    and "k < key x \<Longrightarrow> dropWhile (\<lambda>y. key y \<le> k) (l @ x # r) = dropWhile (\<lambda>y. key y \<le> k) l @ x # r"
    and "key x \<le> k \<Longrightarrow> takeWhile (\<lambda>y. key y \<le> k) (l @ x # r) = l @ x # takeWhile (\<lambda>y. key y \<le> k) r"
    and "key x \<le> k \<Longrightarrow> dropWhile (\<lambda>y. key y \<le> k) (l @ x # r) = dropWhile (\<lambda>y. key y \<le> k) r"
  using assms
  by (induction l) (auto simp: dropWhile_append takeWhile_append)

lemma insert_path_at:
  assumes "sorted (map key (inorder t))" and "stored v" and "\<forall>x\<in>set (inorder t). stored x"
  shows "before (insert_path cmp v t cs) = before cs @ takeWhile (\<lambda>x. key x \<le> key v) (inorder t) \<and>
    after (insert_path cmp v t cs) = dropWhile (\<lambda>x. key x \<le> key v) (inorder t) @ after cs"
  using assms
proof (induction t arbitrary: cs)
  case (Node l x r)
  have sorted: "sorted (map key (inorder l @ x # inorder r))" using Node.prems(1) by simp
  then have sub: "sorted (map key (inorder l))" "sorted (map key (inorder r))"
    by (simp_all add: sorted_append)
  show ?case
  proof (cases "key v < key x")
    case True
    then show ?thesis
      using Node.IH(1) [OF sub(1)] Node.prems split_at_node(1,2) [OF sorted True] by (simp add: cmp_neg)
  next
    case False
    then show ?thesis
      using Node.IH(2) [OF sub(2)] Node.prems split_at_node(3,4) [OF sorted] by (simp add: cmp_neg)
  qed
qed simp

lemma splay_insert_inorder:
  assumes "sorted (map key (inorder t))" and "stored v" and "\<forall>x\<in>set (inorder t). stored x"
  shows "inorder (splay (Node Leaf v Leaf) (insert_path cmp v t [])) =
    takeWhile (\<lambda>x. key x \<le> key v) (inorder t) @ v # dropWhile (\<lambda>x. key x \<le> key v) (inorder t)"
  using insert_path_at [OF assms, of "[]"] by (simp add: inorder_splay)

text \<open>
  \<open>find_previous_loc\<close> starts with a candidate \<open>previous\<close> that lies directly before the current
  subtree, or none when nothing lies before it.
\<close>

lemma find_previous_loc_at:
  assumes "sorted_wrt (<) (map key (before cs @ inorder t @ after cs))"
    and "stored v" and "\<forall>x\<in>set (inorder t). stored x"
    and "\<forall>y\<in>set (after cs). key v < key y"
    and "case previous of None \<Rightarrow> before cs = []
      | Some (nd, cs') \<Rightarrow> plug nd cs' = plug t cs \<and>
          (\<exists>pre u. node_at (nd, cs') pre u (inorder t @ after cs) \<and> before cs = pre @ [u] \<and> key u \<le> key v)"
  shows "case find_previous_loc cmp v t cs previous of
      None \<Rightarrow> \<forall>y\<in>set (inorder (plug t cs)). key v < key y
    | Some (nd, cs') \<Rightarrow> plug nd cs' = plug t cs \<and>
        (\<exists>pre u suf. node_at (nd, cs') pre u suf \<and> key u \<le> key v \<and> (\<forall>y\<in>set suf. key v < key y))"
  using assms
proof (induction t arbitrary: cs previous)
  case Leaf
  then show ?case by (cases previous) (auto simp: inorder_plug)
next
  case (Node l x r)
  have sorted: "sorted_wrt (<) (map key (before cs @ (inorder l @ x # inorder r) @ after cs))"
    using Node.prems(1) by simp
  then have rx: "\<forall>y\<in>set (inorder r @ after cs). key x < key y"
    by (auto simp: sorted_wrt_append)
  have rel: "cmp v x < 0 \<longleftrightarrow> key v < key x" "cmp v x = 0 \<longleftrightarrow> key v = key x"
    using Node.prems by (auto simp: cmp_neg cmp_zero)
  consider "key v = key x" | "key v < key x" | "key x < key v" by linarith
  then show ?case
  proof cases
    case 1
    then have "\<forall>y\<in>set (inorder r @ after cs). key v < key y"
      using rx by simp
    then show ?thesis using 1 by (auto simp: rel)
  next
    case 2
    then have "\<forall>y\<in>set (after (LeftOf x r # cs)). key v < key y"
      using rx by (auto intro: less_trans)
    with 2 Node.IH(1) [of "LeftOf x r # cs" previous] Node.prems show ?thesis
      by (cases previous) (auto simp: rel cong: option.case_cong)
  next
    case 3
    with Node.IH(2) [of "RightOf l x # cs" "Some (Node l x r, cs)"] Node.prems show ?thesis
      by (auto simp: rel split: option.splits)
  qed
qed

lemma find_loc_at:
  assumes "sorted_wrt (<) (map key (inorder t))" and "stored v" and "\<forall>x\<in>set (inorder t). stored x"
  shows "case find_loc cmp v t cs of
      None \<Rightarrow> \<forall>y\<in>set (inorder t). key y \<noteq> key v
    | Some (nd, cs') \<Rightarrow> plug nd cs' = plug t cs \<and> (\<exists>pre u suf. node_at (nd, cs') pre u suf \<and> key u = key v)"
  using assms
proof (induction t arbitrary: cs)
  case (Node l x r)
  have rel: "cmp v x < 0 \<longleftrightarrow> key v < key x" "cmp v x = 0 \<longleftrightarrow> key v = key x"
    using Node.prems by (auto simp: cmp_neg cmp_zero)
  have sub: "sorted_wrt (<) (map key (inorder l))" "sorted_wrt (<) (map key (inorder r))"
    and lx: "\<forall>y\<in>set (inorder l). key y < key x" and rx: "\<forall>y\<in>set (inorder r). key x < key y"
    using Node.prems(1) by (auto simp: sorted_wrt_append)
  consider "key v = key x" | "key v < key x" | "key x < key v" by linarith
  then show ?case
  proof cases
    case 1
    then show ?thesis by (simp add: rel del: node_at.simps) (metis node_at.simps(2))
  next
    case 2
    then show ?thesis
      using Node.IH(1) [OF sub(1), of "LeftOf x r # cs"] Node.prems(2,3) rx
      by (fastforce simp: rel split: option.splits)
  next
    case 3
    then show ?thesis
      using Node.IH(2) [OF sub(2), of "RightOf l x # cs"] Node.prems(2,3) lx
      by (fastforce simp: rel split: option.splits)
  qed
qed simp

end

subsection \<open>Trees as sequences of nodes\<close>

text \<open>
  What the clients of the tree rely on: nodes are positions of a sequence; \<open>first\<close>, \<open>last\<close>,
  \<open>next\<close> and \<open>previous\<close> move between positions, and deleting a node removes its position.
\<close>

locale node_sequence =
  fixes seq :: "'t \<Rightarrow> 'a list" and pos :: "'t \<Rightarrow> 'n \<Rightarrow> nat \<Rightarrow> bool"
    and first :: "'t \<Rightarrow> 'n option" and final :: "'t \<Rightarrow> 'n option"
    and nxt :: "'t \<Rightarrow> 'n \<Rightarrow> 'n option" and prv :: "'t \<Rightarrow> 'n \<Rightarrow> 'n option"
    and del :: "'t \<Rightarrow> 'n \<Rightarrow> 't"
  assumes pos_bound: "pos t n i \<Longrightarrow> i < length (seq t)"
    and first_pos: "case first t of None \<Rightarrow> seq t = [] | Some n \<Rightarrow> pos t n 0"
    and final_pos: "case final t of None \<Rightarrow> seq t = [] | Some n \<Rightarrow> pos t n (length (seq t) - 1)"
    and nxt_pos: "pos t n i \<Longrightarrow>
      (case nxt t n of None \<Rightarrow> Suc i = length (seq t) | Some m \<Rightarrow> pos t m (Suc i))"
    and prv_pos: "pos t n i \<Longrightarrow> (case prv t n of None \<Rightarrow> i = 0 | Some m \<Rightarrow> 0 < i \<and> pos t m (i - 1))"
    and del_seq: "pos t n i \<Longrightarrow> seq (del t n) = take i (seq t) @ drop (Suc i) (seq t)"
begin

lemma first_None_iff: "first t = None \<longleftrightarrow> seq t = []"
  using first_pos [of t] pos_bound [of t _ 0] by (auto split: option.splits)

lemma nxt_Some: "pos t n i \<Longrightarrow> Suc i < length (seq t) \<Longrightarrow> \<exists>m. nxt t n = Some m \<and> pos t m (Suc i)"
  using nxt_pos [of t n i] by (auto split: option.splits)

text \<open>Starting at \<open>first\<close> and following \<open>next\<close> visits every position in order.\<close>

lemma walk:
  assumes "k < length (seq t)"
  shows "\<exists>ns. length ns = Suc k \<and> first t = Some (ns ! 0) \<and> (\<forall>i\<le>k. pos t (ns ! i) i) \<and>
    (\<forall>i<k. nxt t (ns ! i) = Some (ns ! Suc i))"
  using assms
proof (induction k)
  case 0
  then obtain n where "first t = Some n" "pos t n 0"
    using first_pos [of t] by (cases "first t") auto
  then show ?case by (intro exI [of _ "[n]"]) simp
next
  case (Suc k)
  then obtain ns where ns: "length ns = Suc k" "first t = Some (ns ! 0)" "\<forall>i\<le>k. pos t (ns ! i) i"
    "\<forall>i<k. nxt t (ns ! i) = Some (ns ! Suc i)" by auto
  obtain m where "nxt t (ns ! k) = Some m" "pos t m (Suc k)"
    using nxt_Some [of t "ns ! k" k] ns(3) Suc.prems by auto
  then show ?case
    using ns by (intro exI [of _ "ns @ [m]"]) (auto simp: nth_append le_Suc_eq less_Suc_eq)
qed

lemma del_length: "pos t n i \<Longrightarrow> length (seq (del t n)) = length (seq t) - 1"
  using del_seq pos_bound by fastforce

end

fun tree_pos :: "'a picosplay_tree \<Rightarrow> 'a loc \<Rightarrow> nat \<Rightarrow> bool" where
  "tree_pos t (nd, cs) i \<longleftrightarrow> plug nd cs = root t \<and>
     (\<exists>pre v suf. node_at (nd, cs) pre v suf \<and> length pre = i)"

lemma tree_posD:
  assumes "tree_pos t (nd, cs) i"
  obtains pre v suf where "node_at (nd, cs) pre v suf" "length pre = i" "inorder (root t) = pre @ v # suf"
  using assms node_at_seq by fastforce

interpretation splay: node_sequence "\<lambda>t :: 'a picosplay_tree. inorder (root t)" tree_pos
  picosplay_first picosplay_last "\<lambda>_. picosplay_next" "\<lambda>_. picosplay_previous"
  "\<lambda>t n. picosplay_delete_hint t (Some n)"
proof unfold_locales
  fix t :: "'a picosplay_tree" and n :: "'a loc" and i
  obtain nd cs where n: "n = (nd, cs)" by (cases n)
  assume pos: "tree_pos t n i"
  then obtain pre v suf where at: "node_at (nd, cs) pre v suf" and i: "length pre = i"
    and seq: "inorder (root t) = pre @ v # suf" unfolding n by (rule tree_posD)
  have root: "plug nd cs = root t" using pos n by simp
  show "i < length (inorder (root t))" using i seq by simp
  show "case picosplay_next n of None \<Rightarrow> Suc i = length (inorder (root t)) | Some m \<Rightarrow> tree_pos t m (Suc i)"
    using next_at [OF at] i seq root by (fastforce simp: n split: option.splits)
  show "case picosplay_previous n of None \<Rightarrow> i = 0 | Some m \<Rightarrow> 0 < i \<and> tree_pos t m (i - 1)"
    using previous_at [OF at] i seq root by (fastforce simp: n split: option.splits)
  show "inorder (root (picosplay_delete_hint t (Some n))) =
      take i (inorder (root t)) @ drop (Suc i) (inorder (root t))"
    using delete_at [OF at] i seq by (auto simp: picosplay_delete_hint_def n)
next
  fix t :: "'a picosplay_tree"
  show "case picosplay_first t of None \<Rightarrow> inorder (root t) = [] | Some n \<Rightarrow> tree_pos t n 0"
    using leftmost_at [of "root t" "[]"] by (cases "root t = Leaf") (fastforce simp: picosplay_first_def)+
  show "case picosplay_last t of None \<Rightarrow> inorder (root t) = []
      | Some n \<Rightarrow> tree_pos t n (length (inorder (root t)) - 1)"
    using rightmost_at [of "root t" "[]"]
    by (cases "root t = Leaf") (fastforce simp: picosplay_last_def simp del: length_inorder)+
qed

subsection \<open>Properties\<close>

text \<open>
  Starting at \<open>picosplay_first\<close> and following \<open>picosplay_next\<close> visits the nodes of any tree in order,
  one for each position of the in-order sequence.
\<close>

theorem splay_walk_in_order:
  assumes "k < length (inorder (root t))"
  shows "\<exists>ns. length ns = Suc k \<and> picosplay_first t = Some (ns ! 0) \<and> (\<forall>i\<le>k. tree_pos t (ns ! i) i) \<and>
    (\<forall>i<k. picosplay_next (ns ! i) = Some (ns ! Suc i))"
  using assms by (rule splay.walk)

definition demo_tree :: "int picosplay_tree" where
  "demo_tree = fst (picosplay_insert (fst (picosplay_insert (picosplay_init_tree (-) Some) 5)) 3)"

lemma demo_tree_root: "root demo_tree = Node Leaf 3 (Node Leaf 5 Leaf)" "comp demo_tree = (-)" "create demo_tree = Some"
  by (simp_all add: demo_tree_def picosplay_insert_def picosplay_init_tree_def)

theorem splay_walk_in_order_witness:
  "\<exists>ns. length ns = 2 \<and> picosplay_first demo_tree = Some (ns ! 0) \<and> picosplay_next (ns ! 0) = Some (ns ! 1)"
  using splay_walk_in_order [of 1 demo_tree] by (simp add: demo_tree_root numeral_2_eq_2) blast

text \<open>A tree whose nodes are strictly ordered by the key of its comparator.\<close>

definition search_tree :: "('a \<Rightarrow> 'a \<Rightarrow> int) \<Rightarrow> ('a \<Rightarrow> int) \<Rightarrow> ('a \<Rightarrow> bool) \<Rightarrow> 'a picosplay_tree \<Rightarrow> bool" where
  "search_tree cmp key stored t \<longleftrightarrow> comp t = cmp \<and> create t = Some \<and>
     sorted_wrt (<) (map key (inorder (root t))) \<and> (\<forall>x\<in>set (inorder (root t)). stored x) \<and>
     tree_size t = int (length (inorder (root t)))"

lemma search_tree_find_iff:
  assumes "splay_order cmp key stored" and "search_tree cmp key stored t" and "stored w"
  shows "(\<exists>n. snd (picosplay_find t w) = Some n) \<longleftrightarrow> key w \<in> key ` set (inorder (root t))"
proof (cases "find_loc cmp w (root t) []")
  case None
  then show ?thesis
    using splay_order.find_loc_at [OF assms(1), of "root t" w "[]"] assms(2,3)
    by (auto simp: search_tree_def picosplay_find_def)
next
  case (Some n)
  then obtain nd cs pre u suf where "n = (nd, cs)" "plug nd cs = root t" "node_at (nd, cs) pre u suf" "key u = key w"
    using splay_order.find_loc_at [OF assms(1), of "root t" w "[]"] assms(2,3) by (auto simp: search_tree_def)
  moreover have "u \<in> set (inorder (root t))" using node_at_seq [OF calculation(3)] calculation(2) by simp
  ultimately show ?thesis
    using Some assms(2) by (simp add: search_tree_def picosplay_find_def) (metis imageI)
qed

lemma search_tree_insert:
  assumes "splay_order cmp key stored" and "search_tree cmp key stored t" and "stored v"
    and "key v \<notin> key ` set (inorder (root t))"
  shows "search_tree cmp key stored (fst (picosplay_insert t v)) \<and>
    set (inorder (root (fst (picosplay_insert t v)))) = insert v (set (inorder (root t)))"
proof -
  let ?xs = "inorder (root t)" and ?P = "\<lambda>x. key x \<le> key v"
  have t: "comp t = cmp" "create t = Some" "\<forall>x\<in>set ?xs. stored x" "tree_size t = int (length ?xs)"
    and sorted: "sorted_wrt (<) (map key ?xs)" using assms(2) by (simp_all add: search_tree_def)
  have "sorted (map key ?xs)" using sorted by (rule strict_sorted_imp_sorted)
  from splay_order.splay_insert_inorder [OF assms(1) this assms(3) t(3)]
  have seq: "inorder (root (fst (picosplay_insert t v))) = takeWhile ?P ?xs @ v # dropWhile ?P ?xs"
    by (simp add: picosplay_insert_def t)
  have join: "takeWhile ?P ?xs @ dropWhile ?P ?xs = ?xs" by simp
  then have whole: "sorted_wrt (<) (map key (takeWhile ?P ?xs @ dropWhile ?P ?xs))" using sorted by simp
  have low: "\<forall>x\<in>set (takeWhile ?P ?xs). key x < key v"
  proof
    fix x
    assume "x \<in> set (takeWhile ?P ?xs)"
    from set_takeWhileD [OF this] show "key x < key v" using assms(4) by (metis imageI order_le_less)
  qed
  have high: "\<forall>x\<in>set (dropWhile ?P ?xs). key v < key x"
  proof (cases "dropWhile ?P ?xs")
    case (Cons y ys)
    then have "\<not> ?P y" by (metis dropWhile_eq_Cons_conv)
    then show ?thesis using whole Cons by (auto simp: sorted_wrt_append)
  next
    case Nil
    then show ?thesis by (simp only: list.set ball_empty)
  qed
  have "sorted_wrt (<) (map key (takeWhile ?P ?xs @ v # dropWhile ?P ?xs))"
    using whole low high
    by (auto simp: sorted_wrt_append simp del: takeWhile_dropWhile_id intro: less_trans)
  moreover have "set (takeWhile ?P ?xs) \<union> set (dropWhile ?P ?xs) = set ?xs"
    by (metis join set_append)
  moreover have "length (takeWhile ?P ?xs) + length (dropWhile ?P ?xs) = length ?xs"
    by (metis join length_append)
  ultimately show ?thesis
    using t assms(3) seq by (auto simp: search_tree_def picosplay_insert_def)
qed

text \<open>
  With a comparator that orders its values by a key, inserting a value whose key is new keeps the
  tree a search tree with one more node, and a search then succeeds exactly for the keys that were there
  and the new one.
\<close>

theorem splay_insert_then_find:
  assumes "splay_order cmp key stored" and "search_tree cmp key stored t" and "stored v"
    and "key v \<notin> key ` set (inorder (root t))"
  shows "search_tree cmp key stored (fst (picosplay_insert t v)) \<and>
    tree_size (fst (picosplay_insert t v)) = tree_size t + 1 \<and>
    (\<forall>w. stored w \<longrightarrow> (\<exists>n. snd (picosplay_find (fst (picosplay_insert t v)) w) = Some n) =
       (key w = key v \<or> (\<exists>n. snd (picosplay_find t w) = Some n)))"
proof -
  note ins = search_tree_insert [OF assms]
  have "tree_size (fst (picosplay_insert t v)) = tree_size t + 1"
    using assms(2) by (simp add: search_tree_def picosplay_insert_def)
  with ins show ?thesis
    using search_tree_find_iff [OF assms(1)] assms(2) by simp
qed

lemma int_order: "splay_order (-) (\<lambda>x :: int. x) (\<lambda>_. True)"
  by unfold_locales auto

lemma demo_search_tree: "search_tree (-) (\<lambda>x :: int. x) (\<lambda>_. True) demo_tree"
  by (simp add: search_tree_def demo_tree_root) (simp add: demo_tree_def picosplay_insert_def picosplay_init_tree_def)

theorem splay_insert_then_find_witness:
  "(\<exists>n. snd (picosplay_find (fst (picosplay_insert demo_tree 4)) 4) = Some n) \<and>
   tree_size (fst (picosplay_insert demo_tree 4)) = tree_size demo_tree + 1"
  using splay_insert_then_find [OF int_order demo_search_tree, of 4] by (simp add: demo_tree_root)

text \<open>
  Deleting by value removes exactly the node with that key: afterwards the search for it fails, every
  other search answers as before, and the tree is still a search tree of one node less.
\<close>

theorem splay_delete_then_find:
  assumes "splay_order cmp key stored" and "search_tree cmp key stored t" and "stored v"
    and "\<exists>n. snd (picosplay_find t v) = Some n"
  shows "search_tree cmp key stored (picosplay_delete t v) \<and> tree_size (picosplay_delete t v) = tree_size t - 1 \<and>
    (\<forall>w. stored w \<longrightarrow> (\<exists>n. snd (picosplay_find (picosplay_delete t v) w) = Some n) =
       (key w \<noteq> key v \<and> (\<exists>n. snd (picosplay_find t w) = Some n)))"
proof -
  obtain nd cs pre u suf where n: "find_loc cmp v (root t) [] = Some (nd, cs)"
    "plug nd cs = root t" "node_at (nd, cs) pre u suf" "key u = key v"
    using splay_order.find_loc_at [OF assms(1), of "root t" v "[]"] assms(2-4)
    by (auto simp: search_tree_def picosplay_find_def split: option.splits)
  have seq: "inorder (root t) = pre @ u # suf" using node_at_seq [OF n(3)] n(2) by simp
  have "node_at (splay nd cs, []) pre u suf" using n(3) by (rule splay_at)
  then have "inorder (delete_root (splay (splay nd cs) [])) = pre @ suf" by (rule delete_at)
  then have del: "inorder (root (picosplay_delete t v)) = pre @ suf"
    using n(1) assms(2) by (simp add: picosplay_delete_def picosplay_find_def picosplay_delete_hint_def search_tree_def)
  have "search_tree cmp key stored (picosplay_delete t v)" and sz: "tree_size (picosplay_delete t v) = tree_size t - 1"
    using assms(2) n(1) seq del
    by (auto simp: search_tree_def sorted_wrt_append simp del: length_inorder)
      (auto simp: picosplay_delete_def picosplay_find_def picosplay_delete_hint_def simp del: length_inorder)
  moreover have "key w \<in> key ` set (pre @ suf) \<longleftrightarrow> key w \<noteq> key v \<and> key w \<in> key ` set (pre @ u # suf)" for w
    using assms(2) n(4) seq by (auto simp: search_tree_def sorted_wrt_append)
  ultimately show ?thesis
    using search_tree_find_iff [OF assms(1)] assms(2) unfolding del seq [symmetric] by (metis del seq)
qed

theorem splay_delete_then_find_witness:
  "\<not> (\<exists>n. snd (picosplay_find (picosplay_delete demo_tree 5) 5) = Some n) \<and>
   (\<exists>n. snd (picosplay_find (picosplay_delete demo_tree 5) 3) = Some n)"
proof -
  have "\<exists>n. snd (picosplay_find demo_tree w) = Some n" if "w = 3 \<or> w = 5" for w
    using that search_tree_find_iff [OF int_order demo_search_tree, of w] by (auto simp: demo_tree_root)
  then show ?thesis using splay_delete_then_find [OF int_order demo_search_tree, of 5] by simp
qed

end
