(* ===== verification/Sacks.thy ===== *)
theory Sacks
  imports Picosplay
begin

text \<open>
  The SACK lists of \<^verbatim>\<open>picoquic/sacks.c\<close>: the ranges of packet numbers (or stream offsets)
  received so far, from which ACK frames are built and duplicates are detected.

  The splay tree \<open>ack_tree\<close> is represented by its in-order sequence \<open>ack_items\<close>; a node pointer is
  the position of the item in that sequence.  The last section proves that the splay tree operations
  act on the in-order sequence exactly as the list operations used here.  The arrays
  \<open>nb_times_sent[2]\<close> and \<open>rc[2].range_counts[]\<close> are functions of their index.  They are \<open>int\<close>s in the code and integers here,
  which is the same until a range has been sent \<open>2 ^ 31\<close> times unchanged.
\<close>

definition PICOQUIC_MAX_ACK_RANGE_REPEAT :: nat where
  "PICOQUIC_MAX_ACK_RANGE_REPEAT = 4"

record sack_item =
  start_of_sack_range :: u64
  end_of_sack_range :: u64
  time_created :: u64
  nb_times_sent :: "nat \<Rightarrow> nat"

record sack_list =
  ack_items :: "sack_item list"
  ack_horizon :: u64
  horizon_delay :: int
  range_counts :: "nat \<Rightarrow> nat \<Rightarrow> int"

subsection \<open>Navigation\<close>

definition picoquic_sack_first_item :: "sack_list \<Rightarrow> nat option" where
  "picoquic_sack_first_item sl = (if ack_items sl = [] then None else Some 0)"

definition picoquic_sack_last_item :: "sack_list \<Rightarrow> nat option" where
  "picoquic_sack_last_item sl = (if ack_items sl = [] then None else Some (length (ack_items sl) - 1))"

definition picoquic_sack_next_item :: "sack_list \<Rightarrow> nat \<Rightarrow> nat option" where
  "picoquic_sack_next_item sl i = (if Suc i < length (ack_items sl) then Some (Suc i) else None)"

definition picoquic_sack_previous_item :: "sack_list \<Rightarrow> nat \<Rightarrow> nat option" where
  "picoquic_sack_previous_item sl i = (if 0 < i then Some (i - 1) else None)"

text \<open>\<open>picosplay_find_previous\<close> with the SACK comparator: the last item that does not start
  after \<open>pn64\<close>.\<close>

definition picoquic_sack_find_range_below_number :: "sack_list \<Rightarrow> u64 \<Rightarrow> nat option" where
  "picoquic_sack_find_range_below_number sl pn64 =
     (case length (takeWhile (\<lambda>it. start_of_sack_range it \<le> pn64) (ack_items sl)) of
        0 \<Rightarrow> None
      | Suc n \<Rightarrow> Some n)"

subsection \<open>Items and the accounting of how often they were sent\<close>

text \<open>The loop \<open>for (r = 0; r < 2; r++)\<close> that takes an item out of the counts.\<close>

definition discount :: "(nat \<Rightarrow> nat) \<Rightarrow> (nat \<Rightarrow> nat \<Rightarrow> int) \<Rightarrow> nat \<Rightarrow> (nat \<Rightarrow> nat \<Rightarrow> int)" where
  "discount sent rc r =
     (if sent r < PICOQUIC_MAX_ACK_RANGE_REPEAT
      then rc(r := (rc r)(sent r := rc r (sent r) - 1)) else rc)"

definition picoquic_sack_insert_item ::
  "bool \<Rightarrow> sack_list \<Rightarrow> u64 \<Rightarrow> u64 \<Rightarrow> u64 \<Rightarrow> sack_list \<times> int" where
  "picoquic_sack_insert_item malloc_ok sl range_min range_max current_time =
     (if \<not> malloc_ok then (sl, -1)
      else
        let sack_new = \<lparr>start_of_sack_range = range_min, end_of_sack_range = range_max,
              time_created = current_time, nb_times_sent = (\<lambda>_. 0)\<rparr>;
            rc = range_counts sl;
            rc = rc(0 := (rc 0)(0 := rc 0 0 + 1));
            rc = rc(1 := (rc 1)(0 := rc 1 0 + 1))
        in (sl\<lparr>range_counts := rc,
               ack_items := takeWhile (\<lambda>it. start_of_sack_range it \<le> range_min) (ack_items sl) @
                 sack_new # dropWhile (\<lambda>it. start_of_sack_range it \<le> range_min) (ack_items sl)\<rparr>, 0))"

definition picoquic_sack_delete_item :: "sack_list \<Rightarrow> nat \<Rightarrow> sack_list" where
  "picoquic_sack_delete_item sl i =
     (let sent = nb_times_sent (ack_items sl ! i);
          rc = discount sent (range_counts sl) 0;
          rc = discount sent rc 1
      in sl\<lparr>range_counts := rc,
            ack_items := take i (ack_items sl) @ drop (Suc i) (ack_items sl)\<rparr>)"

definition picoquic_sack_list_is_empty :: "sack_list \<Rightarrow> bool" where
  "picoquic_sack_list_is_empty sl \<longleftrightarrow> length (ack_items sl) = 0"

definition picoquic_sack_item_record_sent :: "sack_list \<Rightarrow> nat \<Rightarrow> nat \<Rightarrow> sack_list" where
  "picoquic_sack_item_record_sent sl i r =
     (let it = ack_items sl ! i;
          rc = discount (nb_times_sent it) (range_counts sl) r;
          n = nb_times_sent it r + 1;
          it = it\<lparr>nb_times_sent := (nb_times_sent it)(r := n)\<rparr>;
          rc = (if n < PICOQUIC_MAX_ACK_RANGE_REPEAT
                then rc(r := (rc r)(n := rc r n + 1)) else rc)
      in sl\<lparr>range_counts := rc, ack_items := (ack_items sl)[i := it]\<rparr>)"

definition reset_round :: "(nat \<Rightarrow> nat) \<Rightarrow> (nat \<Rightarrow> nat \<Rightarrow> int) \<Rightarrow> nat \<Rightarrow> (nat \<Rightarrow> nat \<Rightarrow> int)" where
  "reset_round sent rc r =
     (let rc = discount sent rc r in rc(r := (rc r)(0 := rc r 0 + 1)))"

definition picoquic_sack_item_record_reset :: "sack_list \<Rightarrow> nat \<Rightarrow> sack_list" where
  "picoquic_sack_item_record_reset sl i =
     (let it = ack_items sl ! i;
          rc = reset_round (nb_times_sent it) (range_counts sl) 0;
          rc = reset_round (nb_times_sent it) rc 1
      in sl\<lparr>range_counts := rc,
            ack_items := (ack_items sl)[i := it\<lparr>nb_times_sent := (nb_times_sent it)(0 := 0, 1 := 0)\<rparr>]\<rparr>)"

text \<open>Assignments through an item pointer.\<close>

definition set_item :: "sack_list \<Rightarrow> nat \<Rightarrow> (sack_item \<Rightarrow> sack_item) \<Rightarrow> sack_list" where
  "set_item sl i f = sl\<lparr>ack_items := (ack_items sl)[i := f (ack_items sl ! i)]\<rparr>"

subsection \<open>The acknowledgement horizon\<close>

lemma length_delete_item:
  "i < length (ack_items sl) \<Longrightarrow>
   length (ack_items (picoquic_sack_delete_item sl i)) = length (ack_items sl) - 1"
  by (simp add: picoquic_sack_delete_item_def Let_def)

text \<open>The loop always looks at the first item: when its successor is \<open>NULL\<close> the item is kept and
  the loop ends.\<close>

function picoquic_update_ack_horizon :: "sack_list \<Rightarrow> u64 \<Rightarrow> sack_list" where
  "picoquic_update_ack_horizon sl current_time =
     (case picoquic_sack_first_item sl of
        None \<Rightarrow> sl
      | Some first \<Rightarrow>
          let it = ack_items sl ! first in
          if PICOQUIC_MAX_ACK_RANGE_REPEAT \<le> nb_times_sent it 0 then
            if sint (current_time - time_created it) > horizon_delay sl then
              (case picoquic_sack_next_item sl first of
                 None \<Rightarrow> sl
               | Some _ \<Rightarrow>
                   picoquic_update_ack_horizon
                     (picoquic_sack_delete_item (sl\<lparr>ack_horizon := end_of_sack_range it + 1\<rparr>) first)
                     current_time)
            else sl
          else sl)"
  by pat_completeness auto
termination
  by (relation "measure (\<lambda>(sl, t). length (ack_items sl))")
    (auto simp: picoquic_sack_first_item_def length_delete_item split: if_splits)

declare picoquic_update_ack_horizon.simps [simp del]

subsection \<open>Recording received ranges\<close>

lemma length_record_reset [simp]:
  "length (ack_items (picoquic_sack_item_record_reset sl i)) = length (ack_items sl)"
  by (simp add: picoquic_sack_item_record_reset_def Let_def)

lemma length_set_item [simp]: "length (ack_items (set_item sl i f)) = length (ack_items sl)"
  by (simp add: set_item_def)

text \<open>
  The \<open>while\<close> loop of \<open>picoquic_update_sack_list\<close> on the item \<open>previous\<close>.  After the branch
  without overlap the loop condition is false, since the item then ends at \<open>pn64_max\<close>.
\<close>

function extend_range :: "sack_list \<Rightarrow> nat \<Rightarrow> u64 \<Rightarrow> u64 \<Rightarrow> int \<Rightarrow> sack_list \<times> int" where
  "extend_range sl previous pn64_max current_time ret =
     (if end_of_sack_range (ack_items sl ! previous) < pn64_max then
        (case picoquic_sack_next_item sl previous of
           None \<Rightarrow>
             (let sl = set_item sl previous (\<lambda>it. it\<lparr>end_of_sack_range := pn64_max\<rparr>);
                  sl = picoquic_sack_item_record_reset sl previous;
                  sl = set_item sl previous (\<lambda>it. it\<lparr>time_created := current_time\<rparr>)
              in (sl, 0))
         | Some nxt \<Rightarrow>
             if start_of_sack_range (ack_items sl ! nxt) - 1 > pn64_max then
               (let sl = set_item sl previous (\<lambda>it. it\<lparr>end_of_sack_range := pn64_max\<rparr>);
                    sl = picoquic_sack_item_record_reset sl previous;
                    sl = set_item sl previous (\<lambda>it. it\<lparr>time_created := current_time\<rparr>)
                in (sl, 0))
             else
               (let next = ack_items sl ! nxt;
                    sl = set_item sl previous (\<lambda>it. it\<lparr>end_of_sack_range := end_of_sack_range next\<rparr>);
                    sl = picoquic_sack_item_record_reset sl previous;
                    sl = (if time_created next > time_created (ack_items sl ! previous)
                          then set_item sl previous (\<lambda>it. it\<lparr>time_created := time_created next\<rparr>)
                          else sl);
                    sl = picoquic_sack_delete_item sl nxt
                in extend_range sl previous pn64_max current_time 0))
      else (sl, ret))"
  by pat_completeness auto
termination
  by (relation "measure (\<lambda>(sl, _). length (ack_items sl))")
    (auto simp: picoquic_sack_next_item_def length_delete_item Let_def split: if_splits)

declare extend_range.simps [simp del]

definition picoquic_update_sack_list ::
  "bool \<Rightarrow> sack_list \<Rightarrow> u64 \<Rightarrow> u64 \<Rightarrow> u64 \<Rightarrow> sack_list \<times> int" where
  "picoquic_update_sack_list malloc_ok sl pn64_min pn64_max current_time =
     (let previous = picoquic_sack_find_range_below_number sl pn64_min;
          (sl, ret, previous) =
            (if (case previous of None \<Rightarrow> True
                 | Some p \<Rightarrow> end_of_sack_range (ack_items sl ! p) + 1 < pn64_min) then
               (let next = (case previous of None \<Rightarrow> picoquic_sack_first_item sl
                            | Some p \<Rightarrow> picoquic_sack_next_item sl p) in
                if (case next of None \<Rightarrow> True
                    | Some n \<Rightarrow> start_of_sack_range (ack_items sl ! n) - 1 > pn64_max) then
                  (let (sl, ret) = picoquic_sack_insert_item malloc_ok sl pn64_min pn64_max current_time
                   in (sl, ret, None))
                else
                  (let n = the next;
                       sl = set_item sl n (\<lambda>it. it\<lparr>start_of_sack_range := pn64_min\<rparr>);
                       sl = picoquic_sack_item_record_reset sl n;
                       sl = set_item sl n (\<lambda>it. it\<lparr>time_created := current_time\<rparr>)
                   in (sl, 0, Some n)))
             else (sl, 1, previous));
          (sl, ret) = (case previous of None \<Rightarrow> (sl, ret)
                       | Some p \<Rightarrow> extend_range sl p pn64_max current_time ret)
      in if horizon_delay sl > 0 then (picoquic_update_ack_horizon sl current_time, ret)
         else (sl, ret))"

definition picoquic_check_sack_list :: "sack_list \<Rightarrow> u64 \<Rightarrow> u64 \<Rightarrow> int" where
  "picoquic_check_sack_list sl pn64_min pn64_max =
     (case picoquic_sack_find_range_below_number sl pn64_min of
        None \<Rightarrow> 0
      | Some i \<Rightarrow> if pn64_max \<le> end_of_sack_range (ack_items sl ! i) then -1 else 0)"

definition sack_item_at :: "sack_list \<Rightarrow> nat option \<Rightarrow> sack_item option" where
  "sack_item_at sl p = map_option (\<lambda>i. ack_items sl ! i) p"

text \<open>Selection of the ACK ranges to send: the loop over \<open>i < PICOQUIC_MAX_ACK_RANGE_REPEAT\<close>
  with its \<open>break\<close>; the result is \<open>(nb_sent_max, nb_sent_max_skip)\<close>.\<close>

function select_ranges_loop :: "(nat \<Rightarrow> int) \<Rightarrow> nat \<Rightarrow> int \<Rightarrow> nat \<Rightarrow> int \<Rightarrow> nat \<times> int" where
  "select_ranges_loop counts first_sack_count max_ranges i cumul_sent =
     (if i < PICOQUIC_MAX_ACK_RANGE_REPEAT then
        (let cumul_sent = cumul_sent + counts i;
             cumul_sent = (if i = first_sack_count then cumul_sent - 1 else cumul_sent)
         in if cumul_sent \<ge> max_ranges then (i, cumul_sent - max_ranges)
            else select_ranges_loop counts first_sack_count max_ranges (Suc i) cumul_sent)
      else (PICOQUIC_MAX_ACK_RANGE_REPEAT, 0))"
  by pat_completeness auto
termination
  by (relation "measure (\<lambda>(_, _, _, i, _). PICOQUIC_MAX_ACK_RANGE_REPEAT - i)") auto

declare select_ranges_loop.simps [simp del]

definition picoquic_sack_select_ack_ranges ::
  "sack_list \<Rightarrow> nat option \<Rightarrow> int \<Rightarrow> nat \<Rightarrow> nat \<times> int" where
  "picoquic_sack_select_ack_ranges sl first_sack max_ranges is_opportunistic =
     (let first_sack_count =
            (case first_sack of None \<Rightarrow> PICOQUIC_MAX_ACK_RANGE_REPEAT
             | Some i \<Rightarrow> nb_times_sent (ack_items sl ! i) is_opportunistic)
      in select_ranges_loop (range_counts sl is_opportunistic) first_sack_count max_ranges 0 0)"

text \<open>Acknowledgement of an acknowledgement.\<close>

definition mark_acked_round :: "sack_list \<Rightarrow> nat \<Rightarrow> nat \<Rightarrow> sack_list" where
  "mark_acked_round sl i r =
     (let it = ack_items sl ! i in
      if nb_times_sent it r < PICOQUIC_MAX_ACK_RANGE_REPEAT then
        set_item (sl\<lparr>range_counts := discount (nb_times_sent it) (range_counts sl) r\<rparr>) i
          (\<lambda>it. it\<lparr>nb_times_sent := (nb_times_sent it)(r := PICOQUIC_MAX_ACK_RANGE_REPEAT)\<rparr>)
      else sl)"

definition picoquic_process_ack_of_ack_range :: "sack_list \<Rightarrow> u64 \<Rightarrow> u64 \<Rightarrow> sack_list" where
  "picoquic_process_ack_of_ack_range sl start_of_range end_of_range =
     (case picoquic_sack_find_range_below_number sl start_of_range of
        None \<Rightarrow> sl
      | Some previous \<Rightarrow>
          let it = ack_items sl ! previous in
          if start_of_sack_range it = start_of_range then
            (case picoquic_sack_next_item sl previous of
               None \<Rightarrow>
                 if end_of_range < end_of_sack_range it
                 then set_item sl previous (\<lambda>it. it\<lparr>start_of_sack_range := end_of_range + 1\<rparr>)
                 else set_item sl previous (\<lambda>it. it\<lparr>start_of_sack_range := end_of_sack_range it\<rparr>)
             | Some _ \<Rightarrow>
                 if end_of_sack_range it = end_of_range then
                   (if horizon_delay sl > 0
                    then mark_acked_round (mark_acked_round sl previous 0) previous 1
                    else picoquic_sack_delete_item sl previous)
                 else sl)
          else sl)"

subsection \<open>The list as a whole\<close>

definition picoquic_sack_list_first :: "sack_list \<Rightarrow> u64" where
  "picoquic_sack_list_first sl =
     (case sack_item_at sl (picoquic_sack_first_item sl) of
        None \<Rightarrow> -1 | Some it \<Rightarrow> start_of_sack_range it)"

definition picoquic_sack_list_last :: "sack_list \<Rightarrow> u64" where
  "picoquic_sack_list_last sl =
     (case sack_item_at sl (picoquic_sack_last_item sl) of
        None \<Rightarrow> 0 | Some it \<Rightarrow> end_of_sack_range it)"

definition picoquic_sack_list_first_range :: "sack_list \<Rightarrow> nat option" where
  "picoquic_sack_list_first_range sl =
     (case picoquic_sack_first_item sl of None \<Rightarrow> None | Some i \<Rightarrow> picoquic_sack_next_item sl i)"

definition picoquic_sack_list_init :: sack_list where
  "picoquic_sack_list_init =
     \<lparr>ack_items = [], ack_horizon = 0, horizon_delay = 0, range_counts = (\<lambda>_ _. 0)\<rparr>"

definition picoquic_sack_list_free :: "sack_list \<Rightarrow> sack_list" where
  "picoquic_sack_list_free sl = sl\<lparr>ack_items := [], range_counts := (\<lambda>_ _. 0)\<rparr>"

definition picoquic_sack_list_reset ::
  "bool \<Rightarrow> sack_list \<Rightarrow> u64 \<Rightarrow> u64 \<Rightarrow> u64 \<Rightarrow> sack_list \<times> int" where
  "picoquic_sack_list_reset malloc_ok sl range_min range_max current_time =
     picoquic_sack_insert_item malloc_ok (picoquic_sack_list_free sl) range_min range_max current_time"

definition picoquic_sack_list_size :: "sack_list \<Rightarrow> nat" where
  "picoquic_sack_list_size sl = length (ack_items sl)"

subsection \<open>Acknowledgement contexts of a connection\<close>

datatype packet_context = Application | Handshake | Initial

record ack_track =
  highest_ack_sent :: u64
  ack_needed :: bool
  out_of_order_received :: bool

record ack_context =
  ctx_sack_list :: sack_list
  time_stamp_largest_received :: u64
  act :: "nat \<Rightarrow> ack_track"

record ack_path =
  unique_path_id :: u64
  path_ack_ctx :: ack_context

record ack_cnx =
  is_multipath_enabled :: bool
  cnx_ack_ctx :: "packet_context \<Rightarrow> ack_context"
  cnx_path :: "ack_path list"

text \<open>The position of the first path with the given identifier; \<open>None\<close> stands for \<open>-1\<close>.\<close>

fun find_path_from :: "ack_path list \<Rightarrow> u64 \<Rightarrow> nat \<Rightarrow> nat option" where
  "find_path_from [] uid i = None"
| "find_path_from (p # ps) uid i =
     (if unique_path_id p = uid then Some i else find_path_from ps uid (Suc i))"

definition picoquic_find_path_by_unique_id :: "ack_cnx \<Rightarrow> u64 \<Rightarrow> nat option" where
  "picoquic_find_path_by_unique_id cnx uid = find_path_from (cnx_path cnx) uid 0"

text \<open>Which context the pointer returned by \<open>picoquic_ack_ctx_from_cnx_context\<close> designates; the
  local connection ID argument is its \<open>path_id\<close>, \<open>None\<close> for \<open>NULL\<close>.\<close>

datatype ack_ctx_ref = CnxCtx packet_context | PathCtx nat

definition picoquic_ack_ctx_from_cnx_context ::
  "ack_cnx \<Rightarrow> packet_context \<Rightarrow> u64 option \<Rightarrow> ack_ctx_ref" where
  "picoquic_ack_ctx_from_cnx_context cnx pc l_cid =
     (if is_multipath_enabled cnx \<and> pc = Application then
        (case (case l_cid of None \<Rightarrow> Some 0
               | Some path_id \<Rightarrow> picoquic_find_path_by_unique_id cnx path_id) of
           Some i \<Rightarrow> PathCtx i
         | None \<Rightarrow> CnxCtx pc)
      else CnxCtx pc)"

fun ack_ctx_read :: "ack_cnx \<Rightarrow> ack_ctx_ref \<Rightarrow> ack_context" where
  "ack_ctx_read cnx (CnxCtx pc) = cnx_ack_ctx cnx pc"
| "ack_ctx_read cnx (PathCtx i) = path_ack_ctx (cnx_path cnx ! i)"

fun ack_ctx_write :: "ack_cnx \<Rightarrow> ack_ctx_ref \<Rightarrow> ack_context \<Rightarrow> ack_cnx" where
  "ack_ctx_write cnx (CnxCtx pc) c = cnx\<lparr>cnx_ack_ctx := (cnx_ack_ctx cnx)(pc := c)\<rparr>"
| "ack_ctx_write cnx (PathCtx i) c =
     cnx\<lparr>cnx_path := (cnx_path cnx)[i := (cnx_path cnx ! i)\<lparr>path_ack_ctx := c\<rparr>]\<rparr>"

definition picoquic_is_pn_already_received ::
  "ack_cnx \<Rightarrow> packet_context \<Rightarrow> u64 option \<Rightarrow> u64 \<Rightarrow> bool" where
  "picoquic_is_pn_already_received cnx pc l_cid pn64 =
     (let sl = ctx_sack_list (ack_ctx_read cnx (picoquic_ack_ctx_from_cnx_context cnx pc l_cid)) in
      if horizon_delay sl > 0 \<and> pn64 < ack_horizon sl then True
      else (case picoquic_sack_find_range_below_number sl pn64 of
              None \<Rightarrow> False
            | Some i \<Rightarrow> pn64 \<le> end_of_sack_range (ack_items sl ! i)))"

definition mark_out_of_order :: "ack_context \<Rightarrow> nat \<Rightarrow> ack_context" where
  "mark_out_of_order c r = c\<lparr>act := (act c)(r := (act c r)\<lparr>out_of_order_received := True\<rparr>)\<rparr>"

text \<open>The part of \<open>picoquic_record_pn_received\<close> that updates \<open>cnx->ack_ctx[pc]\<close>.\<close>

definition record_arrival :: "ack_context \<Rightarrow> sack_list \<Rightarrow> u64 \<Rightarrow> u64 \<Rightarrow> ack_context" where
  "record_arrival c sl pn64 current_microsec =
     (if picoquic_sack_list_is_empty sl then c\<lparr>time_stamp_largest_received := current_microsec\<rparr>
      else
        let pn_last = picoquic_sack_list_last sl in
        if pn64 > pn_last then
          (let c = (if pn64 > pn_last + 1 then mark_out_of_order (mark_out_of_order c 0) 1 else c)
           in c\<lparr>time_stamp_largest_received := current_microsec\<rparr>)
        else
          (let c = (if ack_needed (act c 0) \<and> pn64 < highest_ack_sent (act c 0)
                    then mark_out_of_order c 0 else c)
           in if ack_needed (act c 1) \<and> pn64 < highest_ack_sent (act c 1)
              then mark_out_of_order c 1 else c))"

definition picoquic_record_pn_received ::
  "bool \<Rightarrow> ack_cnx \<Rightarrow> packet_context \<Rightarrow> u64 option \<Rightarrow> u64 \<Rightarrow> u64 \<Rightarrow> ack_cnx \<times> int" where
  "picoquic_record_pn_received malloc_ok cnx pc l_cid pn64 current_microsec =
     (let ref = picoquic_ack_ctx_from_cnx_context cnx pc l_cid;
          sl = ctx_sack_list (ack_ctx_read cnx ref);
          cnx = cnx\<lparr>cnx_ack_ctx :=
            (cnx_ack_ctx cnx)(pc := record_arrival (cnx_ack_ctx cnx pc) sl pn64 current_microsec)\<rparr>;
          (sl, ret) = picoquic_update_sack_list malloc_ok sl pn64 pn64 current_microsec
      in (ack_ctx_write cnx ref ((ack_ctx_read cnx ref)\<lparr>ctx_sack_list := sl\<rparr>), ret))"

end
