(* ===== verification/Sacks_Accounting.thy ===== *)
theory Sacks_Accounting
  imports Sacks_Correct
begin

text \<open>
  The accounting of the SACK lists: \<open>rc[r].range_counts[n]\<close> is the number of items that were sent
  \<open>n\<close> times for the track \<open>r\<close>.  Every operation of \<^verbatim>\<open>sacks.c\<close> keeps the counts in step with the
  items, which is what \<open>picoquic_sack_select_ack_ranges\<close> relies on.
\<close>

definition sent_count :: "nat \<Rightarrow> nat \<Rightarrow> sack_item list \<Rightarrow> int" where
  "sent_count r n its = int (length (filter (\<lambda>it. nb_times_sent it r = n) its))"

definition counts_ok :: "sack_list \<Rightarrow> bool" where
  "counts_ok sl \<longleftrightarrow> (\<forall>r<2. \<forall>n<PICOQUIC_MAX_ACK_RANGE_REPEAT. range_counts sl r n = sent_count r n (ack_items sl))"

lemma sent_count_simps [simp]:
  "sent_count r n [] = 0"
  "sent_count r n (it # its) = of_bool (nb_times_sent it r = n) + sent_count r n its"
  "sent_count r n (as @ bs) = sent_count r n as + sent_count r n bs"
  by (auto simp: sent_count_def)

lemma sent_count_split:
  "i < length its \<Longrightarrow> sent_count r n its =
     sent_count r n (take i its) + of_bool (nb_times_sent (its ! i) r = n) + sent_count r n (drop (Suc i) its)"
  by (subst id_take_nth_drop [of i its]) simp_all

lemma sent_count_update:
  "i < length its \<Longrightarrow> sent_count r n (its[i := y]) =
     sent_count r n its - of_bool (nb_times_sent (its ! i) r = n) + of_bool (nb_times_sent y r = n)"
  by (simp add: upd_conv_take_nth_drop sent_count_split [of i its])

lemma less_2_cases: "r < (2 :: nat) \<longleftrightarrow> r = 0 \<or> r = 1"
  by auto

lemma discount_eq:
  "discount sent rc r r' n =
     rc r' n - of_bool (r' = r \<and> sent r = n \<and> sent r < PICOQUIC_MAX_ACK_RANGE_REPEAT)"
  by (auto simp: discount_def)

lemma counts_ok_init: "counts_ok picoquic_sack_list_init"
  by (simp add: counts_ok_def picoquic_sack_list_init_def)

lemma counts_ok_free: "counts_ok (picoquic_sack_list_free sl)"
  by (simp add: counts_ok_def picoquic_sack_list_free_def)

lemma counts_ok_horizon [simp]: "counts_ok (sl\<lparr>ack_horizon := h\<rparr>) = counts_ok sl"
  by (simp add: counts_ok_def)

lemma counts_ok_insert:
  assumes "counts_ok sl"
  shows "counts_ok (fst (picoquic_sack_insert_item malloc_ok sl a b t))"
proof -
  have "sent_count r n (ack_items sl) =
      sent_count r n (takeWhile (\<lambda>it. start_of_sack_range it \<le> a) (ack_items sl)) +
      sent_count r n (dropWhile (\<lambda>it. start_of_sack_range it \<le> a) (ack_items sl))" for r n
    by (simp flip: sent_count_simps(3))
  with assms show ?thesis
    by (auto simp: counts_ok_def picoquic_sack_insert_item_def Let_def less_2_cases)
qed

lemma counts_ok_delete:
  assumes "counts_ok sl" and "i < length (ack_items sl)"
  shows "counts_ok (picoquic_sack_delete_item sl i)"
  using assms sent_count_split [OF assms(2)]
  by (auto simp: counts_ok_def picoquic_sack_delete_item_def Let_def less_2_cases discount_eq)

lemma counts_ok_reset:
  assumes "counts_ok sl" and "i < length (ack_items sl)"
  shows "counts_ok (picoquic_sack_item_record_reset sl i)"
  using assms
  by (auto simp: counts_ok_def picoquic_sack_item_record_reset_def reset_round_def Let_def less_2_cases
      discount_eq sent_count_update PICOQUIC_MAX_ACK_RANGE_REPEAT_def)

lemma counts_ok_sent:
  assumes "counts_ok sl" and "i < length (ack_items sl)"
  shows "counts_ok (picoquic_sack_item_record_sent sl i r)"
  using assms
  by (auto simp: counts_ok_def picoquic_sack_item_record_sent_def Let_def less_2_cases
      discount_eq sent_count_update)

lemma counts_ok_set_item:
  assumes "counts_ok sl" and "i < length (ack_items sl)" and "\<And>it. nb_times_sent (f it) = nb_times_sent it"
  shows "counts_ok (set_item sl i f)"
  using assms by (auto simp: counts_ok_def set_item_def sent_count_update)

lemma counts_ok_mark_acked:
  assumes "counts_ok sl" and "i < length (ack_items sl)"
  shows "counts_ok (mark_acked_round sl i r)"
  using assms
  by (auto simp: counts_ok_def mark_acked_round_def set_item_def Let_def less_2_cases
      discount_eq sent_count_update PICOQUIC_MAX_ACK_RANGE_REPEAT_def)

lemmas counts_ok_steps = counts_ok_delete counts_ok_reset counts_ok_set_item

lemma counts_ok_grow:
  assumes "counts_ok sl" and "i < length (ack_items sl)"
    and "\<And>it. nb_times_sent (f it) = nb_times_sent it" and "\<And>it. nb_times_sent (g it) = nb_times_sent it"
  shows "counts_ok (set_item (picoquic_sack_item_record_reset (set_item sl i f) i) i g)"
  using assms by (intro counts_ok_steps) auto

lemma counts_ok_merge:
  assumes "counts_ok sl" and "Suc i < length (ack_items sl)"
    and "\<And>it. nb_times_sent (f it) = nb_times_sent it" and "\<And>it. nb_times_sent (g it) = nb_times_sent it"
  defines "s2 \<equiv> picoquic_sack_item_record_reset (set_item sl i f) i"
  shows "counts_ok (picoquic_sack_delete_item (if c then set_item s2 i g else s2) (Suc i))"
  using assms unfolding s2_def by (cases c) (auto intro!: counts_ok_steps)

lemma counts_ok_extend:
  assumes "counts_ok sl" and "i < length (ack_items sl)"
  shows "counts_ok (fst (extend_range sl i m t ret))"
  using assms
proof (induction sl i m t ret rule: extend_range.induct)
  case (1 sl i m t ret)
  show ?case
  proof (cases "end_of_sack_range (ack_items sl ! i) < m \<and> Suc i < length (ack_items sl) \<and>
      \<not> start_of_sack_range (ack_items sl ! Suc i) - 1 > m")
    case False
    then show ?thesis
      using "1.prems"
      by (subst extend_range.simps) (auto simp: picoquic_sack_next_item_def Let_def intro!: counts_ok_grow)
  next
    case True
    define q where "q = ack_items sl ! Suc i"
    define s2 where "s2 = picoquic_sack_item_record_reset
      (set_item sl i (\<lambda>it. it\<lparr>end_of_sack_range := end_of_sack_range q\<rparr>)) i"
    define s4 where "s4 = picoquic_sack_delete_item (if time_created q > time_created (ack_items s2 ! i)
      then set_item s2 i (\<lambda>it. it\<lparr>time_created := time_created q\<rparr>) else s2) (Suc i)"
    have nxt: "picoquic_sack_next_item sl i = Some (Suc i)" using True by (simp add: picoquic_sack_next_item_def)
    have "counts_ok s4"
      unfolding s4_def s2_def by (rule counts_ok_merge) (use "1.prems" True in auto)
    moreover have "i < length (ack_items s4)"
      using True by (simp add: s4_def s2_def length_delete_item less_diff_conv)
    moreover have "extend_range sl i m t ret = extend_range s4 i m t 0"
      using True by (subst extend_range.simps) (simp add: nxt Let_def q_def s2_def s4_def)
    moreover have "counts_ok s4 \<Longrightarrow> i < length (ack_items s4) \<Longrightarrow> counts_ok (fst (extend_range s4 i m t 0))"
      unfolding s4_def s2_def q_def
      by (rule "1.IH" [OF _ nxt _ refl refl refl refl refl]) (use True in simp_all)
    ultimately show ?thesis by simp
  qed
qed

lemma counts_ok_update_horizon: "counts_ok sl \<Longrightarrow> counts_ok (picoquic_update_ack_horizon sl t)"
proof (induction sl t rule: picoquic_update_ack_horizon.induct)
  case (1 sl t)
  then show ?case
    by (subst picoquic_update_ack_horizon.simps)
      (auto simp: Let_def picoquic_sack_first_item_def picoquic_sack_next_item_def counts_ok_delete split: option.splits if_splits)
qed

lemma counts_ok_after_horizon: "counts_ok sl \<Longrightarrow> counts_ok (after_horizon sl t)"
  by (simp add: after_horizon_def counts_ok_update_horizon)

lemma counts_ok_update:
  assumes "counts_ok sl"
  shows "counts_ok (fst (picoquic_update_sack_list malloc_ok sl a b t))"
proof -
  let ?prev = "picoquic_sack_find_range_below_number sl a"
  let ?next = "case ?prev of None \<Rightarrow> picoquic_sack_first_item sl | Some p \<Rightarrow> picoquic_sack_next_item sl p"
  have prev: "i < length (ack_items sl)" if "?prev = Some i" for i
    using that by (rule find_below_index)
  have nxt: "i < length (ack_items sl)" if "?next = Some i" for i
    using that by (auto simp: picoquic_sack_first_item_def picoquic_sack_next_item_def split: option.splits if_splits)
  let ?gap = "case ?prev of None \<Rightarrow> True | Some p \<Rightarrow> end_of_sack_range (ack_items sl ! p) + 1 < a"
  let ?far = "case ?next of None \<Rightarrow> True | Some n \<Rightarrow> start_of_sack_range (ack_items sl ! n) - 1 > b"
  define s1 where "s1 = set_item (picoquic_sack_item_record_reset
    (set_item sl (the ?next) (\<lambda>it. it\<lparr>start_of_sack_range := a\<rparr>)) (the ?next)) (the ?next) (\<lambda>it. it\<lparr>time_created := t\<rparr>)"
  consider "?gap" "?far" | n where "?gap" "\<not> ?far" "?next = Some n" | p where "\<not> ?gap" "?prev = Some p"
    by (metis (no_types, lifting) option.exhaust option.simps(4))
  then show ?thesis
  proof cases
    case 1
    then have "fst (picoquic_update_sack_list malloc_ok sl a b t) =
        after_horizon (fst (picoquic_sack_insert_item malloc_ok sl a b t)) t"
      by (simp add: picoquic_update_sack_list_def Let_def after_horizon_def split: prod.splits)
    then show ?thesis using assms by (simp add: counts_ok_insert counts_ok_after_horizon)
  next
    case 2
    then have "fst (picoquic_update_sack_list malloc_ok sl a b t) =
        after_horizon (fst (extend_range s1 n b t 0)) t"
      by (simp add: picoquic_update_sack_list_def Let_def after_horizon_def s1_def split: prod.splits)
    moreover have "counts_ok s1" "n < length (ack_items s1)"
      using assms nxt [OF 2(3)] unfolding s1_def 2(3) by (simp_all add: counts_ok_grow)
    ultimately show ?thesis by (simp add: counts_ok_extend counts_ok_after_horizon)
  next
    case 3
    then have "fst (picoquic_update_sack_list malloc_ok sl a b t) =
        after_horizon (fst (extend_range sl p b t 1)) t"
      by (simp add: picoquic_update_sack_list_def Let_def after_horizon_def split: prod.splits)
    then show ?thesis using assms prev [OF 3(2)] by (simp add: counts_ok_extend counts_ok_after_horizon)
  qed
qed

lemma counts_ok_process_ack_of_ack:
  assumes "counts_ok sl"
  shows "counts_ok (picoquic_process_ack_of_ack_range sl a b)"
proof (cases "picoquic_sack_find_range_below_number sl a")
  case None
  with assms show ?thesis by (simp add: picoquic_process_ack_of_ack_range_def)
next
  case (Some i)
  then have i: "i < length (ack_items sl)" by (rule find_below_index)
  have len: "length (ack_items (mark_acked_round sl i 0)) = length (ack_items sl)"
    by (simp add: mark_acked_round_def set_item_def Let_def)
  show ?thesis
    using assms i len
    by (auto simp: picoquic_process_ack_of_ack_range_def Some Let_def split: option.splits
        intro!: counts_ok_set_item counts_ok_mark_acked counts_ok_delete)
qed

end
