(* ===== verification/Sacks_Refine.thy ===== *)
theory Sacks_Refine
  imports Sacks_Accounting
begin

text \<open>
  The link between the SACK lists and the splay tree that stores them: the comparator of
  \<^verbatim>\<open>sacks.c\<close> meets the contract of the tree, and searching, inserting and deleting in the
  tree act on its in-order sequence as the list operations of the SACK model do.
\<close>

definition picoquic_sack_item_compare :: "sack_item \<Rightarrow> sack_item \<Rightarrow> int" where
  "picoquic_sack_item_compare l r = sint (start_of_sack_range l - start_of_sack_range r)"

definition sack_key :: "sack_item \<Rightarrow> int" where
  "sack_key it = uint (start_of_sack_range it)"

definition in_range :: "sack_item \<Rightarrow> bool" where
  "in_range it \<longleftrightarrow> unat (start_of_sack_range it) < 2 ^ 62"

text \<open>Below \<open>2 ^ 62\<close> the 64-bit difference is the mathematical one, as the C comment claims.\<close>

lemma sint_diff:
  assumes "unat (a :: u64) < 2 ^ 63" and "unat b < 2 ^ 63"
  shows "sint (a - b) = uint a - uint b"
proof -
  have "int (unat a) < int (2 ^ 63)" "int (unat b) < int (2 ^ 63)"
    using assms by (simp_all only: of_nat_less_iff)
  then have bounds: "uint a < 2 ^ 63" "uint b < 2 ^ 63" by simp_all
  have "sint (word_of_int (uint a - uint b) :: u64) = signed_take_bit 63 (uint a - uint b)"
    by (simp only: signed_of_int) simp
  also have "\<dots> = uint a - uint b"
  proof (rule signed_take_bit_int_eq_self)
    show "- (2 ^ 63) \<le> uint a - uint b" using bounds(2) uint_ge_0 [of a] by linarith
    show "uint a - uint b < 2 ^ 63" using bounds(1) uint_ge_0 [of b] by linarith
  qed
  finally show ?thesis by simp
qed

interpretation sack_order: splay_order picoquic_sack_item_compare sack_key in_range
  by unfold_locales
    (simp_all add: picoquic_sack_item_compare_def sack_key_def in_range_def sint_diff)

text \<open>A tree and a list that hold the same items.\<close>

definition tree_of :: "sack_item picosplay_tree \<Rightarrow> sack_list \<Rightarrow> bool" where
  "tree_of t sl \<longleftrightarrow> inorder (root t) = ack_items sl \<and> comp t = picoquic_sack_item_compare \<and>
     create t = Some \<and> tree_size t = int (length (ack_items sl))"

interpretation sack_nodes: node_sequence ack_items "\<lambda>sl n i. n = i \<and> i < length (ack_items sl)"
  picoquic_sack_first_item picoquic_sack_last_item picoquic_sack_next_item picoquic_sack_previous_item
  picoquic_sack_delete_item
  by unfold_locales
    (auto simp: picoquic_sack_first_item_def picoquic_sack_last_item_def picoquic_sack_next_item_def
      picoquic_sack_previous_item_def picoquic_sack_delete_item_def Let_def)

lemma items_in_range: "items_ok its \<Longrightarrow> \<forall>it\<in>set its. in_range it"
  by (auto simp: items_ok_def item_ok_def in_range_def)

lemma key_le: "sack_key it \<le> sack_key it' \<longleftrightarrow> start_of_sack_range it \<le> start_of_sack_range it'"
  by (simp add: sack_key_def word_le_def)

lemma key_less: "sack_key it < sack_key it' \<longleftrightarrow> unat (start_of_sack_range it) < unat (start_of_sack_range it')"
  by (simp add: sack_key_def word_less_def flip: word_less_nat_alt)

lemma items_sorted:
  assumes "items_ok its"
  shows "sorted_wrt (<) (map sack_key its)"
proof -
  have "sorted_wrt (\<lambda>a b. sack_key a < sack_key b) its"
    using assms unfolding items_ok_def
    by (auto simp: key_less item_ok_def apart_def elim!: sorted_wrt_mono_rel [rotated] dest!: bspec)
  then show ?thesis by (simp add: sorted_wrt_map)
qed

lemma tree_insert_refines:
  assumes "tree_of t sl" and "sack_ok sl" and "unat a < 2 ^ 62"
  shows "tree_of (fst (picosplay_insert t \<lparr>start_of_sack_range = a, end_of_sack_range = b,
      time_created = tm, nb_times_sent = (\<lambda>_. 0)\<rparr>)) (fst (picoquic_sack_insert_item True sl a b tm))"
proof -
  let ?new = "\<lparr>start_of_sack_range = a, end_of_sack_range = b, time_created = tm, nb_times_sent = (\<lambda>_. 0)\<rparr>"
  have ok: "items_ok (inorder (root t))" using assms(1,2) by (simp add: tree_of_def sack_ok_def)
  have "sorted (map sack_key (inorder (root t)))"
    using items_sorted [OF ok] by (simp add: strict_sorted_imp_sorted)
  moreover have "in_range ?new" using assms(3) by (simp add: in_range_def)
  moreover note items_in_range [OF ok]
  ultimately have "inorder (splay (Node Leaf ?new Leaf) (insert_path picoquic_sack_item_compare ?new (root t) [])) =
      takeWhile (\<lambda>x. sack_key x \<le> sack_key ?new) (inorder (root t)) @ ?new #
      dropWhile (\<lambda>x. sack_key x \<le> sack_key ?new) (inorder (root t))"
    by (rule sack_order.splay_insert_inorder)
  moreover have "length (takeWhile P xs) + length (dropWhile P xs) = length xs" for P and xs :: "sack_item list"
    by (metis length_append takeWhile_dropWhile_id)
  ultimately show ?thesis
    using assms(1) by (simp add: tree_of_def picosplay_insert_def picoquic_sack_insert_item_def Let_def key_le flip: of_nat_add)
qed

lemma tree_find_refines:
  assumes "tree_of t sl" and "sack_ok sl" and "unat (start_of_sack_range v) < 2 ^ 62"
  shows "case (picosplay_find_previous t v, picoquic_sack_find_range_below_number sl (start_of_sack_range v)) of
      (None, None) \<Rightarrow> True
    | (Some n, Some i) \<Rightarrow> tree_pos t n i
    | _ \<Rightarrow> False"
proof -
  let ?pn = "start_of_sack_range v"
  have seq: "inorder (root t) = ack_items sl" and cmp: "comp t = picoquic_sack_item_compare"
    using assms(1) by (simp_all add: tree_of_def)
  have ok: "items_ok (inorder (root t))" using assms(2) by (simp add: seq sack_ok_def)
  have at: "case picosplay_find_previous t v of
      None \<Rightarrow> \<forall>y\<in>set (inorder (plug (root t) [])). sack_key v < sack_key y
    | Some (nd, cs') \<Rightarrow> plug nd cs' = plug (root t) [] \<and>
        (\<exists>pre u suf. node_at (nd, cs') pre u suf \<and> sack_key u \<le> sack_key v \<and> (\<forall>y\<in>set suf. sack_key v < sack_key y))"
    unfolding picosplay_find_previous_def cmp
    by (rule sack_order.find_previous_loc_at)
      (use items_sorted [OF ok] items_in_range [OF ok] assms(3) in \<open>simp_all add: in_range_def\<close>)
  show ?thesis
  proof (cases "picosplay_find_previous t v")
    case None
    then have "below ?pn (ack_items sl) = []"
      using at by (cases "ack_items sl") (auto simp: below_def word_le_def sack_key_def seq)
    then show ?thesis using None by (simp add: find_below)
  next
    case (Some n)
    obtain nd cs where n: "n = (nd, cs)" by (cases n)
    obtain pre u suf where u: "node_at (nd, cs) pre u suf" "sack_key u \<le> sack_key v"
        "\<forall>y\<in>set suf. sack_key v < sack_key y" "plug nd cs = root t"
      using at Some n by auto
    have its: "ack_items sl = pre @ u # suf" using node_at_seq [OF u(1)] u(4) seq by simp
    have "\<forall>x\<in>set pre. sack_key x \<le> sack_key v"
      using items_sorted [OF ok] u(2) by (fastforce simp: seq its sorted_wrt_append)
    then have "below ?pn (ack_items sl) = pre @ [u]"
      using u(2,3) unfolding its below_def key_le [symmetric]
      by (cases suf) (auto simp: takeWhile_append)
    then show ?thesis
      using Some n u(1,4) by (auto simp: find_below)
  qed
qed

lemma tree_delete_refines:
  assumes "tree_of t sl" and "tree_pos t n i"
  shows "tree_of (picosplay_delete_hint t (Some n)) (picoquic_sack_delete_item sl i)"
proof -
  have "i < length (ack_items sl)" using splay.pos_bound [OF assms(2)] assms(1) by (simp add: tree_of_def del: length_inorder)
  moreover have "inorder (root (picosplay_delete_hint t (Some n))) = take i (ack_items sl) @ drop (Suc i) (ack_items sl)"
    using splay.del_seq [OF assms(2)] assms(1) by (simp add: tree_of_def)
  ultimately show ?thesis
    using assms(1) by (cases n) (auto simp: tree_of_def picosplay_delete_hint_def picoquic_sack_delete_item_def Let_def)
qed

subsection \<open>All histories of a list\<close>

text \<open>
  One step of a list: a call of the interface of \<^verbatim>\<open>sacks.c\<close>, with ranges that the peer can send
  (non-empty, below \<open>2 ^ 62\<close>) and items that exist.
\<close>

inductive sack_step :: "sack_list \<Rightarrow> sack_list \<Rightarrow> bool" where
  update: "unat a \<le> unat b \<Longrightarrow> unat b < 2 ^ 62 \<Longrightarrow>
     sack_step sl (fst (picoquic_update_sack_list malloc_ok sl a b t))"
| sent: "i < length (ack_items sl) \<Longrightarrow> sack_step sl (picoquic_sack_item_record_sent sl i r)"
| ack_of_ack: "unat a \<le> unat b \<Longrightarrow> sack_step sl (picoquic_process_ack_of_ack_range sl a b)"
| reset: "unat a \<le> unat b \<Longrightarrow> unat b < 2 ^ 62 \<Longrightarrow>
     sack_step sl (fst (picoquic_sack_list_reset malloc_ok sl a b t))"
| free: "sack_step sl (picoquic_sack_list_free sl)"

inductive sack_reachable :: "sack_list \<Rightarrow> bool" where
  init: "0 \<le> d \<Longrightarrow> sack_reachable (picoquic_sack_list_init\<lparr>horizon_delay := d\<rparr>)"
| step: "sack_reachable sl \<Longrightarrow> sack_step sl sl' \<Longrightarrow> sack_reachable sl'"

inductive_cases sack_stepE: "sack_step sl sl'"

text \<open>Changing neither ranges nor order keeps the ranges well formed.\<close>

lemma items_ok_same_ranges:
  assumes "items_ok its" and "i < length its"
    and "start_of_sack_range y = start_of_sack_range (its ! i)" "end_of_sack_range y = end_of_sack_range (its ! i)"
  shows "items_ok (its[i := y])"
proof -
  have "its = take i its @ its ! i # drop (Suc i) its" using assms(2) by (rule id_take_nth_drop)
  then have "items_ok (take i its @ its ! i # drop (Suc i) its)" using assms(1) by simp
  then show ?thesis
    using assms(2-4) by (auto simp: upd_conv_take_nth_drop item_ok_def apart_def)
qed

lemma items_ok_shrink_last:
  assumes "items_ok (its @ [x])" and "end_of_sack_range y = end_of_sack_range x"
    and "unat (start_of_sack_range x) \<le> unat (start_of_sack_range y)"
    and "unat (start_of_sack_range y) \<le> unat (end_of_sack_range x)"
  shows "items_ok (its @ [y])"
  using assms by (auto simp: item_ok_def apart_def)

lemma items_ok_delete: "items_ok its \<Longrightarrow> items_ok (take i its @ drop (Suc i) its)"
proof (cases "i < length its")
  case True
  assume "items_ok its"
  then have "items_ok (take i its @ its ! i # drop (Suc i) its)"
    using id_take_nth_drop [OF True] by simp
  then show ?thesis by simp
qed simp

lemma sack_ok_mark_acked: "sack_ok sl \<Longrightarrow> i < length (ack_items sl) \<Longrightarrow> sack_ok (mark_acked_round sl i r)"
  by (auto simp: sack_ok_def mark_acked_round_def set_item_def Let_def intro!: items_ok_same_ranges)

lemma length_mark_acked [simp]: "length (ack_items (mark_acked_round sl i r)) = length (ack_items sl)"
  by (simp add: mark_acked_round_def set_item_def Let_def)

lemma sack_ok_ack_of_ack:
  assumes "sack_ok sl" and "unat a \<le> unat b"
  shows "sack_ok (picoquic_process_ack_of_ack_range sl a b)"
proof (cases "picoquic_sack_find_range_below_number sl a")
  case None
  with assms show ?thesis by (simp add: picoquic_process_ack_of_ack_range_def)
next
  case (Some i)
  then have i: "i < length (ack_items sl)" by (rule find_below_index)
  have shrink: "sack_ok (set_item sl i f)"
    if "picoquic_sack_next_item sl i = None" and "end_of_sack_range (f x) = end_of_sack_range x"
      and "unat (start_of_sack_range x) \<le> unat (start_of_sack_range (f x))"
      and "unat (start_of_sack_range (f x)) \<le> unat (end_of_sack_range x)" and "x = ack_items sl ! i" for f x
  proof -
    have "Suc i = length (ack_items sl)" using that(1) i by (simp add: picoquic_sack_next_item_def split: if_splits)
    then have "ack_items sl = take i (ack_items sl) @ [x]"
      using that(5) i by (metis take_Suc_conv_app_nth take_all order_refl)
    then have "items_ok (take i (ack_items sl) @ [f x])"
      using items_ok_shrink_last that(2-4) assms(1) unfolding sack_ok_def by metis
    then show ?thesis
      using i that(5) \<open>Suc i = length (ack_items sl)\<close>
      by (simp add: sack_ok_def set_item_def upd_conv_take_nth_drop)
  qed
  have it: "item_ok (ack_items sl ! i)" using assms(1) i by (auto simp: sack_ok_def intro: item_ok_set)
  show ?thesis
    using assms(1) i it assms(2)
    by (auto simp: picoquic_process_ack_of_ack_range_def Some Let_def word_less_nat_alt item_ok_def unat_succ
        split: option.splits intro!: shrink sack_ok_mark_acked)
      (simp add: sack_ok_def picoquic_sack_delete_item_def Let_def items_ok_delete [simplified])
qed

end
