(* ===== verification/Sacks_Props.thy ===== *)
theory Sacks_Props
  imports Sacks_Refine
begin

text \<open>
  The properties of the SACK lists and of the acknowledgement contexts of a connection: what an
  update adds and reports, what the horizon keeps, the invariant of every history of a list, and
  detection of duplicate packets.
\<close>

subsection \<open>Well-formedness along every history\<close>

lemma sack_ok_update_horizon: "sack_ok sl \<Longrightarrow> sack_ok (picoquic_update_ack_horizon sl t)"
proof (induction sl t rule: picoquic_update_ack_horizon.induct)
  case (1 sl t)
  have "sack_ok (picoquic_sack_delete_item (sl\<lparr>ack_horizon := h\<rparr>) i)" for h i
    using "1.prems" items_ok_delete [of "ack_items sl" i]
    by (simp add: sack_ok_def picoquic_sack_delete_item_def Let_def del: items_ok_simps)
  with 1 show ?case
    by (subst picoquic_update_ack_horizon.simps) (auto simp: Let_def split: option.splits)
qed

lemma sack_ok_after_horizon: "sack_ok sl \<Longrightarrow> sack_ok (after_horizon sl t)"
  by (simp add: after_horizon_def sack_ok_update_horizon)

text \<open>When memory runs out, an update that needs a new item leaves the list as it was.\<close>

lemma update_malloc_fails:
  "picoquic_update_sack_list False sl a b t = picoquic_update_sack_list True sl a b t \<or>
   picoquic_update_sack_list False sl a b t = (after_horizon sl t, -1)"
  by (auto simp: picoquic_update_sack_list_def picoquic_sack_insert_item_def after_horizon_def Let_def)

lemma sack_ok_update:
  assumes "sack_ok sl" and "unat a \<le> unat b" and "unat b < 2 ^ 62"
  shows "sack_ok (fst (picoquic_update_sack_list malloc_ok sl a b t))"
proof -
  have "sack_ok (fst (picoquic_update_sack_list True sl a b t))"
    using update_correct [OF assms, of t] sack_ok_after_horizon by fastforce
  then show ?thesis
    using update_malloc_fails [of sl a b t] sack_ok_after_horizon [OF assms(1), of t]
    by (cases malloc_ok) auto
qed

lemma sack_ok_free: "sack_ok (picoquic_sack_list_free sl)"
  by (simp add: sack_ok_def picoquic_sack_list_free_def)

lemma sack_ok_reset:
  "unat a \<le> unat b \<Longrightarrow> unat b < 2 ^ 62 \<Longrightarrow> sack_ok (fst (picoquic_sack_list_reset malloc_ok sl a b t))"
  by (simp add: sack_ok_def picoquic_sack_list_reset_def picoquic_sack_insert_item_def
      picoquic_sack_list_free_def item_ok_def Let_def)

lemma sack_ok_sent: "sack_ok sl \<Longrightarrow> i < length (ack_items sl) \<Longrightarrow> sack_ok (picoquic_sack_item_record_sent sl i r)"
  by (auto simp: sack_ok_def picoquic_sack_item_record_sent_def Let_def intro!: items_ok_same_ranges)

lemma sack_step_ok:
  assumes "sack_step sl sl'" and "sack_ok sl" and "counts_ok sl"
  shows "sack_ok sl' \<and> counts_ok sl'"
  using assms
proof induction
  case (reset a b sl malloc_ok t)
  then show ?case
    using sack_ok_reset counts_ok_insert [OF counts_ok_free] by (simp add: picoquic_sack_list_reset_def)
qed (simp_all add: sack_ok_update sack_ok_sent sack_ok_ack_of_ack sack_ok_free
    counts_ok_update counts_ok_sent counts_ok_process_ack_of_ack counts_ok_free)

text \<open>
  C40. Whatever sequence of updates (with or without memory), transmissions, acknowledgements of
  acknowledgements, resets and frees a SACK list goes through, its ranges stay non-empty, sorted,
  disjoint and non-adjacent, and the two tables of range counts agree with the items.
\<close>

theorem sack_history_invariant:
  assumes "sack_reachable sl"
  shows "sorted_wrt (\<lambda>a b. unat (end_of_sack_range a) + 1 < unat (start_of_sack_range b)) (ack_items sl) \<and>
    (\<forall>it\<in>set (ack_items sl). unat (start_of_sack_range it) \<le> unat (end_of_sack_range it)) \<and>
    (\<forall>r<2. \<forall>n<PICOQUIC_MAX_ACK_RANGE_REPEAT.
       range_counts sl r n = int (length (filter (\<lambda>it. nb_times_sent it r = n) (ack_items sl))))"
proof -
  from assms have "sack_ok sl \<and> counts_ok sl"
  proof induction
    case (init d)
    show ?case by (simp add: sack_ok_def counts_ok_def picoquic_sack_list_init_def)
  next
    case (step sl sl')
    then show ?case using sack_step_ok by blast
  qed
  then show ?thesis
    by (simp add: sack_ok_def items_ok_def item_ok_def counts_ok_def sent_count_def apart_def [abs_def])
qed

theorem sack_history_invariant_witness:
  "let sl = fst (picoquic_update_sack_list True
       (fst (picoquic_update_sack_list True (picoquic_sack_list_init\<lparr>horizon_delay := 0\<rparr>) 3 5 10)) 9 9 20) in
   sack_reachable sl \<and>
   sorted_wrt (\<lambda>a b. unat (end_of_sack_range a) + 1 < unat (start_of_sack_range b)) (ack_items sl)"
proof -
  let ?sl = "fst (picoquic_update_sack_list True
       (fst (picoquic_update_sack_list True (picoquic_sack_list_init\<lparr>horizon_delay := 0\<rparr>) 3 5 10)) 9 9 20)"
  have "sack_reachable ?sl"
    by (rule sack_reachable.step [OF sack_reachable.step [OF sack_reachable.init sack_step.update] sack_step.update])
      simp_all
  from this sack_history_invariant [OF this] show ?thesis by (simp add: Let_def)
qed

subsection \<open>Updating and checking\<close>

text \<open>
  Without a horizon, recording the interval \<open>pn64_min..pn64_max\<close> adds exactly that interval to the
  received numbers, keeps the ranges well formed, and returns 1 precisely when every number of the
  interval was there already.
\<close>

theorem update_sack_list_adds_interval:
  assumes "sack_ok sl" and "horizon_delay sl \<le> 0"
    and "unat pn64_min \<le> unat pn64_max" and "unat pn64_max < 2 ^ 62"
  shows "\<exists>sl' ret. picoquic_update_sack_list True sl pn64_min pn64_max t = (sl', ret) \<and> sack_ok sl' \<and>
    pn_set sl' = pn_set sl \<union> {unat pn64_min..unat pn64_max} \<and>
    ret = (if {unat pn64_min..unat pn64_max} \<subseteq> pn_set sl then 1 else 0)"
proof -
  obtain sl' where "picoquic_update_sack_list True sl pn64_min pn64_max t =
      (after_horizon sl' t, if {unat pn64_min..unat pn64_max} \<subseteq> pn_set sl then 1 else 0)" "sack_ok sl'"
    "pn_set sl' = pn_set sl \<union> {unat pn64_min..unat pn64_max}" "horizon_delay sl' = horizon_delay sl"
    using update_correct [OF assms(1,3,4), of t] by blast
  moreover have "after_horizon sl' t = sl'" using calculation(4) assms(2) by (simp add: after_horizon_def)
  ultimately show ?thesis by metis
qed

definition demo_sack_list :: sack_list where
  "demo_sack_list = picoquic_sack_list_init\<lparr>ack_items :=
     [\<lparr>start_of_sack_range = 3, end_of_sack_range = 5, time_created = 0, nb_times_sent = (\<lambda>_. 0)\<rparr>]\<rparr>"

lemma demo_sack_list_ok:
  "sack_ok demo_sack_list" "horizon_ok demo_sack_list" "horizon_delay demo_sack_list = 0" "ack_horizon demo_sack_list = 0"
  "pn_set demo_sack_list = {3..5}"
  by (auto simp: demo_sack_list_def sack_ok_def item_ok_def picoquic_sack_list_init_def pn_set_def item_set_def horizon_ok_def)

theorem update_sack_list_adds_interval_witness:
  "\<exists>sl' ret. picoquic_update_sack_list True demo_sack_list 7 8 1 = (sl', ret) \<and>
    pn_set sl' = {3..5} \<union> {7..8} \<and> ret = 0"
  using update_sack_list_adds_interval [of demo_sack_list 7 8 1] by (auto simp: demo_sack_list_ok)

text \<open>
  With a horizon, an update at or above the horizon loses no received number: whatever was
  reported as received, and the new interval, is reported afterwards, and all kept ranges lie above
  the new horizon.
\<close>

theorem horizon_keeps_received:
  fixes t :: u64
  assumes "sack_ok sl" and "horizon_ok sl" and "unat (ack_horizon sl) \<le> unat pn64_min"
    and "unat pn64_min \<le> unat pn64_max" and "unat pn64_max < 2 ^ 62"
  defines "sl' \<equiv> fst (picoquic_update_sack_list True sl pn64_min pn64_max t)"
  shows "received sl \<union> {unat pn64_min..unat pn64_max} \<subseteq> received sl' \<and> horizon_ok sl' \<and> sack_ok sl'"
proof -
  obtain s where s: "sl' = after_horizon s t" "sack_ok s" "pn_set s = pn_set sl \<union> {unat pn64_min..unat pn64_max}"
    "horizon_delay s = horizon_delay sl" "ack_horizon s = ack_horizon sl"
    using update_correct [OF assms(1,4,5), of t] by (auto simp: sl'_def)
  have "horizon_ok s" using assms(2,3) s by (auto simp: horizon_ok_def)
  from after_horizon_correct [OF s(2) this, of t] s show ?thesis
    by (auto simp: received_def)
qed

theorem horizon_keeps_received_witness:
  "{3..5} \<union> {7..8} \<subseteq>
    received (fst (picoquic_update_sack_list True (demo_sack_list\<lparr>horizon_delay := 5\<rparr>) 7 8 1))"
proof -
  let ?sl = "demo_sack_list\<lparr>horizon_delay := 5\<rparr>"
  have same: "pn_set ?sl = pn_set demo_sack_list" by (simp add: pn_set_def)
  have "sack_ok ?sl" "horizon_ok ?sl"
    using demo_sack_list_ok(1,2) by (simp_all add: sack_ok_def horizon_ok_def same)
  from horizon_keeps_received [OF this, of 7 8 1] show ?thesis
    by (simp add: received_def [of ?sl] same demo_sack_list_ok)
qed

text \<open>
  \<open>picoquic_check_sack_list\<close> answers \<open>-1\<close> exactly when the whole interval has been received.
\<close>

theorem check_sack_list_iff:
  assumes "sack_ok sl" and "unat pn64_min \<le> unat pn64_max"
  shows "picoquic_check_sack_list sl pn64_min pn64_max =
    (if {unat pn64_min..unat pn64_max} \<subseteq> pn_set sl then -1 else 0)"
  using find_below_received [OF assms]
  by (auto simp: picoquic_check_sack_list_def split: option.splits)

theorem check_sack_list_iff_witness: "picoquic_check_sack_list demo_sack_list 4 5 = -1"
  using check_sack_list_iff [of demo_sack_list 4 5] by (simp add: demo_sack_list_ok)

subsection \<open>Duplicate detection on a connection\<close>

definition cnx_sack_list :: "ack_cnx \<Rightarrow> packet_context \<Rightarrow> u64 option \<Rightarrow> sack_list" where
  "cnx_sack_list cnx pc l_cid = ctx_sack_list (ack_ctx_read cnx (picoquic_ack_ctx_from_cnx_context cnx pc l_cid))"

lemma already_received_iff:
  assumes "sack_ok (cnx_sack_list cnx pc l_cid)"
  shows "picoquic_is_pn_already_received cnx pc l_cid pn64 \<longleftrightarrow> unat pn64 \<in> received (cnx_sack_list cnx pc l_cid)"
  using find_below_received [OF assms, of pn64 pn64]
  by (auto simp: picoquic_is_pn_already_received_def cnx_sack_list_def [symmetric] received_def Let_def
      word_less_nat_alt split: option.splits)

lemma find_path_from_bound: "find_path_from ps uid i = Some j \<Longrightarrow> i \<le> j \<and> j < i + length ps"
  by (induction ps uid i rule: find_path_from.induct) (force split: if_splits)+

lemma ack_ctx_read_write:
  "(case ref of CnxCtx _ \<Rightarrow> True | PathCtx i \<Rightarrow> i < length (cnx_path cnx)) \<Longrightarrow>
   ack_ctx_read (ack_ctx_write cnx ref c) ref = c"
  by (cases ref) auto

lemma find_path_from_cong:
  "map unique_path_id ps = map unique_path_id qs \<Longrightarrow> find_path_from ps uid i = find_path_from qs uid i"
proof (induction ps uid i arbitrary: qs rule: find_path_from.induct)
  case (2 p ps uid i)
  then show ?case by (cases qs) auto
qed simp

lemma ack_ctx_write_same_ref:
  "picoquic_ack_ctx_from_cnx_context (ack_ctx_write cnx ref c) pc l_cid = picoquic_ack_ctx_from_cnx_context cnx pc l_cid"
proof -
  have "find_path_from (cnx_path (ack_ctx_write cnx ref c)) uid i = find_path_from (cnx_path cnx) uid i" for uid i
  proof (rule find_path_from_cong, cases ref)
    case (PathCtx k)
    then show "map unique_path_id (cnx_path (ack_ctx_write cnx ref c)) = map unique_path_id (cnx_path cnx)"
      by (cases "k < length (cnx_path cnx)") (auto intro!: nth_equalityI simp: nth_list_update)
  qed simp
  moreover have "is_multipath_enabled (ack_ctx_write cnx ref c) = is_multipath_enabled cnx"
    by (cases ref) auto
  ultimately show ?thesis
    by (simp add: picoquic_ack_ctx_from_cnx_context_def picoquic_find_path_by_unique_id_def [abs_def] cong: option.case_cong)
qed

lemma ack_ctx_ref_valid:
  assumes "cnx_path cnx \<noteq> []"
  shows "case picoquic_ack_ctx_from_cnx_context cnx pc l_cid of CnxCtx _ \<Rightarrow> True | PathCtx i \<Rightarrow> i < length (cnx_path cnx)"
  using assms find_path_from_bound [where i = 0 and ps = "cnx_path cnx"]
  by (auto simp: picoquic_ack_ctx_from_cnx_context_def picoquic_find_path_by_unique_id_def split: option.splits)

text \<open>The list of the context after a packet number has been recorded.\<close>

lemma record_pn_sack_list:
  assumes "cnx_path cnx \<noteq> []"
  shows "cnx_sack_list (fst (picoquic_record_pn_received malloc_ok cnx pc l_cid pn64 t)) pc l_cid =
    fst (picoquic_update_sack_list malloc_ok (cnx_sack_list cnx pc l_cid) pn64 pn64 t)"
proof -
  define ref where "ref = picoquic_ack_ctx_from_cnx_context cnx pc l_cid"
  define c1 where "c1 = cnx\<lparr>cnx_ack_ctx := (cnx_ack_ctx cnx)(pc :=
    record_arrival (cnx_ack_ctx cnx pc) (cnx_sack_list cnx pc l_cid) pn64 t)\<rparr>"
  have same: "picoquic_ack_ctx_from_cnx_context c1 pc l_cid = ref"
    by (simp add: c1_def ref_def picoquic_ack_ctx_from_cnx_context_def picoquic_find_path_by_unique_id_def
        cong: option.case_cong)
  have path: "cnx_path c1 = cnx_path cnx" by (simp add: c1_def)
  have valid: "case ref of CnxCtx _ \<Rightarrow> True | PathCtx i \<Rightarrow> i < length (cnx_path c1)"
    using ack_ctx_ref_valid [OF assms] unfolding ref_def path by blast
  have rec: "fst (picoquic_record_pn_received malloc_ok cnx pc l_cid pn64 t) =
      ack_ctx_write c1 ref ((ack_ctx_read c1 ref)\<lparr>ctx_sack_list :=
        fst (picoquic_update_sack_list malloc_ok (cnx_sack_list cnx pc l_cid) pn64 pn64 t)\<rparr>)"
    by (simp add: picoquic_record_pn_received_def c1_def ref_def cnx_sack_list_def Let_def split_beta)
  show ?thesis
    unfolding rec cnx_sack_list_def [of "ack_ctx_write _ _ _"] ack_ctx_write_same_ref same
    by (simp add: ack_ctx_read_write [OF valid])
qed

text \<open>
  A packet is reported as a duplicate exactly when its number lies in a received range or below the
  horizon of the context that its path selects, and once a number has been recorded it is reported as a
  duplicate from then on.
\<close>

theorem recorded_pn_is_duplicate:
  fixes t :: u64
  assumes "cnx_path cnx \<noteq> []" and "sack_ok (cnx_sack_list cnx pc l_cid)" and "horizon_ok (cnx_sack_list cnx pc l_cid)"
    and "\<not> picoquic_is_pn_already_received cnx pc l_cid pn64" and "unat pn64 < 2 ^ 62"
    and "horizon_delay (cnx_sack_list cnx pc l_cid) \<le> 0 \<longrightarrow> ack_horizon (cnx_sack_list cnx pc l_cid) = 0"
  defines "cnx' \<equiv> fst (picoquic_record_pn_received True cnx pc l_cid pn64 t)"
  shows "picoquic_is_pn_already_received cnx' pc l_cid pn64 \<and>
    (\<forall>n. picoquic_is_pn_already_received cnx pc l_cid n \<longrightarrow> picoquic_is_pn_already_received cnx' pc l_cid n) \<and>
    (\<forall>n. picoquic_is_pn_already_received cnx pc l_cid n \<longleftrightarrow> unat n \<in> received (cnx_sack_list cnx pc l_cid))"
proof -
  let ?sl = "cnx_sack_list cnx pc l_cid"
  have sl': "cnx_sack_list cnx' pc l_cid = fst (picoquic_update_sack_list True ?sl pn64 pn64 t)"
    unfolding cnx'_def by (rule record_pn_sack_list [OF assms(1)])
  have "unat (ack_horizon ?sl) \<le> unat pn64"
    using assms(4,6) by (auto simp: already_received_iff [OF assms(2)] received_def not_less split: if_splits)
  then obtain s where s: "fst (picoquic_update_sack_list True ?sl pn64 pn64 t) = after_horizon s t" "sack_ok s"
    "pn_set s = pn_set ?sl \<union> {unat pn64}" "horizon_delay s = horizon_delay ?sl" "ack_horizon s = ack_horizon ?sl"
    and hz: "horizon_ok s"
    using update_correct [OF assms(2) order_refl assms(5), of t] assms(3) by (fastforce simp: horizon_ok_def)
  from after_horizon_correct [OF s(2) hz, of t] s
  have "sack_ok (cnx_sack_list cnx' pc l_cid)"
    "received ?sl \<union> {unat pn64} \<subseteq> received (cnx_sack_list cnx' pc l_cid)"
    by (auto simp: sl' received_def)
  then show ?thesis by (auto simp: already_received_iff assms(2))
qed

definition demo_cnx :: ack_cnx where
  "demo_cnx = (let c = \<lparr>ctx_sack_list = demo_sack_list, time_stamp_largest_received = 0,
       act = (\<lambda>_. \<lparr>highest_ack_sent = 0, ack_needed = False, out_of_order_received = False\<rparr>)\<rparr> in
     \<lparr>is_multipath_enabled = True, cnx_ack_ctx = (\<lambda>_. c),
      cnx_path = [\<lparr>unique_path_id = 0, path_ack_ctx = c\<rparr>]\<rparr>)"

lemma demo_cnx_list: "cnx_sack_list demo_cnx pc None = demo_sack_list"
  by (simp add: cnx_sack_list_def demo_cnx_def picoquic_ack_ctx_from_cnx_context_def Let_def)

theorem recorded_pn_is_duplicate_witness:
  "picoquic_is_pn_already_received (fst (picoquic_record_pn_received True demo_cnx Application None 9 7)) Application None 9"
proof -
  have "\<not> picoquic_is_pn_already_received demo_cnx Application None 9"
    by (simp add: already_received_iff demo_cnx_list demo_sack_list_ok received_def)
  with recorded_pn_is_duplicate [of demo_cnx Application None 9 7] show ?thesis
    by (simp add: demo_cnx_list demo_sack_list_ok) (simp add: demo_cnx_def Let_def)
qed

text \<open>
  When the selected context is that of a path, recording a packet leaves the arrival time stamp and
  the acknowledgement tracking of that path untouched: \<open>picoquic_record_pn_received\<close> writes them to
  \<open>cnx->ack_ctx[pc]\<close> instead.
\<close>

theorem multipath_arrival_not_on_path:
  fixes t pn64 :: u64 and malloc_ok :: bool
  assumes "picoquic_ack_ctx_from_cnx_context cnx pc l_cid = PathCtx i" and "cnx_path cnx \<noteq> []"
  defines "cnx' \<equiv> fst (picoquic_record_pn_received malloc_ok cnx pc l_cid pn64 t)"
  shows "time_stamp_largest_received (path_ack_ctx (cnx_path cnx' ! i)) =
      time_stamp_largest_received (path_ack_ctx (cnx_path cnx ! i)) \<and>
    act (path_ack_ctx (cnx_path cnx' ! i)) = act (path_ack_ctx (cnx_path cnx ! i)) \<and>
    cnx_ack_ctx cnx' pc = record_arrival (cnx_ack_ctx cnx pc) (ctx_sack_list (path_ack_ctx (cnx_path cnx ! i))) pn64 t"
proof -
  have "i < length (cnx_path cnx)" using ack_ctx_ref_valid [OF assms(2), of pc l_cid] assms(1) by simp
  then show ?thesis
    by (simp add: cnx'_def picoquic_record_pn_received_def assms(1) Let_def split_beta)
qed

theorem multipath_arrival_not_on_path_witness:
  "let cnx' = fst (picoquic_record_pn_received True demo_cnx Application None 9 7) in
   time_stamp_largest_received (path_ack_ctx (cnx_path cnx' ! 0)) = 0 \<and>
   time_stamp_largest_received (cnx_ack_ctx cnx' Application) = 7"
proof -
  have "picoquic_ack_ctx_from_cnx_context demo_cnx Application None = PathCtx 0" "cnx_path demo_cnx \<noteq> []"
    by (simp_all add: demo_cnx_def picoquic_ack_ctx_from_cnx_context_def Let_def)
  from multipath_arrival_not_on_path [OF this, of True 9 7] show ?thesis
    by (simp add: Let_def)
      (simp add: demo_cnx_def demo_sack_list_def record_arrival_def picoquic_sack_list_is_empty_def
        picoquic_sack_list_last_def sack_item_at_def picoquic_sack_last_item_def mark_out_of_order_def Let_def)
qed

subsection \<open>The splay tree behind the list\<close>

text \<open>
  The splay tree holds the same sequence as the list: searching finds the same item, inserting and
  deleting through the tree lead to a tree that again stands for the list after the same operation.
\<close>

theorem sack_tree_simulation:
  assumes "tree_of t sl" and "sack_ok sl" and "unat a < 2 ^ 62"
  shows "tree_of (fst (picosplay_insert t \<lparr>start_of_sack_range = a, end_of_sack_range = b, time_created = tm,
        nb_times_sent = (\<lambda>_. 0)\<rparr>)) (fst (picoquic_sack_insert_item True sl a b tm)) \<and>
    (case (picosplay_find_previous t \<lparr>start_of_sack_range = a, end_of_sack_range = 0, time_created = 0,
        nb_times_sent = (\<lambda>_. 0)\<rparr>, picoquic_sack_find_range_below_number sl a) of
       (None, None) \<Rightarrow> True
     | (Some n, Some i) \<Rightarrow> tree_pos t n i \<and>
         tree_of (picosplay_delete_hint t (Some n)) (picoquic_sack_delete_item sl i)
     | _ \<Rightarrow> False)"
  using tree_insert_refines [OF assms] tree_delete_refines [OF assms(1)]
    tree_find_refines [OF assms(1,2), of "\<lparr>start_of_sack_range = a, end_of_sack_range = 0, time_created = 0,
        nb_times_sent = (\<lambda>_. 0)\<rparr>"] assms(3)
  by (auto split: option.splits)

theorem sack_tree_simulation_witness:
  "tree_of (fst (picosplay_insert (picosplay_init_tree picoquic_sack_item_compare Some)
      \<lparr>start_of_sack_range = 4, end_of_sack_range = 6, time_created = 0, nb_times_sent = (\<lambda>_. 0)\<rparr>))
    (fst (picoquic_sack_insert_item True picoquic_sack_list_init 4 6 0))"
proof -
  have "tree_of (picosplay_init_tree picoquic_sack_item_compare Some) picoquic_sack_list_init"
    by (simp add: tree_of_def picosplay_init_tree_def picoquic_sack_list_init_def)
  moreover have "sack_ok picoquic_sack_list_init"
    by (simp add: sack_ok_def picoquic_sack_list_init_def)
  ultimately show ?thesis using sack_tree_simulation [of _ _ 4 6 0] by simp
qed

end
