(* ===== verification/Base64.thy ===== *)
theory Base64
  imports Prelude
begin

text \<open>
  The base64 codec of \<^verbatim>\<open>contrib/libb64\<close> (\<^verbatim>\<open>cencode.c\<close>, \<^verbatim>\<open>cdecode.c\<close>).  Both directions are
  resumable: a call processes one block of input and leaves in its state where in a group of three
  bytes or four characters it stopped.  The \<open>switch\<close> into the \<open>while (1)\<close> loop becomes a recursion on
  the input with the step as an argument; the output pointer is the list of the characters written.
\<close>

subsection \<open>Encoding\<close>

datatype base64_encodestep = step_A | step_B | step_C

record base64_encodestate =
  enc_step :: base64_encodestep
  enc_result :: u8
  stepcount :: int

definition CHARS_PER_LINE :: int where
  "CHARS_PER_LINE = 72"

definition base64_init_encodestate :: base64_encodestate where
  "base64_init_encodestate = \<lparr>enc_step = step_A, enc_result = 0, stepcount = 0\<rparr>"

text \<open>The characters of the alphabet in ASCII; \<open>61\<close> is \<open>'='\<close>.  An argument that is negative as a
  \<open>char\<close> would read outside the array: its value is left unspecified.\<close>

definition base64_alphabet :: bytes where
  "base64_alphabet = map (\<lambda>c. of_nat (of_char c))
     ''ABCDEFGHIJKLMNOPQRSTUVWXYZabcdefghijklmnopqrstuvwxyz0123456789+/''"

definition base64_encode_value :: "u8 \<Rightarrow> u8" where
  "base64_encode_value value_in =
     (if sint value_in > 63 then 61 else base64_alphabet ! unat value_in)"

fun base64_encode_block :: "bytes \<Rightarrow> base64_encodestate \<Rightarrow> bytes \<times> base64_encodestate" where
  "base64_encode_block [] st = ([], st)"
| "base64_encode_block (fragment # plain) st =
     (case enc_step st of
        step_A \<Rightarrow>
          let result = drop_bit 2 (fragment AND 0xFC);
              c = base64_encode_value result;
              result = push_bit 4 (fragment AND 0x03);
              (code, st') = base64_encode_block plain (st\<lparr>enc_step := step_B, enc_result := result\<rparr>)
          in (c # code, st')
      | step_B \<Rightarrow>
          let result = enc_result st OR drop_bit 4 (fragment AND 0xF0);
              c = base64_encode_value result;
              result = push_bit 2 (fragment AND 0x0F);
              (code, st') = base64_encode_block plain (st\<lparr>enc_step := step_C, enc_result := result\<rparr>)
          in (c # code, st')
      | step_C \<Rightarrow>
          let result = enc_result st OR drop_bit 6 (fragment AND 0xC0);
              c = base64_encode_value result;
              result = fragment AND 0x3F;
              d = base64_encode_value result;
              count = stepcount st + 1;
              (nl, count) = (if count = CHARS_PER_LINE div 4 then ([10], 0) else ([], count));
              (code, st') = base64_encode_block plain
                 (st\<lparr>enc_step := step_A, enc_result := result, stepcount := count\<rparr>)
          in (c # d # nl @ code, st'))"

definition base64_encode_blockend :: "base64_encodestate \<Rightarrow> bytes" where
  "base64_encode_blockend st =
     (case enc_step st of
        step_B \<Rightarrow> [base64_encode_value (enc_result st), 61, 61]
      | step_C \<Rightarrow> [base64_encode_value (enc_result st), 61]
      | step_A \<Rightarrow> []) @ [10]"

subsection \<open>Decoding\<close>

datatype base64_decodestep = step_a | step_b | step_c | step_d

record base64_decodestate =
  dec_step :: base64_decodestep
  plainchar :: u8

definition base64_init_decodestate :: base64_decodestate where
  "base64_init_decodestate = \<lparr>dec_step = step_a, plainchar = 0\<rparr>"

definition decoding :: "int list" where
  "decoding = [62, -1, -1, -1, 63, 52, 53, 54, 55, 56, 57, 58, 59, 60, 61, -1, -1, -1, -2, -1,
     -1, -1, 0, 1, 2, 3, 4, 5, 6, 7, 8, 9, 10, 11, 12, 13, 14, 15, 16, 17,
     18, 19, 20, 21, 22, 23, 24, 25, -1, -1, -1, -1, -1, -1, 26, 27, 28, 29, 30, 31,
     32, 33, 34, 35, 36, 37, 38, 39, 40, 41, 42, 43, 44, 45, 46, 47, 48, 49, 50, 51]"

definition base64_decode_value :: "int \<Rightarrow> int" where
  "base64_decode_value value_in =
     (let value_in = value_in - 43 in
      if value_in < 0 \<or> value_in \<ge> int (length decoding) then -1 else decoding ! nat value_in)"

text \<open>
  \<open>decode_loop\<close> is the body of \<open>base64_decode_block\<close> from the given step on: \<open>out\<close> holds the bytes before
  \<open>plainchar\<close> and \<open>cur\<close> the byte it points to.  A character with a negative value is skipped (the inner
  \<open>do\<close> loops).  After a whole group, \<open>plainchar\<close> points to a byte that the call has not written: it still
  has the content \<open>mem\<close> of the caller's buffer.
\<close>

fun decode_loop ::
  "(nat \<Rightarrow> u8) \<Rightarrow> bytes \<Rightarrow> base64_decodestep \<Rightarrow> bytes \<Rightarrow> u8 \<Rightarrow> bytes \<times> base64_decodestate" where
  "decode_loop mem [] step out cur = (out, \<lparr>dec_step = step, plainchar = cur\<rparr>)"
| "decode_loop mem (c # code) step out cur =
     (let v = base64_decode_value (sint c) in
      if v < 0 then decode_loop mem code step out cur
      else
        let fragment = word_of_int v in
        (case step of
           step_a \<Rightarrow> decode_loop mem code step_b out (push_bit 2 (fragment AND 0x3F))
         | step_b \<Rightarrow> decode_loop mem code step_c (out @ [cur OR drop_bit 4 (fragment AND 0x30)])
                      (push_bit 4 (fragment AND 0x0F))
         | step_c \<Rightarrow> decode_loop mem code step_d (out @ [cur OR drop_bit 2 (fragment AND 0x3C)])
                      (push_bit 6 (fragment AND 0x03))
         | step_d \<Rightarrow> decode_loop mem code step_a (out @ [cur OR (fragment AND 0x3F)])
                      (mem (Suc (length out)))))"

definition base64_decode_block ::
  "(nat \<Rightarrow> u8) \<Rightarrow> bytes \<Rightarrow> base64_decodestate \<Rightarrow> bytes \<times> base64_decodestate" where
  "base64_decode_block mem code_in st = decode_loop mem code_in (dec_step st) [] (plainchar st)"

subsection \<open>The alphabet\<close>

lemma length_alphabet: "length base64_alphabet = 64"
  by (simp add: base64_alphabet_def)

lemma all_less_64: "(\<forall>i<64. P i) \<longleftrightarrow> list_all P [0..<64]" for P :: "nat \<Rightarrow> bool"
  by (auto simp: list_all_iff)

lemma alphabet_decoded: "list_all (\<lambda>i. base64_decode_value (sint (base64_alphabet ! i)) = int i) [0..<64]"
  by code_simp

lemma encode_value_decoded:
  assumes "unat v < 64"
  shows "base64_decode_value (sint (base64_encode_value v)) = int (unat v)"
proof -
  have "int (unat v) < 64" using assms by linarith
  then have "sint v = int (unat v)"
    using not_bit_if_less [of v 6 7] assms
    by (simp add: sint_uint signed_take_bit_eq_if_positive bit_uint_iff take_bit_int_eq_self_iff) 
  moreover have "\<not> sint v > 63" using calculation assms by linarith
  ultimately show ?thesis
    using assms alphabet_decoded unfolding all_less_64 [symmetric] by (simp add: base64_encode_value_def)
qed

lemma separators_skipped: "base64_decode_value 61 < 0" "base64_decode_value 10 < 0"
  by code_simp+

subsection \<open>Bits of the groups\<close>

lemma u8_less_64I: "\<not> bit v 6 \<Longrightarrow> \<not> bit v 7 \<Longrightarrow> unat (v :: u8) < 64"
proof -
  assume "\<not> bit v 6" "\<not> bit v 7"
  then have "take_bit 6 v = v" by (intro u8_eqI) (simp_all add: bit_simps)
  with unat_take_bit_less [of 6 v] show ?thesis by simp
qed

lemma group_values:
  "unat (drop_bit 2 (x AND 0xFC) :: u8) < 64"
  "unat (push_bit 4 (x AND 3) OR drop_bit 4 (y AND 0xF0) :: u8) < 64"
  "unat (push_bit 2 (y AND 0xF) OR drop_bit 6 (z AND 0xC0) :: u8) < 64"
  "unat (z AND 0x3F :: u8) < 64"
  "unat (push_bit 4 (x AND 3) :: u8) < 64" "unat (push_bit 2 (y AND 0xF) :: u8) < 64"
  by (rule u8_less_64I; simp add: bit_simps)+

lemma group_bytes:
  "push_bit 2 (drop_bit 2 (x AND 0xFC) AND 0x3F) = (x AND 0xFC :: u8)"
  "(x AND 0xFC) OR drop_bit 4 ((push_bit 4 (x AND 3) OR drop_bit 4 (y AND 0xF0)) AND 0x30) = (x :: u8)"
  "push_bit 4 ((push_bit 4 (x AND 3) OR drop_bit 4 (y AND 0xF0)) AND 0x0F) = (y AND 0xF0 :: u8)"
  "(y AND 0xF0) OR drop_bit 2 ((push_bit 2 (y AND 0xF) OR drop_bit 6 (z AND 0xC0)) AND 0x3C) = (y :: u8)"
  "push_bit 6 ((push_bit 2 (y AND 0xF) OR drop_bit 6 (z AND 0xC0)) AND 3) = (z AND 0xC0 :: u8)"
  "(z AND 0xC0) OR (z AND 0x3F) = (z :: u8)"
  "(x AND 0xFC) OR drop_bit 4 (push_bit 4 (x AND 3) AND 0x30) = (x :: u8)"
  "(y AND 0xF0) OR drop_bit 2 (push_bit 2 (y AND 0xF) AND 0x3C) = (y :: u8)"
  by (rule u8_eqI; simp add: bit_simps)+

text \<open>From here on masks stay inside the shifts, as the source writes them.\<close>

declare push_bit_and [simp del] drop_bit_and [simp del]

subsection \<open>Encoding then decoding\<close>

text \<open>The complete encoding: a block and the end of the text.\<close>

definition encoded :: "bytes \<Rightarrow> base64_encodestate \<Rightarrow> bytes" where
  "encoded plain st = (case base64_encode_block plain st of (code, st') \<Rightarrow> code @ base64_encode_blockend st')"

lemma encoded_AB:
  "enc_step st = step_A \<Longrightarrow> encoded (x # plain) st =
     base64_encode_value (drop_bit 2 (x AND 0xFC)) #
     encoded plain (st\<lparr>enc_step := step_B, enc_result := push_bit 4 (x AND 3)\<rparr>)"
  "enc_step st = step_B \<Longrightarrow> encoded (y # plain) st =
     base64_encode_value (enc_result st OR drop_bit 4 (y AND 0xF0)) #
     encoded plain (st\<lparr>enc_step := step_C, enc_result := push_bit 2 (y AND 0xF)\<rparr>)"
  by (auto simp: encoded_def Let_def split: prod.splits)

lemma encoded_C:
  assumes "enc_step st = step_C"
  shows "\<exists>nl count. set nl \<subseteq> {10} \<and> encoded (z # plain) st =
     base64_encode_value (enc_result st OR drop_bit 6 (z AND 0xC0)) # base64_encode_value (z AND 0x3F) #
     nl @ encoded plain (st\<lparr>enc_step := step_A, enc_result := z AND 0x3F, stepcount := count\<rparr>)"
proof (cases "stepcount st + 1 = CHARS_PER_LINE div 4")
  case True
  then show ?thesis using assms
    by (intro exI [of _ "[10]"] exI [of _ 0]) (simp add: encoded_def split: prod.split)
next
  case False
  then show ?thesis using assms
    by (intro exI [of _ "[]"] exI [of _ "stepcount st + 1"]) (simp add: encoded_def split: prod.split)
qed

lemma decode_value_step:
  assumes "unat v < 64"
  shows "decode_loop mem (base64_encode_value v # code) step out cur =
    (case step of
       step_a \<Rightarrow> decode_loop mem code step_b out (push_bit 2 (v AND 0x3F))
     | step_b \<Rightarrow> decode_loop mem code step_c (out @ [cur OR drop_bit 4 (v AND 0x30)]) (push_bit 4 (v AND 0x0F))
     | step_c \<Rightarrow> decode_loop mem code step_d (out @ [cur OR drop_bit 2 (v AND 0x3C)]) (push_bit 6 (v AND 0x03))
     | step_d \<Rightarrow> decode_loop mem code step_a (out @ [cur OR (v AND 0x3F)]) (mem (Suc (length out))))"
  using encode_value_decoded [OF assms] by (simp add: Let_def)

lemma decode_skip:
  "set seps \<subseteq> {10, 61} \<Longrightarrow> decode_loop mem (seps @ code) step out cur = decode_loop mem code step out cur"
  by (induction seps) (auto simp: separators_skipped)

lemma decode_skip_all: "set seps \<subseteq> {10, 61} \<Longrightarrow> decode_loop mem seps step out cur = (out, \<lparr>dec_step = step, plainchar = cur\<rparr>)"
  using decode_skip [of seps mem "[]"] by simp

text \<open>What the decoder holds while the encoder is inside a group whose last byte is \<open>x\<close>.\<close>

fun in_step :: "base64_encodestate \<Rightarrow> base64_decodestep \<Rightarrow> u8 \<Rightarrow> bytes \<Rightarrow> bool" where
  "in_step st step_a cur pending \<longleftrightarrow> enc_step st = step_A \<and> pending = []"
| "in_step st step_b cur pending \<longleftrightarrow> enc_step st = step_B \<and>
     (\<exists>x. pending = [x] \<and> enc_result st = push_bit 4 (x AND 3) \<and> cur = (x AND 0xFC))"
| "in_step st step_c cur pending \<longleftrightarrow> enc_step st = step_C \<and>
     (\<exists>x. pending = [x] \<and> enc_result st = push_bit 2 (x AND 0xF) \<and> cur = (x AND 0xF0))"
| "in_step st step_d cur pending \<longleftrightarrow> False"

lemma decode_end:
  assumes "in_step st step cur pending"
  shows "fst (decode_loop mem (base64_encode_blockend st) step out cur) = out @ pending"
  using assms
  by (cases step)
    (auto simp: base64_encode_blockend_def decode_value_step group_values group_bytes decode_skip_all
      simp del: decode_loop.simps)

lemma decode_encoded:
  assumes "in_step st step cur pending"
  shows "fst (decode_loop mem (encoded plain st) step out cur) = out @ pending @ plain"
  using assms
proof (induction plain arbitrary: st step cur pending out)
  case Nil
  then show ?case using decode_end by (simp add: encoded_def)
next
  case (Cons b plain)
  show ?case
  proof (cases step)
    case step_a
    then show ?thesis
      using Cons.prems Cons.IH [where step = step_b and pending = "[b]"]
      by (simp add: encoded_AB(1) decode_value_step group_values group_bytes del: decode_loop.simps)
  next
    case step_b
    then show ?thesis
      using Cons.prems Cons.IH [where step = step_c and pending = "[b]"]
      by (auto simp: encoded_AB(2) decode_value_step group_values group_bytes simp del: decode_loop.simps)
  next
    case step_c
    then obtain x where x: "enc_step st = step_C" "pending = [x]" "enc_result st = push_bit 2 (x AND 0xF)" "cur = (x AND 0xF0)"
      using Cons.prems by auto
    obtain nl count where nl: "set nl \<subseteq> {10}" and enc: "encoded (b # plain) st =
     base64_encode_value (enc_result st OR drop_bit 6 (b AND 0xC0)) # base64_encode_value (b AND 0x3F) #
     nl @ encoded plain (st\<lparr>enc_step := step_A, enc_result := b AND 0x3F, stepcount := count\<rparr>)"
      using encoded_C [OF x(1)] by blast
    have "set nl \<subseteq> {10, 61}" using nl by blast
    then show ?thesis
      using x step_c Cons.IH [where step = step_a and pending = "[]"]
      by (simp add: enc decode_value_step group_values group_bytes decode_skip del: decode_loop.simps)
  next
    case step_d
    then show ?thesis using Cons.prems by simp
  qed
qed

subsection \<open>Blocks\<close>

lemma encode_block_append:
  "base64_encode_block (xs @ ys) st =
     (case base64_encode_block xs st of (c1, s1) \<Rightarrow> case base64_encode_block ys s1 of (c2, s2) \<Rightarrow> (c1 @ c2, s2))"
  by (induction xs st rule: base64_encode_block.induct)
    (simp_all add: Let_def split: base64_encodestep.split prod.split)

text \<open>Where the decoder resumes does not depend on the buffer it writes to, except for the byte that
  is saved at \<open>step_a\<close> and overwritten first thing.\<close>

definition same_point :: "base64_decodestate \<Rightarrow> base64_decodestate \<Rightarrow> bool" where
  "same_point s s' \<longleftrightarrow> dec_step s = dec_step s' \<and> (dec_step s = step_a \<or> plainchar s = plainchar s')"

lemma decode_loop_same_point:
  assumes "same_point \<lparr>dec_step = step, plainchar = cur\<rparr> \<lparr>dec_step = step, plainchar = cur'\<rparr>"
  shows "\<exists>new s s'. decode_loop mem code step out cur = (out @ new, s) \<and>
    decode_loop mem' code step out' cur' = (out' @ new, s') \<and> same_point s s'"
  using assms
proof (induction code arbitrary: step out cur out' cur')
  case Nil
  then show ?case by simp
next
  case (Cons c code)
  show ?case
  proof (cases "base64_decode_value (sint c) < 0")
    case True
    then show ?thesis using Cons by simp
  next
    case False
    obtain add step' cur1 cur2 where step: "decode_loop mem (c # code) step out cur = decode_loop mem code step' (out @ add) cur1"
      "decode_loop mem' (c # code) step out' cur' = decode_loop mem' code step' (out' @ add) cur2"
      "same_point \<lparr>dec_step = step', plainchar = cur1\<rparr> \<lparr>dec_step = step', plainchar = cur2\<rparr>"
    proof (cases step)
      case step_a
      with False show thesis by (intro that [where step' = step_b and add = "[]"]) (auto simp: Let_def same_point_def)
    qed (use False Cons.prems in \<open>auto simp: Let_def same_point_def intro: that\<close>)
    show ?thesis using Cons.IH [OF step(3), of "out @ add" "out' @ add"] unfolding step(1,2)
      by (metis append.assoc)
  qed
qed

lemma decode_loop_append:
  "decode_loop mem (xs @ ys) step out cur =
     (case decode_loop mem xs step out cur of (o1, s1) \<Rightarrow> decode_loop mem ys (dec_step s1) o1 (plainchar s1))"
  by (induction mem xs step out cur rule: decode_loop.induct)
    (simp_all add: Let_def split: base64_decodestep.split)

lemma decode_block_append:
  "fst (base64_decode_block mem (xs @ ys) st) =
     (case base64_decode_block m1 xs st of (o1, s1) \<Rightarrow> o1 @ fst (base64_decode_block m2 ys s1))"
proof -
  obtain o1 s s' where xs: "decode_loop mem xs (dec_step st) [] (plainchar st) = (o1, s)"
    "decode_loop m1 xs (dec_step st) [] (plainchar st) = (o1, s')" "same_point s s'"
    using decode_loop_same_point [of "dec_step st" "plainchar st" "plainchar st" mem xs "[]" m1 "[]"]
    by (auto simp: same_point_def)
  have "\<exists>new t t'. decode_loop mem ys (dec_step s) o1 (plainchar s) = (o1 @ new, t) \<and>
      decode_loop m2 ys (dec_step s) [] (plainchar s') = ([] @ new, t') \<and> same_point t t'"
    by (rule decode_loop_same_point) (use xs(3) in \<open>auto simp: same_point_def\<close>)
  then show ?thesis
    using xs by (auto simp: base64_decode_block_def decode_loop_append same_point_def)
qed

text \<open>A sequence of calls, one per block, each with its own output buffer.\<close>

fun encode_blocks :: "bytes list \<Rightarrow> base64_encodestate \<Rightarrow> bytes \<times> base64_encodestate" where
  "encode_blocks [] st = ([], st)"
| "encode_blocks (b # bs) st =
     (case base64_encode_block b st of (c1, s1) \<Rightarrow>
      case encode_blocks bs s1 of (c2, s2) \<Rightarrow> (c1 @ c2, s2))"

fun decode_blocks :: "((nat \<Rightarrow> u8) \<times> bytes) list \<Rightarrow> base64_decodestate \<Rightarrow> bytes" where
  "decode_blocks [] st = []"
| "decode_blocks ((mem, c) # cs) st =
     (case base64_decode_block mem c st of (o1, s1) \<Rightarrow> o1 @ decode_blocks cs s1)"

lemma encode_blocks_concat: "encode_blocks bs st = base64_encode_block (concat bs) st"
  by (induction bs arbitrary: st) (simp_all add: encode_block_append split: prod.split)

lemma decode_blocks_concat: "decode_blocks cs st = fst (base64_decode_block mem (concat (map snd cs)) st)"
proof (induction cs arbitrary: st)
  case Nil
  then show ?case by (simp add: base64_decode_block_def)
next
  case (Cons x cs)
  obtain m c where x: "x = (m, c)" by (cases x)
  show ?case
    using Cons.IH by (simp add: x decode_block_append [of mem c _ _ mem m] split: prod.split)
qed

subsection \<open>Properties\<close>

text \<open>
  C39. Whatever the blocks in which a text is given to the encoder, and whatever the blocks in which the
  encoded text (with its line breaks and padding) is given to the decoder, decoding returns the text,
  independently of what the output buffers held before.
\<close>

theorem base64_stream_roundtrip:
  assumes "encode_blocks blocks base64_init_encodestate = (code, st)"
    and "concat (map snd code_blocks) = code @ base64_encode_blockend st"
  shows "decode_blocks code_blocks base64_init_decodestate = concat blocks"
proof -
  have "encoded (concat blocks) base64_init_encodestate = code @ base64_encode_blockend st"
    using assms(1) by (simp add: encoded_def encode_blocks_concat)
  moreover have "in_step base64_init_encodestate step_a 0 []" by (simp add: base64_init_encodestate_def)
  ultimately show ?thesis
    using decode_encoded [of base64_init_encodestate step_a 0 "[]" "\<lambda>_. 0" "concat blocks" "[]"] assms(2)
    by (simp add: decode_blocks_concat [where mem = "\<lambda>_. 0"] base64_decode_block_def base64_init_decodestate_def)
qed

theorem base64_stream_roundtrip_witness:
  "decode_blocks [(\<lambda>_. 7, [77]), (\<lambda>_. 9, [84, 73, 61, 10])] base64_init_decodestate = concat [[49], [50]]"
proof (rule base64_stream_roundtrip)
  show "encode_blocks [[49], [50]] base64_init_encodestate =
      ([77, 84], \<lparr>enc_step = step_C, enc_result = 8, stepcount = 0\<rparr>)"
    by code_simp
  show "concat (map snd [(\<lambda>_ :: nat. 7, [77]), (\<lambda>_. 9, [84, 73, 61, 10])]) =
      [77, 84] @ base64_encode_blockend \<lparr>enc_step = step_C, enc_result = 8, stepcount = 0\<rparr>"
    by code_simp
qed

text \<open>The number of bytes of the current group that the encoder has taken.\<close>

fun taken :: "base64_encodestep \<Rightarrow> nat" where
  "taken step_A = 0"
| "taken step_B = 1"
| "taken step_C = 2"

lemma length_encoded:
  assumes "stepcount st = int k" and "k < 18"
  shows "length (encoded plain st) + taken (enc_step st) =
    4 * ((length plain + taken (enc_step st) + 2) div 3) + (k + (length plain + taken (enc_step st)) div 3) div 18 + 1"
  using assms
proof (induction plain arbitrary: st k)
  case Nil
  then show ?case
    by (cases "enc_step st") (simp_all add: encoded_def base64_encode_blockend_def)
next
  case (Cons x plain)
  show ?case
  proof (cases "enc_step st")
    case step_A
    with Cons.IH [of "st\<lparr>enc_step := step_B, enc_result := push_bit 4 (x AND 3)\<rparr>" k] Cons.prems
    show ?thesis by (simp add: encoded_AB(1))
  next
    case step_B
    with Cons.IH [of "st\<lparr>enc_step := step_C, enc_result := push_bit 2 (x AND 0xF)\<rparr>" k] Cons.prems
    show ?thesis by (simp add: encoded_AB(2))
  next
    case step_C
    let ?n = "length plain"
    define k' where "k' = (if k = 17 then 0 else Suc k)"
    define st' where "st' = st\<lparr>enc_step := step_A, enc_result := x AND 0x3F, stepcount := int k'\<rparr>"
    have enc: "length (encoded (x # plain) st) = 2 + of_bool (k = 17) + length (encoded plain st')"
      using step_C Cons.prems
      by (auto simp: encoded_def CHARS_PER_LINE_def k'_def st'_def algebra_simps split: prod.splits)
    have "length (encoded plain st') = 4 * ((?n + 2) div 3) + (k' + ?n div 3) div 18 + 1"
      using Cons.IH [of st' k'] Cons.prems by (simp add: st'_def k'_def)
    moreover have "(k + (?n + 3) div 3) div 18 = of_bool (k = 17) + (k' + ?n div 3) div 18"
    proof -
      have "(?n + 3) div 3 = Suc (?n div 3)" by simp
      moreover have "(17 + Suc (?n div 3)) div 18 = Suc (?n div 3 div 18)" using div_add_self1 [of 18 "?n div 3"] by simp
      ultimately show ?thesis by (simp add: k'_def)
    qed
    moreover have "(?n + 5) div 3 = Suc ((?n + 2) div 3)" using div_add_self1 [of 3 "?n + 2"] by (simp add: add.commute)
    ultimately show ?thesis
      using enc step_C by (simp add: add.commute)
  qed
qed

text \<open>
  The encoding of \<open>n\<close> bytes takes four characters for every started group of three, one line break
  after each full line of 72 characters and one at the end, which is what the caller must provide.
\<close>

theorem base64_encoded_length:
  "(case base64_encode_block plain base64_init_encodestate of (code, st) \<Rightarrow>
      length (code @ base64_encode_blockend st)) = 4 * ((length plain + 2) div 3) + length plain div 54 + 1"
proof -
  have "length plain div 3 div 18 = length plain div 54" by (simp add: div_mult2_eq [symmetric])
  then show ?thesis
    using length_encoded [of base64_init_encodestate 0 plain]
    by (simp add: encoded_def base64_init_encodestate_def split: prod.splits)
qed

end
