(* ===== verification/Crc32.thy ===== *)
theory Crc32
  imports Prelude
begin

text \<open>
  The CRC-32C wrapper of \<^verbatim>\<open>contrib/crc32/crc32_wrapper.c\<close>, with the table of
  \<^verbatim>\<open>crc32_constants.h\<close> (configuration \<open>REFLECT\<close> and \<open>CRC_XOR\<close>, as that header sets it).  The
  vector routine of \<^verbatim>\<open>crc32.S\<close> is a parameter.  The properties show that the table is the
  byte-wise form of the reflected polynomial \<open>0x82F63B78\<close>, and that the wrapper computes the bit-serial
  CRC whatever the alignment of the buffer.
\<close>

definition crc_table :: "u32 list" where
  "crc_table = [
     0x00000000, 0xf26b8303, 0xe13b70f7, 0x1350f3f4, 0xc79a971f, 0x35f1141c, 0x26a1e7e8, 0xd4ca64eb,
     0x8ad958cf, 0x78b2dbcc, 0x6be22838, 0x9989ab3b, 0x4d43cfd0, 0xbf284cd3, 0xac78bf27, 0x5e133c24,
     0x105ec76f, 0xe235446c, 0xf165b798, 0x030e349b, 0xd7c45070, 0x25afd373, 0x36ff2087, 0xc494a384,
     0x9a879fa0, 0x68ec1ca3, 0x7bbcef57, 0x89d76c54, 0x5d1d08bf, 0xaf768bbc, 0xbc267848, 0x4e4dfb4b,
     0x20bd8ede, 0xd2d60ddd, 0xc186fe29, 0x33ed7d2a, 0xe72719c1, 0x154c9ac2, 0x061c6936, 0xf477ea35,
     0xaa64d611, 0x580f5512, 0x4b5fa6e6, 0xb93425e5, 0x6dfe410e, 0x9f95c20d, 0x8cc531f9, 0x7eaeb2fa,
     0x30e349b1, 0xc288cab2, 0xd1d83946, 0x23b3ba45, 0xf779deae, 0x05125dad, 0x1642ae59, 0xe4292d5a,
     0xba3a117e, 0x4851927d, 0x5b016189, 0xa96ae28a, 0x7da08661, 0x8fcb0562, 0x9c9bf696, 0x6ef07595,
     0x417b1dbc, 0xb3109ebf, 0xa0406d4b, 0x522bee48, 0x86e18aa3, 0x748a09a0, 0x67dafa54, 0x95b17957,
     0xcba24573, 0x39c9c670, 0x2a993584, 0xd8f2b687, 0x0c38d26c, 0xfe53516f, 0xed03a29b, 0x1f682198,
     0x5125dad3, 0xa34e59d0, 0xb01eaa24, 0x42752927, 0x96bf4dcc, 0x64d4cecf, 0x77843d3b, 0x85efbe38,
     0xdbfc821c, 0x2997011f, 0x3ac7f2eb, 0xc8ac71e8, 0x1c661503, 0xee0d9600, 0xfd5d65f4, 0x0f36e6f7,
     0x61c69362, 0x93ad1061, 0x80fde395, 0x72966096, 0xa65c047d, 0x5437877e, 0x4767748a, 0xb50cf789,
     0xeb1fcbad, 0x197448ae, 0x0a24bb5a, 0xf84f3859, 0x2c855cb2, 0xdeeedfb1, 0xcdbe2c45, 0x3fd5af46,
     0x7198540d, 0x83f3d70e, 0x90a324fa, 0x62c8a7f9, 0xb602c312, 0x44694011, 0x5739b3e5, 0xa55230e6,
     0xfb410cc2, 0x092a8fc1, 0x1a7a7c35, 0xe811ff36, 0x3cdb9bdd, 0xceb018de, 0xdde0eb2a, 0x2f8b6829,
     0x82f63b78, 0x709db87b, 0x63cd4b8f, 0x91a6c88c, 0x456cac67, 0xb7072f64, 0xa457dc90, 0x563c5f93,
     0x082f63b7, 0xfa44e0b4, 0xe9141340, 0x1b7f9043, 0xcfb5f4a8, 0x3dde77ab, 0x2e8e845f, 0xdce5075c,
     0x92a8fc17, 0x60c37f14, 0x73938ce0, 0x81f80fe3, 0x55326b08, 0xa759e80b, 0xb4091bff, 0x466298fc,
     0x1871a4d8, 0xea1a27db, 0xf94ad42f, 0x0b21572c, 0xdfeb33c7, 0x2d80b0c4, 0x3ed04330, 0xccbbc033,
     0xa24bb5a6, 0x502036a5, 0x4370c551, 0xb11b4652, 0x65d122b9, 0x97baa1ba, 0x84ea524e, 0x7681d14d,
     0x2892ed69, 0xdaf96e6a, 0xc9a99d9e, 0x3bc21e9d, 0xef087a76, 0x1d63f975, 0x0e330a81, 0xfc588982,
     0xb21572c9, 0x407ef1ca, 0x532e023e, 0xa145813d, 0x758fe5d6, 0x87e466d5, 0x94b49521, 0x66df1622,
     0x38cc2a06, 0xcaa7a905, 0xd9f75af1, 0x2b9cd9f2, 0xff56bd19, 0x0d3d3e1a, 0x1e6dcdee, 0xec064eed,
     0xc38d26c4, 0x31e6a5c7, 0x22b65633, 0xd0ddd530, 0x0417b1db, 0xf67c32d8, 0xe52cc12c, 0x1747422f,
     0x49547e0b, 0xbb3ffd08, 0xa86f0efc, 0x5a048dff, 0x8ecee914, 0x7ca56a17, 0x6ff599e3, 0x9d9e1ae0,
     0xd3d3e1ab, 0x21b862a8, 0x32e8915c, 0xc083125f, 0x144976b4, 0xe622f5b7, 0xf5720643, 0x07198540,
     0x590ab964, 0xab613a67, 0xb831c993, 0x4a5a4a90, 0x9e902e7b, 0x6cfbad78, 0x7fab5e8c, 0x8dc0dd8f,
     0xe330a81a, 0x115b2b19, 0x020bd8ed, 0xf0605bee, 0x24aa3f05, 0xd6c1bc06, 0xc5914ff2, 0x37faccf1,
     0x69e9f0d5, 0x9b8273d6, 0x88d28022, 0x7ab90321, 0xae7367ca, 0x5c18e4c9, 0x4f48173d, 0xbd23943e,
     0xf36e6f75, 0x0105ec76, 0x12551f82, 0xe03e9c81, 0x34f4f86a, 0xc69f7b69, 0xd5cf889d, 0x27a40b9e,
     0x79b737ba, 0x8bdcb4b9, 0x988c474d, 0x6ae7c44e, 0xbe2da0a5, 0x4c4623a6, 0x5f16d052, 0xad7d5351]"

definition VMX_ALIGN :: nat where "VMX_ALIGN = 16"
definition VMX_ALIGN_MASK :: nat where "VMX_ALIGN_MASK = VMX_ALIGN - 1"

fun crc32_align :: "u32 \<Rightarrow> bytes \<Rightarrow> u32" where
  "crc32_align crc [] = crc"
| "crc32_align crc (b # p) =
     crc32_align (crc_table ! unat ((crc XOR ucast b) AND 0xFF) XOR drop_bit 8 crc) p"

text \<open>
  \<open>CRC32_FUNCTION\<close> on the bytes \<open>p\<close> that lie at address \<open>addr\<close>; \<open>asm\<close> is \<open>CRC32_FUNCTION_ASM\<close> and
  \<open>powerpc64\<close> tells whether \<open>__powerpc64\<close> is defined: without it the body is compiled out.
\<close>

definition CRC32_FUNCTION ::
  "bool \<Rightarrow> (u32 \<Rightarrow> nat \<Rightarrow> bytes \<Rightarrow> u32) \<Rightarrow> u32 \<Rightarrow> nat \<Rightarrow> bytes \<Rightarrow> u32" where
  "CRC32_FUNCTION powerpc64 asm crc addr p =
     (if \<not> powerpc64 then crc
      else
        let crc = crc XOR 0xFFFFFFFF in
        if length p < VMX_ALIGN + VMX_ALIGN_MASK then crc32_align crc p XOR 0xFFFFFFFF
        else
          let (crc, addr, p) =
                (if addr mod VMX_ALIGN \<noteq> 0 then
                   (let prealign = VMX_ALIGN - addr mod VMX_ALIGN
                    in (crc32_align crc (take prealign p), addr + prealign, drop prealign p))
                 else (crc, addr, p));
              body = length p - length p mod VMX_ALIGN;
              crc = asm crc addr (take body p);
              tail = length p mod VMX_ALIGN;
              crc = (if tail \<noteq> 0 then crc32_align crc (take tail (drop body p)) else crc)
          in crc XOR 0xFFFFFFFF)"

subsection \<open>The bit-serial CRC\<close>

definition crc_bit :: "u32 \<Rightarrow> u32" where
  "crc_bit c = (if bit c 0 then drop_bit 1 c XOR 0x82F63B78 else drop_bit 1 c)"

definition crc_byte :: "u32 \<Rightarrow> u8 \<Rightarrow> u32" where
  "crc_byte c b = (crc_bit ^^ 8) (c XOR ucast b)"

definition crc32c_bits :: "u32 \<Rightarrow> bytes \<Rightarrow> u32" where
  "crc32c_bits c p = foldl crc_byte c p"

lemma crc_bit_xor: "crc_bit (a XOR b) = crc_bit a XOR crc_bit b"
  by (auto simp: crc_bit_def bit_xor_iff bit_eq_iff [of "_ :: u32"] bit_simps)

lemma crc_bits_xor: "(crc_bit ^^ n) (a XOR b) = (crc_bit ^^ n) a XOR (crc_bit ^^ n) b"
  by (induction n) (simp_all add: crc_bit_xor)

text \<open>Bits that are far from the low end are only shifted.\<close>

lemma crc_bits_high: "(\<forall>i<n. \<not> bit x i) \<Longrightarrow> (crc_bit ^^ n) x = drop_bit n x"
proof (induction n)
  case (Suc n)
  then have "(crc_bit ^^ n) x = drop_bit n x" by simp
  moreover have "\<not> bit (drop_bit n x) 0" using Suc.prems by (simp add: bit_drop_bit_eq)
  ultimately show ?case by (simp add: crc_bit_def [of "drop_bit n x"] del: bit_0)
qed simp

text \<open>The table is closed under exclusive or, so it is determined by its entries at powers of two.\<close>

definition double_up :: "u32 list \<Rightarrow> u32 \<Rightarrow> u32 list" where
  "double_up t b = t @ map (\<lambda>x. x XOR b) t"

lemma crc_table_doubled:
  "crc_table = foldl double_up [0]
     [0xf26b8303, 0xe13b70f7, 0xc79a971f, 0x8ad958cf, 0x105ec76f, 0x20bd8ede, 0x417b1dbc, 0x82f63b78]"
  by (simp add: double_up_def crc_table_def)

lemma crc_table_powers:
  "map (\<lambda>k. (crc_bit ^^ 8) (2 ^ k)) [0..<8] =
     [0xf26b8303, 0xe13b70f7, 0xc79a971f, 0x8ad958cf, 0x105ec76f, 0x20bd8ede, 0x417b1dbc, 0x82f63b78]"
  by code_simp

lemma of_nat_add_power:
  assumes "i < 2 ^ k" and "k < 32"
  shows "(of_nat (2 ^ k + i) :: u32) = of_nat i XOR 2 ^ k"
proof -
  have small: "unat (of_nat i :: u32) = i"
    using assms power_strict_increasing [of k 32 "2 :: nat"] by (simp add: unat_of_nat)
  then have "\<not> bit (of_nat i :: u32) k" using not_bit_if_less [of "of_nat i :: u32" k k] assms(1) by simp
  then have "(of_nat i :: u32) AND 2 ^ k = 0"
    by (auto intro!: bit_word_eqI simp: bit_simps bit_exp_iff)
  then have "(of_nat i :: u32) + 2 ^ k = of_nat i OR 2 ^ k" by (rule disjunctive_add_eq_or)
  also have "\<dots> = of_nat i XOR 2 ^ k"
    using \<open>\<not> bit (of_nat i :: u32) k\<close> by (auto intro!: bit_word_eqI simp: bit_simps bit_exp_iff)
  finally show ?thesis by (simp add: add.commute)
qed

lemma doubled_table:
  fixes g :: "u32 \<Rightarrow> u32"
  assumes lin: "\<And>a b. g (a XOR b) = g a XOR g b" and "n \<le> 32"
  shows "foldl double_up [0] (map (\<lambda>k. g (2 ^ k)) [0..<n]) = map (\<lambda>i. g (of_nat i)) [0..<2 ^ n]"
  using assms(2)
proof (induction n)
  case 0
  have "g 0 = 0" using lin [of 0 0] by simp
  then show ?case by simp
next
  case (Suc n)
  have "[0..<2 ^ Suc n] = [0..<2 ^ n] @ map (\<lambda>i. 2 ^ n + i) [0..<2 ^ n]"
    using upt_add_eq_append [of 0 "2 ^ n" "2 ^ n"] map_add_upt [of "2 ^ n" "2 ^ n"] by (simp add: mult_2 add.commute)
  moreover have "g (of_nat (2 ^ n + i)) = g (of_nat i) XOR g (2 ^ n)" if "i < 2 ^ n" for i
    using of_nat_add_power [OF that] Suc.prems lin by simp
  ultimately show ?case
    using Suc by (simp add: double_up_def [of "map _ _"] o_def del: of_nat_add)
qed

lemma crc_table_nth: "i < 256 \<Longrightarrow> crc_table ! i = (crc_bit ^^ 8) (of_nat i)"
proof -
  assume "i < 256"
  have "crc_table = map (\<lambda>i. (crc_bit ^^ 8) (of_nat i)) [0..<2 ^ 8]"
    using doubled_table [of "crc_bit ^^ 8" 8, OF crc_bits_xor]
    unfolding crc_table_powers crc_table_doubled [symmetric] by simp
  from arg_cong [OF this, of "\<lambda>t. t ! i"] \<open>i < 256\<close> show ?thesis by (simp add: nth_map)
qed

lemma crc32_align_step: "crc_table ! unat ((crc XOR ucast b) AND 0xFF) XOR drop_bit 8 crc = crc_byte crc b"
proof -
  let ?x = "crc XOR ucast b"
  have mask: "?x AND 0xFF = take_bit 8 ?x" by (simp add: take_bit_eq_mask mask_numeral)
  have "unat (take_bit 8 ?x) < 256" using unat_take_bit_less [of 8 ?x] by simp
  then have "crc_table ! unat (?x AND 0xFF) = (crc_bit ^^ 8) (take_bit 8 ?x)"
    by (simp add: mask crc_table_nth)
  moreover have "drop_bit 8 crc = (crc_bit ^^ 8) (push_bit 8 (drop_bit 8 ?x))"
  proof -
    have "drop_bit 8 crc = drop_bit 8 (push_bit 8 (drop_bit 8 ?x))"
      by (rule bit_word_eqI) (auto simp: bit_simps dest: bit_imp_le_length)
    also have "\<dots> = (crc_bit ^^ 8) (push_bit 8 (drop_bit 8 ?x))"
      by (rule crc_bits_high [symmetric]) (auto simp: bit_simps)
    finally show ?thesis .
  qed
  moreover have "take_bit 8 ?x XOR push_bit 8 (drop_bit 8 ?x) = ?x"
    by (rule bit_word_eqI) (auto simp: bit_simps not_less elim: contrapos_np)
  ultimately show ?thesis unfolding crc_byte_def by (metis crc_bits_xor)
qed

lemma crc32_align_bits: "crc32_align crc p = crc32c_bits crc p"
  by (induction crc p rule: crc32_align.induct) (simp_all only: crc32_align.simps crc32_align_step crc32c_bits_def foldl.simps)

lemma crc32c_bits_append: "crc32c_bits c (p @ q) = crc32c_bits (crc32c_bits c p) q"
  by (simp add: crc32c_bits_def)

text \<open>What the wrapper relies on: on an aligned, non-empty buffer of whole vectors the assembly routine
  computes the same function as the byte loop.\<close>

definition asm_computes_crc :: "(u32 \<Rightarrow> nat \<Rightarrow> bytes \<Rightarrow> u32) \<Rightarrow> bool" where
  "asm_computes_crc asm \<longleftrightarrow> (\<forall>crc addr p. VMX_ALIGN dvd addr \<longrightarrow> VMX_ALIGN dvd length p \<longrightarrow> p \<noteq> [] \<longrightarrow>
     asm crc addr p = crc32_align crc p)"

subsection \<open>Properties\<close>

text \<open>
  The wrapper computes the bit-serial CRC-32C of the whole buffer, with the customary inversion before
  and after, for every length and every alignment of the buffer, given that the assembly routine does so
  on aligned whole vectors.
\<close>

theorem crc32_wrapper_correct:
  assumes "asm_computes_crc asm"
  shows "CRC32_FUNCTION True asm crc addr p = crc32c_bits (crc XOR 0xFFFFFFFF) p XOR 0xFFFFFFFF"
proof (cases "length p < VMX_ALIGN + VMX_ALIGN_MASK")
  case True
  then show ?thesis by (simp add: CRC32_FUNCTION_def crc32_align_bits)
next
  case False
  define pre where "pre = (if addr mod VMX_ALIGN \<noteq> 0 then VMX_ALIGN - addr mod VMX_ALIGN else 0)"
  define q where "q = drop pre p"
  define body where "body = length q - length q mod VMX_ALIGN"
  have len: "16 \<le> length q"
    using False by (auto simp: pre_def q_def VMX_ALIGN_def VMX_ALIGN_MASK_def)
  then have "0 < body" using mod_less_divisor [of 16 "length q"] by (simp add: body_def VMX_ALIGN_def)
  then have ne: "take body q \<noteq> []" using len by auto
  have "VMX_ALIGN dvd addr + pre"
    unfolding pre_def VMX_ALIGN_def by presburger
  moreover have "VMX_ALIGN dvd length (take body q)"
    by (simp add: body_def min.absorb2 VMX_ALIGN_def dvd_minus_mod)
  ultimately have asm: "asm c (addr + pre) (take body q) = crc32c_bits c (take body q)" for c
    using assms ne by (simp add: asm_computes_crc_def crc32_align_bits)
  have no_tail: "(if length q mod VMX_ALIGN \<noteq> 0 then crc32c_bits c (drop body q) else c) = crc32c_bits c (drop body q)" for c
    by (simp add: body_def crc32c_bits_def)
  have prealigned: "(if addr mod VMX_ALIGN \<noteq> 0 then (crc32c_bits c (take (VMX_ALIGN - addr mod VMX_ALIGN) p),
      addr + (VMX_ALIGN - addr mod VMX_ALIGN), drop (VMX_ALIGN - addr mod VMX_ALIGN) p) else (c, addr, p)) =
    (crc32c_bits c (take pre p), addr + pre, q)" for c
    by (simp add: pre_def q_def crc32c_bits_def)
  have tail: "take (length q mod VMX_ALIGN) (drop body q) = drop body q"
    by (simp add: body_def)
  have "CRC32_FUNCTION True asm crc addr p =
      crc32c_bits (crc32c_bits (crc32c_bits (crc XOR 0xFFFFFFFF) (take pre p)) (take body q)) (drop body q) XOR 0xFFFFFFFF"
    using False
    by (simp only: CRC32_FUNCTION_def Let_def prealigned prod.case if_False not_True_eq_False
        body_def [symmetric] asm tail crc32_align_bits no_tail)
  also have "\<dots> = crc32c_bits (crc XOR 0xFFFFFFFF) p XOR 0xFFFFFFFF"
    by (simp only: crc32c_bits_append [symmetric] append_assoc append_take_drop_id) (simp add: q_def)
  finally show ?thesis .
qed

theorem crc32_wrapper_correct_witness:
  "CRC32_FUNCTION True (\<lambda>crc addr p. crc32_align crc p) 0 3 [49] = crc32c_bits 0xFFFFFFFF [49] XOR 0xFFFFFFFF"
  using crc32_wrapper_correct [of "\<lambda>crc addr p. crc32_align crc p" 0 3 "[49]"] by (simp add: asm_computes_crc_def)

text \<open>
  The table-driven loop, and hence the table of \<^verbatim>\<open>crc32_constants.h\<close>, is the bit-serial division
  by the reflected Castagnoli polynomial.
\<close>

theorem crc32_table_is_bitwise:
  "crc32_align crc p = foldl (\<lambda>c b. (crc_bit ^^ 8) (c XOR ucast b)) crc p"
  using crc32_align_bits by (simp add: crc32c_bits_def crc_byte_def [abs_def])

end
