(* ===== verification/SipHash.thy ===== *)
theory SipHash
  imports Prelude
begin

text \<open>
  The keyed hash functions of \<^verbatim>\<open>picoquic/siphash.c\<close> and \<^verbatim>\<open>picohash.c\<close>.  The four words of the
  SipHash state are a tuple; the input is the list of its bytes.
\<close>

definition cROUNDS :: nat where "cROUNDS = 2"
definition dROUNDS :: nat where "dROUNDS = 4"

definition ROTL :: "u64 \<Rightarrow> nat \<Rightarrow> u64" where
  "ROTL x b = push_bit b x OR drop_bit (64 - b) x"

definition U32TO8_LE :: "u32 \<Rightarrow> bytes" where
  "U32TO8_LE v = [byte_at 0 v, byte_at 8 v, byte_at 16 v, byte_at 24 v]"

definition U64TO8_LE :: "u64 \<Rightarrow> bytes" where
  "U64TO8_LE v = U32TO8_LE (ucast v) @ U32TO8_LE (ucast (drop_bit 32 v))"

definition U8TO64_LE :: "bytes \<Rightarrow> u64" where
  "U8TO64_LE p = ucast (p ! 0) OR push_bit 8 (ucast (p ! 1)) OR push_bit 16 (ucast (p ! 2)) OR
     push_bit 24 (ucast (p ! 3)) OR push_bit 32 (ucast (p ! 4)) OR push_bit 40 (ucast (p ! 5)) OR
     push_bit 48 (ucast (p ! 6)) OR push_bit 56 (ucast (p ! 7))"

type_synonym sip_state = "u64 \<times> u64 \<times> u64 \<times> u64"

definition SIPROUND :: "sip_state \<Rightarrow> sip_state" where
  "SIPROUND s = (let (v0, v1, v2, v3) = s;
       v0 = v0 + v1; v1 = ROTL v1 13; v1 = v1 XOR v0; v0 = ROTL v0 32;
       v2 = v2 + v3; v3 = ROTL v3 16; v3 = v3 XOR v2;
       v0 = v0 + v3; v3 = ROTL v3 21; v3 = v3 XOR v0;
       v2 = v2 + v1; v1 = ROTL v1 17; v1 = v1 XOR v2; v2 = ROTL v2 32
     in (v0, v1, v2, v3))"

text \<open>One word of input: \<open>v3 ^= m\<close>, the compression rounds, \<open>v0 ^= m\<close>.\<close>

definition sip_absorb :: "u64 \<Rightarrow> sip_state \<Rightarrow> sip_state" where
  "sip_absorb m s = (let (v0, v1, v2, v3) = s;
       (v0, v1, v2, v3) = (SIPROUND ^^ cROUNDS) (v0, v1, v2, v3 XOR m)
     in (v0 XOR m, v1, v2, v3))"

text \<open>The loop over the whole words of the input: the state and the bytes that are left.\<close>

fun sip_words :: "bytes \<Rightarrow> sip_state \<Rightarrow> sip_state \<times> bytes" where
  "sip_words (a # b # c # d # e # f # g # h # ni) s =
     sip_words ni (sip_absorb (U8TO64_LE [a, b, c, d, e, f, g, h]) s)"
| "sip_words ni s = (s, ni)"

text \<open>The \<open>switch\<close> that falls through from \<open>left\<close> down to 1.\<close>

fun sip_left :: "bytes \<Rightarrow> nat \<Rightarrow> u64 \<Rightarrow> u64" where
  "sip_left ni 0 b = b"
| "sip_left ni (Suc i) b = sip_left ni i (b OR push_bit (8 * i) (ucast (ni ! i)))"

definition sip_final :: "sip_state \<Rightarrow> u64" where
  "sip_final s = (let (v0, v1, v2, v3) = s in v0 XOR v1 XOR v2 XOR v3)"

definition siphash :: "bytes \<Rightarrow> bytes \<Rightarrow> nat \<Rightarrow> bytes" where
  "siphash inp k outlen =
     (let k0 = U8TO64_LE k;
          k1 = U8TO64_LE (drop 8 k);
          left = length inp mod 8;
          b = push_bit 56 (of_nat (length inp));
          v3 = 0x7465646279746573 XOR k1;
          v2 = 0x6c7967656e657261 XOR k0;
          v1 = 0x646f72616e646f6d XOR k1;
          v0 = 0x736f6d6570736575 XOR k0;
          v1 = (if outlen = 16 then v1 XOR 0xee else v1);
          (s, ni) = sip_words inp (v0, v1, v2, v3);
          b = sip_left ni left b;
          (v0, v1, v2, v3) = sip_absorb b s;
          v2 = (if outlen = 16 then v2 XOR 0xee else v2 XOR 0xff);
          s = (SIPROUND ^^ dROUNDS) (v0, v1, v2, v3);
          out = U64TO8_LE (sip_final s)
      in if outlen = 8 then out
         else
           let (v0, v1, v2, v3) = s;
               s = (SIPROUND ^^ dROUNDS) (v0, v1 XOR 0xdd, v2, v3)
           in out @ U64TO8_LE (sip_final s))"

text \<open>The little-endian sum with which \<^verbatim>\<open>picohash.c\<close> reads eight bytes.\<close>

definition read_le_sum :: "bytes \<Rightarrow> u64" where
  "read_le_sum p = ucast (p ! 0) + push_bit 8 (ucast (p ! 1)) + push_bit 16 (ucast (p ! 2)) +
     push_bit 24 (ucast (p ! 3)) + push_bit 32 (ucast (p ! 4)) + push_bit 40 (ucast (p ! 5)) +
     push_bit 48 (ucast (p ! 6)) + push_bit 56 (ucast (p ! 7))"

definition picohash_siphash :: "bytes \<Rightarrow> bytes \<Rightarrow> u64" where
  "picohash_siphash bytes hash_seed = read_le_sum (siphash bytes hash_seed 8)"

text \<open>\<open>picohash_bytes\<close>: the loop carries \<open>hash\<close>, \<open>rotate\<close> (here \<open>rot\<close>) and the index of the seed byte.\<close>

fun picohash_loop :: "bytes \<Rightarrow> bytes \<Rightarrow> nat \<Rightarrow> u64 \<Rightarrow> nat \<Rightarrow> u64 \<times> nat" where
  "picohash_loop seed [] i hash rot = (hash, rot)"
| "picohash_loop seed (b # bytes) i hash rot =
     (let hash = hash XOR ucast b;
          hash = hash XOR ucast (seed ! (i mod 16));
          hash = hash XOR push_bit 8 hash;
          hash = hash + drop_bit rot hash
      in picohash_loop seed bytes (Suc i) hash (unat (hash AND 31) + 11))"

definition picohash_bytes :: "bytes \<Rightarrow> bytes \<Rightarrow> u64" where
  "picohash_bytes bytes hash_seed =
     (let (hash, rot) = picohash_loop hash_seed bytes 0 (read_le_sum (drop 8 hash_seed)) 11
      in hash XOR drop_bit rot hash)"

subsection \<open>Little-endian words\<close>

definition below :: "nat \<Rightarrow> u64 \<Rightarrow> bool" where
  "below k x \<longleftrightarrow> (\<forall>i\<ge>k. \<not> bit x i)"

lemma below_byte: "below 8 (ucast (b :: u8))"
  by (auto simp: below_def bit_simps dest: bit_imp_le_length)

lemma below_add:
  assumes "below k x"
  shows "x + push_bit k (ucast (b :: u8)) = x OR push_bit k (ucast b)" and "below (k + 8) (x OR push_bit k (ucast b))"
proof -
  have "x AND push_bit k (ucast b) = 0"
    using assms by (intro bit_word_eqI) (auto simp: below_def bit_simps)
  then show "x + push_bit k (ucast b) = x OR push_bit k (ucast b)" by (rule disjunctive_add_eq_or)
  show "below (k + 8) (x OR push_bit k (ucast b))"
    using assms by (auto simp: below_def bit_simps dest: bit_imp_le_length)
qed

lemma read_le_sum_eq: "read_le_sum p = U8TO64_LE p"
proof -
  note b8 = below_byte [of "p ! 0"]
  note b16 = below_add [OF b8, of "p ! 1", simplified]
  note b24 = below_add [OF b16(2), of "p ! 2", simplified]
  note b32 = below_add [OF b24(2), of "p ! 3", simplified]
  note b40 = below_add [OF b32(2), of "p ! 4", simplified]
  note b48 = below_add [OF b40(2), of "p ! 5", simplified]
  note b56 = below_add [OF b48(2), of "p ! 6", simplified]
  note b64 = below_add [OF b56(2), of "p ! 7", simplified]
  show ?thesis
    unfolding read_le_sum_def U8TO64_LE_def or.assoc [symmetric]
    by (simp add: b16(1) b24(1) b32(1) b40(1) b48(1) b56(1) b64(1))
qed

lemma le_step: "take_bit k v OR push_bit k (ucast (byte_at k v)) = take_bit (k + 8) (v :: u64)"
  by (rule bit_word_eqI) (auto simp: bit_simps)

lemma read_write_le: "U8TO64_LE (U64TO8_LE v) = v"
proof -
  have low: "byte_at k (ucast v :: u32) = byte_at k v" if "k \<le> 24" for k
    using that by (intro bit_word_eqI) (auto simp: bit_simps)
  have high: "byte_at k (ucast (drop_bit 32 v) :: u32) = byte_at (32 + k) v" if "k \<le> 24" for k
    using that by (intro bit_word_eqI) (auto simp: bit_simps add.assoc)
  have b0: "ucast (byte_at 0 v) = take_bit 8 v" using le_step [of 0 v] by simp
  have "U8TO64_LE (U64TO8_LE v) = take_bit 64 v"
    unfolding U8TO64_LE_def U64TO8_LE_def U32TO8_LE_def or.assoc [symmetric]
    using le_step [of 8 v] le_step [of 16 v] le_step [of 24 v] le_step [of 32 v] le_step [of 40 v]
      le_step [of 48 v] le_step [of 56 v]
    by (simp add: low high b0)
  also have "\<dots> = v" by (rule bit_word_eqI) (simp add: bit_simps)
  finally show ?thesis .
qed

lemma length_siphash8: "length (siphash inp k 8) = 8"
  by (simp add: siphash_def Let_def U64TO8_LE_def U32TO8_LE_def split_beta)

subsection \<open>The round is a permutation\<close>

text \<open>The inverse of a round, step by step backwards.\<close>

definition ROTR :: "u64 \<Rightarrow> nat \<Rightarrow> u64" where
  "ROTR x b = drop_bit b x OR push_bit (64 - b) x"

lemma ROTR_ROTL: "0 < b \<Longrightarrow> b < 64 \<Longrightarrow> ROTR (ROTL x b) b = x"
  unfolding ROTR_def ROTL_def
  by (rule bit_word_eqI) (auto simp: bit_simps not_less not_le elim: contrapos_np)

definition SIPROUND_inv :: "sip_state \<Rightarrow> sip_state" where
  "SIPROUND_inv s = (let (v0, v1, v2, v3) = s;
       v2 = ROTR v2 32; v1 = v1 XOR v2; v1 = ROTR v1 17; v2 = v2 - v1;
       v3 = v3 XOR v0; v3 = ROTR v3 21; v0 = v0 - v3;
       v3 = v3 XOR v2; v3 = ROTR v3 16; v2 = v2 - v3;
       v0 = ROTR v0 32; v1 = v1 XOR v0; v1 = ROTR v1 13; v0 = v0 - v1
     in (v0, v1, v2, v3))"

lemma xor_cancel: "(a XOR b) XOR b = (a :: u64)"
  by (simp add: xor.assoc)

lemma SIPROUND_inverse: "SIPROUND_inv (SIPROUND s) = s"
  by (cases s) (simp add: SIPROUND_def SIPROUND_inv_def Let_def ROTR_ROTL xor_cancel)

lemma inj_SIPROUNDS: "inj (SIPROUND ^^ n)"
proof -
  have "inj SIPROUND" by (rule inj_on_inverseI [where g = SIPROUND_inv]) (rule SIPROUND_inverse)
  then show ?thesis by (rule inj_fn)
qed

lemma sip_absorb_inj: "inj (sip_absorb m)"
proof -
  have "inj (\<lambda>(v0, v1, v2, v3). (v0, v1, v2, v3 XOR m :: u64))" "inj (\<lambda>(v0, v1, v2, v3). (v0 XOR m :: u64, v1, v2, v3))"
    by (auto intro!: injI) (metis xor_cancel)+
  then have "inj ((\<lambda>(v0, v1, v2, v3). (v0 XOR m, v1, v2, v3)) \<circ> (SIPROUND ^^ cROUNDS) \<circ> (\<lambda>(v0, v1, v2, v3). (v0, v1, v2, v3 XOR m)))"
    by (intro inj_compose inj_SIPROUNDS)
  moreover have "sip_absorb m = (\<lambda>(v0, v1, v2, v3). (v0 XOR m, v1, v2, v3)) \<circ> (SIPROUND ^^ cROUNDS) \<circ> (\<lambda>(v0, v1, v2, v3). (v0, v1, v2, v3 XOR m))"
    by (auto simp: sip_absorb_def fun_eq_iff Let_def)
  ultimately show ?thesis by simp
qed

subsection \<open>Properties\<close>

text \<open>
  Absorbing input loses nothing: for a fixed message the compression of SipHash maps different
  internal states (hence different keys) to different internal states.
\<close>

theorem sip_words_injective:
  "inj (\<lambda>s. fst (sip_words ni s))"
proof (rule injI)
  fix s t
  show "fst (sip_words ni s) = fst (sip_words ni t) \<Longrightarrow> s = t"
  proof (induction ni s arbitrary: t rule: sip_words.induct)
    case (1 a b c d e f g h ni s)
    then have "sip_absorb (U8TO64_LE [a, b, c, d, e, f, g, h]) s = sip_absorb (U8TO64_LE [a, b, c, d, e, f, g, h]) t"
      by simp
    then show ?case by (rule injD [OF sip_absorb_inj])
  qed simp_all
qed

text \<open>
  \<open>picohash_siphash\<close> is the SipHash-2-4 value itself: writing the result as eight little-endian bytes
  and summing them up again is the identity.
\<close>

theorem picohash_siphash_value:
  "U64TO8_LE (picohash_siphash bytes hash_seed) = siphash bytes hash_seed 8"
proof -
  obtain b where "siphash bytes hash_seed 8 = U64TO8_LE b"
    by (simp add: siphash_def Let_def split_beta)
  then show ?thesis by (simp add: picohash_siphash_def read_le_sum_eq read_write_le)
qed

end
