(* ===== verification/PicoHash.thy ===== *)
theory PicoHash
  imports SipHash
begin

text \<open>
  The chained hash tables of \<^verbatim>\<open>picoquic/picohash.c\<close>.  A bin is the list of the items chained in it,
  newest first.  An item carries its address, so that the pointer arguments of the C functions are items
  and pointer comparison is comparison of addresses; the memory an operation frees is part of its result.
\<close>

record 'k picohash_item =
  item_addr :: nat
  item_hash :: u64
  item_key :: 'k

record 'k picohash_table =
  hash_bin :: "'k picohash_item list list"
  nb_bin :: u64
  count :: u64
  hash_seed :: bytes
  picohash_hash :: "'k \<Rightarrow> bytes \<Rightarrow> u64"
  picohash_compare :: "'k \<Rightarrow> 'k \<Rightarrow> int"
  picohash_key_to_item :: "('k \<Rightarrow> nat option) option"

datatype 'k freed = FreeItem nat | FreeKey 'k

text \<open>
  \<open>malloc_table\<close> and \<open>malloc_bins\<close> say whether the two allocations succeed.  The first statement after the
  allocation of the table writes \<open>t->hash_bin\<close>, before the test for \<open>NULL\<close>.
\<close>

definition picohash_create_ex ::
  "bool \<Rightarrow> bool \<Rightarrow> u64 \<Rightarrow> ('k \<Rightarrow> bytes \<Rightarrow> u64) \<Rightarrow> ('k \<Rightarrow> 'k \<Rightarrow> int) \<Rightarrow> ('k \<Rightarrow> nat option) option \<Rightarrow>
   bytes option \<Rightarrow> 'k picohash_table option outcome" where
  "picohash_create_ex malloc_table malloc_bins nb hash_fn compare_fn key_to_item seed =
     (if \<not> malloc_table then Fault
      else
        let items_length = 8 * nb in
        if items_length div 8 = nb \<and> malloc_bins then
          Returned (Some \<lparr>hash_bin = replicate (unat nb) [], nb_bin = nb, count = 0,
            hash_seed = (case seed of None \<Rightarrow> replicate 16 0 | Some s \<Rightarrow> s),
            picohash_hash = hash_fn, picohash_compare = compare_fn, picohash_key_to_item = key_to_item\<rparr>)
        else Returned None)"

definition picohash_create ::
  "bool \<Rightarrow> bool \<Rightarrow> u64 \<Rightarrow> ('k \<Rightarrow> bytes \<Rightarrow> u64) \<Rightarrow> ('k \<Rightarrow> 'k \<Rightarrow> int) \<Rightarrow> 'k picohash_table option outcome" where
  "picohash_create malloc_table malloc_bins nb hash_fn compare_fn =
     picohash_create_ex malloc_table malloc_bins nb hash_fn compare_fn None None"

text \<open>\<open>(uint32_t)(hash % nb_bin)\<close>\<close>

definition bin_index :: "'k picohash_table \<Rightarrow> u64 \<Rightarrow> nat" where
  "bin_index t hash = unat (ucast (hash mod nb_bin t) :: u32)"

definition picohash_retrieve :: "'k picohash_table \<Rightarrow> 'k \<Rightarrow> 'k picohash_item option" where
  "picohash_retrieve t key =
     (let hash = picohash_hash t key (hash_seed t) in
      find (\<lambda>it. picohash_compare t key (item_key it) = 0) (hash_bin t ! bin_index t hash))"

text \<open>\<open>malloc_item\<close> is the address returned by \<open>malloc\<close>, used when there is no \<open>key_to_item\<close>.\<close>

definition picohash_insert :: "nat option \<Rightarrow> 'k picohash_table \<Rightarrow> 'k \<Rightarrow> 'k picohash_table \<times> int" where
  "picohash_insert malloc_item t key =
     (let hash = picohash_hash t key (hash_seed t);
          bin = bin_index t hash;
          item = (case picohash_key_to_item t of None \<Rightarrow> malloc_item | Some f \<Rightarrow> f key)
      in case item of
           None \<Rightarrow> (t, -1)
         | Some a \<Rightarrow>
             (t\<lparr>hash_bin := (hash_bin t)[bin :=
                  \<lparr>item_addr = a, item_hash = hash, item_key = key\<rparr> # hash_bin t ! bin],
                count := count t + 1\<rparr>, 0))"

text \<open>Unlinking: the first item of the chain with the address of \<open>item\<close> is taken out; the flag tells
  whether one was found.\<close>

fun unlink :: "nat \<Rightarrow> 'k picohash_item list \<Rightarrow> 'k picohash_item list \<times> bool" where
  "unlink a [] = ([], False)"
| "unlink a (it # chain) =
     (if item_addr it = a then (chain, True)
      else case unlink a chain of (chain', found) \<Rightarrow> (it # chain', found))"

definition picohash_delete_item ::
  "'k picohash_table \<Rightarrow> 'k picohash_item \<Rightarrow> bool \<Rightarrow> 'k picohash_table \<times> 'k freed list" where
  "picohash_delete_item t item delete_key_too =
     (let bin = bin_index t (item_hash item);
          (chain, found) = unlink (item_addr item) (hash_bin t ! bin);
          t' = t\<lparr>hash_bin := (hash_bin t)[bin := chain], count := (if found then count t - 1 else count t)\<rparr>
      in (t', (if picohash_key_to_item t = None then [FreeItem (item_addr item)] else []) @
              (if delete_key_too then [FreeKey (item_key item)] else [])))"

definition picohash_delete_key ::
  "'k picohash_table \<Rightarrow> 'k \<Rightarrow> bool \<Rightarrow> 'k picohash_table \<times> 'k freed list" where
  "picohash_delete_key t key delete_key_too =
     (case picohash_retrieve t key of
        Some item \<Rightarrow> picohash_delete_item t item delete_key_too
      | None \<Rightarrow> (t, if delete_key_too then [FreeKey key] else []))"

definition picohash_delete :: "'k picohash_table \<Rightarrow> bool \<Rightarrow> 'k freed list" where
  "picohash_delete t delete_key_too =
     (if count t > 0 then
        concat (map (\<lambda>it. (if picohash_key_to_item t = None then [FreeItem (item_addr it)] else []) @
            (if delete_key_too then [FreeKey (item_key it)] else [])) (concat (hash_bin t)))
      else [])"

subsection \<open>Invariant\<close>

definition items :: "'k picohash_table \<Rightarrow> 'k picohash_item list" where
  "items t = concat (hash_bin t)"

definition table_ok :: "'k picohash_table \<Rightarrow> bool" where
  "table_ok t \<longleftrightarrow> 0 < nb_bin t \<and> length (hash_bin t) = unat (nb_bin t) \<and>
     (\<forall>b<length (hash_bin t). \<forall>it\<in>set (hash_bin t ! b).
        item_hash it = picohash_hash t (item_key it) (hash_seed t) \<and>
        bin_index t (picohash_hash t (item_key it) (hash_seed t)) = b) \<and>
     distinct (map item_addr (items t)) \<and> count t = of_nat (length (items t))"

lemma bin_index_update [simp]: "bin_index (t\<lparr>hash_bin := bins, count := c\<rparr>) = bin_index t"
  by (simp add: bin_index_def fun_eq_iff)

lemma bin_index_less:
  assumes "0 < nb_bin t"
  shows "bin_index t h < unat (nb_bin t)"
proof -
  have "h mod nb_bin t < nb_bin t" using assms by (simp add: word_mod_less_divisor)
  moreover have "unat (ucast x :: u32) \<le> unat x" for x :: u64
    by (simp add: unsigned_ucast_eq take_bit_nat_less_eq_self)
  ultimately show ?thesis unfolding bin_index_def by (meson le_less_trans word_less_nat_alt)
qed

lemma items_split:
  "b < length (hash_bin t) \<Longrightarrow>
   items t = concat (take b (hash_bin t)) @ hash_bin t ! b @ concat (drop (Suc b) (hash_bin t))"
  unfolding items_def by (subst id_take_nth_drop [of b "hash_bin t"]) simp_all

lemma in_items_bin: "it \<in> set (items t) \<longleftrightarrow> (\<exists>b<length (hash_bin t). it \<in> set (hash_bin t ! b))"
  unfolding items_def set_concat set_conv_nth [of "hash_bin t"] by blast

lemma items_update:
  "b < length (hash_bin t) \<Longrightarrow>
   items (t\<lparr>hash_bin := (hash_bin t)[b := chain], count := c\<rparr>) =
   concat (take b (hash_bin t)) @ chain @ concat (drop (Suc b) (hash_bin t))"
  by (simp add: items_def upd_conv_take_nth_drop)

lemma unlink_split:
  assumes "it \<in> set chain" and "distinct (map item_addr chain)"
  obtains xs ys where "chain = xs @ it # ys" and "unlink (item_addr it) chain = (xs @ ys, True)"
  using assms
proof (induction chain arbitrary: thesis)
  case (Cons y chain)
  show ?case
  proof (cases "item_addr y = item_addr it")
    case True
    then have "y = it" using Cons.prems(2,3) by (auto simp: rev_image_eqI)
    then show ?thesis using Cons.prems(1) [of "[]" chain] by simp
  next
    case False
    then have "it \<in> set chain" using Cons.prems(2) by auto
    then obtain xs ys where "chain = xs @ it # ys" "unlink (item_addr it) chain = (xs @ ys, True)"
      using Cons.IH Cons.prems(3) by auto
    then show ?thesis using False Cons.prems(1) [of "y # xs" ys] by simp
  qed
qed simp

lemma table_ok_create:
  assumes "picohash_create_ex malloc_table malloc_bins nb hash_fn compare_fn k seed = Returned (Some t)" and "0 < nb"
  shows "table_ok t \<and> items t = []"
  using assms
  by (auto simp: picohash_create_ex_def Let_def table_ok_def items_def bin_index_def split: if_splits)

lemma insert_eq:
  assumes "(case picohash_key_to_item t of None \<Rightarrow> malloc_item | Some f \<Rightarrow> f key) = Some a"
  shows "picohash_insert malloc_item t key =
    (t\<lparr>hash_bin := (hash_bin t)[bin_index t (picohash_hash t key (hash_seed t)) :=
        \<lparr>item_addr = a, item_hash = picohash_hash t key (hash_seed t), item_key = key\<rparr> #
          hash_bin t ! bin_index t (picohash_hash t key (hash_seed t))], count := count t + 1\<rparr>, 0)"
  using assms by (simp add: picohash_insert_def Let_def)

lemma table_ok_insert:
  assumes "table_ok t" and "(case picohash_key_to_item t of None \<Rightarrow> malloc_item | Some f \<Rightarrow> f key) = Some a"
    and "a \<notin> item_addr ` set (items t)"
  shows "table_ok (fst (picohash_insert malloc_item t key))"
    and "set (items (fst (picohash_insert malloc_item t key))) =
      insert \<lparr>item_addr = a, item_hash = picohash_hash t key (hash_seed t), item_key = key\<rparr> (set (items t))"
proof -
  let ?b = "bin_index t (picohash_hash t key (hash_seed t))"
  let ?it = "\<lparr>item_addr = a, item_hash = picohash_hash t key (hash_seed t), item_key = key\<rparr>"
  have b: "?b < length (hash_bin t)" using assms(1) bin_index_less by (auto simp: table_ok_def)
  have its: "items (fst (picohash_insert malloc_item t key)) =
      concat (take ?b (hash_bin t)) @ (?it # hash_bin t ! ?b) @ concat (drop (Suc ?b) (hash_bin t))"
    unfolding insert_eq [OF assms(2)] fst_conv using b by (rule items_update)
  show "set (items (fst (picohash_insert malloc_item t key))) = insert ?it (set (items t))"
    unfolding its items_split [OF b] by auto
  have len: "length (items (fst (picohash_insert malloc_item t key))) = Suc (length (items t))"
    unfolding its items_split [OF b] by simp
  have "distinct (map item_addr (items (fst (picohash_insert malloc_item t key))))"
    using assms(1,3) unfolding its items_split [OF b] table_ok_def by auto
  then show "table_ok (fst (picohash_insert malloc_item t key))"
    using assms(1) b len
    by (auto simp: table_ok_def insert_eq [OF assms(2)] nth_list_update split: if_splits)
qed

lemma table_ok_delete:
  assumes "table_ok t" and "it \<in> set (items t)"
  shows "table_ok (fst (picohash_delete_item t it d))"
    and "set (items (fst (picohash_delete_item t it d))) = set (items t) - {it}"
    and "length (items (fst (picohash_delete_item t it d))) = length (items t) - 1"
proof -
  obtain b where b: "b < length (hash_bin t)" "it \<in> set (hash_bin t ! b)"
    using assms(2) by (auto simp: in_items_bin)
  then have idx: "bin_index t (item_hash it) = b" using assms(1) by (auto simp: table_ok_def)
  have dist: "distinct (map item_addr (items t))" using assms(1) by (simp add: table_ok_def)
  then have "distinct (map item_addr (hash_bin t ! b))" unfolding items_split [OF b(1)] by simp
  then obtain xs ys where chain: "hash_bin t ! b = xs @ it # ys" "unlink (item_addr it) (hash_bin t ! b) = (xs @ ys, True)"
    using unlink_split b(2) by blast
  have del: "fst (picohash_delete_item t it d) = t\<lparr>hash_bin := (hash_bin t)[b := xs @ ys], count := count t - 1\<rparr>"
    using chain(2) by (simp add: picohash_delete_item_def idx Let_def)
  have its: "items (fst (picohash_delete_item t it d)) =
      concat (take b (hash_bin t)) @ (xs @ ys) @ concat (drop (Suc b) (hash_bin t))"
    unfolding del using b(1) by (rule items_update)
  have dist': "distinct (items t)" using dist by (simp add: distinct_map)
  show set: "set (items (fst (picohash_delete_item t it d))) = set (items t) - {it}"
    using dist' unfolding its items_split [OF b(1)] chain(1) by auto
  show len: "length (items (fst (picohash_delete_item t it d))) = length (items t) - 1"
    unfolding its items_split [OF b(1)] chain(1) by simp
  obtain n where "length (items t) = Suc n" using assms(2) by (cases "items t") auto
  then have "count t - 1 = of_nat (length (items t) - 1)" using assms(1) by (simp add: table_ok_def)
  moreover have "distinct (map item_addr (items (fst (picohash_delete_item t it d))))"
    using dist unfolding its items_split [OF b(1)] chain(1) by auto
  ultimately show "table_ok (fst (picohash_delete_item t it d))"
    using assms(1) b(1) chain(1) len
    by (auto simp: table_ok_def del nth_list_update split: if_splits)
qed

subsection \<open>Clients of the table\<close>

text \<open>What a table needs of the two functions its owner supplies, on the keys the owner uses: a key equals
  itself, and equal keys have equal hashes.\<close>

locale hash_client =
  fixes hash_fn :: "'k \<Rightarrow> bytes \<Rightarrow> u64" and compare_fn :: "'k \<Rightarrow> 'k \<Rightarrow> int"
    and valid :: "'k \<Rightarrow> bool"
  assumes compare_refl: "valid k \<Longrightarrow> compare_fn k k = 0"
    and compare_hash: "valid k \<Longrightarrow> valid k' \<Longrightarrow> compare_fn k k' = 0 \<Longrightarrow> hash_fn k seed = hash_fn k' seed"
begin

lemma retrieve_Some:
  assumes "table_ok t" and "picohash_hash t = hash_fn" and "picohash_compare t = compare_fn"
    and "picohash_retrieve t key = Some it"
  shows "it \<in> set (items t) \<and> compare_fn key (item_key it) = 0"
proof -
  have b: "bin_index t (hash_fn key (hash_seed t)) < length (hash_bin t)"
    using assms(1) bin_index_less by (auto simp: table_ok_def)
  then show ?thesis
    using assms(2-4) by (auto simp: picohash_retrieve_def Let_def find_Some_iff in_items_bin intro: nth_mem)
qed

lemma retrieve_None:
  assumes "table_ok t" and "picohash_hash t = hash_fn" and "picohash_compare t = compare_fn"
    and "\<forall>it\<in>set (items t). valid (item_key it)" and "valid key"
    and "picohash_retrieve t key = None" and "it \<in> set (items t)"
  shows "compare_fn key (item_key it) \<noteq> 0"
proof
  assume eq: "compare_fn key (item_key it) = 0"
  obtain b where b: "b < length (hash_bin t)" "it \<in> set (hash_bin t ! b)"
    using assms(7) by (auto simp: in_items_bin)
  then have "bin_index t (hash_fn key (hash_seed t)) = b"
    using assms(1,2) compare_hash [OF _ _ eq] assms(4,5,7) by (auto simp: table_ok_def)
  then show False
    using assms(2,3,6) b(2) eq by (auto simp: picohash_retrieve_def Let_def find_None_iff)
qed

text \<open>A search succeeds exactly when the table holds an equal key.\<close>

lemma retrieve_iff:
  assumes "table_ok t" and "picohash_hash t = hash_fn" and "picohash_compare t = compare_fn"
    and "\<forall>it\<in>set (items t). valid (item_key it)" and "valid key"
  shows "(\<exists>it. picohash_retrieve t key = Some it) \<longleftrightarrow> (\<exists>it\<in>set (items t). compare_fn key (item_key it) = 0)"
  using retrieve_Some [OF assms(1-3)] retrieve_None [OF assms] by (metis option.exhaust)

end

subsection \<open>Properties\<close>

text \<open>
  Inserting a key (with a fresh item address) keeps the table well formed, counts one item more, makes
  that key retrievable, and changes the answer for no other key.
\<close>

theorem picohash_insert_retrieve:
  assumes "hash_client hash_fn compare_fn valid" and "table_ok t" and "picohash_hash t = hash_fn"
    and "picohash_compare t = compare_fn" and "\<forall>it\<in>set (items t). valid (item_key it)"
    and "picohash_key_to_item t = None" and "a \<notin> item_addr ` set (items t)" and "valid key"
  shows "let (t', ret) = picohash_insert (Some a) t key in
    ret = 0 \<and> table_ok t' \<and> count t' = count t + 1 \<and>
    (\<exists>it. picohash_retrieve t' key = Some it \<and> compare_fn key (item_key it) = 0) \<and>
    (\<forall>k. valid k \<longrightarrow> (\<exists>it. picohash_retrieve t' k = Some it) =
         (compare_fn k key = 0 \<or> (\<exists>it. picohash_retrieve t k = Some it)))"
proof -
  have alloc: "(case picohash_key_to_item t of None \<Rightarrow> Some a | Some f \<Rightarrow> f key) = Some a" using assms(6) by simp
  let ?t = "fst (picohash_insert (Some a) t key)"
  have ok: "table_ok ?t" using assms(2) alloc assms(7) by (rule table_ok_insert)
  have its: "set (items ?t) = insert \<lparr>item_addr = a, item_hash = picohash_hash t key (hash_seed t), item_key = key\<rparr> (set (items t))"
    using assms(2) alloc assms(7) by (rule table_ok_insert)
  have fns: "picohash_hash ?t = hash_fn" "picohash_compare ?t = compare_fn"
    and cnt: "count ?t = count t + 1" and ret: "snd (picohash_insert (Some a) t key) = 0"
    using assms(3,4) by (simp_all add: insert_eq [OF alloc])
  have valid: "\<forall>it\<in>set (items ?t). valid (item_key it)" using assms(5,8) by (simp add: its)
  note new = hash_client.retrieve_iff [OF assms(1) ok fns valid] and old = hash_client.retrieve_iff [OF assms(1-5)]
  have "\<exists>it. picohash_retrieve ?t key = Some it \<and> compare_fn key (item_key it) = 0"
    using new [of key] hash_client.retrieve_Some [OF assms(1) ok fns, of key] hash_client.compare_refl [OF assms(1), of key] assms(8)
    by (auto simp: its)
  then show ?thesis
    using ok cnt ret new old by (auto simp: split_beta Let_def its)
qed

lemma small_client: "hash_client (\<lambda>k s. of_nat k) (\<lambda>a b :: nat. int a - int b) (\<lambda>_. True)"
  by unfold_locales auto

definition demo_table :: "nat picohash_table" where
  "demo_table = \<lparr>hash_bin = [[], [], []], nb_bin = 3, count = 0, hash_seed = [],
     picohash_hash = (\<lambda>k s. of_nat k), picohash_compare = (\<lambda>a b. int a - int b), picohash_key_to_item = None\<rparr>"

lemma demo_table_ok: "table_ok demo_table" "items demo_table = []"
  by (auto simp: demo_table_def table_ok_def items_def nth_Cons')

theorem picohash_insert_retrieve_witness:
  "\<exists>it. picohash_retrieve (fst (picohash_insert (Some 100) demo_table 7)) 7 = Some it"
  using picohash_insert_retrieve [OF small_client demo_table_ok(1), of 100 7]
  by (auto simp: demo_table_ok split_beta Let_def) (simp_all add: demo_table_def)

text \<open>
  Deleting by key takes exactly the retrieved item out: the table stays well formed, the count drops
  by one, every other item is kept, and the memory of the item (and of its key on request) is freed once.
\<close>

theorem picohash_delete_key_removes:
  assumes "hash_client hash_fn compare_fn valid" and "table_ok t" and "picohash_hash t = hash_fn"
    and "picohash_compare t = compare_fn" and "picohash_key_to_item t = None"
    and "picohash_retrieve t key = Some it"
  shows "let (t', freed) = picohash_delete_key t key delete_key_too in
    table_ok t' \<and> count t' = count t - 1 \<and> set (items t') = set (items t) - {it} \<and>
    freed = FreeItem (item_addr it) # (if delete_key_too then [FreeKey (item_key it)] else [])"
proof -
  have mem: "it \<in> set (items t)" using hash_client.retrieve_Some [OF assms(1-4,6)] by simp
  note del = table_ok_delete [OF assms(2) mem, of delete_key_too]
  obtain n where "length (items t) = Suc n" using mem by (cases "items t") auto
  then have "count (fst (picohash_delete_item t it delete_key_too)) = count t - 1"
    using del(1,3) assms(2) by (simp add: table_ok_def)
  moreover have "snd (picohash_delete_item t it delete_key_too) =
      FreeItem (item_addr it) # (if delete_key_too then [FreeKey (item_key it)] else [])"
    using assms(5) by (simp add: picohash_delete_item_def Let_def split_beta)
  ultimately show ?thesis
    using del(1,2) by (simp add: picohash_delete_key_def assms(6) split_beta Let_def)
qed

theorem picohash_delete_key_removes_witness:
  "items (fst (picohash_delete_key (fst (picohash_insert (Some 100) demo_table 7)) 7 False)) = []"
proof -
  let ?t = "fst (picohash_insert (Some 100) demo_table 7)"
  let ?it = "\<lparr>item_addr = 100, item_hash = 7, item_key = 7\<rparr>"
  have ok: "table_ok ?t" and its: "set (items ?t) = {?it}"
    using table_ok_insert [OF demo_table_ok(1), of "Some 100" 7 100] by (simp_all add: demo_table_ok) (simp_all add: demo_table_def)
  have "picohash_retrieve ?t 7 = Some ?it"
    by (simp add: picohash_retrieve_def demo_table_def picohash_insert_def bin_index_def Let_def)
  with picohash_delete_key_removes [OF small_client ok, of 7 ?it False] its
  have "set (items (fst (picohash_delete_key ?t 7 False))) = {}"
    by (simp add: split_beta Let_def) (simp add: demo_table_def picohash_insert_def Let_def)
  then show ?thesis by simp
qed

text \<open>
  Creating a table whose own allocation fails is not handled: the code writes through the null
  pointer before testing it.  In every other case it returns a well-formed empty table or \<open>NULL\<close>.
\<close>

theorem picohash_create_outcomes:
  "picohash_create_ex False malloc_bins nb hash_fn compare_fn k seed = Fault \<and>
   (0 < nb \<longrightarrow> (case picohash_create_ex True malloc_bins nb hash_fn compare_fn k seed of
      Fault \<Rightarrow> False
    | Returned None \<Rightarrow> malloc_bins \<longrightarrow> 2 ^ 61 \<le> unat nb
    | Returned (Some t) \<Rightarrow> malloc_bins \<and> table_ok t \<and> items t = [] \<and> count t = 0))"
proof -
  have fits: "8 * nb div 8 = nb" if "unat nb < 2 ^ 61"
  proof -
    have "unat (8 * nb) = 8 * unat nb" using that by (simp add: unat_word_ariths)
    then show ?thesis by (simp add: word_unat_eq_iff unat_div)
  qed
  show ?thesis
  proof (cases "8 * nb div 8 = nb \<and> malloc_bins")
    case True
    then obtain t where t: "picohash_create_ex True malloc_bins nb hash_fn compare_fn k seed = Returned (Some t)" "count t = 0"
      by (simp add: picohash_create_ex_def Let_def)
    then show ?thesis using table_ok_create [OF t(1)] True by (auto simp: picohash_create_ex_def)
  next
    case False
    then show ?thesis using fits by (auto simp: picohash_create_ex_def Let_def not_less [symmetric])
  qed
qed

theorem picohash_create_outcomes_witness:
  "case picohash_create_ex True True 16 (\<lambda>k s. of_nat k) (\<lambda>a b :: nat. int a - int b) None None of
     Returned (Some t) \<Rightarrow> table_ok t \<and> items t = []
   | Returned None \<Rightarrow> 2 ^ 61 \<le> unat (16 :: u64)
   | Fault \<Rightarrow> False"
  using picohash_create_outcomes [of True 16 "\<lambda>k s. of_nat k" "\<lambda>a b :: nat. int a - int b" None None]
  by (auto split: outcome.splits option.splits)

end
