(* ===== verification/Intformat.thy ===== *)
theory Intformat
  imports Prelude
begin

text \<open>
  Integer formatting and the QUIC variable-length integers of
  \<^verbatim>\<open>picoquic/intformat.c\<close>, with the parsing macros of \<^verbatim>\<open>picoquic_internal.h\<close>.
  A formatting function returns the list of the bytes it writes; a function that is given
  \<open>max_bytes\<close> returns the empty list when it writes nothing, so the C return value is the
  length of the list.  The readers take the readable bytes (\<open>max_bytes\<close> is their number).
\<close>

subsection \<open>Fixed-size integers\<close>

definition picoformat_16 :: "u16 \<Rightarrow> bytes" where
  "picoformat_16 n16 = [byte_at 8 n16, byte_at 0 n16]"

definition picoformat_24 :: "u32 \<Rightarrow> bytes" where
  "picoformat_24 n24 = [byte_at 16 n24, byte_at 8 n24, byte_at 0 n24]"

definition picoformat_32 :: "u32 \<Rightarrow> bytes" where
  "picoformat_32 n32 = [byte_at 24 n32, byte_at 16 n32, byte_at 8 n32, byte_at 0 n32]"

definition picoformat_64 :: "u64 \<Rightarrow> bytes" where
  "picoformat_64 n64 =
     [byte_at 56 n64, byte_at 48 n64, byte_at 40 n64, byte_at 32 n64,
      byte_at 24 n64, byte_at 16 n64, byte_at 8 n64, byte_at 0 n64]"

definition PICOPARSE_16 :: "u8 \<Rightarrow> u8 \<Rightarrow> u16" where
  "PICOPARSE_16 b0 b1 = push_bit 8 (ucast b0) OR ucast b1"

definition PICOPARSE_24 :: "u8 \<Rightarrow> u8 \<Rightarrow> u8 \<Rightarrow> u32" where
  "PICOPARSE_24 b0 b1 b2 = push_bit 8 (ucast (PICOPARSE_16 b0 b1)) OR ucast b2"

definition PICOPARSE_32 :: "u8 \<Rightarrow> u8 \<Rightarrow> u8 \<Rightarrow> u8 \<Rightarrow> u32" where
  "PICOPARSE_32 b0 b1 b2 b3 =
     push_bit 16 (ucast (PICOPARSE_16 b0 b1)) OR ucast (PICOPARSE_16 b2 b3)"

definition PICOPARSE_64 ::
  "u8 \<Rightarrow> u8 \<Rightarrow> u8 \<Rightarrow> u8 \<Rightarrow> u8 \<Rightarrow> u8 \<Rightarrow> u8 \<Rightarrow> u8 \<Rightarrow> u64" where
  "PICOPARSE_64 b0 b1 b2 b3 b4 b5 b6 b7 =
     push_bit 32 (ucast (PICOPARSE_32 b0 b1 b2 b3)) OR ucast (PICOPARSE_32 b4 b5 b6 b7)"

subsection \<open>Variable-length integers\<close>

definition picoquic_encode_varint_length :: "u64 \<Rightarrow> nat" where
  "picoquic_encode_varint_length n64 =
     (if n64 < 16384 then (if n64 < 64 then 1 else 2)
      else if n64 < 1073741824 then 4 else 8)"

definition picoquic_decode_varint_length :: "u8 \<Rightarrow> nat" where
  "picoquic_decode_varint_length b = push_bit (unat (drop_bit 6 (b AND 0xC0))) 1"

definition picoquic_varint_encode :: "nat \<Rightarrow> u64 \<Rightarrow> bytes" where
  "picoquic_varint_encode max_bytes n64 =
     (if n64 < 16384 then
        (if n64 < 64 then
           (if max_bytes > 0 then [byte_at 0 n64] else [])
         else
           (if max_bytes \<ge> 2 then [ucast (drop_bit 8 n64 OR 0x40), byte_at 0 n64] else []))
      else if n64 < 1073741824 then
        (if max_bytes \<ge> 4 then
           [ucast (drop_bit 24 n64 OR 0x80), byte_at 16 n64, byte_at 8 n64, byte_at 0 n64]
         else [])
      else
        (if max_bytes \<ge> 8 then
           [ucast (drop_bit 56 n64 OR 0xC0), byte_at 48 n64, byte_at 40 n64, byte_at 32 n64,
            byte_at 24 n64, byte_at 16 n64, byte_at 8 n64, byte_at 0 n64]
         else []))"

definition picoquic_varint_encode_16 :: "u16 \<Rightarrow> bytes" where
  "picoquic_varint_encode_16 n16 =
     [ucast ((drop_bit 8 n16 OR 0x40) AND 0x7F), byte_at 0 n16]"

definition picoquic_varint_decode :: "bytes \<Rightarrow> nat \<times> u64" where
  "picoquic_varint_decode bytes =
     (case bytes of
        [] \<Rightarrow> (0, 0)
      | b0 # rest \<Rightarrow>
          let len = push_bit (unat (drop_bit 6 (b0 AND 0xC0))) 1 in
          if len > length bytes then (0, 0)
          else (len, foldl shift_in (ucast (b0 AND 0x3F)) (take (len - 1) rest)))"

definition picoquic_varint_skip :: "u8 \<Rightarrow> nat" where
  "picoquic_varint_skip b0 = picoquic_decode_varint_length b0"

lemmas picoformat_defs [codec_simps] =
  picoformat_16_def picoformat_24_def picoformat_32_def picoformat_64_def

subsection \<open>Fixed-size round trips\<close>

lemma bit_PICOPARSE_16:
  "bit (PICOPARSE_16 b0 b1) i \<longleftrightarrow> (if i < 8 then bit b1 i else bit b0 (i - 8))"
  by (auto simp: PICOPARSE_16_def bit_simps dest: bit_imp_le_length)

lemma bit_PICOPARSE_24:
  "bit (PICOPARSE_24 b0 b1 b2) i \<longleftrightarrow> (if i < 8 then bit b2 i else bit (PICOPARSE_16 b0 b1) (i - 8))"
  by (auto simp: PICOPARSE_24_def bit_simps dest: bit_imp_le_length)

lemma bit_PICOPARSE_32:
  "bit (PICOPARSE_32 b0 b1 b2 b3) i \<longleftrightarrow>
     (if i < 16 then bit (PICOPARSE_16 b2 b3) i else bit (PICOPARSE_16 b0 b1) (i - 16))"
  by (auto simp: PICOPARSE_32_def bit_simps dest: bit_imp_le_length)

lemma bit_PICOPARSE_64:
  "bit (PICOPARSE_64 b0 b1 b2 b3 b4 b5 b6 b7) i \<longleftrightarrow>
     (if i < 32 then bit (PICOPARSE_32 b4 b5 b6 b7) i else bit (PICOPARSE_32 b0 b1 b2 b3) (i - 32))"
  by (auto simp: PICOPARSE_64_def bit_simps dest: bit_imp_le_length)

lemma PICOPARSE_16_format: "PICOPARSE_16 (byte_at 8 n) (byte_at 0 n) = (n :: u16)"
  by (rule bit_word_eqI) (auto simp: bit_PICOPARSE_16 bit_simps)

lemma PICOPARSE_24_format:
  "PICOPARSE_24 (byte_at 16 n) (byte_at 8 n) (byte_at 0 n) = take_bit 24 (n :: u32)"
  by (rule bit_word_eqI) (auto simp: bit_PICOPARSE_24 bit_PICOPARSE_16 bit_simps diff_less_conv)

lemma PICOPARSE_32_format:
  "PICOPARSE_32 (byte_at 24 n) (byte_at 16 n) (byte_at 8 n) (byte_at 0 n) = (n :: u32)"
  by (rule bit_word_eqI) (auto simp: bit_PICOPARSE_32 bit_PICOPARSE_16 bit_simps diff_less_conv)

lemma PICOPARSE_64_format:
  "PICOPARSE_64 (byte_at 56 n) (byte_at 48 n) (byte_at 40 n) (byte_at 32 n)
     (byte_at 24 n) (byte_at 16 n) (byte_at 8 n) (byte_at 0 n) = (n :: u64)"
  by (rule bit_word_eqI) (auto simp: bit_PICOPARSE_64 bit_PICOPARSE_32 bit_PICOPARSE_16 bit_simps diff_less_conv)

subsection \<open>The variable-length round trip\<close>

text \<open>The two top bits of the first byte select the length.\<close>

lemma varint_prefix: "unat (drop_bit 6 (b :: u8) AND 3) = unat b div 64"
proof -
  have "drop_bit 6 b AND 3 = take_bit 2 (drop_bit 6 b)"
    by (simp add: take_bit_eq_mask mask_numeral)
  moreover have "unat b < 256"
    by (rule unat_u8_less)
  ultimately show ?thesis
    by (simp add: unat_drop_bit_eq drop_bit_eq_div take_bit_eq_mod unat_mod unat_div)
qed

lemma decode_varint_length_eq: "picoquic_decode_varint_length b = 2 ^ (unat b div 64)"
  by (simp add: picoquic_decode_varint_length_def varint_prefix push_bit_eq_mult)

lemma varint_decode_Cons:
  "picoquic_varint_decode (b # rest) =
     (let len = picoquic_decode_varint_length b in
      if len > Suc (length rest) then (0, 0)
      else (len, foldl shift_in (ucast (b AND 0x3F)) (take (len - 1) rest)))"
  by (simp add: picoquic_varint_decode_def picoquic_decode_varint_length_def)

text \<open>The first byte of each encoding: its length prefix and its payload bits.\<close>

lemma varint_first_prefix:
  assumes "unat (n :: u64) < 2 ^ (k + 6)"
  shows "picoquic_decode_varint_length (ucast (drop_bit k n OR push_bit 6 p)) =
    2 ^ unat (take_bit 2 (ucast p :: u8))"
proof -
  have "\<not> bit n (k + (6 + i))" for i
    by (rule not_bit_if_less [OF assms]) simp
  then have "drop_bit 6 (ucast (drop_bit k n OR push_bit 6 p) :: u8) = take_bit 2 (ucast p)"
    by (intro bit_word_eqI) (auto simp: bit_simps)
  then show ?thesis
    by (simp add: picoquic_decode_varint_length_def push_bit_eq_mult
        flip: take_bit_eq_mask [of 2, unfolded mask_numeral, simplified])
qed

lemma varint_first_payload:
  assumes "unat (n :: u64) < 2 ^ (k + 6)"
  shows "ucast ((ucast (drop_bit k n OR push_bit 6 p) :: u8) AND 0x3F) = drop_bit k n"
proof -
  have small: "i < 6" if "bit n (k + i)" for i
    using not_bit_if_less [OF assms, of "k + i"] that by (cases "i < 6") auto
  have "(ucast (drop_bit k n OR push_bit 6 p) :: u8) AND 0x3F
      = take_bit 6 (ucast (drop_bit k n OR push_bit 6 p))"
    by (simp add: take_bit_eq_mask mask_numeral)
  also have "ucast \<dots> = drop_bit k n"
    by (intro bit_word_eqI) (auto simp: bit_simps dest: small)
  finally show ?thesis .
qed

lemma varint_encode_length:
  assumes "picoquic_encode_varint_length n \<le> max_bytes"
  shows "length (picoquic_varint_encode max_bytes n) = picoquic_encode_varint_length n"
  using assms by (auto simp: picoquic_varint_encode_def picoquic_encode_varint_length_def split: if_splits)

lemma varint_encode_no_room:
  assumes "max_bytes < picoquic_encode_varint_length n"
  shows "picoquic_varint_encode max_bytes n = []"
  using assms by (auto simp: picoquic_varint_encode_def picoquic_encode_varint_length_def split: if_splits)

lemma foldl_shift_in_bytes:
  "foldl shift_in (drop_bit 8 (n :: u64)) [byte_at 0 n] = n"
  "foldl shift_in (drop_bit 24 n) [byte_at 16 n, byte_at 8 n, byte_at 0 n] = n"
  "foldl shift_in (drop_bit 56 n) [byte_at 48 n, byte_at 40 n, byte_at 32 n,
     byte_at 24 n, byte_at 16 n, byte_at 8 n, byte_at 0 n] = n"
  using shift_in_byte_at [of 0 n] shift_in_byte_at [of 8 n] shift_in_byte_at [of 16 n]
    shift_in_byte_at [of 24 n] shift_in_byte_at [of 32 n] shift_in_byte_at [of 40 n]
    shift_in_byte_at [of 48 n]
  by simp_all

lemma varint_decode_first:
  assumes "picoquic_decode_varint_length b = Suc (length bs)"
  shows "picoquic_varint_decode (b # bs @ rest) =
    (Suc (length bs), foldl shift_in (ucast (b AND 0x3F)) bs)"
  using assms by (simp add: varint_decode_Cons)

lemma varint_roundtrip_small:
  assumes "unat n < 2 ^ 62" and "picoquic_encode_varint_length n \<le> max_bytes"
  shows "picoquic_varint_decode (picoquic_varint_encode max_bytes n @ rest) =
    (picoquic_encode_varint_length n, n)"
proof -
  note first = varint_first_prefix [of n] varint_first_payload [of n]
  consider "unat n < 64" | "64 \<le> unat n" "unat n < 16384"
    | "16384 \<le> unat n" "unat n < 1073741824" | "1073741824 \<le> unat n"
    by linarith
  then show ?thesis
  proof cases
    case 1
    then show ?thesis
      using assms first(1) [of 0 0] first(2) [of 0 0]
      by (simp add: picoquic_varint_encode_def picoquic_encode_varint_length_def
          word_less_nat_alt varint_decode_Cons byte_at_def)
  next
    case 2
    then show ?thesis
      using assms first(1) [of 8 1] first(2) [of 8 1]
        varint_decode_first [of "ucast (drop_bit 8 n OR 0x40)" "[byte_at 0 n]" rest]
      by (simp add: picoquic_varint_encode_def picoquic_encode_varint_length_def
          word_less_nat_alt foldl_shift_in_bytes [simplified])
  next
    case 3
    then show ?thesis
      using assms first(1) [of 24 2] first(2) [of 24 2]
        varint_decode_first [of "ucast (drop_bit 24 n OR 0x80)"
          "[byte_at 16 n, byte_at 8 n, byte_at 0 n]" rest]
      by (simp add: picoquic_varint_encode_def picoquic_encode_varint_length_def
          word_less_nat_alt foldl_shift_in_bytes [simplified])
  next
    case 4
    then show ?thesis
      using assms first(1) [of 56 3] first(2) [of 56 3]
        varint_decode_first [of "ucast (drop_bit 56 n OR 0xC0)"
          "[byte_at 48 n, byte_at 40 n, byte_at 32 n, byte_at 24 n, byte_at 16 n, byte_at 8 n, byte_at 0 n]" rest]
      by (simp add: picoquic_varint_encode_def picoquic_encode_varint_length_def
          word_less_nat_alt foldl_shift_in_bytes [simplified])
  qed
qed

subsection \<open>What the decoder guarantees\<close>

lemma varint_decode_length_le: "fst (picoquic_varint_decode bs) \<le> length bs"
  by (cases bs) (auto simp: varint_decode_Cons picoquic_varint_decode_def Let_def)

lemma varint_decode_length_cases:
  "fst (picoquic_varint_decode bs) \<in> {0, 1, 2, 4, 8}"
proof (cases bs)
  case (Cons b bs')
  have "unat b < 256" by (rule unat_u8_less)
  then have "unat b div 64 \<in> {0, 1, 2, 3}" by auto
  then show ?thesis
    by (auto simp: Cons varint_decode_Cons Let_def decode_varint_length_eq)
qed (simp add: picoquic_varint_decode_def)

lemma unat_shift_in_less:
  assumes "unat (v :: u64) < 2 ^ k" and "k + 8 \<le> 64"
  shows "unat (shift_in v b) < 2 ^ (k + 8)"
proof -
  have "unat b < 256" by (rule unat_u8_less)
  have "2 ^ (k + 8) \<le> (2 :: nat) ^ 64" using assms(2) by (rule power_increasing) simp
  then have less: "256 * unat v + unat b < 2 ^ 64"
    using assms(1) \<open>unat b < 256\<close> by (simp add: power_add)
  have "unat (shift_in v b) \<le> 256 * unat v + unat b"
    using less by (simp add: shift_in_def push_bit_eq_mult unat_word_ariths mult.commute mod_add_left_eq)
  also have "\<dots> < 2 ^ (k + 8)"
    using assms(1) \<open>unat b < 256\<close> by (simp add: power_add)
  finally show ?thesis .
qed

lemma foldl_shift_in_less:
  assumes "unat (v :: u64) < 2 ^ k" and "k + 8 * length bs \<le> 64"
  shows "unat (foldl shift_in v bs) < 2 ^ (k + 8 * length bs)"
  using assms
proof (induction bs arbitrary: v k)
  case (Cons b bs)
  have "unat (shift_in v b) < 2 ^ (k + 8)"
    using Cons.prems by (intro unat_shift_in_less) auto
  from Cons.IH [OF this] Cons.prems show ?case
    by (simp add: add.assoc)
qed simp

lemma varint_decode_less: "unat (snd (picoquic_varint_decode bs)) < 2 ^ 62"
proof (cases "fst (picoquic_varint_decode bs) = 0")
  case True
  then show ?thesis
    by (auto simp: picoquic_varint_decode_def Let_def push_bit_eq_mult split: list.splits if_splits)
next
  case False
  then obtain b bs' where bs: "bs = b # bs'"
    by (cases bs) (auto simp: picoquic_varint_decode_def)
  let ?n = "picoquic_decode_varint_length b"
  have dec: "picoquic_varint_decode bs = (?n, foldl shift_in (ucast (b AND 0x3F)) (take (?n - 1) bs'))"
    and len: "?n \<in> {1, 2, 4, 8}" "?n \<le> Suc (length bs')"
    using False varint_decode_length_cases [of bs]
    by (auto simp: bs varint_decode_Cons Let_def split: if_splits)
  have "b AND 0x3F = take_bit 6 b"
    by (simp add: take_bit_eq_mask mask_numeral)
  then have "unat (ucast (b AND 0x3F) :: u64) < 2 ^ 6"
    using unat_take_bit_less [of 6 b] by simp
  then have "unat (foldl shift_in (ucast (b AND 0x3F) :: u64) (take (?n - 1) bs')) < 2 ^ (6 + 8 * (?n - 1))"
    using foldl_shift_in_less [of "ucast (b AND 0x3F)" 6 "take (?n - 1) bs'"] len by auto
  also have "\<dots> \<le> 2 ^ 62"
    using len(1) by (intro power_increasing) auto
  finally show ?thesis by (simp add: dec)
qed

subsection \<open>Values beyond 62 bits\<close>

lemma byte_at_take_bit: "k + 8 \<le> m \<Longrightarrow> byte_at k (take_bit m n) = byte_at k (n :: 'a::len word)"
  by (rule bit_word_eqI) (auto simp: bit_simps)

lemma varint_first_payload_mod:
  "ucast ((ucast (drop_bit k (n :: u64) OR push_bit 6 p) :: u8) AND 0x3F) = drop_bit k (take_bit (k + 6) n)"
proof -
  have "(ucast (drop_bit k n OR push_bit 6 p) :: u8) AND 0x3F
      = take_bit 6 (ucast (drop_bit k n OR push_bit 6 p))"
    by (simp add: take_bit_eq_mask mask_numeral)
  also have "ucast \<dots> = drop_bit k (take_bit (k + 6) n)"
    by (intro bit_word_eqI) (auto simp: bit_simps)
  finally show ?thesis .
qed

lemma varint_encode_overflow:
  assumes "2 ^ 62 \<le> unat n" and "8 \<le> max_bytes"
  shows "picoquic_varint_decode (picoquic_varint_encode max_bytes n @ rest) = (8, take_bit 62 n)"
proof -
  let ?b = "ucast (drop_bit 56 n OR 0xC0) :: u8"
  let ?bs = "[byte_at 48 n, byte_at 40 n, byte_at 32 n, byte_at 24 n, byte_at 16 n, byte_at 8 n, byte_at 0 n]"
  have "drop_bit 6 (ucast (drop_bit 56 n OR push_bit 6 (mask 2)) :: u8) = mask 2"
    by (rule bit_word_eqI) (auto simp: bit_simps)
  then have "drop_bit 6 ?b = 3"
    by (simp add: mask_numeral)
  then have "picoquic_decode_varint_length ?b = 8"
    by (simp add: picoquic_decode_varint_length_def push_bit_eq_mult)
  then have "picoquic_varint_decode (?b # ?bs @ rest) = (8, foldl shift_in (ucast (?b AND 0x3F)) ?bs)"
    using varint_decode_first [of ?b ?bs rest] by simp
  also have "foldl shift_in (ucast (?b AND 0x3F)) ?bs = take_bit 62 n"
    using foldl_shift_in_bytes(3) [of "take_bit 62 n"] varint_first_payload_mod [of 56 n 3]
    by (simp add: byte_at_take_bit)
  finally show ?thesis
    using assms by (simp add: picoquic_varint_encode_def word_less_nat_alt)
qed

subsection \<open>Properties\<close>

text \<open>
  Every integer below \<open>2 ^ 62\<close> written by \<open>picoquic_varint_encode\<close> into a buffer
  with enough room is read back by \<open>picoquic_varint_decode\<close> whatever follows it in the buffer,
  and the decoder consumes exactly the number of bytes that \<open>picoquic_encode_varint_length\<close> predicts.
\<close>

theorem varint_roundtrip:
  assumes "unat n < 2 ^ 62" and "picoquic_encode_varint_length n \<le> max_bytes"
  shows "picoquic_varint_decode (picoquic_varint_encode max_bytes n @ rest) =
    (picoquic_encode_varint_length n, n)"
  using assms by (rule varint_roundtrip_small)

theorem varint_roundtrip_witness:
  "picoquic_varint_decode (picoquic_varint_encode 4 494878333 @ [7]) = (4, 494878333)"
  using varint_roundtrip [of 494878333 4 "[7]"]
  by (simp add: picoquic_encode_varint_length_def)

text \<open>
  The encoder does not reject integers of \<open>2 ^ 62\<close> and above: it overwrites their two top
  bits with the length prefix, so the peer reads the value modulo \<open>2 ^ 62\<close>.
\<close>

theorem varint_overflow_truncates:
  assumes "2 ^ 62 \<le> unat n" and "8 \<le> max_bytes"
  shows "picoquic_varint_decode (picoquic_varint_encode max_bytes n @ rest) = (8, take_bit 62 n)"
  using assms by (rule varint_encode_overflow)

theorem varint_overflow_truncates_witness:
  "picoquic_varint_decode (picoquic_varint_encode 8 0x4000000000000005 @ []) = (8, 5)"
  using varint_overflow_truncates [of "0x4000000000000005" 8 "[]"]
  by (simp add: take_bit_eq_mask mask_numeral)

text \<open>
  On arbitrary input the decoder never reads past the bytes it was given, consumes 0, 1, 2,
  4 or 8 bytes, and never produces a value of \<open>2 ^ 62\<close> or more.
\<close>

theorem varint_decode_safe:
  "fst (picoquic_varint_decode bs) \<le> length bs \<and>
   fst (picoquic_varint_decode bs) \<in> {0, 1, 2, 4, 8} \<and>
   unat (snd (picoquic_varint_decode bs)) < 2 ^ 62"
  by (intro conjI varint_decode_length_le varint_decode_length_cases varint_decode_less)

end
