(* ===== verification/FrameCodec.thy ===== *)
theory FrameCodec
  imports Intformat
begin

text \<open>
  The bounds-checked skip, decode and encode helpers of \<^verbatim>\<open>picoquic/util.c\<close> from which every
  frame and transport-parameter codec is built.  A decoder gets the bytes between
  \<open>bytes\<close> and \<open>bytes_max\<close> and returns the remaining bytes with the value, or \<open>None\<close>
  for the \<open>NULL\<close> pointer.  An encoder gets the room \<open>bytes_max - bytes\<close> and returns the bytes it
  writes, or \<open>None\<close>.  \<open>size_t\<close> is 64 bits wide.

  The locale \<open>wire_codec\<close> states the contract that an encoder and a decoder have together; every
  codec pair of the file is an interpretation of it.
\<close>

subsection \<open>The contract of an encoder and its decoder\<close>

locale wire_codec =
  fixes enc :: "nat \<Rightarrow> 'a \<Rightarrow> bytes option"
    and dec :: "bytes \<Rightarrow> (bytes \<times> 'a) option"
    and width :: "'a \<Rightarrow> nat"
    and valid :: "'a \<Rightarrow> bool"
  assumes enc_fits: "width x \<le> room \<Longrightarrow> \<exists>bs. enc room x = Some bs \<and> length bs = width x"
    and enc_full: "room < width x \<Longrightarrow> enc room x = None"
    and dec_enc: "valid x \<Longrightarrow> enc room x = Some bs \<Longrightarrow> dec (bs @ rest) = Some (rest, x)"
    and dec_short: "enc room x = Some bs \<Longrightarrow> k < length bs \<Longrightarrow> dec (take k bs) = None"
begin

lemma enc_length: "enc room x = Some bs \<Longrightarrow> length bs = width x"
  using enc_fits [of x room] enc_full [of room x] by (cases "width x \<le> room") auto

lemma enc_within_room: "enc room x = Some bs \<Longrightarrow> length bs \<le> room"
  using enc_full [of room x] enc_length [of room x bs] by (cases "width x \<le> room") auto

lemma enc_Some_iff: "(\<exists>bs. enc room x = Some bs) \<longleftrightarrow> width x \<le> room"
  using enc_fits [of x room] enc_full [of room x] by (cases "width x \<le> room") auto

lemma enc_prefix_free:
  assumes "valid x" and "valid y" and "enc r x = Some bs" and "enc r' y = Some (bs @ ext)"
  shows "ext = [] \<and> x = y"
proof -
  from assms(1,3) have "dec (bs @ ext) = Some (ext, x)" by (rule dec_enc)
  moreover from assms(2,4) have "dec ((bs @ ext) @ []) = Some ([], y)" by (rule dec_enc)
  ultimately show ?thesis by simp
qed

lemma enc_inj:
  "valid x \<Longrightarrow> valid y \<Longrightarrow> enc r x = Some bs \<Longrightarrow> enc r' y = Some bs \<Longrightarrow> x = y"
  using enc_prefix_free [of x y r bs r' "[]"] by simp

end

subsection \<open>Skipping and decoding\<close>

definition picoquic_frames_fixed_skip :: "bytes \<Rightarrow> u64 \<Rightarrow> bytes option" where
  "picoquic_frames_fixed_skip bytes sz =
     (if unat sz \<le> length bytes then Some (drop (unat sz) bytes) else None)"

definition VARINT_LEN :: "u8 \<Rightarrow> nat" where
  "VARINT_LEN b0 = push_bit (unat (drop_bit 6 b0 AND 3)) 1"

definition picoquic_frames_varint_skip :: "bytes \<Rightarrow> bytes option" where
  "picoquic_frames_varint_skip bytes =
     (case bytes of
        b0 # _ \<Rightarrow> picoquic_frames_fixed_skip bytes (of_nat (VARINT_LEN b0))
      | [] \<Rightarrow> None)"

definition picoquic_frames_varint_decode :: "bytes \<Rightarrow> (bytes \<times> u64) option" where
  "picoquic_frames_varint_decode bytes =
     (case bytes of
        b0 # rest \<Rightarrow>
          let len = VARINT_LEN b0 in
          if len \<le> length bytes
          then Some (drop (len - 1) rest,
                     foldl shift_in (ucast (b0 AND 0x3F)) (take (len - 1) rest))
          else None
      | [] \<Rightarrow> None)"

definition picoquic_frames_varlen_decode :: "bytes \<Rightarrow> (bytes \<times> u64) option" where
  "picoquic_frames_varlen_decode bytes = picoquic_frames_varint_decode bytes"

fun picoquic_frames_uint8_decode :: "bytes \<Rightarrow> (bytes \<times> u8) option" where
  "picoquic_frames_uint8_decode (b0 # rest) = Some (rest, b0)"
| "picoquic_frames_uint8_decode _ = None"

fun picoquic_frames_uint16_decode :: "bytes \<Rightarrow> (bytes \<times> u16) option" where
  "picoquic_frames_uint16_decode (b0 # b1 # rest) = Some (rest, PICOPARSE_16 b0 b1)"
| "picoquic_frames_uint16_decode _ = None"

fun picoquic_frames_uint32_decode :: "bytes \<Rightarrow> (bytes \<times> u32) option" where
  "picoquic_frames_uint32_decode (b0 # b1 # b2 # b3 # rest) = Some (rest, PICOPARSE_32 b0 b1 b2 b3)"
| "picoquic_frames_uint32_decode _ = None"

fun picoquic_frames_uint64_decode :: "bytes \<Rightarrow> (bytes \<times> u64) option" where
  "picoquic_frames_uint64_decode (b0 # b1 # b2 # b3 # b4 # b5 # b6 # b7 # rest) =
     Some (rest, PICOPARSE_64 b0 b1 b2 b3 b4 b5 b6 b7)"
| "picoquic_frames_uint64_decode _ = None"

definition picoquic_frames_length_data_skip :: "bytes \<Rightarrow> bytes option" where
  "picoquic_frames_length_data_skip bytes =
     (case picoquic_frames_varint_decode bytes of
        Some (bytes', len) \<Rightarrow> picoquic_frames_fixed_skip bytes' len
      | None \<Rightarrow> None)"

subsection \<open>Encoding\<close>

definition picoquic_frames_varint_encode_length :: "u64 \<Rightarrow> nat" where
  "picoquic_frames_varint_encode_length n64 =
     (if n64 < 16384 then (if n64 < 64 then 1 else 2)
      else if n64 < 1073741824 then 4 else 8)"

definition picoquic_frames_varint_encode :: "nat \<Rightarrow> u64 \<Rightarrow> bytes option" where
  "picoquic_frames_varint_encode room n64 =
     (if n64 < 16384 then
        (if n64 < 64 then
           (if 1 \<le> room then Some [byte_at 0 n64] else None)
         else
           (if 2 \<le> room then Some [ucast (drop_bit 8 n64 OR 0x40), byte_at 0 n64] else None))
      else if n64 < 1073741824 then
        (if 4 \<le> room then
           Some [ucast (drop_bit 24 n64 OR 0x80), byte_at 16 n64, byte_at 8 n64, byte_at 0 n64]
         else None)
      else
        (if 8 \<le> room then
           Some [ucast (drop_bit 56 n64 OR 0xC0), byte_at 48 n64, byte_at 40 n64, byte_at 32 n64,
                 byte_at 24 n64, byte_at 16 n64, byte_at 8 n64, byte_at 0 n64]
         else None))"

definition picoquic_frames_varlen_encode :: "nat \<Rightarrow> u64 \<Rightarrow> bytes option" where
  "picoquic_frames_varlen_encode room n = picoquic_frames_varint_encode room n"

definition picoquic_frames_uint8_encode :: "nat \<Rightarrow> u8 \<Rightarrow> bytes option" where
  "picoquic_frames_uint8_encode room n = (if 1 > room then None else Some [n])"

definition picoquic_frames_uint16_encode :: "nat \<Rightarrow> u16 \<Rightarrow> bytes option" where
  "picoquic_frames_uint16_encode room n =
     (if 2 > room then None else Some [byte_at 8 n, byte_at 0 n])"

definition picoquic_frames_uint24_encode :: "nat \<Rightarrow> u32 \<Rightarrow> bytes option" where
  "picoquic_frames_uint24_encode room n =
     (if 3 > room then None else Some [byte_at 16 n, byte_at 8 n, byte_at 0 n])"

definition picoquic_frames_uint32_encode :: "nat \<Rightarrow> u32 \<Rightarrow> bytes option" where
  "picoquic_frames_uint32_encode room n =
     (if 4 > room then None else Some [byte_at 24 n, byte_at 16 n, byte_at 8 n, byte_at 0 n])"

definition picoquic_frames_uint64_encode :: "nat \<Rightarrow> u64 \<Rightarrow> bytes option" where
  "picoquic_frames_uint64_encode room n =
     (if 8 > room then None
      else Some [byte_at 56 n, byte_at 48 n, byte_at 40 n, byte_at 32 n,
                 byte_at 24 n, byte_at 16 n, byte_at 8 n, byte_at 0 n])"

definition picoquic_frames_length_data_encode :: "nat \<Rightarrow> u64 \<Rightarrow> bytes \<Rightarrow> bytes option" where
  "picoquic_frames_length_data_encode room l v =
     (case picoquic_frames_varlen_encode room l of
        Some pre \<Rightarrow>
          if length pre + unat l \<le> room then Some (pre @ take (unat l) v) else None
      | None \<Rightarrow> None)"

text \<open>A C string argument: \<open>None\<close> is the \<open>NULL\<close> pointer, a list is the characters before
  the terminating zero.\<close>

definition picoquic_frames_charz_encode :: "nat \<Rightarrow> bytes option \<Rightarrow> bytes option" where
  "picoquic_frames_charz_encode room s =
     (case s of
        None \<Rightarrow> picoquic_frames_varlen_encode room 0
      | Some cs \<Rightarrow> picoquic_frames_length_data_encode room (of_nat (length cs)) cs)"

text \<open>The comparison loop of \<open>picoquic_constant_time_memcmp\<close>; \<open>x\<close> and \<open>y\<close> hold at least
  \<open>l\<close> bytes.\<close>

fun constant_time_loop :: "u64 \<Rightarrow> bytes \<Rightarrow> bytes \<Rightarrow> nat \<Rightarrow> u64" where
  "constant_time_loop ret (a # x) (b # y) (Suc l) =
     constant_time_loop (ret + ucast (a XOR b)) x y l"
| "constant_time_loop ret _ _ _ = ret"

definition picoquic_constant_time_memcmp :: "bytes \<Rightarrow> bytes \<Rightarrow> nat \<Rightarrow> int" where
  "picoquic_constant_time_memcmp x y l = (if constant_time_loop 0 x y l = 0 then 0 else -1)"

subsection \<open>Agreement with the codec of intformat.c\<close>

lemma varint_encode_length_agree:
  "picoquic_frames_varint_encode_length n = picoquic_encode_varint_length n"
  by (simp add: picoquic_frames_varint_encode_length_def picoquic_encode_varint_length_def)

lemma frames_varint_encode_eq:
  "picoquic_frames_varint_encode room n =
     (if picoquic_encode_varint_length n \<le> room then Some (picoquic_varint_encode room n) else None)"
  by (auto simp: picoquic_frames_varint_encode_def picoquic_encode_varint_length_def
      picoquic_varint_encode_def)

lemma VARINT_LEN_eq: "VARINT_LEN b = picoquic_decode_varint_length b"
  by (simp add: VARINT_LEN_def picoquic_decode_varint_length_def)

lemma decode_varint_length_pos: "0 < picoquic_decode_varint_length b"
  by (simp add: decode_varint_length_eq)

lemma frames_varint_decode_eq:
  "picoquic_frames_varint_decode bs =
     (let (len, v) = picoquic_varint_decode bs in if len = 0 then None else Some (drop len bs, v))"
proof (cases bs)
  case (Cons b bs')
  show ?thesis
    using decode_varint_length_pos [of b]
    by (cases "picoquic_decode_varint_length b")
      (auto simp: Cons picoquic_frames_varint_decode_def varint_decode_Cons VARINT_LEN_eq Let_def)
qed (simp add: picoquic_frames_varint_decode_def picoquic_varint_decode_def)

lemma varint_decode_encode_fst:
  assumes "picoquic_encode_varint_length n \<le> room"
  shows "fst (picoquic_varint_decode (picoquic_varint_encode room n @ rest)) = picoquic_encode_varint_length n"
proof (cases "unat n < 2 ^ 62")
  case True
  with assms show ?thesis by (simp add: varint_roundtrip_small)
next
  case False
  then have "picoquic_encode_varint_length n = 8"
    by (simp add: picoquic_encode_varint_length_def word_less_nat_alt)
  with False assms show ?thesis by (simp add: varint_encode_overflow)
qed

lemma encode_varint_length_pos: "0 < picoquic_encode_varint_length n"
  by (simp add: picoquic_encode_varint_length_def)

lemma varint_encode_first:
  assumes "picoquic_encode_varint_length n \<le> room"
  obtains b bs where "picoquic_varint_encode room n = b # bs"
    and "picoquic_decode_varint_length b = picoquic_encode_varint_length n"
proof -
  have "picoquic_varint_encode room n \<noteq> []"
    using varint_encode_length [OF assms] encode_varint_length_pos [of n] by auto
  then obtain b bs where eq: "picoquic_varint_encode room n = b # bs"
    by (cases "picoquic_varint_encode room n") auto
  have "fst (picoquic_varint_decode (b # bs)) = picoquic_encode_varint_length n"
    using varint_decode_encode_fst [OF assms, of "[]"] eq by simp
  then have "picoquic_decode_varint_length b = picoquic_encode_varint_length n"
    using encode_varint_length_pos [of n] by (auto simp: varint_decode_Cons Let_def split: if_splits)
  with eq show thesis by (rule that)
qed

subsection \<open>The codecs meet the contract\<close>

interpretation varint: wire_codec picoquic_frames_varint_encode picoquic_frames_varint_decode
  picoquic_frames_varint_encode_length "\<lambda>n. unat n < 2 ^ 62"
proof (unfold_locales, unfold varint_encode_length_agree)
  fix x :: u64 and room
  assume "picoquic_encode_varint_length x \<le> room"
  then show "\<exists>bs. picoquic_frames_varint_encode room x = Some bs \<and> length bs = picoquic_encode_varint_length x"
    by (simp add: frames_varint_encode_eq varint_encode_length)
next
  fix x :: u64 and room
  assume "room < picoquic_encode_varint_length x"
  then show "picoquic_frames_varint_encode room x = None"
    by (simp add: frames_varint_encode_eq)
next
  fix x :: u64 and room bs rest
  assume "unat x < 2 ^ 62" and enc: "picoquic_frames_varint_encode room x = Some bs"
  then show "picoquic_frames_varint_decode (bs @ rest) = Some (rest, x)"
    using varint_encode_length [of x room] encode_varint_length_pos [of x]
    by (auto simp: frames_varint_encode_eq frames_varint_decode_eq varint_roundtrip_small split: if_splits)
next
  fix x :: u64 and room bs and k :: nat
  assume enc: "picoquic_frames_varint_encode room x = Some bs" and k: "k < length bs"
  then have room: "picoquic_encode_varint_length x \<le> room" and bs: "bs = picoquic_varint_encode room x"
    by (auto simp: frames_varint_encode_eq split: if_splits)
  obtain b bs' where "bs = b # bs'" and "picoquic_decode_varint_length b = length bs"
    using varint_encode_first [OF room] varint_encode_length [OF room] bs by metis
  with k show "picoquic_frames_varint_decode (take k bs) = None"
    by (cases k) (auto simp: picoquic_frames_varint_decode_def VARINT_LEN_eq)
qed

interpretation varlen: wire_codec picoquic_frames_varlen_encode picoquic_frames_varlen_decode
  picoquic_frames_varint_encode_length "\<lambda>n. unat n < 2 ^ 62"
  using varint.wire_codec_axioms
  by (simp add: picoquic_frames_varlen_encode_def [abs_def] picoquic_frames_varlen_decode_def [abs_def])

interpretation uint8: wire_codec picoquic_frames_uint8_encode picoquic_frames_uint8_decode
  "\<lambda>_. 1" "\<lambda>_. True"
  by unfold_locales (auto simp: picoquic_frames_uint8_encode_def split: if_splits)

interpretation uint16: wire_codec picoquic_frames_uint16_encode picoquic_frames_uint16_decode
  "\<lambda>_. 2" "\<lambda>_. True"
  by unfold_locales
    (auto simp: picoquic_frames_uint16_encode_def PICOPARSE_16_format less_Suc_eq split: if_splits)

interpretation uint32: wire_codec picoquic_frames_uint32_encode picoquic_frames_uint32_decode
  "\<lambda>_. 4" "\<lambda>_. True"
  by unfold_locales
    (auto simp: picoquic_frames_uint32_encode_def PICOPARSE_32_format less_Suc_eq split: if_splits)

interpretation uint64: wire_codec picoquic_frames_uint64_encode picoquic_frames_uint64_decode
  "\<lambda>_. 8" "\<lambda>_. True"
  by unfold_locales
    (auto simp: picoquic_frames_uint64_encode_def PICOPARSE_64_format less_Suc_eq split: if_splits)

subsection \<open>Length-prefixed data and the constant-time comparison\<close>

lemma length_data_encode_skip:
  assumes "unat l < 2 ^ 62" and "length v = unat l"
    and "picoquic_frames_length_data_encode room l v = Some bs"
  shows "picoquic_frames_length_data_skip (bs @ rest) = Some rest"
    and "length bs = picoquic_frames_varint_encode_length l + unat l"
    and "length bs \<le> room"
proof -
  obtain pre where pre: "picoquic_frames_varlen_encode room l = Some pre"
    and bs: "bs = pre @ v" and room: "length pre + unat l \<le> room"
    using assms(2,3)
    by (auto simp: picoquic_frames_length_data_encode_def split: option.splits if_splits)
  have "picoquic_frames_varlen_decode (pre @ v @ rest) = Some (v @ rest, l)"
    using assms(1) pre by (rule varlen.dec_enc)
  then show "picoquic_frames_length_data_skip (bs @ rest) = Some rest"
    using assms(2) by (simp add: bs picoquic_frames_length_data_skip_def
        picoquic_frames_varlen_decode_def picoquic_frames_fixed_skip_def)
  show "length bs = picoquic_frames_varint_encode_length l + unat l"
    using varlen.enc_length [OF pre] assms(2) by (simp add: bs)
  show "length bs \<le> room"
    using room assms(2) by (simp add: bs)
qed

lemma constant_time_loop_ge:
  assumes "l \<le> length x" and "l \<le> length y" and "unat ret + 255 * l < 2 ^ 64"
  shows "unat (constant_time_loop ret x y l) \<le> unat ret + 255 * l
    \<and> (constant_time_loop ret x y l = 0 \<longleftrightarrow> ret = 0 \<and> take l x = take l y)"
  using assms
proof (induction ret x y l rule: constant_time_loop.induct)
  case (1 ret a x b y l)
  have ab: "unat (a XOR b) \<le> 255" using unat_u8_less [of "a XOR b"] by simp
  then have add: "unat (ret + ucast (a XOR b)) = unat ret + unat (a XOR b)"
    using "1.prems"(3) by (simp add: unat_word_ariths)
  have "ret + ucast (a XOR b) = 0 \<longleftrightarrow> ret = 0 \<and> a = b"
  proof -
    have "ret + ucast (a XOR b) = 0 \<longleftrightarrow> unat ret + unat (a XOR b) = 0"
      using add by (metis unsigned_eq_0_iff)
    also have "\<dots> \<longleftrightarrow> ret = 0 \<and> a XOR b = 0"
      by (simp add: unsigned_eq_0_iff)
    finally show ?thesis by (simp add: word_xor_eq_0_iff)
  qed
  moreover have "unat (ret + ucast (a XOR b)) + 255 * l < 2 ^ 64"
    using "1.prems"(3) ab add by simp
  ultimately show ?case
    using "1.IH" "1.prems" add ab by auto
qed auto

text \<open>
  The two varint codecs of the library agree: the pointer-style frame decoder returns the value and
  the tail that the length-style decoder of \<^verbatim>\<open>intformat.c\<close> describes, it fails exactly when that
  one reports length zero, and skipping a varint leaves the same tail as decoding it.
\<close>

theorem frames_varint_equivalence:
  "picoquic_frames_varint_decode bs =
     (let (len, v) = picoquic_varint_decode bs in if len = 0 then None else Some (drop len bs, v)) \<and>
   picoquic_frames_varint_skip bs = map_option fst (picoquic_frames_varint_decode bs)"
proof
  show "picoquic_frames_varint_decode bs =
     (let (len, v) = picoquic_varint_decode bs in if len = 0 then None else Some (drop len bs, v))"
    by (rule frames_varint_decode_eq)
  have len: "VARINT_LEN b \<le> 8" and pos: "0 < VARINT_LEN b" for b
    using unat_u8_less [of b] power_increasing [of "unat b div 64" 3 "2 :: nat"]
    by (auto simp: VARINT_LEN_eq decode_varint_length_eq)
  have zero_iff: "VARINT_LEN b = 0 \<longleftrightarrow> False" for b using pos [of b] by simp
  have "unat (of_nat (VARINT_LEN b) :: u64) = VARINT_LEN b" for b
    using len [of b] by (simp add: unat_of_nat)
  then show "picoquic_frames_varint_skip bs = map_option fst (picoquic_frames_varint_decode bs)"
    by (auto simp: zero_iff picoquic_frames_varint_skip_def picoquic_frames_varint_decode_def
        picoquic_frames_fixed_skip_def Let_def drop_Cons' split: list.splits)
qed

text \<open>
  A length-prefixed field that was written is skipped as a whole, whatever follows it, and it never
  takes more than the room the caller gave.
\<close>

theorem length_data_roundtrip:
  assumes "unat l < 2 ^ 62" and "length v = unat l"
    and "picoquic_frames_length_data_encode room l v = Some bs"
  shows "picoquic_frames_length_data_skip (bs @ rest) = Some rest \<and>
    length bs = picoquic_frames_varint_encode_length l + unat l \<and> length bs \<le> room"
  using length_data_encode_skip [OF assms] by blast

theorem length_data_roundtrip_witness:
  "picoquic_frames_length_data_skip ([2, 7, 8] @ [1]) = Some [1]"
  using length_data_roundtrip [of 2 "[7, 8]" 10 "[2, 7, 8]" "[1]"]
  by (simp add: picoquic_frames_length_data_encode_def picoquic_frames_varlen_encode_def
      picoquic_frames_varint_encode_def byte_at_def)

text \<open>
  The constant-time comparison returns 0 exactly when the compared prefixes are equal: the 64-bit
  sum of the byte differences cannot wrap to zero for any buffer of less than \<open>2 ^ 56\<close> bytes.
\<close>

theorem constant_time_memcmp_iff:
  assumes "l \<le> length x" and "l \<le> length y" and "l < 2 ^ 56"
  shows "picoquic_constant_time_memcmp x y l = 0 \<longleftrightarrow> take l x = take l y"
  using constant_time_loop_ge [of l x y 0] assms by (simp add: picoquic_constant_time_memcmp_def)

theorem constant_time_memcmp_iff_witness:
  "picoquic_constant_time_memcmp [1, 2, 3] [1, 2, 4] 2 = 0 \<and> picoquic_constant_time_memcmp [1, 2, 3] [1, 2, 4] 3 \<noteq> 0"
  using constant_time_memcmp_iff [of 2 "[1, 2, 3]" "[1, 2, 4]"] constant_time_memcmp_iff [of 3 "[1, 2, 3]" "[1, 2, 4]"]
  by simp

end
