(* ===== verification/ConnId.thy ===== *)
theory ConnId
  imports FrameCodec PicoHash
begin

text \<open>
  Connection identifiers (\<^verbatim>\<open>picoquic/util.c\<close>): hexadecimal printing and parsing, the wire forms, the
  comparison and the hash under which connections are registered.  The structure holds a fixed array of
  20 bytes and the number of them that count.
\<close>

definition PICOQUIC_CONNECTION_ID_MAX_SIZE :: nat where
  "PICOQUIC_CONNECTION_ID_MAX_SIZE = 20"

record picoquic_connection_id_t =
  cid_id :: bytes
  id_len :: u8

definition picoquic_null_connection_id :: picoquic_connection_id_t where
  "picoquic_null_connection_id = \<lparr>cid_id = replicate 20 0, id_len = 0\<rparr>"

definition hex_to_char :: string where
  "hex_to_char = ''0123456789abcdef''"

text \<open>The text written, without its final zero; \<open>None\<close> is the return value \<open>-1\<close>.\<close>

definition picoquic_print_connection_id_hexa :: "nat \<Rightarrow> picoquic_connection_id_t \<Rightarrow> string option" where
  "picoquic_print_connection_id_hexa buf_len cnxid =
     (if buf_len < unat (id_len cnxid) * 2 + 1 then None
      else Some (concat (map (\<lambda>i. [hex_to_char ! unat (drop_bit 4 (cid_id cnxid ! i)),
                                   hex_to_char ! unat (cid_id cnxid ! i AND 0x0F)]) [0..<unat (id_len cnxid)])))"

definition picoquic_parse_hexa_digit :: "char \<Rightarrow> int" where
  "picoquic_parse_hexa_digit x =
     (let c = of_char x :: int in
      if c \<ge> 48 \<and> c \<le> 57 then c - 48
      else if c \<ge> 65 \<and> c \<le> 70 then c - 65 + 10
      else if c \<ge> 97 \<and> c \<le> 102 then c - 97 + 10
      else -1)"

text \<open>The loop of \<open>picoquic_parse_hexa\<close>: the return value and the bytes written, which stay written
  when a later digit is invalid and the function returns 0.\<close>

fun parse_hexa_loop :: "string \<Rightarrow> bytes \<Rightarrow> nat \<times> bytes" where
  "parse_hexa_loop (x # y # hex) out =
     (let a = picoquic_parse_hexa_digit x; b = picoquic_parse_hexa_digit y in
      if a < 0 \<or> b < 0 then (0, out)
      else parse_hexa_loop hex (out @ [word_of_int (push_bit 4 a OR b)]))"
| "parse_hexa_loop _ out = (length out, out)"

definition picoquic_parse_hexa :: "string \<Rightarrow> nat \<Rightarrow> nat \<times> bytes" where
  "picoquic_parse_hexa hex_input output_max =
     (let input_length = length hex_input in
      if input_length > 0 \<and> even input_length \<and> 2 * output_max \<ge> input_length
      then parse_hexa_loop hex_input [] else (0, []))"

definition picoquic_parse_connection_id_hexa :: "string \<Rightarrow> picoquic_connection_id_t \<times> u8" where
  "picoquic_parse_connection_id_hexa hex_input =
     (let (n, out) = picoquic_parse_hexa hex_input 18;
          cnx_id = \<lparr>cid_id = out @ replicate (20 - length out) 0, id_len = of_nat n\<rparr>;
          cnx_id = (if id_len cnx_id = 0 then picoquic_null_connection_id else cnx_id)
      in (cnx_id, id_len cnx_id))"

definition picoquic_format_connection_id :: "nat \<Rightarrow> picoquic_connection_id_t \<Rightarrow> bytes" where
  "picoquic_format_connection_id bytes_max cnx_id =
     (let copied = unat (id_len cnx_id) in
      if copied > bytes_max \<or> copied = 0 then [] else take copied (cid_id cnx_id))"

definition picoquic_parse_connection_id ::
  "bytes \<Rightarrow> u8 \<Rightarrow> picoquic_connection_id_t \<Rightarrow> picoquic_connection_id_t \<times> u8" where
  "picoquic_parse_connection_id bytes len cnx_id =
     (if unat len \<le> PICOQUIC_CONNECTION_ID_MAX_SIZE
      then (\<lparr>cid_id = take (unat len) bytes @ drop (unat len) (cid_id cnx_id), id_len = len\<rparr>, len)
      else (cnx_id\<lparr>id_len := 0\<rparr>, 0))"

definition picoquic_is_connection_id_null :: "picoquic_connection_id_t \<Rightarrow> bool" where
  "picoquic_is_connection_id_null cnx_id \<longleftrightarrow> id_len cnx_id = 0"

text \<open>The sign of \<open>memcmp\<close>, which is all the callers use.\<close>

fun memcmp :: "bytes \<Rightarrow> bytes \<Rightarrow> int" where
  "memcmp (a # x) (b # y) = (if a < b then -1 else if b < a then 1 else memcmp x y)"
| "memcmp _ _ = 0"

definition picoquic_compare_connection_id ::
  "picoquic_connection_id_t \<Rightarrow> picoquic_connection_id_t \<Rightarrow> int" where
  "picoquic_compare_connection_id cnx_id1 cnx_id2 =
     (if id_len cnx_id1 = id_len cnx_id2
      then memcmp (take (unat (id_len cnx_id1)) (cid_id cnx_id1)) (take (unat (id_len cnx_id1)) (cid_id cnx_id2))
      else if id_len cnx_id1 > id_len cnx_id2 then 1 else -1)"

definition cid_hash_fold :: "u64 \<Rightarrow> u8 \<Rightarrow> u64" where
  "cid_hash_fold val64 b = (let top = drop_bit 56 val64 in push_bit 8 val64 + ucast b + top * 0x10001)"

definition picoquic_connection_id_hash :: "picoquic_connection_id_t \<Rightarrow> bytes \<Rightarrow> u64" where
  "picoquic_connection_id_hash cid seed =
     (let used = take (unat (id_len cid)) (cid_id cid);
          val64 = foldl shift_in 0 (take 8 used)
      in foldl cid_hash_fold val64 (drop 8 used))"

definition picoquic_val64_connection_id :: "picoquic_connection_id_t \<Rightarrow> u64" where
  "picoquic_val64_connection_id cnx_id =
     (let step = (\<lambda>v b. push_bit 8 v OR ucast b) in
      if id_len cnx_id < 8
      then push_bit (8 * (8 - unat (id_len cnx_id))) (foldl step 0 (take (unat (id_len cnx_id)) (cid_id cnx_id)))
      else foldl step 0 (take 8 (cid_id cnx_id)))"

text \<open>
  The connection ID field of a frame.  When no length byte is left, \<open>picoquic_frames_uint8_decode\<close> returns
  \<open>NULL\<close> and \<open>id_len\<close> keeps the value the structure had: the test \<open>bytes + cid->id_len > bytes_max\<close> is then
  false, and \<open>memcpy\<close> reads from \<open>NULL\<close> unless that value is 0.
\<close>

definition picoquic_frames_cid_decode ::
  "bytes \<Rightarrow> picoquic_connection_id_t \<Rightarrow> (bytes option \<times> picoquic_connection_id_t) outcome" where
  "picoquic_frames_cid_decode bytes cid =
     (case picoquic_frames_uint8_decode bytes of
        None \<Rightarrow>
          if unat (id_len cid) > PICOQUIC_CONNECTION_ID_MAX_SIZE then Returned (None, cid)
          else if id_len cid = 0 then Returned (None, cid\<lparr>cid_id := replicate 20 0\<rparr>)
          else Fault
      | Some (bytes', len) \<Rightarrow>
          if unat len > PICOQUIC_CONNECTION_ID_MAX_SIZE \<or> unat len > length bytes'
          then Returned (None, cid\<lparr>id_len := len\<rparr>)
          else Returned (Some (drop (unat len) bytes'),
                 \<lparr>cid_id = take (unat len) bytes' @ replicate (20 - unat len) 0, id_len = len\<rparr>))"

definition picoquic_frames_cid_encode :: "nat \<Rightarrow> picoquic_connection_id_t \<Rightarrow> bytes option" where
  "picoquic_frames_cid_encode room cid =
     picoquic_frames_length_data_encode room (ucast (id_len cid)) (cid_id cid)"

subsection \<open>Well-formed identifiers\<close>

text \<open>At most 20 bytes count, and the others are zero.\<close>

definition cid_ok :: "picoquic_connection_id_t \<Rightarrow> bool" where
  "cid_ok cid \<longleftrightarrow> unat (id_len cid) \<le> 20 \<and>
     (\<exists>bs. length bs = unat (id_len cid) \<and> cid_id cid = bs @ replicate (20 - unat (id_len cid)) 0)"

lemma cid_okE:
  assumes "cid_ok cid"
  obtains bs where "length bs = unat (id_len cid)" and "unat (id_len cid) \<le> 20"
    and "cid_id cid = bs @ replicate (20 - unat (id_len cid)) 0"
  using assms by (auto simp: cid_ok_def)

subsection \<open>Comparison and hash\<close>

lemma memcmp_eq_0: "length x = length y \<Longrightarrow> memcmp x y = 0 \<longleftrightarrow> x = y"
  by (induction x y rule: memcmp.induct) (auto simp: not_less)

lemma memcmp_swap: "memcmp y x = - memcmp x y"
  by (induction x y rule: memcmp.induct) auto

lemma memcmp_refl [simp]: "memcmp x x = 0"
  by (simp add: memcmp_eq_0)

lemma compare_cid_0:
  assumes "length (cid_id a) = length (cid_id b)"
  shows "picoquic_compare_connection_id a b = 0 \<longleftrightarrow>
    id_len a = id_len b \<and> take (unat (id_len a)) (cid_id a) = take (unat (id_len b)) (cid_id b)"
  using assms by (auto simp: picoquic_compare_connection_id_def memcmp_eq_0)

lemma connection_id_hash_cong:
  "take (unat (id_len a)) (cid_id a) = take (unat (id_len b)) (cid_id b) \<Longrightarrow>
   picoquic_connection_id_hash a seed = picoquic_connection_id_hash b seed"
  by (simp only: picoquic_connection_id_hash_def)

interpretation cid_table: hash_client picoquic_connection_id_hash picoquic_compare_connection_id
  "\<lambda>cid. length (cid_id cid) = 20"
proof
  show "picoquic_compare_connection_id k k = 0" for k
    by (simp add: picoquic_compare_connection_id_def)
  show "picoquic_connection_id_hash k seed = picoquic_connection_id_hash k' seed"
    if "length (cid_id k) = 20" "length (cid_id k') = 20" "picoquic_compare_connection_id k k' = 0" for k k' seed
    using that compare_cid_0 [of k k'] by (intro connection_id_hash_cong) metis
qed

text \<open>
  Two connection IDs compare equal exactly when they have the same length and the same bytes, the
  comparison is antisymmetric, and equal IDs hash alike, so that a table never misses a registered one.
\<close>

theorem compare_connection_id_correct:
  assumes "length (cid_id a) = 20" and "length (cid_id b) = 20"
  shows "(picoquic_compare_connection_id a b = 0 \<longleftrightarrow>
      id_len a = id_len b \<and> take (unat (id_len a)) (cid_id a) = take (unat (id_len b)) (cid_id b)) \<and>
    picoquic_compare_connection_id b a = - picoquic_compare_connection_id a b \<and>
    (picoquic_compare_connection_id a b = 0 \<longrightarrow>
      picoquic_connection_id_hash a seed = picoquic_connection_id_hash b seed)"
proof -
  have "picoquic_compare_connection_id b a = - picoquic_compare_connection_id a b"
    by (auto simp: picoquic_compare_connection_id_def memcmp_swap [of "take _ (cid_id b)"])
  moreover have "picoquic_compare_connection_id a b = 0 \<longrightarrow>
      picoquic_connection_id_hash a seed = picoquic_connection_id_hash b seed"
    using assms compare_cid_0 [of a b] by (intro impI connection_id_hash_cong) metis
  ultimately show ?thesis using assms by (simp add: compare_cid_0)
qed

theorem compare_connection_id_correct_witness:
  "picoquic_compare_connection_id \<lparr>cid_id = [1, 2] @ replicate 18 0, id_len = 2\<rparr> \<lparr>cid_id = [1, 2, 9] @ replicate 17 0, id_len = 2\<rparr> = 0"
  using compare_connection_id_correct [of "\<lparr>cid_id = [1, 2] @ replicate 18 0, id_len = 2\<rparr>" "\<lparr>cid_id = [1, 2, 9] @ replicate 17 0, id_len = 2\<rparr>"]
  by simp

subsection \<open>Hexadecimal text\<close>

definition hex_byte :: "u8 \<Rightarrow> string" where
  "hex_byte b = [hex_to_char ! unat (drop_bit 4 b), hex_to_char ! unat (b AND 0x0F)]"

lemma hex_digits_parsed: "list_all (\<lambda>n. picoquic_parse_hexa_digit (hex_to_char ! n) = int n) [0..<16]"
  by code_simp

lemma hex_digit_parsed: "n < 16 \<Longrightarrow> picoquic_parse_hexa_digit (hex_to_char ! n) = int n"
  using hex_digits_parsed by (simp add: list_all_iff)

lemma nibble_bounds: "unat (drop_bit 4 b :: u8) < 16" "unat (b AND 0x0F :: u8) < 16"
proof -
  have "take_bit 4 (drop_bit 4 b) = drop_bit 4 b"
    by (rule bit_word_eqI) (auto simp: bit_simps dest: bit_imp_le_length)
  moreover have "take_bit 4 b = b AND 0x0F" by (simp add: take_bit_eq_mask mask_numeral)
  ultimately show "unat (drop_bit 4 b :: u8) < 16" "unat (b AND 0x0F :: u8) < 16"
    using unat_take_bit_less [of 4 "drop_bit 4 b"] unat_take_bit_less [of 4 b] by simp_all
qed

lemma nibbles_join: "word_of_int (push_bit 4 (uint (drop_bit 4 b)) OR uint (b AND 0x0F)) = (b :: u8)"
proof -
  have "word_of_int (push_bit 4 (uint x) OR uint y) = push_bit 4 x OR (y :: u8)" for x y
    by (rule bit_word_eqI) (auto simp: bit_simps)
  then show ?thesis by simp (rule u8_eqI; simp add: bit_simps)
qed

lemma parse_hex_bytes: "parse_hexa_loop (concat (map hex_byte bs)) out = (length out + length bs, out @ bs)"
proof (induction bs arbitrary: out)
  case (Cons b bs)
  then show ?case
    using nibble_bounds [of b] by (simp add: hex_byte_def hex_digit_parsed nibbles_join Let_def)
qed simp

lemma print_hex:
  assumes "length bs = unat (id_len cid)" and "cid_id cid = bs @ rest" and "2 * length bs < buf_len"
  shows "picoquic_print_connection_id_hexa buf_len cid = Some (concat (map hex_byte bs))"
proof -
  have "map (\<lambda>i. [hex_to_char ! unat (drop_bit 4 (cid_id cid ! i)), hex_to_char ! unat (cid_id cid ! i AND 0x0F)])
      [0..<unat (id_len cid)] = map hex_byte bs"
    using assms(1,2) by (intro nth_equalityI) (simp_all add: hex_byte_def nth_append)
  then show ?thesis using assms(1,3) by (simp add: picoquic_print_connection_id_hexa_def)
qed

text \<open>
  A printed connection ID is parsed back exactly when it has 1 to 18 bytes.  The two longest sizes
  that QUIC allows, 19 and 20 bytes, are printed but rejected by the parser (it answers the null ID).
\<close>

theorem connection_id_hexa_roundtrip:
  assumes "cid_ok cid" and "2 * unat (id_len cid) < buf_len"
  shows "\<exists>text. picoquic_print_connection_id_hexa buf_len cid = Some text \<and> length text = 2 * unat (id_len cid) \<and>
    picoquic_parse_connection_id_hexa text =
      (if 1 \<le> unat (id_len cid) \<and> unat (id_len cid) \<le> 18 then (cid, id_len cid) else (picoquic_null_connection_id, 0))"
proof -
  obtain bs where bs: "length bs = unat (id_len cid)" "unat (id_len cid) \<le> 20"
    "cid_id cid = bs @ replicate (20 - unat (id_len cid)) 0" using assms(1) by (rule cid_okE)
  let ?t = "concat (map hex_byte bs)"
  have len: "length ?t = 2 * length bs" by (induction bs) (simp_all add: hex_byte_def)
  have "of_nat (length bs) = id_len cid" using bs(1) by simp
  then have "picoquic_parse_connection_id_hexa ?t =
      (if 1 \<le> unat (id_len cid) \<and> unat (id_len cid) \<le> 18 then (cid, id_len cid) else (picoquic_null_connection_id, 0))"
    using bs len parse_hex_bytes [of bs "[]"]
    by (auto simp: picoquic_parse_connection_id_hexa_def picoquic_parse_hexa_def Let_def picoquic_null_connection_id_def
        unat_eq_zero)
  then show ?thesis using print_hex [OF bs(1,3)] assms(2) bs(1) len by auto
qed

theorem connection_id_hexa_roundtrip_witness:
  "\<exists>text. picoquic_print_connection_id_hexa 100 \<lparr>cid_id = replicate 19 7 @ [0], id_len = 19\<rparr> = Some text \<and>
    picoquic_parse_connection_id_hexa text = (picoquic_null_connection_id, 0)"
proof -
  have "cid_ok \<lparr>cid_id = replicate 19 7 @ [0], id_len = 19\<rparr>"
    unfolding cid_ok_def by (intro conjI exI [of _ "replicate 19 7"]) simp_all
  from connection_id_hexa_roundtrip [OF this, of 100] show ?thesis by auto
qed

subsection \<open>The field of a frame\<close>

text \<open>
  A connection ID written into a frame is read back with the bytes that follow it left over, whatever
  the structure held before.
\<close>

theorem frames_cid_roundtrip:
  assumes "cid_ok cid" and "picoquic_frames_cid_encode room cid = Some bs"
  shows "picoquic_frames_cid_decode (bs @ rest) old = Returned (Some rest, cid) \<and>
    length bs = 1 + unat (id_len cid)"
proof -
  obtain ds where ds: "length ds = unat (id_len cid)" "unat (id_len cid) \<le> 20"
    "cid_id cid = ds @ replicate (20 - unat (id_len cid)) 0" using assms(1) by (rule cid_okE)
  have small: "ucast (id_len cid) < (64 :: u64)" using ds(2) by (simp add: word_less_nat_alt)
  have byte: "byte_at 0 (ucast (id_len cid) :: u64) = id_len cid"
    by (rule bit_word_eqI) (auto simp: bit_simps)
  have "bs = id_len cid # ds"
    using assms(2) small ds byte
    by (auto simp: picoquic_frames_cid_encode_def picoquic_frames_length_data_encode_def
        picoquic_frames_varlen_encode_def picoquic_frames_varint_encode_def split: if_splits option.splits)
      (auto simp: word_less_nat_alt)
  then show ?thesis
    using ds by (simp add: picoquic_frames_cid_decode_def PICOQUIC_CONNECTION_ID_MAX_SIZE_def)
qed

theorem frames_cid_roundtrip_witness:
  "picoquic_frames_cid_decode ([2, 8, 9] @ [77]) picoquic_null_connection_id =
     Returned (Some [77], \<lparr>cid_id = [8, 9] @ replicate 18 0, id_len = 2\<rparr>)"
proof -
  let ?cid = "\<lparr>cid_id = [8, 9] @ replicate 18 0, id_len = 2\<rparr>"
  have "cid_ok ?cid" unfolding cid_ok_def by (intro conjI exI [of _ "[8, 9]"]) simp_all
  moreover have "picoquic_frames_cid_encode 9 ?cid = Some [2, 8, 9]"
    by (simp add: picoquic_frames_cid_encode_def picoquic_frames_length_data_encode_def
        picoquic_frames_varlen_encode_def picoquic_frames_varint_encode_def byte_at_def)
  ultimately show ?thesis
    using frames_cid_roundtrip [of ?cid 9 "[2, 8, 9]" "[77]" picoquic_null_connection_id] by simp
qed

text \<open>
  On any input the decoder either fails, or consumes a prefix of its input and yields a well-formed ID;
  it reads through a null pointer exactly when the input is empty and the structure still holds the length
  of an earlier ID.
\<close>

theorem frames_cid_decode_safety:
  "(case picoquic_frames_cid_decode bytes old of
      Fault \<Rightarrow> bytes = [] \<and> id_len old \<noteq> 0 \<and> unat (id_len old) \<le> 20
    | Returned (None, _) \<Rightarrow> True
    | Returned (Some rest, cid) \<Rightarrow> cid_ok cid \<and> bytes = id_len cid # take (unat (id_len cid)) (cid_id cid) @ rest)"
  by (cases bytes) (auto simp: picoquic_frames_cid_decode_def PICOQUIC_CONNECTION_ID_MAX_SIZE_def cid_ok_def Let_def)

end
