(* ===== verification/SockAddr.thy ===== *)
theory SockAddr
  imports ConnId
begin

text \<open>
  Socket addresses (\<^verbatim>\<open>picoquic/util.c\<close>).  The record lays out the first 24 bytes of
  \<open>struct sockaddr_storage\<close>, which \<open>sockaddr_in\<close> and \<open>sockaddr_in6\<close> share: the port has the same place in
  both, bytes 4 to 7 are \<open>sin_addr\<close> (the flow label of IPv6), bytes 8 to 23 are \<open>sin6_addr\<close> (their first eight
  are \<open>sin_zero\<close>).  \<open>inet_pton\<close> and \<open>inet_ntop\<close> are parameters.
\<close>

definition AF_UNSPEC :: u16 where "AF_UNSPEC = 0"
definition AF_INET :: u16 where "AF_INET = 2"
definition AF_INET6 :: u16 where "AF_INET6 = 10"

record sockaddr =
  sa_family :: u16
  sin_port :: u16
  sin_addr :: bytes
  sin6_addr :: bytes

definition sockaddr_zero :: sockaddr where
  "sockaddr_zero = \<lparr>sa_family = 0, sin_port = 0, sin_addr = replicate 4 0, sin6_addr = replicate 16 0\<rparr>"

text \<open>The two bytes of a port in memory order (it is kept in network order).\<close>

definition port_bytes :: "u16 \<Rightarrow> bytes" where
  "port_bytes p = [byte_at 0 p, byte_at 8 p]"

definition picoquic_hash_addr_bytes :: "sockaddr \<Rightarrow> bytes" where
  "picoquic_hash_addr_bytes addr =
     (if sa_family addr = AF_INET then sin_addr addr @ port_bytes (sin_port addr)
      else if sa_family addr = AF_INET6 then sin6_addr addr @ port_bytes (sin_port addr)
      else [])"

definition picoquic_hash_addr :: "sockaddr \<Rightarrow> bytes \<Rightarrow> u64" where
  "picoquic_hash_addr addr seed = picohash_siphash (picoquic_hash_addr_bytes addr) seed"

definition picoquic_compare_ip_addr :: "sockaddr \<Rightarrow> sockaddr \<Rightarrow> int" where
  "picoquic_compare_ip_addr expected actual =
     (if sa_family expected = sa_family actual then
        (if sa_family expected = AF_UNSPEC then 0
         else if sa_family expected = AF_INET6 then memcmp (sin6_addr expected) (sin6_addr actual)
         else if sa_family expected = AF_INET then memcmp (sin_addr expected) (sin_addr actual)
         else 0)
      else if sa_family expected > sa_family actual then 1 else -1)"

definition picoquic_get_addr_port :: "sockaddr \<Rightarrow> u16" where
  "picoquic_get_addr_port addr = sin_port addr"

text \<open>The second part of the condition is \<open>expected->sa_family\<close> alone: the ports are compared for every
  family but \<open>AF_UNSPEC\<close>.\<close>

definition picoquic_compare_addr :: "sockaddr \<Rightarrow> sockaddr \<Rightarrow> int" where
  "picoquic_compare_addr expected actual =
     (let ret = picoquic_compare_ip_addr expected actual in
      if ret = 0 \<and> (sa_family expected = AF_INET6 \<or> sa_family expected \<noteq> 0) then
        (let p_ex = picoquic_get_addr_port expected; p_ac = picoquic_get_addr_port actual in
         if p_ex \<noteq> p_ac then (if p_ex > p_ac then 1 else -1) else ret)
      else ret)"

definition picoquic_set_addr_port :: "sockaddr \<Rightarrow> u16 \<Rightarrow> sockaddr" where
  "picoquic_set_addr_port addr port = addr\<lparr>sin_port := port\<rparr>"

definition picoquic_addr_length :: "sockaddr \<Rightarrow> int" where
  "picoquic_addr_length addr =
     (if sa_family addr = AF_INET then 16 else if sa_family addr = AF_INET6 then 28 else 0)"

definition picoquic_store_addr :: "sockaddr \<Rightarrow> sockaddr option \<Rightarrow> sockaddr" where
  "picoquic_store_addr stored_addr addr =
     (case addr of
        None \<Rightarrow> stored_addr\<lparr>sa_family := 0\<rparr>
      | Some a \<Rightarrow>
          (if picoquic_addr_length a = 0 then stored_addr\<lparr>sa_family := 0\<rparr>
           else if picoquic_addr_length a = 16 then
             a\<lparr>sin6_addr := take 8 (sin6_addr a) @ drop 8 (sin6_addr stored_addr)\<rparr>
           else a))"

definition picoquic_get_ip_addr :: "sockaddr \<Rightarrow> bytes option \<times> u8" where
  "picoquic_get_ip_addr addr =
     (if sa_family addr = AF_INET then (Some (sin_addr addr), 4)
      else if sa_family addr = AF_INET6 then (Some (sin6_addr addr), 16)
      else (None, 0))"

definition picoquic_store_text_addr ::
  "(u16 \<Rightarrow> string \<Rightarrow> bytes option) \<Rightarrow> string \<Rightarrow> u16 \<Rightarrow> sockaddr \<times> int" where
  "picoquic_store_text_addr inet_pton ip_address_text port =
     (case inet_pton AF_INET ip_address_text of
        Some ip \<Rightarrow> (sockaddr_zero\<lparr>sin_addr := ip, sa_family := AF_INET, sin_port := port\<rparr>, 0)
      | None \<Rightarrow>
          (case inet_pton AF_INET6 ip_address_text of
             Some ip \<Rightarrow> (sockaddr_zero\<lparr>sin6_addr := ip, sa_family := AF_INET6, sin_port := port\<rparr>, 0)
           | None \<Rightarrow> (sockaddr_zero, -1)))"

text \<open>Decimal text of a number, as \<open>%d\<close> prints it.\<close>

fun decimal :: "nat \<Rightarrow> string" where
  "decimal n = (if n < 10 then [char_of (48 + n)] else decimal (n div 10) @ [char_of (48 + n mod 10)])"

declare decimal.simps [simp del]

text \<open>\<open>picoquic_sprintf\<close> succeeds when the text and its final zero fit into the buffer.\<close>

definition picoquic_addr_text ::
  "(u16 \<Rightarrow> bytes \<Rightarrow> string) \<Rightarrow> sockaddr option \<Rightarrow> nat \<Rightarrow> string" where
  "picoquic_addr_text inet_ntop addr text_size =
     (case addr of
        None \<Rightarrow> ''?:?''
      | Some a \<Rightarrow>
          if sa_family a = AF_INET then
            (let text = inet_ntop AF_INET (sin_addr a) @ '':'' @ decimal (unat (sin_port a))
             in if length text < text_size then text else ''?:?'')
          else if sa_family a = AF_INET6 then
            (let text = ''['' @ inet_ntop AF_INET6 (sin6_addr a) @ '']:'' @ decimal (unat (sin_port a))
             in if length text < text_size then text else ''?:?'')
          else ''?:?'')"

text \<open>For another family the storage is not touched.\<close>

definition picoquic_store_loopback_addr ::
  "(u16 \<Rightarrow> string \<Rightarrow> bytes option) \<Rightarrow> sockaddr \<Rightarrow> u16 \<Rightarrow> u16 \<Rightarrow> sockaddr \<times> int" where
  "picoquic_store_loopback_addr inet_pton stored_addr addr_family port =
     (if addr_family = AF_INET then picoquic_store_text_addr inet_pton ''127.0.0.1'' port
      else if addr_family = AF_INET6 then picoquic_store_text_addr inet_pton ''::1'' port
      else (stored_addr, -1))"

record tp_preferred_address =
  is_defined :: bool
  ipv4Address :: bytes
  ipv4Port :: u16
  ipv6Address :: bytes
  ipv6Port :: u16
  preferred_connection_id :: picoquic_connection_id_t
  statelessResetToken :: bytes

definition preferred_zero :: tp_preferred_address where
  "preferred_zero = \<lparr>is_defined = False, ipv4Address = replicate 4 0, ipv4Port = 0, ipv6Address = replicate 16 0,
     ipv6Port = 0, preferred_connection_id = picoquic_null_connection_id, statelessResetToken = replicate 16 0\<rparr>"

definition picoquic_set_preferred_address ::
  "(u16 \<Rightarrow> string \<Rightarrow> bytes option) \<Rightarrow> string option \<Rightarrow> string option \<Rightarrow> u16 \<Rightarrow> tp_preferred_address \<times> int" where
  "picoquic_set_preferred_address inet_pton v4_text v6_text preferred_port =
     (let preferred = preferred_zero;
          (v4_addr, ret) = (case v4_text of None \<Rightarrow> (sockaddr_zero, 0)
             | Some t \<Rightarrow> picoquic_store_text_addr inet_pton t preferred_port);
          (v6_addr, ret) = (case v6_text of Some t \<Rightarrow>
               if ret = 0 then picoquic_store_text_addr inet_pton t preferred_port else (sockaddr_zero, ret)
             | None \<Rightarrow> (sockaddr_zero, ret))
      in if ret \<noteq> 0 then (preferred, ret)
         else
           let (preferred, ret) =
                 (if v4_text \<noteq> None then
                    (if sa_family v4_addr \<noteq> AF_INET then (preferred, -1)
                     else (preferred\<lparr>ipv4Address := sin_addr v4_addr,
                             ipv4Port := (if sin_port v4_addr = 0 then preferred_port else sin_port v4_addr),
                             is_defined := True\<rparr>, ret))
                  else (preferred, ret))
           in if v6_text \<noteq> None then
                (if sa_family v6_addr \<noteq> AF_INET6 then (preferred, -1)
                 else (preferred\<lparr>ipv6Address := sin6_addr v6_addr,
                         ipv6Port := (if sin_port v6_addr = 0 then preferred_port else sin_port v6_addr),
                         is_defined := True\<rparr>, ret))
              else (preferred, ret))"

subsection \<open>Comparison and hash\<close>

definition addr_ok :: "sockaddr \<Rightarrow> bool" where
  "addr_ok a \<longleftrightarrow> length (sin_addr a) = 4 \<and> length (sin6_addr a) = 16"

lemma addr_families [simp]:
  "AF_INET \<noteq> AF_INET6" "AF_INET6 \<noteq> AF_INET" "AF_INET \<noteq> AF_UNSPEC" "AF_INET6 \<noteq> AF_UNSPEC"
  "AF_INET \<noteq> 0" "AF_INET6 \<noteq> 0" "AF_UNSPEC = 0"
  by (simp_all add: AF_UNSPEC_def AF_INET_def AF_INET6_def)

lemma compare_ip_addr_0:
  assumes "addr_ok a" and "addr_ok b"
  shows "picoquic_compare_ip_addr a b = 0 \<longleftrightarrow> sa_family a = sa_family b \<and>
    (sa_family a = AF_INET \<longrightarrow> sin_addr a = sin_addr b) \<and> (sa_family a = AF_INET6 \<longrightarrow> sin6_addr a = sin6_addr b)"
proof -
  have "memcmp (sin_addr a) (sin_addr b) = 0 \<longleftrightarrow> sin_addr a = sin_addr b"
    "memcmp (sin6_addr a) (sin6_addr b) = 0 \<longleftrightarrow> sin6_addr a = sin6_addr b"
    using assms by (simp_all add: addr_ok_def memcmp_eq_0)
  then show ?thesis unfolding picoquic_compare_ip_addr_def by auto
qed

lemma compare_addr_0:
  assumes "addr_ok a" and "addr_ok b"
  shows "picoquic_compare_addr a b = 0 \<longleftrightarrow> sa_family a = sa_family b \<and>
    (sa_family a \<noteq> AF_UNSPEC \<longrightarrow> sin_port a = sin_port b) \<and>
    (sa_family a = AF_INET \<longrightarrow> sin_addr a = sin_addr b) \<and> (sa_family a = AF_INET6 \<longrightarrow> sin6_addr a = sin6_addr b)"
proof (cases "picoquic_compare_ip_addr a b = 0")
  case True
  then have "picoquic_compare_addr a b = 0 \<longleftrightarrow> (sa_family a \<noteq> 0 \<longrightarrow> sin_port a = sin_port b)"
    by (auto simp: picoquic_compare_addr_def picoquic_get_addr_port_def Let_def)
  then show ?thesis using True unfolding compare_ip_addr_0 [OF assms] by simp
next
  case False
  then have "picoquic_compare_addr a b \<noteq> 0" by (simp add: picoquic_compare_addr_def Let_def)
  then show ?thesis using False unfolding compare_ip_addr_0 [OF assms] by blast
qed

lemma compare_addr_swap: "picoquic_compare_addr b a = - picoquic_compare_addr a b"
proof -
  have ip: "picoquic_compare_ip_addr b a = - picoquic_compare_ip_addr a b"
    using memcmp_swap [of "sin_addr b" "sin_addr a"] memcmp_swap [of "sin6_addr b" "sin6_addr a"]
    by (cases "sa_family a = sa_family b") (auto simp: picoquic_compare_ip_addr_def)
  have "sa_family a = sa_family b" if "picoquic_compare_ip_addr a b = 0"
    using that by (auto simp: picoquic_compare_ip_addr_def split: if_splits)
  then show ?thesis
    by (cases "picoquic_compare_ip_addr a b = 0")
      (auto simp: picoquic_compare_addr_def picoquic_get_addr_port_def ip Let_def)
qed

interpretation addr_table: hash_client picoquic_hash_addr picoquic_compare_addr addr_ok
proof
  show "picoquic_compare_addr k k = 0" if "addr_ok k" for k
    using that by (simp add: compare_addr_0)
  show "picoquic_hash_addr k seed = picoquic_hash_addr k' seed"
    if "addr_ok k" "addr_ok k'" "picoquic_compare_addr k k' = 0" for k k' seed
  proof -
    have "picoquic_hash_addr_bytes k = picoquic_hash_addr_bytes k'"
      using that(3) unfolding compare_addr_0 [OF that(1,2)]
      by (auto simp: picoquic_hash_addr_bytes_def)
    then show ?thesis by (simp add: picoquic_hash_addr_def)
  qed
qed

subsection \<open>Properties\<close>

text \<open>
  Two Internet addresses compare equal exactly when family, address and port agree; the comparison is
  antisymmetric, and equal addresses hash alike under every seed.
\<close>

theorem compare_addr_correct:
  assumes "addr_ok a" and "addr_ok b" and "sa_family a = AF_INET \<or> sa_family a = AF_INET6"
  shows "(picoquic_compare_addr a b = 0 \<longleftrightarrow> sa_family a = sa_family b \<and> sin_port a = sin_port b \<and>
      (if sa_family a = AF_INET then sin_addr a = sin_addr b else sin6_addr a = sin6_addr b)) \<and>
    picoquic_compare_addr b a = - picoquic_compare_addr a b \<and>
    (picoquic_compare_addr a b = 0 \<longrightarrow> picoquic_hash_addr a seed = picoquic_hash_addr b seed)"
  using assms(3) addr_table.compare_hash [OF assms(1,2)] compare_addr_0 [OF assms(1,2)] compare_addr_swap [of b a]
  by auto

theorem compare_addr_correct_witness:
  "picoquic_compare_addr (sockaddr_zero\<lparr>sa_family := AF_INET, sin_port := 1\<rparr>) (sockaddr_zero\<lparr>sa_family := AF_INET, sin_port := 2\<rparr>) \<noteq> 0"
  using compare_addr_correct [of "sockaddr_zero\<lparr>sa_family := AF_INET, sin_port := 1\<rparr>" "sockaddr_zero\<lparr>sa_family := AF_INET, sin_port := 2\<rparr>"]
  by (simp add: addr_ok_def sockaddr_zero_def)

text \<open>
  An Internet address that was stored compares equal to the original, whatever the storage held; with
  no address, or one of another family, the stored family is 0.
\<close>

theorem store_addr_compares_equal:
  assumes "addr_ok a" and "addr_ok old"
  shows "if sa_family a = AF_INET \<or> sa_family a = AF_INET6
    then picoquic_compare_addr (picoquic_store_addr old (Some a)) a = 0
    else sa_family (picoquic_store_addr old (Some a)) = 0 \<and> sa_family (picoquic_store_addr old None) = 0"
proof -
  have "addr_ok (picoquic_store_addr old (Some a))"
    using assms by (auto simp: picoquic_store_addr_def addr_ok_def)
  then show ?thesis
    using assms(1) by (auto simp: compare_addr_0) (auto simp: picoquic_store_addr_def picoquic_addr_length_def)
qed

theorem store_addr_compares_equal_witness:
  "picoquic_compare_addr (picoquic_store_addr sockaddr_zero (Some (sockaddr_zero\<lparr>sa_family := AF_INET, sin_port := 443\<rparr>)))
     (sockaddr_zero\<lparr>sa_family := AF_INET, sin_port := 443\<rparr>) = 0"
  using store_addr_compares_equal [of "sockaddr_zero\<lparr>sa_family := AF_INET, sin_port := 443\<rparr>" sockaddr_zero]
  by (simp add: addr_ok_def sockaddr_zero_def)

text \<open>
  Setting a preferred address succeeds exactly when every text given is an address of its family; the
  structure then holds these addresses with the port asked for.  A text of the other family is an error.
\<close>

theorem set_preferred_address_correct:
  "(snd (picoquic_set_preferred_address inet_pton v4_text v6_text port) = 0 \<longleftrightarrow>
     (case v4_text of None \<Rightarrow> True | Some t \<Rightarrow> inet_pton AF_INET t \<noteq> None) \<and>
     (case v6_text of None \<Rightarrow> True | Some t \<Rightarrow> inet_pton AF_INET t = None \<and> inet_pton AF_INET6 t \<noteq> None)) \<and>
   (snd (picoquic_set_preferred_address inet_pton v4_text v6_text port) = 0 \<longrightarrow>
     (let p = fst (picoquic_set_preferred_address inet_pton v4_text v6_text port) in
      (is_defined p \<longleftrightarrow> v4_text \<noteq> None \<or> v6_text \<noteq> None) \<and>
      (case v4_text of None \<Rightarrow> ipv4Port p = 0 | Some t \<Rightarrow> Some (ipv4Address p) = inet_pton AF_INET t \<and> ipv4Port p = port) \<and>
      (case v6_text of None \<Rightarrow> ipv6Port p = 0 | Some t \<Rightarrow> Some (ipv6Address p) = inet_pton AF_INET6 t \<and> ipv6Port p = port)))"
  by (cases v4_text; cases v6_text)
    (auto simp: picoquic_set_preferred_address_def picoquic_store_text_addr_def sockaddr_zero_def preferred_zero_def
      Let_def split: option.splits)

theorem set_preferred_address_correct_witness:
  "snd (picoquic_set_preferred_address (\<lambda>f t. if f = AF_INET \<and> t = ''1.2.3.4'' then Some [1, 2, 3, 4] else None)
     (Some ''1.2.3.4'') None 443) = 0 \<and>
   ipv4Port (fst (picoquic_set_preferred_address (\<lambda>f t. if f = AF_INET \<and> t = ''1.2.3.4'' then Some [1, 2, 3, 4] else None)
     (Some ''1.2.3.4'') None 443)) = 443"
  using set_preferred_address_correct [of "\<lambda>f t. if f = AF_INET \<and> t = ''1.2.3.4'' then Some [1, 2, 3, 4] else None" "Some ''1.2.3.4''" None 443]
  by (simp add: Let_def)

end
