(* ===== verification/Streams.thy ===== *)
theory Streams
  imports SockAddr
begin

text \<open>
  Stream identifiers, the initial flow-control limits and the list of streams that have data to send
  (\<^verbatim>\<open>picoquic/quicctx.c\<close>, \<^verbatim>\<open>frames.c\<close>, \<^verbatim>\<open>picoquic_internal.h\<close>), as far as the transport parameters
  act on them.

  The stream tree is the list of its streams by increasing identifier; the doubly linked list from
  \<open>first_output_stream\<close> to \<open>last_output_stream\<close> is the list of their identifiers.
\<close>

record picoquic_tp_t =
  initial_max_stream_data_bidi_local :: u64
  initial_max_stream_data_bidi_remote :: u64
  initial_max_stream_data_uni :: u64
  initial_max_data :: u64
  initial_max_stream_id_bidir :: u64
  initial_max_stream_id_unidir :: u64
  max_idle_timeout :: u64
  max_packet_size :: u32
  max_ack_delay :: u32
  active_connection_id_limit :: u32
  ack_delay_exponent :: u8
  migration_disabled :: bool
  preferred_address :: tp_preferred_address
  max_datagram_frame_size :: u32
  enable_loss_bit :: int
  enable_time_stamp :: int
  min_ack_delay :: u64
  tp_do_grease_quic_bit :: bool
  enable_bdp_frame :: int
  initial_max_path_id :: u64
  address_discovery_mode :: int
  tp_is_reset_stream_at_enabled :: bool

definition tp_zero :: picoquic_tp_t where
  "tp_zero = \<lparr>initial_max_stream_data_bidi_local = 0, initial_max_stream_data_bidi_remote = 0,
     initial_max_stream_data_uni = 0, initial_max_data = 0, initial_max_stream_id_bidir = 0,
     initial_max_stream_id_unidir = 0, max_idle_timeout = 0, max_packet_size = 0, max_ack_delay = 0,
     active_connection_id_limit = 0, ack_delay_exponent = 0, migration_disabled = False,
     preferred_address = preferred_zero, max_datagram_frame_size = 0, enable_loss_bit = 0, enable_time_stamp = 0,
     min_ack_delay = 0, tp_do_grease_quic_bit = False, enable_bdp_frame = 0, initial_max_path_id = 0,
     address_discovery_mode = 0, tp_is_reset_stream_at_enabled = False\<rparr>"

subsection \<open>Stream identifiers\<close>

definition IS_CLIENT_STREAM_ID :: "u64 \<Rightarrow> bool" where
  "IS_CLIENT_STREAM_ID i \<longleftrightarrow> i AND 1 = 0"

definition IS_BIDIR_STREAM_ID :: "u64 \<Rightarrow> bool" where
  "IS_BIDIR_STREAM_ID i \<longleftrightarrow> i AND 2 = 0"

definition IS_LOCAL_STREAM_ID :: "u64 \<Rightarrow> bool \<Rightarrow> bool" where
  "IS_LOCAL_STREAM_ID i client_mode \<longleftrightarrow> (i XOR of_bool client_mode) AND 1 \<noteq> 0"

definition STREAM_ID_FROM_RANK :: "u64 \<Rightarrow> bool \<Rightarrow> bool \<Rightarrow> u64" where
  "STREAM_ID_FROM_RANK rank client_mode is_unidir =
     push_bit 2 (rank - 1) OR push_bit 1 (of_bool is_unidir) OR (of_bool client_mode XOR 1)"

definition STREAM_RANK_FROM_ID :: "u64 \<Rightarrow> u64" where
  "STREAM_RANK_FROM_ID i = drop_bit 2 (i + 4)"

subsection \<open>Streams of a connection\<close>

record stream_head =
  stream_id :: u64
  stream_priority :: u8
  stream_maxdata_remote :: u64
  is_output_stream :: bool

record stream_cnx =
  client_mode :: bool
  remote_parameters :: picoquic_tp_t
  local_parameters :: picoquic_tp_t
  streams :: "stream_head list"
  output_streams :: "u64 list"
  max_stream_id_bidir_remote :: u64
  max_stream_id_unidir_remote :: u64

definition raise_limit :: "u64 \<Rightarrow> stream_head \<Rightarrow> stream_head" where
  "raise_limit limit st = (if stream_maxdata_remote st < limit then st\<lparr>stream_maxdata_remote := limit\<rparr> else st)"

definition picoquic_update_stream_initial_remote :: "'a stream_cnx_scheme \<Rightarrow> 'a stream_cnx_scheme" where
  "picoquic_update_stream_initial_remote cnx =
     (let p = remote_parameters cnx in
      cnx\<lparr>streams := map (\<lambda>st.
        if IS_LOCAL_STREAM_ID (stream_id st) (client_mode cnx) then
          (if IS_BIDIR_STREAM_ID (stream_id st) then raise_limit (initial_max_stream_data_bidi_remote p) st
           else raise_limit (initial_max_stream_data_uni p) st)
        else if IS_BIDIR_STREAM_ID (stream_id st) then raise_limit (initial_max_stream_data_bidi_local p) st
        else st) (streams cnx)\<rparr>)"

definition head_at :: "'a stream_cnx_scheme \<Rightarrow> u64 \<Rightarrow> stream_head option" where
  "head_at cnx i = find (\<lambda>st. stream_id st = i) (streams cnx)"

definition priority_of :: "'a stream_cnx_scheme \<Rightarrow> u64 \<Rightarrow> u8" where
  "priority_of cnx i = (case head_at cnx i of None \<Rightarrow> 0 | Some st \<Rightarrow> stream_priority st)"

definition picoquic_compare_stream_priority :: "'a stream_cnx_scheme \<Rightarrow> u64 \<Rightarrow> u64 \<Rightarrow> int" where
  "picoquic_compare_stream_priority cnx i j =
     (if priority_of cnx i < priority_of cnx j then -1
      else if priority_of cnx i = priority_of cnx j then
        (if i < j then -1 else if i = j then 0 else 1)
      else 1)"

definition set_output_flag :: "u64 \<Rightarrow> bool \<Rightarrow> 'a stream_cnx_scheme \<Rightarrow> 'a stream_cnx_scheme" where
  "set_output_flag i b cnx =
     cnx\<lparr>streams := map (\<lambda>st. if stream_id st = i then st\<lparr>is_output_stream := b\<rparr> else st) (streams cnx)\<rparr>"

text \<open>The walk along the list from its first element: insert before the first element that comes later,
  stop when the stream is found, insert after the last element otherwise.\<close>

fun insert_in_order :: "(u64 \<Rightarrow> u64 \<Rightarrow> int) \<Rightarrow> u64 \<Rightarrow> u64 list \<Rightarrow> u64 list" where
  "insert_in_order cmp i [] = [i]"
| "insert_in_order cmp i (j # js) =
     (if cmp i j < 0 then i # j # js else if cmp i j = 0 then j # js else j # insert_in_order cmp i js)"

definition picoquic_insert_output_stream :: "'a stream_cnx_scheme \<Rightarrow> stream_head \<Rightarrow> 'a stream_cnx_scheme" where
  "picoquic_insert_output_stream cnx st =
     (let i = stream_id st; cmp = picoquic_compare_stream_priority cnx in
      if \<not> is_output_stream st then
        (if IS_CLIENT_STREAM_ID i = client_mode cnx \<and>
            i > (if IS_BIDIR_STREAM_ID i then max_stream_id_bidir_remote cnx else max_stream_id_unidir_remote cnx)
         then cnx
         else
           set_output_flag i True
             (cnx\<lparr>output_streams :=
               (if output_streams cnx = [] then [i]
                else if cmp i (last (output_streams cnx)) \<ge> 0 then output_streams cnx @ [i]
                else insert_in_order cmp i (output_streams cnx))\<rparr>))
      else cnx)"

text \<open>A stream that carries the mark and is not in the list has no neighbours: taking it out empties the list.\<close>

definition picoquic_remove_output_stream :: "'a stream_cnx_scheme \<Rightarrow> stream_head \<Rightarrow> 'a stream_cnx_scheme" where
  "picoquic_remove_output_stream cnx st =
     (if is_output_stream st
      then set_output_flag (stream_id st) False
             (cnx\<lparr>output_streams :=
               (if stream_id st \<in> set (output_streams cnx) then filter (\<lambda>j. j \<noteq> stream_id st) (output_streams cnx) else [])\<rparr>)
      else cnx)"

text \<open>The neighbours of an element of the list.\<close>

definition previous_of :: "u64 \<Rightarrow> u64 list \<Rightarrow> u64 option" where
  "previous_of i js = (case rev (takeWhile (\<lambda>j. j \<noteq> i) js) of [] \<Rightarrow> None | j # _ \<Rightarrow> Some j)"

definition next_of :: "u64 \<Rightarrow> u64 list \<Rightarrow> u64 option" where
  "next_of i js = (case dropWhile (\<lambda>j. j \<noteq> i) js of _ # j # _ \<Rightarrow> Some j | _ \<Rightarrow> None)"

definition picoquic_reorder_output_stream :: "'a stream_cnx_scheme \<Rightarrow> stream_head \<Rightarrow> 'a stream_cnx_scheme" where
  "picoquic_reorder_output_stream cnx st =
     (let i = stream_id st; cmp = picoquic_compare_stream_priority cnx in
      if is_output_stream st \<and>
         ((case previous_of i (output_streams cnx) of None \<Rightarrow> False | Some j \<Rightarrow> cmp i j < 0) \<or>
          (case next_of i (output_streams cnx) of None \<Rightarrow> False | Some j \<Rightarrow> cmp i j > 0))
      then picoquic_insert_output_stream (picoquic_remove_output_stream cnx st) (st\<lparr>is_output_stream := False\<rparr>)
      else cnx)"

text \<open>The walk of \<open>picoquic_add_output_streams\<close> from the stream \<open>first_new_id\<close> on, when it exists.\<close>

fun add_output_walk :: "u64 \<Rightarrow> u64 \<Rightarrow> bool \<Rightarrow> stream_head list \<Rightarrow> 'a stream_cnx_scheme \<Rightarrow> 'a stream_cnx_scheme" where
  "add_output_walk old_limit new_limit is_bidir [] cnx = cnx"
| "add_output_walk old_limit new_limit is_bidir (st # sts) cnx =
     (if stream_id st > old_limit then
        (if stream_id st > new_limit then cnx
         else
           add_output_walk old_limit new_limit is_bidir sts
             (if IS_LOCAL_STREAM_ID (stream_id st) (client_mode cnx) \<and> IS_BIDIR_STREAM_ID (stream_id st) = is_bidir
              then picoquic_insert_output_stream cnx st else cnx))
      else add_output_walk old_limit new_limit is_bidir sts cnx)"

definition picoquic_add_output_streams :: "'a stream_cnx_scheme \<Rightarrow> u64 \<Rightarrow> u64 \<Rightarrow> bool \<Rightarrow> 'a stream_cnx_scheme" where
  "picoquic_add_output_streams cnx old_limit new_limit is_bidir =
     (let old_rank = STREAM_RANK_FROM_ID old_limit;
          first_new_id = STREAM_ID_FROM_RANK (old_rank + 1) (client_mode cnx) (\<not> is_bidir)
      in add_output_walk old_limit new_limit is_bidir
           (dropWhile (\<lambda>st. stream_id st \<noteq> first_new_id) (streams cnx)) cnx)"

subsection \<open>Order of the output list\<close>

definition before_stream :: "'a stream_cnx_scheme \<Rightarrow> u64 \<Rightarrow> u64 \<Rightarrow> bool" where
  "before_stream cnx i j \<longleftrightarrow> picoquic_compare_stream_priority cnx i j < 0"

lemma before_stream_iff:
  "before_stream cnx i j \<longleftrightarrow> priority_of cnx i < priority_of cnx j \<or> priority_of cnx i = priority_of cnx j \<and> i < j"
  by (auto simp: before_stream_def picoquic_compare_stream_priority_def)

lemma before_stream_trans: "before_stream cnx i j \<Longrightarrow> before_stream cnx j k \<Longrightarrow> before_stream cnx i k"
  unfolding before_stream_iff by (elim disjE conjE) (auto intro: less_trans)

lemma compare_cases:
  "picoquic_compare_stream_priority cnx i j = 0 \<longleftrightarrow> i = j"
  "picoquic_compare_stream_priority cnx i j > 0 \<longleftrightarrow> before_stream cnx j i"
  by (auto simp: picoquic_compare_stream_priority_def before_stream_iff)

definition in_order :: "'a stream_cnx_scheme \<Rightarrow> bool" where
  "in_order cnx \<longleftrightarrow> sorted_wrt (before_stream cnx) (output_streams cnx)"

lemma insert_in_order_set: "set (insert_in_order (picoquic_compare_stream_priority cnx) i js) = insert i (set js)"
  by (induction js) (auto simp: compare_cases)

lemma insert_in_order_sorted:
  assumes "sorted_wrt (before_stream cnx) js"
  shows "sorted_wrt (before_stream cnx) (insert_in_order (picoquic_compare_stream_priority cnx) i js)"
  using assms
proof (induction js)
  case (Cons j js)
  consider "before_stream cnx i j" | "i = j" | "before_stream cnx j i"
    using compare_cases [of cnx i j] by (force simp: before_stream_def)
  then show ?case
  proof cases
    case 1
    then have "insert_in_order (picoquic_compare_stream_priority cnx) i (j # js) = i # j # js"
      by (simp add: before_stream_def)
    then show ?thesis using Cons.prems 1 before_stream_trans by fastforce
  next
    case 2
    then show ?thesis using Cons.prems compare_cases(1) [of cnx j j] by simp
  next
    case 3
    then have "picoquic_compare_stream_priority cnx i j > 0" by (simp add: compare_cases)
    then show ?thesis using Cons 3 by (simp add: insert_in_order_set)
  qed
qed simp

lemma find_map_same_key:
  "(\<And>x. P (f x) = P x) \<Longrightarrow> find P (map f xs) = map_option f (find P xs)"
  by (induction xs) auto

lemma priority_of_flag: "priority_of (set_output_flag k b cnx) i = priority_of cnx i"
proof -
  let ?f = "\<lambda>st. if stream_id st = k then st\<lparr>is_output_stream := b\<rparr> else st"
  have "find (\<lambda>st. stream_id st = i) (map ?f (streams cnx)) = map_option ?f (head_at cnx i)"
    unfolding head_at_def by (rule find_map_same_key) simp
  then have "head_at (set_output_flag k b cnx) i = map_option ?f (head_at cnx i)"
    unfolding head_at_def set_output_flag_def by simp
  then show ?thesis
    unfolding priority_of_def by (cases "head_at cnx i") simp_all
qed

lemma priority_of_output: "priority_of (cnx\<lparr>output_streams := js\<rparr>) i = priority_of cnx i"
  by (simp add: priority_of_def head_at_def)

lemma before_stream_cong: "(\<And>i. priority_of c i = priority_of c' i) \<Longrightarrow> before_stream c = before_stream c'"
  by (intro ext) (simp add: before_stream_iff)

lemma before_stream_update: "before_stream (set_output_flag k b (cnx\<lparr>output_streams := js\<rparr>)) = before_stream cnx"
  by (rule before_stream_cong) (simp add: priority_of_flag priority_of_output)

lemma output_streams_flag: "output_streams (set_output_flag k b cnx) = output_streams cnx"
  by (simp add: set_output_flag_def)

lemma insert_output_in_order:
  assumes "in_order cnx" and "stream_id st \<notin> set (output_streams cnx)"
  shows "in_order (picoquic_insert_output_stream cnx st)"
proof -
  let ?i = "stream_id st" and ?js = "output_streams cnx"
  have last: "sorted_wrt (before_stream cnx) (?js @ [?i])"
    if "?js \<noteq> []" "picoquic_compare_stream_priority cnx ?i (last ?js) \<ge> 0"
  proof -
    have "?i \<noteq> last ?js" using assms(2) that(1) by (metis last_in_set)
    then have "before_stream cnx (last ?js) ?i"
      using that(2) compare_cases [of cnx ?i "last ?js"] by linarith
    moreover have "before_stream cnx j (last ?js) \<or> j = last ?js" if "j \<in> set ?js" for j
      using that assms(1) unfolding in_order_def
      by (cases ?js rule: rev_cases) (auto simp: sorted_wrt_append)
    ultimately have "\<forall>j\<in>set ?js. before_stream cnx j ?i" using before_stream_trans by blast
    then show ?thesis using assms(1) by (simp add: in_order_def sorted_wrt_append)
  qed
  show ?thesis
    using assms(1) last insert_in_order_sorted
    by (auto simp: in_order_def picoquic_insert_output_stream_def before_stream_update output_streams_flag Let_def)
qed

lemma insert_output_set:
  "set (output_streams (picoquic_insert_output_stream cnx st)) \<subseteq> insert (stream_id st) (set (output_streams cnx))"
  by (auto simp: picoquic_insert_output_stream_def output_streams_flag insert_in_order_set Let_def)

lemma remove_output_in_order: "in_order cnx \<Longrightarrow> in_order (picoquic_remove_output_stream cnx st)"
  by (auto simp: in_order_def picoquic_remove_output_stream_def before_stream_update output_streams_flag sorted_wrt_filter)

end
