(* ===== verification/ByteStream.thy ===== *)
theory ByteStream
  imports SockAddr
begin

text \<open>
  The byte streams of \<^verbatim>\<open>picoquic/bytestream.c\<close>: a cursor over a fixed buffer with typed reads and
  writes, used by the binary logs.  Every operation returns 0, or \<open>-1\<close> after moving the cursor to the end;
  composite operations combine the codes of their parts with a bitwise or and go on after an error, as the
  code does.  A read takes the old content of its output argument.
\<close>

record bytestream =
  data :: "bytes option"
  size :: nat
  ptr :: nat

definition BYTESTREAM_MAX_BUFFER_SIZE :: nat where
  "BYTESTREAM_MAX_BUFFER_SIZE = 2560"

definition bytestream_ref_init :: "bytes \<Rightarrow> bytestream" where
  "bytestream_ref_init bytes = \<lparr>data = Some bytes, size = length bytes, ptr = 0\<rparr>"

text \<open>\<open>buf\<close> is the array inside the \<open>bytestream_buf\<close>; the stream covers its first \<open>nb_bytes\<close> bytes.\<close>

definition bytestream_buf_init :: "bytes \<Rightarrow> nat \<Rightarrow> bytestream option" where
  "bytestream_buf_init buf nb_bytes =
     (if nb_bytes > BYTESTREAM_MAX_BUFFER_SIZE then None
      else Some \<lparr>data = Some buf, size = nb_bytes, ptr = 0\<rparr>)"

text \<open>\<open>mem\<close> is the block returned by \<open>malloc (nb_bytes)\<close>, \<open>None\<close> when it fails.\<close>

definition bytestream_alloc :: "bytes option \<Rightarrow> nat \<Rightarrow> bytestream option" where
  "bytestream_alloc mem nb_bytes =
     (case mem of None \<Rightarrow> None | Some d \<Rightarrow> Some \<lparr>data = Some d, size = nb_bytes, ptr = 0\<rparr>)"

definition bytestream_delete :: "bytestream \<Rightarrow> bytestream" where
  "bytestream_delete s = s\<lparr>data := None\<rparr>"

definition bytestream_data :: "bytestream \<Rightarrow> bytes option" where
  "bytestream_data s = data s"

definition mem_of :: "bytestream \<Rightarrow> bytes" where
  "mem_of s = (case data s of None \<Rightarrow> [] | Some d \<Rightarrow> d)"

text \<open>The bytes from the cursor on.\<close>

definition bytestream_ptr :: "bytestream \<Rightarrow> bytes" where
  "bytestream_ptr s = drop (ptr s) (mem_of s)"

definition bytestream_size :: "bytestream \<Rightarrow> nat" where
  "bytestream_size s = size s"

definition bytestream_length :: "bytestream \<Rightarrow> nat" where
  "bytestream_length s = ptr s"

definition bytestream_remain :: "bytestream \<Rightarrow> nat" where
  "bytestream_remain s = size s - ptr s"

definition bytestream_reset :: "bytestream \<Rightarrow> bytestream" where
  "bytestream_reset s = s\<lparr>ptr := 0\<rparr>"

definition bytestream_clear :: "bytestream \<Rightarrow> bytestream" where
  "bytestream_clear s = s\<lparr>ptr := 0, data := map_option (\<lambda>d. replicate (size s) 0 @ drop (size s) d) (data s)\<rparr>"

definition bytestream_finished :: "bytestream \<Rightarrow> bool" where
  "bytestream_finished s \<longleftrightarrow> ptr s \<ge> size s"

definition bytestream_error :: "bytestream \<Rightarrow> bytestream \<times> int" where
  "bytestream_error s = (s\<lparr>ptr := size s\<rparr>, -1)"

text \<open>Advancing the cursor, and storing bytes at the cursor.\<close>

definition advance :: "bytestream \<Rightarrow> nat \<Rightarrow> bytestream" where
  "advance s n = s\<lparr>ptr := ptr s + n\<rparr>"

definition put :: "bytestream \<Rightarrow> bytes \<Rightarrow> bytestream" where
  "put s bs = s\<lparr>data := map_option (\<lambda>d. take (ptr s) d @ bs @ drop (ptr s + length bs) d) (data s),
     ptr := ptr s + length bs\<rparr>"

definition bytestream_skip :: "bytestream \<Rightarrow> nat \<Rightarrow> bytestream \<times> int" where
  "bytestream_skip s nb_bytes =
     (if size s - ptr s < nb_bytes then bytestream_error s else (advance s nb_bytes, 0))"

definition byteread_skip_vint :: "bytestream \<Rightarrow> bytestream \<times> int" where
  "byteread_skip_vint s =
     (if size s - ptr s < 1 then bytestream_error s
      else bytestream_skip s (picoquic_decode_varint_length (mem_of s ! ptr s)))"

definition bytewrite_vint :: "bytestream \<Rightarrow> u64 \<Rightarrow> bytestream \<times> int" where
  "bytewrite_vint s value =
     (let bs = picoquic_varint_encode (size s - ptr s) value in
      if length bs = 0 then bytestream_error s else (put s bs, 0))"

definition byteread_vint :: "bytestream \<Rightarrow> u64 \<Rightarrow> bytestream \<times> int \<times> u64" where
  "byteread_vint s value =
     (if size s - ptr s < 1 then (case bytestream_error s of (s, ret) \<Rightarrow> (s, ret, value))
      else
        let (len, v) = picoquic_varint_decode (take (size s - ptr s) (bytestream_ptr s)) in
        if len = 0 then (case bytestream_error s of (s, ret) \<Rightarrow> (s, ret, v))
        else (advance s len, 0, v))"

definition bytestream_vint_len :: "u64 \<Rightarrow> nat" where
  "bytestream_vint_len value = picoquic_encode_varint_length value"

text \<open>\<open>size_t\<close> has 64 bits, so that the cast loses nothing.\<close>

definition byteread_vlen :: "bytestream \<Rightarrow> bytestream \<times> int \<times> u64" where
  "byteread_vlen s = byteread_vint s 0"

definition bytewrite_int8 :: "bytestream \<Rightarrow> u8 \<Rightarrow> bytestream \<times> int" where
  "bytewrite_int8 s value = (if size s - ptr s < 1 then bytestream_error s else (put s [value], 0))"

definition byteread_int8 :: "bytestream \<Rightarrow> u8 \<Rightarrow> bytestream \<times> int \<times> u8" where
  "byteread_int8 s value =
     (if size s - ptr s < 1 then (case bytestream_error s of (s, ret) \<Rightarrow> (s, ret, value))
      else (advance s 1, 0, mem_of s ! ptr s))"

definition byteshow_int8 :: "bytestream \<Rightarrow> u8 \<Rightarrow> int \<times> u8" where
  "byteshow_int8 s value = (if size s - ptr s < 1 then (-1, value) else (0, mem_of s ! ptr s))"

definition bytewrite_int16 :: "bytestream \<Rightarrow> u16 \<Rightarrow> bytestream \<times> int" where
  "bytewrite_int16 s value = (if size s - ptr s < 2 then bytestream_error s else (put s (picoformat_16 value), 0))"

definition byteread_int16 :: "bytestream \<Rightarrow> u16 \<Rightarrow> bytestream \<times> int \<times> u16" where
  "byteread_int16 s value =
     (if size s - ptr s < 2 then (case bytestream_error s of (s, ret) \<Rightarrow> (s, ret, value))
      else (let p = bytestream_ptr s in (advance s 2, 0, push_bit 8 (ucast (p ! 0)) OR ucast (p ! 1))))"

definition bytewrite_int32 :: "bytestream \<Rightarrow> u32 \<Rightarrow> bytestream \<times> int" where
  "bytewrite_int32 s value = (if size s - ptr s < 4 then bytestream_error s else (put s (picoformat_32 value), 0))"

definition byteread_int32 :: "bytestream \<Rightarrow> u32 \<Rightarrow> bytestream \<times> int \<times> u32" where
  "byteread_int32 s value =
     (if size s - ptr s < 4 then (case bytestream_error s of (s, ret) \<Rightarrow> (s, ret, value))
      else (let p = bytestream_ptr s in
        (advance s 4, 0, push_bit 24 (ucast (p ! 0)) OR push_bit 16 (ucast (p ! 1)) OR push_bit 8 (ucast (p ! 2)) OR ucast (p ! 3))))"

definition bytewrite_int64 :: "bytestream \<Rightarrow> u64 \<Rightarrow> bytestream \<times> int" where
  "bytewrite_int64 s value = (if size s - ptr s < 8 then bytestream_error s else (put s (picoformat_64 value), 0))"

definition byteread_int64 :: "bytestream \<Rightarrow> u64 \<Rightarrow> bytestream \<times> int \<times> u64" where
  "byteread_int64 s value =
     (if size s - ptr s < 8 then (case bytestream_error s of (s, ret) \<Rightarrow> (s, ret, value))
      else (advance s 8, 0, foldl shift_in 0 (take 8 (bytestream_ptr s))))"

definition bytewrite_buffer :: "bytestream \<Rightarrow> bytes \<Rightarrow> nat \<Rightarrow> bytestream \<times> int" where
  "bytewrite_buffer s buffer len =
     (if size s - ptr s < len then bytestream_error s else (put s (take len buffer), 0))"

text \<open>The first \<open>len\<close> bytes of the output buffer are replaced.\<close>

definition byteread_buffer :: "bytestream \<Rightarrow> bytes \<Rightarrow> nat \<Rightarrow> bytestream \<times> int \<times> bytes" where
  "byteread_buffer s buffer len =
     (if size s - ptr s < len then (case bytestream_error s of (s, ret) \<Rightarrow> (s, ret, buffer))
      else (advance s len, 0, take len (bytestream_ptr s) @ drop len buffer))"

subsection \<open>Composite fields\<close>

definition bytewrite_cid :: "bytestream \<Rightarrow> picoquic_connection_id_t \<Rightarrow> bytestream \<times> int" where
  "bytewrite_cid s cid =
     (let (s, r1) = bytewrite_int8 s (id_len cid);
          (s, r2) = bytewrite_buffer s (cid_id cid) (unat (id_len cid))
      in (s, r1 OR r2))"

definition byteread_cid :: "bytestream \<Rightarrow> picoquic_connection_id_t \<Rightarrow> bytestream \<times> int \<times> picoquic_connection_id_t" where
  "byteread_cid s cid =
     (let (s, ret, len) = byteread_int8 s (id_len cid);
          cid = cid\<lparr>id_len := len\<rparr>
      in if unat len > PICOQUIC_CONNECTION_ID_MAX_SIZE then (s, -1, cid)
         else
           let (s, r2, i) = byteread_buffer s (replicate 20 0) (unat len)
           in (s, ret OR r2, cid\<lparr>cid_id := i\<rparr>))"

definition byteskip_cid :: "bytestream \<Rightarrow> bytestream \<times> int" where
  "byteskip_cid s =
     (let (s, ret, len) = byteread_int8 s 0;
          (s, r2) = bytestream_skip s (unat len)
      in (s, ret OR r2))"

text \<open>A C string is the list of its characters before the final zero.\<close>

definition bytewrite_cstr :: "bytestream \<Rightarrow> bytes \<Rightarrow> bytestream \<times> int" where
  "bytewrite_cstr s cstr =
     (let l_cstr = length cstr;
          (s, r1) = bytewrite_vint s (of_nat l_cstr);
          (s, r2) = bytewrite_buffer s cstr l_cstr
      in (s, r1 OR r2))"

text \<open>The result is the content of the output array; on success it starts with the string and a zero.\<close>

definition byteread_cstr :: "bytestream \<Rightarrow> bytes \<Rightarrow> nat \<Rightarrow> bytestream \<times> int \<times> bytes" where
  "byteread_cstr s cstr max_len =
     (let (s, ret, l_read) = byteread_vint s 0 in
      if ret \<noteq> 0 \<or> unat (l_read + 1) > max_len then (s, -1, cstr)
      else
        let (s, r2, cstr) = byteread_buffer s cstr (unat l_read)
        in (s, ret OR r2, cstr[unat l_read := 0]))"

definition byteskip_cstr :: "bytestream \<Rightarrow> bytestream \<times> int" where
  "byteskip_cstr s =
     (let (s, ret, l_read) = byteread_vint s 0 in
      if ret \<noteq> 0 then (s, -1) else bytestream_skip s (unat l_read))"

definition bytewrite_addr :: "bytestream \<Rightarrow> sockaddr \<Rightarrow> bytestream \<times> int" where
  "bytewrite_addr s addr =
     (let (s, r1) = bytewrite_vint s (ucast (sa_family addr));
          (s, r2) = (if sa_family addr = AF_INET then bytewrite_buffer s (sin_addr addr) 4
                     else bytewrite_buffer s (sin6_addr addr) 16);
          (s, r3) = bytewrite_int16 s (sin_port addr)
      in (s, r1 OR r2 OR r3))"

definition byteread_addr :: "bytestream \<Rightarrow> sockaddr \<Rightarrow> bytestream \<times> int \<times> sockaddr" where
  "byteread_addr s addr =
     (let (s, ret, family) = byteread_vint s 0 in
      if ret = 0 \<and> family = ucast AF_INET then
        (let addr = addr\<lparr>sa_family := AF_INET\<rparr>;
             (s, r2, ip) = byteread_buffer s (sin_addr addr) 4;
             (s, r3, port) = byteread_int16 s (sin_port addr)
         in (s, ret OR r2 OR r3, addr\<lparr>sin_addr := ip, sin_port := port\<rparr>))
      else
        (let addr = addr\<lparr>sa_family := AF_INET6\<rparr>;
             (s, r2, ip) = byteread_buffer s (sin6_addr addr) 16;
             (s, r3, port) = byteread_int16 s (sin_port addr)
         in (s, ret OR r2 OR r3, addr\<lparr>sin6_addr := ip, sin_port := port\<rparr>)))"

definition byteskip_addr :: "bytestream \<Rightarrow> bytestream \<times> int" where
  "byteskip_addr s =
     (let (s, ret, family) = byteread_vint s 0;
          (s, r2) = (if ret = 0 \<and> family = ucast AF_INET then bytestream_skip s (4 + 2)
                     else bytestream_skip s (16 + 2))
      in (s, ret OR r2))"

subsection \<open>Streams and fields\<close>

definition stream_ok :: "bytestream \<Rightarrow> bool" where
  "stream_ok s \<longleftrightarrow> ptr s \<le> size s \<and> (\<exists>d. data s = Some d \<and> size s \<le> length d)"

text \<open>An error code or success, and the effect that every operation has on the frame of the stream: the size
  and the bytes before the old cursor and after the size are kept, and the cursor stays inside.\<close>

definition framed :: "bytestream \<Rightarrow> bytestream \<Rightarrow> bool" where
  "framed s s' \<longleftrightarrow> stream_ok s' \<and> size s' = size s \<and> ptr s \<le> ptr s' \<and> length (mem_of s') = length (mem_of s) \<and>
     take (ptr s) (mem_of s') = take (ptr s) (mem_of s) \<and> drop (size s) (mem_of s') = drop (size s) (mem_of s)"

lemma framed_refl: "stream_ok s \<Longrightarrow> framed s s"
  by (simp add: framed_def)

lemma framed_trans:
  assumes "framed s s'" and "framed s' s''"
  shows "framed s s''"
proof -
  have "take (ptr s) (mem_of s'') = take (ptr s) (take (ptr s') (mem_of s''))"
    using assms(1) by (simp add: framed_def min_def)
  also have "\<dots> = take (ptr s) (mem_of s)"
    using assms by (simp add: framed_def min_def)
  finally show ?thesis using assms by (simp add: framed_def)
qed

lemma framed_advance: "stream_ok s \<Longrightarrow> n \<le> size s - ptr s \<Longrightarrow> framed s (advance s n)"
  by (auto simp: framed_def stream_ok_def advance_def mem_of_def)

lemma framed_error: "stream_ok s \<Longrightarrow> framed s (fst (bytestream_error s))"
  by (auto simp: framed_def stream_ok_def bytestream_error_def mem_of_def)

lemma framed_put: "stream_ok s \<Longrightarrow> length bs \<le> size s - ptr s \<Longrightarrow> framed s (put s bs)"
  by (auto simp: framed_def stream_ok_def put_def mem_of_def)

text \<open>
  The contract of a typed field: writing stores the encoding at the cursor when it fits and fails otherwise;
  reading where the encoding lies returns the value and moves past it.  The second argument of \<open>rd\<close> is what
  the caller must know about the value: its type, and its length where that is not part of the encoding.
\<close>

locale stream_field =
  fixes wr :: "bytestream \<Rightarrow> 'a \<Rightarrow> bytestream \<times> int"
    and rd :: "bytestream \<Rightarrow> 'k \<Rightarrow> bytestream \<times> int \<times> 'a"
    and kind :: "'a \<Rightarrow> 'k" and enc :: "'a \<Rightarrow> bytes" and valid :: "'a \<Rightarrow> bool"
  assumes write_fits: "stream_ok s \<Longrightarrow> valid v \<Longrightarrow> length (enc v) \<le> size s - ptr s \<Longrightarrow> wr s v = (put s (enc v), 0)"
    and write_full: "stream_ok s \<Longrightarrow> valid v \<Longrightarrow> size s - ptr s < length (enc v) \<Longrightarrow> snd (wr s v) = -1"
    and read_enc: "stream_ok s \<Longrightarrow> valid v \<Longrightarrow> length (enc v) \<le> size s - ptr s \<Longrightarrow>
      take (length (enc v)) (bytestream_ptr s) = enc v \<Longrightarrow> rd s (kind v) = (advance s (length (enc v)), 0, v)"

text \<open>A message: its fields one after the other, stopping at the first error.\<close>

fun write_all :: "(bytestream \<Rightarrow> 'a \<Rightarrow> bytestream \<times> int) \<Rightarrow> bytestream \<Rightarrow> 'a list \<Rightarrow> bytestream \<times> int" where
  "write_all wr s [] = (s, 0)"
| "write_all wr s (v # vs) = (case wr s v of (s', ret) \<Rightarrow> if ret = 0 then write_all wr s' vs else (s', ret))"

fun read_all :: "(bytestream \<Rightarrow> 'k \<Rightarrow> bytestream \<times> int \<times> 'a) \<Rightarrow> bytestream \<Rightarrow> 'k list \<Rightarrow> bytestream \<times> int \<times> 'a list" where
  "read_all rd s [] = (s, 0, [])"
| "read_all rd s (k # ks) =
     (case rd s k of (s', ret, v) \<Rightarrow>
        if ret = 0 then (case read_all rd s' ks of (s'', ret', vs) \<Rightarrow> (s'', ret', v # vs)) else (s', ret, []))"

lemma put_append: "stream_ok s \<Longrightarrow> length xs + length ys \<le> size s - ptr s \<Longrightarrow> put (put s xs) ys = put s (xs @ ys)"
  by (auto simp: put_def stream_ok_def add_ac)

lemma put_frame:
  "stream_ok s \<Longrightarrow> length bs \<le> size s - ptr s \<Longrightarrow>
   stream_ok (put s bs) \<and> size (put s bs) = size s \<and> ptr (put s bs) = ptr s + length bs"
  by (auto simp: put_def stream_ok_def)

lemma advance_frame:
  "stream_ok s \<Longrightarrow> n \<le> size s - ptr s \<Longrightarrow>
   stream_ok (advance s n) \<and> size (advance s n) = size s \<and> ptr (advance s n) = ptr s + n \<and>
   bytestream_ptr (advance s n) = drop n (bytestream_ptr s)"
  by (auto simp: advance_def stream_ok_def bytestream_ptr_def mem_of_def add.commute)

lemma put_read_back:
  "stream_ok s \<Longrightarrow> length bs \<le> size s - ptr s \<Longrightarrow> take (length bs) (bytestream_ptr ((put s bs)\<lparr>ptr := ptr s\<rparr>)) = bs"
  by (auto simp: put_def stream_ok_def bytestream_ptr_def mem_of_def)

context stream_field
begin

lemma write_all_fits:
  assumes "stream_ok s" and "\<forall>v\<in>set vs. valid v" and "length (concat (map enc vs)) \<le> size s - ptr s"
  shows "write_all wr s vs = (put s (concat (map enc vs)), 0)"
  using assms
proof (induction vs arbitrary: s)
  case Nil
  then show ?case by (cases "data s") (auto simp: put_def stream_ok_def)
next
  case (Cons v vs)
  have "length (enc v) \<le> size s - ptr s" using Cons.prems(3) by simp
  moreover note put_frame [OF Cons.prems(1) this]
  ultimately show ?case
    using Cons put_append [OF Cons.prems(1), of "enc v" "concat (map enc vs)"] by (simp add: write_fits)
qed

lemma write_all_full:
  assumes "stream_ok s" and "\<forall>v\<in>set vs. valid v" and "size s - ptr s < length (concat (map enc vs))"
  shows "snd (write_all wr s vs) = -1"
  using assms
proof (induction vs arbitrary: s)
  case (Cons v vs)
  show ?case
  proof (cases "length (enc v) \<le> size s - ptr s")
    case True
    with Cons.prems put_frame [OF Cons.prems(1) True] show ?thesis
      using Cons.IH [of "put s (enc v)"] by (simp add: write_fits)
  next
    case False
    with Cons.prems have "snd (wr s v) = -1" by (simp add: write_full)
    then show ?thesis by (simp add: split_beta)
  qed
qed simp

lemma read_all_enc:
  assumes "stream_ok s" and "\<forall>v\<in>set vs. valid v" and "length (concat (map enc vs)) \<le> size s - ptr s"
    and "take (length (concat (map enc vs))) (bytestream_ptr s) = concat (map enc vs)"
  shows "read_all rd s (map kind vs) = (advance s (length (concat (map enc vs))), 0, vs)"
  using assms
proof (induction vs arbitrary: s)
  case Nil
  then show ?case by (simp add: advance_def)
next
  case (Cons v vs)
  let ?n = "length (enc v)" and ?rest = "concat (map enc vs)"
  have n: "?n \<le> size s - ptr s" using Cons.prems(3) by simp
  note frame = advance_frame [OF Cons.prems(1) n]
  have whole: "take (?n + length ?rest) (bytestream_ptr s) = enc v @ ?rest" using Cons.prems(4) by simp
  have first: "take ?n (bytestream_ptr s) = enc v"
    using arg_cong [OF whole, of "take ?n"] by (simp add: min_def)
  have "take (length ?rest) (drop ?n (bytestream_ptr s)) = ?rest"
    using arg_cong [OF whole, of "drop ?n"] by (simp add: drop_take)
  then have "read_all rd (advance s ?n) (map kind vs) = (advance (advance s ?n) (length ?rest), 0, vs)"
    using Cons.IH [of "advance s ?n"] Cons.prems frame by simp
  moreover have "advance (advance s ?n) (length ?rest) = advance s (?n + length ?rest)" by (simp add: advance_def)
  ultimately show ?case using read_enc [OF Cons.prems(1) _ n first] Cons.prems(2) by simp
qed

text \<open>Writing a message and reading it back from the place where it was written.\<close>

lemma message_roundtrip:
  assumes "stream_ok s" and "\<forall>v\<in>set vs. valid v" and "write_all wr s vs = (s', ret)"
  shows "if length (concat (map enc vs)) \<le> size s - ptr s
    then ret = 0 \<and> framed s s' \<and> read_all rd (s'\<lparr>ptr := ptr s\<rparr>) (map kind vs) = (s', 0, vs)
    else ret = -1"
proof (cases "length (concat (map enc vs)) \<le> size s - ptr s")
  case True
  let ?bs = "concat (map enc vs)"
  have w: "s' = put s ?bs" "ret = 0" using write_all_fits [OF assms(1,2) True] assms(3) by simp_all
  have ok: "stream_ok (s'\<lparr>ptr := ptr s\<rparr>)" using put_frame [OF assms(1) True] by (auto simp: w stream_ok_def)
  have "read_all rd (s'\<lparr>ptr := ptr s\<rparr>) (map kind vs) = (advance (s'\<lparr>ptr := ptr s\<rparr>) (length ?bs), 0, vs)"
    using read_all_enc [OF ok assms(2)] True put_read_back [OF assms(1) True] put_frame [OF assms(1) True] by (simp add: w)
  then show ?thesis
    using True w framed_put [OF assms(1) True] by (simp add: advance_def put_def)
next
  case False
  then show ?thesis using write_all_full [OF assms(1,2)] assms(3) by simp
qed

end

subsection \<open>The fields\<close>

lemma ptr_take:
  assumes "stream_ok s" and "n \<le> size s - ptr s" and "take n (bytestream_ptr s) = bs"
  obtains rest where "bytestream_ptr s = bs @ rest" and "take (size s - ptr s) (bytestream_ptr s) = bs @ take (size s - ptr s - n) rest"
proof
  have "n \<le> length (bytestream_ptr s)" using assms(1,2) by (auto simp: stream_ok_def bytestream_ptr_def mem_of_def)
  then have n: "length bs = n" using assms(3) by auto
  show eq: "bytestream_ptr s = bs @ drop n (bytestream_ptr s)" using assms(3) by (metis append_take_drop_id)
  show "take (size s - ptr s) (bytestream_ptr s) = bs @ take (size s - ptr s - n) (drop n (bytestream_ptr s))"
    using assms(2) n by (subst eq) simp
qed

lemma mem_at_ptr: "stream_ok s \<Longrightarrow> ptr s < size s \<Longrightarrow> mem_of s ! ptr s = bytestream_ptr s ! 0"
  by (auto simp: bytestream_ptr_def stream_ok_def mem_of_def)

lemma read_int8_enc:
  assumes "stream_ok s" and "1 \<le> size s - ptr s" and "take 1 (bytestream_ptr s) = [v]"
  shows "byteread_int8 s x = (advance s 1, 0, v)"
proof -
  obtain rest where "bytestream_ptr s = [v] @ rest" using ptr_take [OF assms] .
  then show ?thesis using mem_at_ptr [OF assms(1)] assms(2) by (auto simp: byteread_int8_def)
qed

lemma length_picoformat [simp]:
  "length (picoformat_16 v) = 2" "length (picoformat_32 w) = 4" "length (picoformat_64 x) = 8"
  by (simp_all add: picoformat_16_def picoformat_32_def picoformat_64_def)

interpretation int8: stream_field bytewrite_int8 "\<lambda>s (_ :: unit). byteread_int8 s 0" "\<lambda>_. ()" "\<lambda>v. [v]" "\<lambda>_. True"
  by unfold_locales (simp_all add: bytewrite_int8_def bytestream_error_def read_int8_enc)

lemma read_int16_enc:
  assumes "stream_ok s" and "2 \<le> size s - ptr s" and "take 2 (bytestream_ptr s) = picoformat_16 v"
  shows "byteread_int16 s x = (advance s 2, 0, v)"
proof -
  obtain rest where p: "bytestream_ptr s = [byte_at 8 v, byte_at 0 v] @ rest"
    using ptr_take [OF assms] by (auto simp: picoformat_16_def)
  have "push_bit 8 (ucast (byte_at 8 v)) OR ucast (byte_at 0 v) = v"
    by (rule bit_word_eqI) (auto simp: bit_simps)
  then show ?thesis using assms(2) by (simp add: byteread_int16_def p)
qed

interpretation int16: stream_field bytewrite_int16 "\<lambda>s (_ :: unit). byteread_int16 s 0" "\<lambda>_. ()" picoformat_16 "\<lambda>_. True"
  by unfold_locales (simp_all add: bytewrite_int16_def bytestream_error_def read_int16_enc)

interpretation int32: stream_field bytewrite_int32 "\<lambda>s (_ :: unit). byteread_int32 s 0" "\<lambda>_. ()" picoformat_32 "\<lambda>_. True"
proof
  fix s v
  assume s: "stream_ok s" and n: "length (picoformat_32 v) \<le> size s - ptr s"
    and t: "take (length (picoformat_32 v)) (bytestream_ptr s) = picoformat_32 v"
  obtain rest where p: "bytestream_ptr s = [byte_at 24 v, byte_at 16 v, byte_at 8 v, byte_at 0 v] @ rest"
    using ptr_take [OF s n t] by (auto simp: picoformat_32_def)
  have "push_bit 24 (ucast (byte_at 24 v)) OR push_bit 16 (ucast (byte_at 16 v)) OR push_bit 8 (ucast (byte_at 8 v)) OR
      ucast (byte_at 0 v) = v"
    by (rule bit_word_eqI) (auto simp: bit_simps diff_less_conv not_less elim: contrapos_np)
  then show "byteread_int32 s 0 = (advance s (length (picoformat_32 v)), 0, v)"
    using n by (simp add: byteread_int32_def p)
qed (simp_all add: bytewrite_int32_def bytestream_error_def)

interpretation int64: stream_field bytewrite_int64 "\<lambda>s (_ :: unit). byteread_int64 s 0" "\<lambda>_. ()" picoformat_64 "\<lambda>_. True"
proof
  fix s v
  assume s: "stream_ok s" and n: "length (picoformat_64 v) \<le> size s - ptr s"
    and t: "take (length (picoformat_64 v)) (bytestream_ptr s) = picoformat_64 v"
  have len: "length (picoformat_64 v) = 8" by (simp add: picoformat_64_def)
  have "foldl shift_in 0 (picoformat_64 v) = v"
    using shift_in_byte_at [of 56 v] shift_in_byte_at [of 48 v] shift_in_byte_at [of 40 v] shift_in_byte_at [of 32 v]
      shift_in_byte_at [of 24 v] shift_in_byte_at [of 16 v] shift_in_byte_at [of 8 v] shift_in_byte_at [of 0 v]
    by (simp add: picoformat_64_def drop_bit_eq_0_if_less unsigned_less [of v, simplified])
  then show "byteread_int64 s 0 = (advance s (length (picoformat_64 v)), 0, v)"
    using n t len by (simp add: byteread_int64_def)
qed (simp_all add: bytewrite_int64_def bytestream_error_def)

lemma read_vint_enc:
  assumes "stream_ok s" and "unat v < 2 ^ 62" and "length (picoquic_varint_encode 8 v) \<le> size s - ptr s"
    and "take (length (picoquic_varint_encode 8 v)) (bytestream_ptr s) = picoquic_varint_encode 8 v"
  shows "byteread_vint s x = (advance s (length (picoquic_varint_encode 8 v)), 0, v)"
proof -
  have le8: "picoquic_encode_varint_length v \<le> 8" by (simp add: picoquic_encode_varint_length_def)
  have len: "length (picoquic_varint_encode 8 v) = picoquic_encode_varint_length v"
    using le8 by (rule varint_encode_length)
  obtain rest where "take (size s - ptr s) (bytestream_ptr s) = picoquic_varint_encode 8 v @ rest"
    using ptr_take [OF assms(1,3,4)] by blast
  then have "picoquic_varint_decode (take (size s - ptr s) (bytestream_ptr s)) = (picoquic_encode_varint_length v, v)"
    using varint_roundtrip_small [OF assms(2) le8] by simp
  then show ?thesis
    using assms(3) encode_varint_length_pos [of v] by (auto simp: byteread_vint_def len)
qed

lemma varint_encode_room:
  "picoquic_encode_varint_length v \<le> room \<Longrightarrow> picoquic_varint_encode room v = picoquic_varint_encode 8 v"
  by (auto simp: picoquic_varint_encode_def picoquic_encode_varint_length_def split: if_splits)

lemma length_varint_encode8: "length (picoquic_varint_encode 8 v) = picoquic_encode_varint_length v"
  by (rule varint_encode_length) (simp add: picoquic_encode_varint_length_def)

interpretation vint: stream_field bytewrite_vint "\<lambda>s (_ :: unit). byteread_vint s 0" "\<lambda>_. ()" "picoquic_varint_encode 8" "\<lambda>v. unat v < 2 ^ 62"
proof
  fix s v
  show "bytewrite_vint s v = (put s (picoquic_varint_encode 8 v), 0)" if "length (picoquic_varint_encode 8 v) \<le> size s - ptr s"
    using that encode_varint_length_pos [of v] varint_encode_room [of v "size s - ptr s"] length_varint_encode8 [of v]
    by (auto simp: bytewrite_vint_def Let_def)
  show "snd (bytewrite_vint s v) = -1" if "size s - ptr s < length (picoquic_varint_encode 8 v)"
    using that varint_encode_no_room [of "size s - ptr s" v]
    by (simp add: bytewrite_vint_def Let_def length_varint_encode8 bytestream_error_def)
qed (rule read_vint_enc)

interpretation buffer: stream_field "\<lambda>s v. bytewrite_buffer s v (length v)" "\<lambda>s n. byteread_buffer s (replicate n 0) n"
  length "\<lambda>v. v" "\<lambda>_. True"
  by unfold_locales (simp_all add: bytewrite_buffer_def byteread_buffer_def bytestream_error_def)

subsection \<open>Composite fields are fields\<close>

definition cid_bytes :: "picoquic_connection_id_t \<Rightarrow> bytes" where
  "cid_bytes cid = id_len cid # take (unat (id_len cid)) (cid_id cid)"

lemma cid_bytes_length: "cid_ok cid \<Longrightarrow> length (cid_bytes cid) = Suc (unat (id_len cid))"
  by (auto simp: cid_ok_def cid_bytes_def)

lemma advance_advance: "advance (advance s m) n = advance s (m + n)"
  by (simp add: advance_def)

interpretation cid: stream_field bytewrite_cid "\<lambda>s (_ :: unit). byteread_cid s picoquic_null_connection_id" "\<lambda>_. ()" cid_bytes cid_ok
proof
  fix s v
  assume s: "stream_ok s" and v: "cid_ok v"
  let ?n = "unat (id_len v)"
  obtain bs where bs: "length bs = ?n" "?n \<le> 20" "cid_id v = bs @ replicate (20 - ?n) 0" using v by (rule cid_okE)
  have enc: "cid_bytes v = id_len v # bs" by (simp add: cid_bytes_def bs)
  { assume fits: "length (cid_bytes v) \<le> size s - ptr s"
    have one: "length [id_len v] \<le> size s - ptr s" using fits by (simp add: enc)
    note frame = put_frame [OF s one]
    show "bytewrite_cid s v = (put s (cid_bytes v), 0)"
      using fits frame put_append [OF s, of "[id_len v]" bs] bs
      by (auto simp: bytewrite_cid_def bytewrite_int8_def bytewrite_buffer_def enc Let_def)
    assume t: "take (length (cid_bytes v)) (bytestream_ptr s) = cid_bytes v"
    obtain rest where p: "bytestream_ptr s = (id_len v # bs) @ rest" using ptr_take [OF s fits t] by (auto simp: enc)
    have r8: "byteread_int8 s 0 = (advance s 1, 0, id_len v)"
      using fits by (intro read_int8_enc s) (simp_all add: p enc)
    note frame1 = advance_frame [OF s, of 1]
    have "byteread_buffer (advance s 1) (replicate 20 0) ?n = (advance (advance s 1) ?n, 0, cid_id v)"
      using frame1 fits bs by (auto simp: byteread_buffer_def p enc)
    then show "byteread_cid s picoquic_null_connection_id = (advance s (length (cid_bytes v)), 0, v)"
      using r8 bs by (simp add: byteread_cid_def picoquic_null_connection_id_def PICOQUIC_CONNECTION_ID_MAX_SIZE_def
          advance_advance enc) }
  assume full: "size s - ptr s < length (cid_bytes v)"
  show "snd (bytewrite_cid s v) = -1"
  proof (cases "size s - ptr s < 1")
    case True
    then show ?thesis by (simp add: bytewrite_cid_def bytewrite_int8_def bytestream_error_def split_beta Let_def)
  next
    case False
    then have one: "length [id_len v] \<le> size s - ptr s" by simp
    show ?thesis using False put_frame [OF s one] full bs
      by (auto simp: bytewrite_cid_def bytewrite_int8_def bytewrite_buffer_def bytestream_error_def enc Let_def)
  qed
qed

text \<open>The largest C string that is written with a length of 62 bits.\<close>

interpretation cstr: stream_field bytewrite_cstr
  "\<lambda>s n. case byteread_cstr s (replicate (Suc n) 0) (Suc n) of (s, ret, a) \<Rightarrow> (s, ret, take n a)" length
  "\<lambda>v. picoquic_varint_encode 8 (of_nat (length v)) @ v" "\<lambda>v. length v < 2 ^ 62"
proof
  fix s and v :: bytes
  assume s: "stream_ok s" and v: "length v < 2 ^ 62"
  let ?l = "of_nat (length v) :: u64" and ?e = "picoquic_varint_encode 8 (of_nat (length v))"
  have l: "unat ?l = length v" using v by (simp add: unat_of_nat)
  { assume fits: "length (?e @ v) \<le> size s - ptr s"
    then have e: "length ?e \<le> size s - ptr s" by simp
    note frame = put_frame [OF s e]
    have "bytewrite_vint s ?l = (put s ?e, 0)" using s e l v by (intro vint.write_fits) simp_all
    then show "bytewrite_cstr s v = (put s (?e @ v), 0)"
      using fits frame put_append [OF s, of ?e v] by (auto simp: bytewrite_cstr_def bytewrite_buffer_def Let_def)
    assume t: "take (length (?e @ v)) (bytestream_ptr s) = ?e @ v"
    obtain rest where p: "bytestream_ptr s = (?e @ v) @ rest" using ptr_take [OF s fits t] .
    have rv: "byteread_vint s 0 = (advance s (length ?e), 0, ?l)" using l v e p by (intro read_vint_enc s) simp_all
    have "unat (?l + 1) = Suc (length v)" using l v by (simp add: unat_word_ariths)
    moreover have "byteread_buffer (advance s (length ?e)) (replicate (Suc (length v)) 0) (length v) =
        (advance (advance s (length ?e)) (length v), 0, v @ [0])"
    proof -
      have "drop (length v) (replicate (Suc (length v)) 0) = [0 :: u8]" by (subst drop_replicate) simp
      then show ?thesis using advance_frame [OF s e] fits p by (auto simp: byteread_buffer_def simp del: replicate_Suc)
    qed
    ultimately show "(case byteread_cstr s (replicate (Suc (length v)) 0) (Suc (length v)) of (s, ret, a) \<Rightarrow> (s, ret, take (length v) a)) =
        (advance s (length (?e @ v)), 0, v)"
      using rv l by (simp add: byteread_cstr_def advance_advance Let_def del: replicate_Suc) }
  assume full: "size s - ptr s < length (?e @ v)"
  show "snd (bytewrite_cstr s v) = -1"
  proof (cases "length ?e \<le> size s - ptr s")
    case True
    have "bytewrite_vint s ?l = (put s ?e, 0)" using s True l v by (intro vint.write_fits) simp_all
    then show ?thesis using put_frame [OF s True] full True
      by (auto simp: bytewrite_cstr_def bytewrite_buffer_def bytestream_error_def Let_def)
  next
    case False
    then have "snd (bytewrite_vint s ?l) = -1" using s l v by (intro vint.write_full) simp_all
    then show ?thesis by (simp add: bytewrite_cstr_def split_beta Let_def)
  qed
qed

text \<open>Internet addresses whose unused bytes are zero.\<close>

definition ip_bytes :: "sockaddr \<Rightarrow> bytes" where
  "ip_bytes a = (if sa_family a = AF_INET then sin_addr a else sin6_addr a)"

definition addr_bytes :: "sockaddr \<Rightarrow> bytes" where
  "addr_bytes a = picoquic_varint_encode 8 (ucast (sa_family a)) @ ip_bytes a @ picoformat_16 (sin_port a)"

definition inet_addr :: "sockaddr \<Rightarrow> bool" where
  "inet_addr a \<longleftrightarrow> addr_ok a \<and> (sa_family a = AF_INET \<and> sin6_addr a = replicate 16 0 \<or>
     sa_family a = AF_INET6 \<and> sin_addr a = replicate 4 0)"

lemma family_varint:
  assumes "inet_addr a"
  shows "picoquic_varint_encode 8 (ucast (sa_family a)) = [ucast (sa_family a)]" and "unat (ucast (sa_family a) :: u64) < 2 ^ 62"
  using assms by (auto simp: inet_addr_def AF_INET_def AF_INET6_def picoquic_varint_encode_def byte_at_def)

lemma write_addr_eq:
  "bytewrite_addr s a = (let (s, r1) = bytewrite_vint s (ucast (sa_family a));
       (s, r2) = bytewrite_buffer s (ip_bytes a) (if sa_family a = AF_INET then 4 else 16);
       (s, r3) = bytewrite_int16 s (sin_port a) in (s, r1 OR r2 OR r3))"
  by (simp add: bytewrite_addr_def ip_bytes_def)

lemma ip_bytes_length: "inet_addr a \<Longrightarrow> length (ip_bytes a) = (if sa_family a = AF_INET then 4 else 16)"
  by (auto simp: inet_addr_def ip_bytes_def addr_ok_def)

interpretation addr: stream_field bytewrite_addr "\<lambda>s (_ :: unit). byteread_addr s sockaddr_zero" "\<lambda>_. ()" addr_bytes inet_addr
proof
  fix s v
  assume s: "stream_ok s" and v: "inet_addr v"
  let ?f = "ucast (sa_family v) :: u64" and ?e = "[ucast (sa_family v) :: u8]" and ?ip = "ip_bytes v" and ?p = "picoformat_16 (sin_port v)"
  let ?n = "if sa_family v = AF_INET then 4 else 16 :: nat"
  have enc: "addr_bytes v = ?e @ ?ip @ ?p" and n: "length ?ip = ?n"
    using family_varint(1) [OF v] ip_bytes_length [OF v] by (simp_all add: addr_bytes_def)
  { assume fits: "length (addr_bytes v) \<le> size s - ptr s"
    have e: "length ?e \<le> size s - ptr s" using fits by (simp add: enc)
    have ei: "length (?e @ ?ip) \<le> size s - ptr s" using fits by (simp add: enc)
    have w1: "bytewrite_vint s ?f = (put s ?e, 0)"
      using vint.write_fits [OF s family_varint(2) [OF v]] e family_varint(1) [OF v] by simp
    have w2: "bytewrite_buffer (put s ?e) ?ip ?n = (put s (?e @ ?ip), 0)"
      using put_frame [OF s e] put_append [OF s, of ?e ?ip] ei n by (auto simp: bytewrite_buffer_def)
    have w3: "bytewrite_int16 (put s (?e @ ?ip)) (sin_port v) = (put s (addr_bytes v), 0)"
      using put_frame [OF s ei] put_append [OF s, of "?e @ ?ip" ?p] fits by (auto simp: bytewrite_int16_def enc)
    show "bytewrite_addr s v = (put s (addr_bytes v), 0)"
      by (simp only: write_addr_eq w1 w2 w3 Let_def prod.case) simp
    assume t: "take (length (addr_bytes v)) (bytestream_ptr s) = addr_bytes v"
    obtain rest where p: "bytestream_ptr s = (?e @ ?ip @ ?p) @ rest" using ptr_take [OF s fits t] by (auto simp: enc)
    have rv: "byteread_vint s 0 = (advance s 1, 0, ?f)"
      using read_vint_enc [OF s family_varint(2) [OF v], of 0] family_varint(1) [OF v] e p by simp
    note f1 = advance_frame [OF s e]
    have rb: "byteread_buffer (advance s 1) old ?n = (advance s (Suc ?n), 0, ?ip @ drop ?n old)" for old
      using f1 ei p n by (auto simp: byteread_buffer_def advance_advance)
    have f2: "stream_ok (advance s (Suc ?n))" "size (advance s (Suc ?n)) = size s"
      "ptr (advance s (Suc ?n)) = ptr s + Suc ?n" "bytestream_ptr (advance s (Suc ?n)) = drop (Suc ?n) (bytestream_ptr s)"
      using advance_frame [OF s ei] n by simp_all
    have "byteread_int16 (advance s (Suc ?n)) 0 = (advance (advance s (Suc ?n)) 2, 0, sin_port v)"
      using f2 fits p n by (intro read_int16_enc) (simp_all add: enc)
    then have r16: "byteread_int16 (advance s (Suc ?n)) 0 = (advance s (length (addr_bytes v)), 0, sin_port v)"
      using n by (simp add: advance_advance enc)
    show "byteread_addr s sockaddr_zero = (advance s (length (addr_bytes v)), 0, v)"
    proof (cases "sa_family v = AF_INET")
      case True
      then show ?thesis using v rv rb [of "replicate 4 0"] r16
        by (simp add: byteread_addr_def sockaddr_zero_def Let_def inet_addr_def ip_bytes_def)
    next
      case False
      moreover have "?f \<noteq> ucast AF_INET" using v False by (auto simp: inet_addr_def AF_INET_def AF_INET6_def)
      ultimately show ?thesis using v rv rb [of "replicate 16 0"] r16
        by (simp add: byteread_addr_def sockaddr_zero_def Let_def inet_addr_def ip_bytes_def)
    qed }
  assume full: "size s - ptr s < length (addr_bytes v)"
  show "snd (bytewrite_addr s v) = -1"
  proof (cases "length ?e \<le> size s - ptr s")
    case False
    then have "snd (bytewrite_vint s ?f) = -1"
      using vint.write_full [OF s family_varint(2) [OF v]] family_varint(1) [OF v] by simp
    then show ?thesis by (simp add: write_addr_eq split_beta Let_def)
  next
    case True
    have w1: "bytewrite_vint s ?f = (put s ?e, 0)"
      using vint.write_fits [OF s family_varint(2) [OF v]] True family_varint(1) [OF v] by simp
    note f1 = put_frame [OF s True]
    show ?thesis
    proof (cases "length (?e @ ?ip) \<le> size s - ptr s")
      case False
      then have "snd (bytewrite_buffer (put s ?e) ?ip ?n) = -1"
        using f1 n by (auto simp: bytewrite_buffer_def bytestream_error_def)
      then show ?thesis by (simp add: write_addr_eq w1 split_beta Let_def)
    next
      case ei: True
      have w2: "bytewrite_buffer (put s ?e) ?ip ?n = (put s (?e @ ?ip), 0)"
        using f1 put_append [OF s, of ?e ?ip] ei n by (auto simp: bytewrite_buffer_def)
      have "snd (bytewrite_int16 (put s (?e @ ?ip)) (sin_port v)) = -1"
        using put_frame [OF s ei] full by (auto simp: bytewrite_int16_def bytestream_error_def enc)
      then show ?thesis by (simp add: write_addr_eq w1 w2 split_beta Let_def)
    qed
  qed
qed

subsection \<open>Whole messages\<close>

datatype field = Int8 u8 | Int16 u16 | Int32 u32 | Int64 u64 | Vint u64 | Buffer bytes
  | Cid picoquic_connection_id_t | Cstr bytes | Addr sockaddr

datatype field_kind = KInt8 | KInt16 | KInt32 | KInt64 | KVint | KBuffer nat | KCid | KCstr nat | KAddr

fun write_field :: "bytestream \<Rightarrow> field \<Rightarrow> bytestream \<times> int" where
  "write_field s (Int8 v) = bytewrite_int8 s v"
| "write_field s (Int16 v) = bytewrite_int16 s v"
| "write_field s (Int32 v) = bytewrite_int32 s v"
| "write_field s (Int64 v) = bytewrite_int64 s v"
| "write_field s (Vint v) = bytewrite_vint s v"
| "write_field s (Buffer v) = bytewrite_buffer s v (length v)"
| "write_field s (Cid v) = bytewrite_cid s v"
| "write_field s (Cstr v) = bytewrite_cstr s v"
| "write_field s (Addr v) = bytewrite_addr s v"

definition tag :: "('a \<Rightarrow> field) \<Rightarrow> bytestream \<times> int \<times> 'a \<Rightarrow> bytestream \<times> int \<times> field" where
  "tag f r = (case r of (s, ret, v) \<Rightarrow> (s, ret, f v))"

fun read_field :: "bytestream \<Rightarrow> field_kind \<Rightarrow> bytestream \<times> int \<times> field" where
  "read_field s KInt8 = tag Int8 (byteread_int8 s 0)"
| "read_field s KInt16 = tag Int16 (byteread_int16 s 0)"
| "read_field s KInt32 = tag Int32 (byteread_int32 s 0)"
| "read_field s KInt64 = tag Int64 (byteread_int64 s 0)"
| "read_field s KVint = tag Vint (byteread_vint s 0)"
| "read_field s (KBuffer n) = tag Buffer (byteread_buffer s (replicate n 0) n)"
| "read_field s KCid = tag Cid (byteread_cid s picoquic_null_connection_id)"
| "read_field s (KCstr n) =
     tag Cstr (case byteread_cstr s (replicate (Suc n) 0) (Suc n) of (s, ret, a) \<Rightarrow> (s, ret, take n a))"
| "read_field s KAddr = tag Addr (byteread_addr s sockaddr_zero)"

fun kind_of :: "field \<Rightarrow> field_kind" where
  "kind_of (Int8 _) = KInt8" | "kind_of (Int16 _) = KInt16" | "kind_of (Int32 _) = KInt32"
| "kind_of (Int64 _) = KInt64" | "kind_of (Vint _) = KVint" | "kind_of (Buffer v) = KBuffer (length v)"
| "kind_of (Cid _) = KCid" | "kind_of (Cstr v) = KCstr (length v)" | "kind_of (Addr _) = KAddr"

fun field_bytes :: "field \<Rightarrow> bytes" where
  "field_bytes (Int8 v) = [v]" | "field_bytes (Int16 v) = picoformat_16 v" | "field_bytes (Int32 v) = picoformat_32 v"
| "field_bytes (Int64 v) = picoformat_64 v" | "field_bytes (Vint v) = picoquic_varint_encode 8 v"
| "field_bytes (Buffer v) = v" | "field_bytes (Cid v) = cid_bytes v"
| "field_bytes (Cstr v) = picoquic_varint_encode 8 (of_nat (length v)) @ v" | "field_bytes (Addr v) = addr_bytes v"

fun field_ok :: "field \<Rightarrow> bool" where
  "field_ok (Vint v) = (unat v < 2 ^ 62)"
| "field_ok (Cid v) = cid_ok v"
| "field_ok (Cstr v) = (length v < 2 ^ 62)"
| "field_ok (Addr v) = inet_addr v"
| "field_ok _ = True"

interpretation message: stream_field write_field read_field kind_of field_bytes field_ok
proof
  fix s and f :: field
  assume s: "stream_ok s" and ok: "field_ok f"
  show "write_field s f = (put s (field_bytes f), 0)" if "length (field_bytes f) \<le> size s - ptr s"
    using s ok that
    by (cases f) (simp_all add: int8.write_fits int16.write_fits int32.write_fits int64.write_fits vint.write_fits
        buffer.write_fits cid.write_fits cstr.write_fits addr.write_fits del: length_picoformat)
  show "snd (write_field s f) = -1" if "size s - ptr s < length (field_bytes f)"
    using s ok that
    by (cases f) (simp_all add: int8.write_full int16.write_full int32.write_full int64.write_full vint.write_full
        buffer.write_full cid.write_full cstr.write_full addr.write_full del: length_picoformat)
  show "read_field s (kind_of f) = (advance s (length (field_bytes f)), 0, f)"
    if "length (field_bytes f) \<le> size s - ptr s" and "take (length (field_bytes f)) (bytestream_ptr s) = field_bytes f"
  proof (cases f)
    case (Int8 v) with int8.read_enc [OF s, of v] that show ?thesis by (simp add: tag_def)
  next
    case (Int16 v) with int16.read_enc [OF s, of v] that show ?thesis by (simp add: tag_def)
  next
    case (Int32 v) with int32.read_enc [OF s, of v] that show ?thesis by (simp add: tag_def)
  next
    case (Int64 v) with int64.read_enc [OF s, of v] that show ?thesis by (simp add: tag_def)
  next
    case (Vint v) with vint.read_enc [OF s, of v] ok that show ?thesis by (simp add: tag_def)
  next
    case (Buffer v) with buffer.read_enc [OF s, of v] that show ?thesis by (simp add: tag_def)
  next
    case (Cid v) with cid.read_enc [OF s, of v] ok that show ?thesis by (simp add: tag_def)
  next
    case (Cstr v) with cstr.read_enc [OF s, of v] ok that show ?thesis by (simp add: tag_def del: replicate_Suc)
  next
    case (Addr v) with addr.read_enc [OF s, of v] ok that show ?thesis by (simp add: tag_def)
  qed
qed

text \<open>
  A message of any fields, written to a stream and read back from the place where it was written with the
  same sequence of types, is returned unchanged and the cursor ends where the writer left it; nothing outside
  the bytes of the message changes.  When the message does not fit, the writer reports an error.
\<close>

theorem bytestream_message_roundtrip:
  assumes "stream_ok s" and "\<forall>f\<in>set fs. field_ok f" and "write_all write_field s fs = (s', ret)"
  shows "if length (concat (map field_bytes fs)) \<le> size s - ptr s
    then ret = 0 \<and> framed s s' \<and> read_all read_field (s'\<lparr>ptr := ptr s\<rparr>) (map kind_of fs) = (s', 0, fs)
    else ret = -1"
  using assms by (rule message.message_roundtrip)

theorem bytestream_message_roundtrip_witness:
  "read_all read_field ((fst (write_all write_field (bytestream_ref_init (replicate 10 0)) [Int8 5, Vint 300]))\<lparr>ptr := 0\<rparr>) [KInt8, KVint] =
     (fst (write_all write_field (bytestream_ref_init (replicate 10 0)) [Int8 5, Vint 300]), 0, [Int8 5, Vint 300])"
proof -
  have "length (picoquic_varint_encode 8 300) = 2"
    by (simp add: length_varint_encode8 picoquic_encode_varint_length_def)
  then show ?thesis
    using bytestream_message_roundtrip [of "bytestream_ref_init (replicate 10 0)" "[Int8 5, Vint 300]", OF _ _ prod.collapse [symmetric]]
    by (simp add: stream_ok_def bytestream_ref_init_def del: write_all.simps read_all.simps write_field.simps read_field.simps)
qed

subsection \<open>Staying inside the buffer\<close>

lemma framed_skip: "stream_ok s \<Longrightarrow> framed s (fst (bytestream_skip s n))"
  by (simp add: bytestream_skip_def framed_error framed_advance)

lemma framed_read_int8: "stream_ok s \<Longrightarrow> framed s (fst (byteread_int8 s x))"
  using framed_error [of s] by (auto simp: byteread_int8_def split_beta intro!: framed_advance)

lemma framed_read_buffer: "stream_ok s \<Longrightarrow> framed s (fst (byteread_buffer s b n))"
  using framed_error [of s] by (auto simp: byteread_buffer_def split_beta intro!: framed_advance)

lemma framed_read_vint: "stream_ok s \<Longrightarrow> framed s (fst (byteread_vint s x))"
  using framed_error [of s] varint_decode_length_le [of "take (size s - ptr s) (bytestream_ptr s)"]
  by (auto simp: byteread_vint_def split_beta Let_def intro!: framed_advance)

lemma framed_read_int16: "stream_ok s \<Longrightarrow> framed s (fst (byteread_int16 s x))"
  using framed_error [of s] by (auto simp: byteread_int16_def split_beta Let_def intro!: framed_advance)

lemma framed_read_int32: "stream_ok s \<Longrightarrow> framed s (fst (byteread_int32 s x))"
  using framed_error [of s] by (auto simp: byteread_int32_def split_beta Let_def intro!: framed_advance)

lemma framed_read_int64: "stream_ok s \<Longrightarrow> framed s (fst (byteread_int64 s x))"
  using framed_error [of s] by (auto simp: byteread_int64_def split_beta Let_def intro!: framed_advance)

lemma framed_write_simple:
  "stream_ok s \<Longrightarrow> framed s (fst (bytewrite_int8 s a))" "stream_ok s \<Longrightarrow> framed s (fst (bytewrite_int16 s b))"
  "stream_ok s \<Longrightarrow> framed s (fst (bytewrite_int32 s c))" "stream_ok s \<Longrightarrow> framed s (fst (bytewrite_int64 s d))"
  "stream_ok s \<Longrightarrow> framed s (fst (bytewrite_buffer s v n))"
  using framed_error [of s]
  by (auto simp: bytewrite_int8_def bytewrite_int16_def bytewrite_int32_def bytewrite_int64_def bytewrite_buffer_def
      intro!: framed_put)

lemma framed_write_vint: "stream_ok s \<Longrightarrow> framed s (fst (bytewrite_vint s v))"
proof -
  assume s: "stream_ok s"
  have "length (picoquic_varint_encode (size s - ptr s) v) \<le> size s - ptr s"
    by (auto simp: picoquic_varint_encode_def)
  then show ?thesis using framed_error [OF s] framed_put [OF s] by (auto simp: bytewrite_vint_def Let_def)
qed

lemma framed_ok: "framed s s' \<Longrightarrow> stream_ok s'"
  by (simp add: framed_def)

lemmas framed_parts = framed_skip framed_read_int8 framed_read_buffer framed_read_vint framed_read_int16
  framed_read_int32 framed_read_int64 framed_write_simple framed_write_vint

lemma framed_write_field: "stream_ok s \<Longrightarrow> framed s (fst (write_field s f))"
proof (cases f)
  case (Cid c)
  assume s: "stream_ok s"
  show ?thesis using framed_trans [OF framed_write_simple(1) [OF s] framed_write_simple(5) [OF framed_ok [OF framed_write_simple(1) [OF s]]]]
    by (simp add: Cid bytewrite_cid_def split_beta Let_def)
next
  case (Cstr c)
  assume s: "stream_ok s"
  show ?thesis using framed_trans [OF framed_write_vint [OF s] framed_write_simple(5) [OF framed_ok [OF framed_write_vint [OF s]]]]
    by (simp add: Cstr bytewrite_cstr_def split_beta Let_def)
next
  case (Addr a)
  assume s: "stream_ok s"
  define s1 where "s1 = fst (bytewrite_vint s (ucast (sa_family a)))"
  define s2 where "s2 = fst (bytewrite_buffer s1 (ip_bytes a) (if sa_family a = AF_INET then 4 else 16))"
  have f1: "framed s s1" unfolding s1_def by (rule framed_write_vint [OF s])
  have f2: "framed s1 s2" unfolding s2_def by (rule framed_write_simple(5) [OF framed_ok [OF f1]])
  have "framed s2 (fst (bytewrite_int16 s2 (sin_port a)))" by (rule framed_write_simple(2) [OF framed_ok [OF f2]])
  then have "framed s (fst (bytewrite_int16 s2 (sin_port a)))" using f1 f2 framed_trans by blast
  then show ?thesis by (simp add: Addr write_addr_eq split_beta Let_def s1_def s2_def)
qed (simp_all add: framed_parts)

lemma framed_read_cid: "stream_ok s \<Longrightarrow> framed s (fst (byteread_cid s c))"
proof -
  assume s: "stream_ok s"
  note f1 = framed_read_int8 [OF s, of "id_len c"]
  show ?thesis
    using f1 framed_trans [OF f1 framed_read_buffer [OF framed_ok [OF f1]]] by (simp add: byteread_cid_def split_beta Let_def)
qed

lemma framed_read_cstr: "stream_ok s \<Longrightarrow> framed s (fst (byteread_cstr s c n))"
proof -
  assume s: "stream_ok s"
  note f1 = framed_read_vint [OF s, of 0]
  show ?thesis
    using f1 framed_trans [OF f1 framed_read_buffer [OF framed_ok [OF f1]]] by (simp add: byteread_cstr_def split_beta Let_def)
qed

lemma framed_read_addr: "stream_ok s \<Longrightarrow> framed s (fst (byteread_addr s a))"
proof -
  assume s: "stream_ok s"
  define s1 where "s1 = fst (byteread_vint s 0)"
  have f1: "framed s s1" unfolding s1_def by (rule framed_read_vint [OF s])
  have f2: "framed s1 (fst (byteread_buffer s1 b n))" for b n by (rule framed_read_buffer [OF framed_ok [OF f1]])
  have "framed (fst (byteread_buffer s1 b n)) (fst (byteread_int16 (fst (byteread_buffer s1 b n)) p))" for b n p
    by (rule framed_read_int16 [OF framed_ok [OF f2]])
  then have "framed s (fst (byteread_int16 (fst (byteread_buffer s1 b n)) p))" for b n p
    using f1 f2 framed_trans by blast
  then show ?thesis by (simp add: byteread_addr_def split_beta Let_def s1_def)
qed

text \<open>Any operation on the cursor except a reset.\<close>

inductive stream_step :: "bytestream \<Rightarrow> bytestream \<Rightarrow> bool" where
  wrote: "stream_step s (fst (write_field s f))"
| skipped: "stream_step s (fst (bytestream_skip s n))"
| read8: "stream_step s (fst (byteread_int8 s a))"
| read16: "stream_step s (fst (byteread_int16 s b))"
| read32: "stream_step s (fst (byteread_int32 s c))"
| read64: "stream_step s (fst (byteread_int64 s d))"
| readv: "stream_step s (fst (byteread_vint s d))"
| readb: "stream_step s (fst (byteread_buffer s e n))"
| readcid: "stream_step s (fst (byteread_cid s cid))"
| readcstr: "stream_step s (fst (byteread_cstr s e n))"
| readaddr: "stream_step s (fst (byteread_addr s addr))"

lemma stream_step_framed: "stream_step s s' \<Longrightarrow> stream_ok s \<Longrightarrow> framed s s'"
  by (induction rule: stream_step.induct)
    (simp_all add: framed_parts framed_write_field framed_read_cid framed_read_cstr framed_read_addr del: write_field.simps)

text \<open>
  Whatever sequence of reads, writes and skips runs on a stream, with whatever arguments and whether they
  succeed or not, the cursor only moves forward and never past the size, and no byte before the initial cursor
  or after the size is changed.
\<close>

theorem bytestream_stays_inside:
  assumes "stream_step\<^sup>*\<^sup>* s s'" and "stream_ok s"
  shows "ptr s \<le> ptr s' \<and> ptr s' \<le> size s \<and> size s' = size s \<and>
    take (ptr s) (mem_of s') = take (ptr s) (mem_of s) \<and> drop (size s) (mem_of s') = drop (size s) (mem_of s)"
proof -
  from assms have "framed s s'"
  proof induction
    case base
    then show ?case by (rule framed_refl)
  next
    case (step s' s'')
    then show ?case using framed_trans stream_step_framed framed_ok by blast
  qed
  then show ?thesis by (auto simp: framed_def stream_ok_def)
qed

theorem bytestream_stays_inside_witness:
  "ptr (fst (byteread_int8 (bytestream_ref_init [1, 2]) 0)) \<le> 2"
  using bytestream_stays_inside [OF r_into_rtranclp [of stream_step, OF read8 [of "bytestream_ref_init [1, 2]" 0]]]
  by (simp add: stream_ok_def bytestream_ref_init_def)

end
