(* ===== verification/Crc32c.thy ===== *)
theory Crc32c
  imports Crc32cTables
begin

text \<open>
  The CRC-32C of \<^verbatim>\<open>contrib/crc32/crc32c.cpp\<close>: the bitwise routine, the two table-driven routines, the
  routine on the processor's CRC instructions with its three interleaved streams, and the dispatch of
  \<open>crc32c_append\<close>.

  A buffer is the list of its bytes with the address \<open>addr\<close> of the first one, since the loops align their
  reads.  A routine whose text differs between \<open>_M_X64\<close> and the other builds only in the width of its
  variables is one definition over \<open>'a word\<close>, at 64 or 32 bits.  The CRC instructions and the processor's
  feature word are parameters.
\<close>

subsection \<open>Little-endian words in memory\<close>

primrec le_word :: "bytes \<Rightarrow> 'a::len word" where
  "le_word [] = 0"
| "le_word (b # bs) = ucast b OR push_bit 8 (le_word bs)"

definition le_bytes :: "'a::len word \<Rightarrow> bytes" where
  "le_bytes v = map (\<lambda>i. byte_at (8 * i) v) [0..<LENGTH('a) div 8]"

subsection \<open>Loops\<close>

text \<open>\<open>while (length && ((uintptr_t)next & (m - 1)) != 0)\<close>: one byte at a time up to an aligned address.\<close>

fun align_loop :: "nat \<Rightarrow> ('c \<Rightarrow> u8 \<Rightarrow> 'c) \<Rightarrow> 'c \<Rightarrow> nat \<Rightarrow> bytes \<Rightarrow> 'c \<times> nat \<times> bytes" where
  "align_loop m step crc addr [] = (crc, addr, [])"
| "align_loop m step crc addr (b # p) =
     (if addr mod m \<noteq> 0 then align_loop m step (step crc b) (addr + 1) p else (crc, addr, b # p))"

text \<open>\<open>while (length >= n)\<close>: one block of \<open>n\<close> bytes at a time.\<close>

function block_loop :: "nat \<Rightarrow> ('c \<Rightarrow> bytes \<Rightarrow> 'c) \<Rightarrow> 'c \<Rightarrow> bytes \<Rightarrow> 'c \<times> bytes" where
  "block_loop n step crc p =
     (if 0 < n \<and> n \<le> length p then block_loop n step (step crc (take n p)) (drop n p) else (crc, p))"
  by pat_completeness auto
termination by (relation "measure (\<lambda>(n, step, crc, p). length p)") auto

declare block_loop.simps [simp del]

subsection \<open>The bitwise routine\<close>

definition trivial_bit :: "u32 \<Rightarrow> u32" where
  "trivial_bit crc = drop_bit 1 crc XOR 0x80000000 XOR ((NOT crc AND 1) * POLY)"

definition append_trivial :: "u32 \<Rightarrow> bytes \<Rightarrow> u32" where
  "append_trivial crc input = foldl (\<lambda>crc b. (trivial_bit ^^ 8) (crc XOR ucast b)) crc input"

subsection \<open>The table-driven routines\<close>

definition table_at :: "nat \<Rightarrow> 'a::len word \<Rightarrow> u32" where
  "table_at k v = table ! k ! unat v"

definition table_step :: "'a::len word \<Rightarrow> u8 \<Rightarrow> 'a word" where
  "table_step crc b = ucast (table_at 0 ((crc XOR ucast b) AND 0xff)) XOR drop_bit 8 crc"

definition adler_block :: "u64 \<Rightarrow> bytes \<Rightarrow> u64" where
  "adler_block crc next =
     (let crc = crc XOR le_word (take 8 next) in
      ucast (table_at 7 (crc AND 0xff) XOR table_at 6 (drop_bit 8 crc AND 0xff) XOR
        table_at 5 (drop_bit 16 crc AND 0xff) XOR table_at 4 (drop_bit 24 crc AND 0xff) XOR
        table_at 3 (drop_bit 32 crc AND 0xff) XOR table_at 2 (drop_bit 40 crc AND 0xff) XOR
        table_at 1 (drop_bit 48 crc AND 0xff) XOR table_at 0 (drop_bit 56 crc)))"

definition append_adler_table :: "u32 \<Rightarrow> nat \<Rightarrow> bytes \<Rightarrow> u32" where
  "append_adler_table crci addr input =
     (let crc = ucast (crci XOR 0xffffffff) :: u64;
          (crc, addr, next) = align_loop 8 table_step crc addr input;
          (crc, next) = block_loop 8 adler_block crc next;
          crc = foldl table_step crc next
      in ucast crc XOR 0xffffffff)"

definition table_block_64 :: "u64 \<Rightarrow> bytes \<Rightarrow> u64" where
  "table_block_64 crc next =
     (let crc = crc XOR le_word (take 8 next);
          high = le_word (take 8 (drop 8 next)) :: u64 in
      ucast (table_at 15 (crc AND 0xff) XOR table_at 14 (drop_bit 8 crc AND 0xff) XOR
        table_at 13 (drop_bit 16 crc AND 0xff) XOR table_at 12 (drop_bit 24 crc AND 0xff) XOR
        table_at 11 (drop_bit 32 crc AND 0xff) XOR table_at 10 (drop_bit 40 crc AND 0xff) XOR
        table_at 9 (drop_bit 48 crc AND 0xff) XOR table_at 8 (drop_bit 56 crc) XOR
        table_at 7 (high AND 0xff) XOR table_at 6 (drop_bit 8 high AND 0xff) XOR
        table_at 5 (drop_bit 16 high AND 0xff) XOR table_at 4 (drop_bit 24 high AND 0xff) XOR
        table_at 3 (drop_bit 32 high AND 0xff) XOR table_at 2 (drop_bit 40 high AND 0xff) XOR
        table_at 1 (drop_bit 48 high AND 0xff) XOR table_at 0 (drop_bit 56 high)))"

definition table_block_32 :: "u32 \<Rightarrow> bytes \<Rightarrow> u32" where
  "table_block_32 crc next =
     (let crc = crc XOR le_word (take 4 next);
          high = le_word (take 4 (drop 4 next)) :: u32;
          high2 = le_word (take 4 (drop 8 next)) :: u32 in
      table_at 11 (crc AND 0xff) XOR table_at 10 (drop_bit 8 crc AND 0xff) XOR
      table_at 9 (drop_bit 16 crc AND 0xff) XOR table_at 8 (drop_bit 24 crc) XOR
      table_at 7 (high AND 0xff) XOR table_at 6 (drop_bit 8 high AND 0xff) XOR
      table_at 5 (drop_bit 16 high AND 0xff) XOR table_at 4 (drop_bit 24 high) XOR
      table_at 3 (high2 AND 0xff) XOR table_at 2 (drop_bit 8 high2 AND 0xff) XOR
      table_at 1 (drop_bit 16 high2 AND 0xff) XOR table_at 0 (drop_bit 24 high2))"

definition append_table :: "bool \<Rightarrow> u32 \<Rightarrow> nat \<Rightarrow> bytes \<Rightarrow> u32" where
  "append_table m_x64 crci addr input =
     (if m_x64 then
        (let crc = ucast (crci XOR 0xffffffff) :: u64;
             (crc, addr, next) = align_loop 8 table_step crc addr input;
             (crc, next) = block_loop 16 table_block_64 crc next;
             crc = foldl table_step crc next
         in ucast crc XOR 0xffffffff)
      else
        (let crc = crci XOR 0xffffffff;
             (crc, addr, next) = align_loop 4 table_step crc addr input;
             (crc, next) = block_loop 12 table_block_32 crc next;
             crc = foldl table_step crc next
         in crc XOR 0xffffffff))"

subsection \<open>The routine on the CRC instructions\<close>

definition shift_crc :: "u32 list list \<Rightarrow> u32 \<Rightarrow> u32" where
  "shift_crc shift_table crc =
     shift_table ! 0 ! unat (crc AND 0xff) XOR shift_table ! 1 ! unat (drop_bit 8 crc AND 0xff) XOR
     shift_table ! 2 ! unat (drop_bit 16 crc AND 0xff) XOR shift_table ! 3 ! unat (drop_bit 24 crc)"

text \<open>The inner \<open>do ... while (next < end)\<close> on three streams that lie \<open>n\<close> bytes apart; a word has at least
  one byte.\<close>

function hw_inner ::
  "('a::len word \<Rightarrow> 'a word \<Rightarrow> 'a word) \<Rightarrow> nat \<Rightarrow> bytes \<Rightarrow> nat \<Rightarrow> 'a word \<Rightarrow> 'a word \<Rightarrow> 'a word \<Rightarrow>
    'a word \<times> 'a word \<times> 'a word" where
  "hw_inner hw n blk next crc0 crc1 crc2 =
     (let w = LENGTH('a) div 8;
          crc0 = hw crc0 (le_word (take w (drop next blk)));
          crc1 = hw crc1 (le_word (take w (drop (next + n) blk)));
          crc2 = hw crc2 (le_word (take w (drop (next + 2 * n) blk)));
          next = next + w
      in if 0 < w \<and> next < n then hw_inner hw n blk next crc0 crc1 crc2 else (crc0, crc1, crc2))"
  by pat_completeness auto
termination by (relation "measure (\<lambda>(hw, n, blk, next, crc0, crc1, crc2). n - next)") auto

declare hw_inner.simps [simp del]

definition hw_three ::
  "('a::len word \<Rightarrow> 'a word \<Rightarrow> 'a word) \<Rightarrow> nat \<Rightarrow> u32 list list \<Rightarrow> 'a word \<Rightarrow> bytes \<Rightarrow> 'a word" where
  "hw_three hw n shifts crc0 blk =
     (let (crc0, crc1, crc2) = hw_inner hw n blk 0 crc0 0 0;
          crc0 = ucast (shift_crc shifts (ucast crc0)) XOR crc1;
          crc0 = ucast (shift_crc shifts (ucast crc0)) XOR crc2
      in crc0)"

definition append_hw ::
  "(u32 \<Rightarrow> u8 \<Rightarrow> u32) \<Rightarrow> ('a::len word \<Rightarrow> 'a word \<Rightarrow> 'a word) \<Rightarrow> u32 \<Rightarrow> nat \<Rightarrow> bytes \<Rightarrow> u32" where
  "append_hw hw8 hw crc addr buf =
     (let byte = (\<lambda>crc0 b. ucast (hw8 (ucast crc0) b));
          crc0 = ucast (crc XOR 0xffffffff) :: 'a word;
          (crc0, addr, next) = align_loop 8 byte crc0 addr buf;
          (crc0, next) = block_loop (3 * LONG_SHIFT) (hw_three hw LONG_SHIFT long_shifts) crc0 next;
          (crc0, next) = block_loop (3 * SHORT_SHIFT) (hw_three hw SHORT_SHIFT short_shifts) crc0 next;
          len = length next;
          body = len - len mod 8;
          (crc0, _) = block_loop (LENGTH('a) div 8) (\<lambda>crc0 w. hw crc0 (le_word w)) crc0 (take body next);
          crc0 = foldl byte crc0 (drop body next)
      in ucast crc0 XOR 0xffffffff)"

subsection \<open>Dispatch\<close>

datatype platform = Windows | AArch64 | PowerPC64 | Unixish

definition isHwCrcSupported :: "platform \<Rightarrow> u32 \<Rightarrow> bool" where
  "isHwCrcSupported p ecx =
     (case p of
        Windows \<Rightarrow> ecx AND push_bit 20 1 \<noteq> 0
      | AArch64 \<Rightarrow> True
      | PowerPC64 \<Rightarrow> False
      | Unixish \<Rightarrow> drop_bit 20 ecx AND 1 \<noteq> 0)"

text \<open>\<open>ppc_hw\<close> does not use the remainder it is given.\<close>

definition ppc_hw :: "(u32 \<Rightarrow> nat \<Rightarrow> bytes \<Rightarrow> u32) \<Rightarrow> u32 \<Rightarrow> nat \<Rightarrow> bytes \<Rightarrow> u32" where
  "ppc_hw asm crc addr input = CRC32_FUNCTION True asm 0 addr input"

definition crc32c_append ::
  "platform \<Rightarrow> bool \<Rightarrow> bool \<Rightarrow> (u32 \<Rightarrow> nat \<Rightarrow> bytes \<Rightarrow> u32) \<Rightarrow> (u32 \<Rightarrow> u8 \<Rightarrow> u32) \<Rightarrow> (u32 \<Rightarrow> u32 \<Rightarrow> u32) \<Rightarrow>
    (u64 \<Rightarrow> u64 \<Rightarrow> u64) \<Rightarrow> u32 \<Rightarrow> nat \<Rightarrow> bytes \<Rightarrow> u32" where
  "crc32c_append p hw_available m_x64 asm hw8 hw32 hw64 crc addr input =
     (if hw_available then
        (if p = PowerPC64 then ppc_hw asm crc addr input
         else if m_x64 then append_hw hw8 hw64 crc addr input else append_hw hw8 hw32 crc addr input)
      else append_table m_x64 crc addr input)"

end
