(* ===== verification/Crc32c_Correct.thy ===== *)
theory Crc32c_Correct
  imports Crc32c
begin

text \<open>
  Every routine of \<^verbatim>\<open>crc32c.cpp\<close> computes the bit-serial CRC of theory \<open>Crc32\<close>.  The sliced table look-ups
  and the recombination of the three instruction streams rest on linearity: a remainder that enters early is
  a byte advanced by the bytes that follow it.
\<close>

subsection \<open>Linearity\<close>

lemma crc_byte_xor: "crc_byte (x XOR y) b = crc_byte x b XOR (crc_bit ^^ 8) y"
  by (simp add: crc_byte_def crc_bits_xor ac_simps)

lemma crc_bits_add: "(crc_bit ^^ m) ((crc_bit ^^ n) y) = (crc_bit ^^ (m + n)) y"
  by (simp add: funpow_add)

lemma crc32c_bits_xor: "crc32c_bits (x XOR y) p = crc32c_bits x p XOR (crc_bit ^^ (8 * length p)) y"
proof (induction p arbitrary: x y)
  case (Cons b p)
  have "(crc_bit ^^ (8 * length p)) ((crc_bit ^^ 8) y) = (crc_bit ^^ (8 * length (b # p))) y"
    by (simp add: crc_bits_add add.commute)
  then show ?case using Cons [of "crc_byte x b" "(crc_bit ^^ 8) y"]
    by (simp add: crc32c_bits_def crc_byte_xor)
qed (simp add: crc32c_bits_def)

text \<open>A byte advanced by \<open>n\<close> bytes.\<close>

definition advance :: "nat \<Rightarrow> u8 \<Rightarrow> u32" where
  "advance n b = (crc_bit ^^ (8 * n)) (ucast b)"

lemma split_low_byte: "x = ucast (byte_at 0 x :: u8) XOR push_bit 8 (drop_bit 8 (x :: u32))"
  by (rule bit_word_eqI) (auto simp: bit_simps)

lemma crc_bits_shift: "(crc_bit ^^ n) (push_bit n (drop_bit n x)) = drop_bit n x"
proof -
  have "(crc_bit ^^ n) (push_bit n (drop_bit n x)) = drop_bit n (push_bit n (drop_bit n x))"
    by (rule crc_bits_high) (auto simp: bit_simps)
  also have "\<dots> = drop_bit n x"
    by (rule bit_word_eqI) (auto simp: bit_simps dest: bit_imp_le_length)
  finally show ?thesis .
qed

lemma crc_byte_split: "crc_byte c b = advance 1 (byte_at 0 c XOR b) XOR drop_bit 8 c"
proof -
  have "c XOR ucast b = (ucast (byte_at 0 c :: u8) XOR ucast b) XOR push_bit 8 (drop_bit 8 c)"
    by (subst (1) split_low_byte [of c]) (simp only: ac_simps)
  then show ?thesis
    by (simp add: crc_byte_def crc_bits_xor crc_bits_shift advance_def unsigned_xor_eq)
qed

lemma crc32c_bits_Cons:
  "crc32c_bits c (b # p) = advance (Suc (length p)) (byte_at 0 c XOR b) XOR crc32c_bits (drop_bit 8 c) p"
proof -
  have "crc32c_bits c (b # p) = crc32c_bits (drop_bit 8 c XOR advance 1 (byte_at 0 c XOR b)) p"
    by (simp add: crc32c_bits_def crc_byte_split xor.commute)
  also have "\<dots> = crc32c_bits (drop_bit 8 c) p XOR (crc_bit ^^ (8 * length p)) (advance 1 (byte_at 0 c XOR b))"
    by (rule crc32c_bits_xor)
  also have "(crc_bit ^^ (8 * length p)) (advance 1 (byte_at 0 c XOR b)) = advance (Suc (length p)) (byte_at 0 c XOR b)"
    by (simp add: advance_def crc_bits_add add.commute)
  finally show ?thesis by (simp add: xor.commute)
qed

subsection \<open>Bytes of words\<close>

lemma byte_at_drop: "byte_at k (drop_bit n v) = byte_at (n + k) (v :: 'a::len word)"
  by (rule bit_word_eqI) (simp add: bit_simps add.assoc)

lemma byte_at_xor: "byte_at k (v XOR w) = byte_at k v XOR byte_at k (w :: 'a::len word)"
  by (rule bit_word_eqI) (auto simp: bit_simps)

lemma byte_at_ucast:
  "LENGTH('b) \<le> LENGTH('a) \<Longrightarrow> byte_at k (ucast (v :: 'b::len word) :: 'a::len word) = byte_at k v"
  by (rule bit_word_eqI) (auto simp: bit_simps dest: bit_imp_le_length)

lemma bit_le_word:
  "bit (le_word bs :: 'a::len word) i \<longleftrightarrow> i < LENGTH('a) \<and> i < 8 * length bs \<and> bit (bs ! (i div 8)) (i mod 8)"
proof (induction bs arbitrary: i)
  case (Cons b bs)
  have head: "bit (le_word (b # bs) :: 'a word) i \<longleftrightarrow>
      i < LENGTH('a) \<and> (bit b i \<or> 8 \<le> i \<and> bit (le_word bs :: 'a word) (i - 8))"
    by (auto simp: bit_simps dest: bit_imp_le_length)
  show ?case
  proof (cases "i < 8")
    case True
    then show ?thesis unfolding head by simp
  next
    case False
    have "(b # bs) ! (i div 8) = bs ! ((i - 8) div 8)" "i mod 8 = (i - 8) mod 8"
      using False by (simp_all add: le_div_geq le_mod_geq)
    moreover have "\<not> bit b i" using False bit_imp_le_length [of b i] by auto
    ultimately show ?thesis unfolding head using False Cons.IH [of "i - 8"] by auto
  qed
qed simp

lemma byte_at_le_word:
  assumes "i < length bs" and "8 * i + 8 \<le> LENGTH('a::len)"
  shows "byte_at (8 * i) (le_word bs :: 'a word) = bs ! i"
proof (rule bit_word_eqI)
  fix j
  assume "j < LENGTH(8)"
  then have "(8 * i + j) div 8 = i" "(8 * i + j) mod 8 = j" "8 * i + j < LENGTH('a)" "8 * i + j < 8 * length bs" "j < 8"
    using assms by auto
  then show "bit (byte_at (8 * i) (le_word bs :: 'a word)) j = bit (bs ! i) j"
    by (simp add: bit_byte_at bit_le_word)
qed

lemma le_bytes_le_word: "8 * length bs = LENGTH('a::len) \<Longrightarrow> le_bytes (le_word bs :: 'a word) = bs"
  by (rule nth_equalityI) (auto simp: le_bytes_def byte_at_le_word)

lemma byte_index: "unat ((v :: 'a::len word) AND 0xff) = unat (byte_at 0 v)" if "8 \<le> LENGTH('a)"
proof -
  have "v AND 0xff = take_bit 8 v" by (simp add: take_bit_eq_mask mask_numeral)
  also have "\<dots> = ucast (byte_at 0 v)"
    using that by (intro bit_word_eqI) (auto simp: bit_simps)
  finally show ?thesis using that by simp
qed

lemma top_byte_index: "unat (drop_bit n (v :: 'a::len word)) = unat (byte_at n v)" if "LENGTH('a) = n + 8"
proof -
  have "drop_bit n v = ucast (byte_at n v)"
    using that by (intro bit_word_eqI) (auto simp: bit_simps dest: bit_imp_le_length)
  then show ?thesis using that by simp
qed

lemma row_at_byte: "k < 16 \<Longrightarrow> table ! k ! unat (b :: u8) = advance (Suc k) b"
  using table_nth [of k "unat b"] unat_u8_less [of b] by (simp add: advance_def unsigned_ucast_eq)

lemma table_at_byte:
  assumes "k < 16" and "8 \<le> LENGTH('a)"
  shows "table_at k ((v :: 'a::len word) AND 0xff) = advance (Suc k) (byte_at 0 v)"
    and "table_at k (drop_bit n v AND 0xff) = advance (Suc k) (byte_at n v)"
  using assms by (simp_all add: table_at_def byte_index row_at_byte byte_at_drop)

lemma table_at_top:
  "k < 16 \<Longrightarrow> LENGTH('a) = n + 8 \<Longrightarrow> table_at k (drop_bit n (v :: 'a::len word)) = advance (Suc k) (byte_at n v)"
  by (simp add: table_at_def top_byte_index row_at_byte)

subsection \<open>The loops keep the remainder\<close>

text \<open>A step on \<open>'a word\<close> that works on 32-bit remainders.\<close>

definition byte_step_ok :: "('a::len word \<Rightarrow> u8 \<Rightarrow> 'a word) \<Rightarrow> bool" where
  "byte_step_ok step \<longleftrightarrow> (\<forall>c b. step (ucast c) b = ucast (crc_byte c b))"

definition block_step_ok :: "nat \<Rightarrow> ('a::len word \<Rightarrow> bytes \<Rightarrow> 'a word) \<Rightarrow> bool" where
  "block_step_ok n step \<longleftrightarrow> 0 < n \<and> (\<forall>c w. length w = n \<longrightarrow> step (ucast c) w = ucast (crc32c_bits c w))"

lemma byte_loop: "byte_step_ok step \<Longrightarrow> foldl step (ucast c) p = ucast (crc32c_bits c p)"
  by (induction p arbitrary: c) (simp_all add: byte_step_ok_def crc32c_bits_def)

lemma align_loop_bits:
  assumes "byte_step_ok step"
  obtains k where "align_loop m step (ucast c) addr p = (ucast (crc32c_bits c (take k p)), addr + k, drop k p)"
proof -
  have "\<exists>k. align_loop m step (ucast c) addr p = (ucast (crc32c_bits c (take k p)), addr + k, drop k p)" for c addr
  proof (induction p arbitrary: c addr)
    case (Cons b p)
    show ?case
    proof (cases "addr mod m = 0")
      case True
      then show ?thesis by (intro exI [of _ 0]) (simp add: crc32c_bits_def)
    next
      case False
      from Cons obtain k where "align_loop m step (ucast (crc_byte c b)) (addr + 1) p =
          (ucast (crc32c_bits (crc_byte c b) (take k p)), addr + 1 + k, drop k p)" by blast
      with False assms show ?thesis by (intro exI [of _ "Suc k"]) (simp add: byte_step_ok_def crc32c_bits_def)
    qed
  qed (auto simp: crc32c_bits_def)
  then show ?thesis using that by blast
qed

lemma block_loop_bits:
  fixes c :: u32
  assumes "block_step_ok n step"
  shows "block_loop n step (ucast c) p =
     (ucast (crc32c_bits c (take (length p - length p mod n) p)), drop (length p - length p mod n) p)"
proof (induction "length p" arbitrary: c p rule: less_induct)
  case less
  show ?case
  proof (cases "n \<le> length p")
    case True
    let ?q = "drop n p" and ?k = "length p - n - (length p - n) mod n"
    have pos: "0 < n" using assms by (simp add: block_step_ok_def)
    then have "length p mod n = (length p - n) mod n" using True by (simp add: le_mod_geq)
    moreover have "(length p - n) mod n \<le> length p - n" by simp
    ultimately have k: "length p - length p mod n = n + ?k" using True by linarith
    have "step (ucast c) (take n p) = ucast (crc32c_bits c (take n p))"
      using assms True by (simp add: block_step_ok_def)
    then have "block_loop n step (ucast c) p = block_loop n step (ucast (crc32c_bits c (take n p))) ?q"
      using True pos by (subst block_loop.simps) simp
    also have "\<dots> = (ucast (crc32c_bits (crc32c_bits c (take n p)) (take ?k ?q)), drop ?k ?q)"
      using less [of ?q "crc32c_bits c (take n p)"] True pos by simp
    finally show ?thesis by (simp add: k take_add crc32c_bits_append add.commute)
  next
    case False
    then show ?thesis by (subst block_loop.simps) (simp add: crc32c_bits_def)
  qed
qed

subsection \<open>The table-driven routines\<close>

lemma table_step_ok:
  assumes "32 \<le> LENGTH('a::len)"
  shows "byte_step_ok (table_step :: 'a word \<Rightarrow> u8 \<Rightarrow> 'a word)"
proof -
  have "table_step (ucast c :: 'a word) b = ucast (crc_byte c b)" for c b
  proof -
    have "byte_at 0 (ucast c XOR ucast b :: 'a word) = byte_at 0 c XOR b"
      using assms by (simp add: byte_at_xor byte_at_ucast) (simp add: byte_at_def)
    moreover have "drop_bit 8 (ucast c :: 'a word) = ucast (drop_bit 8 c)"
      using assms by (intro bit_word_eqI) (auto simp: bit_simps dest: bit_imp_le_length)
    ultimately show ?thesis
      using assms by (simp add: table_step_def table_at_byte crc_byte_split unsigned_xor_eq)
  qed
  then show ?thesis by (simp add: byte_step_ok_def)
qed

lemma bytes_of_le_word_64:
  fixes w :: bytes
  defines "v \<equiv> le_word w :: u64"
  assumes "w = [b0, b1, b2, b3, b4, b5, b6, b7]"
  shows "byte_at 0 v = b0" "byte_at 8 v = b1" "byte_at 16 v = b2" "byte_at 24 v = b3"
    "byte_at 32 v = b4" "byte_at 40 v = b5" "byte_at 48 v = b6" "byte_at 56 v = b7"
  using byte_at_le_word [of 0 w, where 'a = 64] byte_at_le_word [of 1 w, where 'a = 64]
    byte_at_le_word [of 2 w, where 'a = 64] byte_at_le_word [of 3 w, where 'a = 64]
    byte_at_le_word [of 4 w, where 'a = 64] byte_at_le_word [of 5 w, where 'a = 64]
    byte_at_le_word [of 6 w, where 'a = 64] byte_at_le_word [of 7 w, where 'a = 64]
  unfolding v_def by (simp_all add: assms(2) del: le_word.simps)

lemma bytes_of_le_word_32:
  fixes w :: bytes
  defines "v \<equiv> le_word w :: u32"
  assumes "w = [b0, b1, b2, b3]"
  shows "byte_at 0 v = b0" "byte_at 8 v = b1" "byte_at 16 v = b2" "byte_at 24 v = b3"
  using byte_at_le_word [of 0 w, where 'a = 32] byte_at_le_word [of 1 w, where 'a = 32]
    byte_at_le_word [of 2 w, where 'a = 32] byte_at_le_word [of 3 w, where 'a = 32]
  unfolding v_def by (simp_all add: assms(2) del: le_word.simps)

lemma byte_at_beyond: "LENGTH('a) \<le> k \<Longrightarrow> byte_at k (c :: 'a::len word) = 0"
  by (intro bit_word_eqI) (auto simp: bit_simps dest: bit_imp_le_length)

lemma byte_at_zero: "byte_at k 0 = 0"
  by (simp add: byte_at_def)

lemma drop_all: "LENGTH('a) \<le> k \<Longrightarrow> drop_bit k (c :: 'a::len word) = 0"
  by (intro bit_word_eqI) (auto simp: bit_simps dest: bit_imp_le_length)

lemma crc32c_bits_zero: "crc32c_bits 0 [] = 0"
  by (simp add: crc32c_bits_def)

lemmas slice_simps =
  crc32c_bits_Cons crc32c_bits_zero byte_at_drop byte_at_xor byte_at_ucast byte_at_beyond byte_at_zero drop_all
  table_at_byte table_at_top bytes_of_le_word_64 bytes_of_le_word_32 Let_def unsigned_xor_eq

lemma adler_block_ok: "block_step_ok 8 adler_block"
proof -
  have "adler_block (ucast c) w = ucast (crc32c_bits c w)" if len: "length w = 8" for c w
  proof -
    obtain b0 b1 b2 b3 b4 b5 b6 b7 where "w = [b0, b1, b2, b3, b4, b5, b6, b7]"
      using len by (auto simp: eval_nat_numeral length_Suc_conv)
    then show ?thesis
      by (simp add: adler_block_def slice_simps del: le_word.simps)
        (simp add: numeral_eq_Suc ac_simps)
  qed
  then show ?thesis by (simp add: block_step_ok_def)
qed

lemma table_block_64_ok: "block_step_ok 16 table_block_64"
proof -
  have "table_block_64 (ucast c) w = ucast (crc32c_bits c w)" if len: "length w = 16" for c w
  proof -
    obtain b0 b1 b2 b3 b4 b5 b6 b7 v where w: "w = [b0, b1, b2, b3, b4, b5, b6, b7] @ v" and "length v = 8"
      using len by (auto simp: eval_nat_numeral length_Suc_conv)
    moreover from \<open>length v = 8\<close> obtain b8 b9 b10 b11 b12 b13 b14 b15
      where "v = [b8, b9, b10, b11, b12, b13, b14, b15]"
      by (auto simp: eval_nat_numeral length_Suc_conv)
    ultimately show ?thesis
      by (simp add: table_block_64_def slice_simps del: le_word.simps)
        (simp add: numeral_eq_Suc ac_simps)
  qed
  then show ?thesis by (simp add: block_step_ok_def)
qed

lemma table_block_32_ok: "block_step_ok 12 table_block_32"
proof -
  have "table_block_32 (ucast c) w = ucast (crc32c_bits c w)" if len: "length w = 12" for c :: u32 and w
  proof -
    obtain b0 b1 b2 b3 b4 b5 v where w: "w = [b0, b1, b2, b3, b4, b5] @ v" and "length v = 6"
      using len by (auto simp: eval_nat_numeral length_Suc_conv)
    moreover from \<open>length v = 6\<close> obtain b6 b7 b8 b9 b10 b11 where "v = [b6, b7, b8, b9, b10, b11]"
      by (auto simp: eval_nat_numeral length_Suc_conv)
    ultimately show ?thesis
      by (simp add: table_block_32_def slice_simps del: le_word.simps)
        (simp add: numeral_eq_Suc ac_simps)
  qed
  then show ?thesis by (simp add: block_step_ok_def)
qed

lemma ucast_remainder: "32 \<le> LENGTH('a) \<Longrightarrow> ucast (ucast (c :: u32) :: 'a::len word) = c"
  by (rule bit_word_eqI) (auto simp: bit_simps dest: bit_imp_le_length)

text \<open>The common shape of the table routines: align, blocks, rest.\<close>

lemma table_routine:
  assumes "32 \<le> LENGTH('a::len)" and "block_step_ok n (blk :: 'a word \<Rightarrow> bytes \<Rightarrow> 'a word)"
  shows "(let (crc, addr, next) = align_loop m table_step (ucast c) addr p;
              (crc, next) = block_loop n blk crc next;
              crc = foldl table_step crc next
          in ucast (crc :: 'a word) XOR 0xffffffff) = crc32c_bits c p XOR (0xffffffff :: u32)"
proof -
  have step: "byte_step_ok (table_step :: 'a word \<Rightarrow> u8 \<Rightarrow> 'a word)" by (rule table_step_ok) (rule assms)
  then obtain k where k: "align_loop m table_step (ucast c :: 'a word) addr p =
      (ucast (crc32c_bits c (take k p)), addr + k, drop k p)"
    by (rule align_loop_bits)
  have "crc32c_bits (crc32c_bits (crc32c_bits c (take k p)) (take j (drop k p))) (drop j (drop k p)) = crc32c_bits c p" for j
    by (simp only: crc32c_bits_append [symmetric] append_assoc append_take_drop_id)
  then show ?thesis
    by (simp add: k block_loop_bits [OF assms(2)] byte_loop [OF step] ucast_remainder assms(1))
qed

lemma append_adler_table_bits:
  "append_adler_table crc addr p = crc32c_bits (crc XOR 0xffffffff) p XOR 0xffffffff"
  using table_routine [OF _ adler_block_ok, of 8 "crc XOR 0xffffffff" addr p] by (simp add: append_adler_table_def)

lemma append_table_bits: "append_table m_x64 crc addr p = crc32c_bits (crc XOR 0xffffffff) p XOR 0xffffffff"
  using table_routine [OF _ table_block_64_ok, of 8 "crc XOR 0xffffffff" addr p]
    table_routine [OF _ table_block_32_ok, of 4 "crc XOR 0xffffffff" addr p]
  by (simp add: append_table_def)

subsection \<open>The bitwise routine\<close>

lemma trivial_bit_inverted: "trivial_bit (c XOR 0xffffffff) = crc_bit c XOR 0xffffffff"
proof -
  have ones: "(0xffffffff :: u32) = NOT 0" by simp
  have inv: "c XOR 0xffffffff = NOT c" unfolding ones by (rule bit_word_eqI) (simp add: bit_simps)
  have shift: "drop_bit 1 (NOT c) XOR 0x80000000 = NOT (drop_bit 1 c)"
  proof (rule bit_word_eqI)
    fix i
    assume "i < LENGTH(32)"
    have "(0x80000000 :: u32) = 2 ^ 31" by simp
    then have "bit (0x80000000 :: u32) i \<longleftrightarrow> i = 31" by (simp only: bit_exp_iff) auto
    moreover have "bit c 32 = False" using bit_imp_le_length [of c 32] by auto
    ultimately show "bit (drop_bit 1 (NOT c) XOR 0x80000000) i = bit (NOT (drop_bit 1 c)) i"
      using \<open>i < LENGTH(32)\<close> by (auto simp: bit_xor_iff bit_drop_bit_eq bit_not_iff less_Suc_eq)
  qed
  have "NOT (NOT c) AND 1 = (if bit c 0 then 1 else 0)" by (simp add: and_one_eq bit_0 odd_iff_mod_2_eq_one)
  then have "trivial_bit (NOT c) = NOT (drop_bit 1 c) XOR (if bit c 0 then POLY else 0)"
    unfolding trivial_bit_def xor.assoc [symmetric] shift by simp
  also have "\<dots> = NOT (crc_bit c)"
    by (simp add: crc_bit_def POLY_def bit_eq_iff [of "NOT _"] bit_simps)
  finally show ?thesis unfolding inv by (simp add: ones xor.commute)
qed

lemma append_trivial_bits: "append_trivial crc p = crc32c_bits (crc XOR 0xffffffff) p XOR 0xffffffff"
proof -
  have pow: "(trivial_bit ^^ n) (c XOR 0xffffffff) = (crc_bit ^^ n) c XOR 0xffffffff" for n c
    by (induction n arbitrary: c) (simp_all add: trivial_bit_inverted)
  have "(trivial_bit ^^ 8) ((c XOR 0xffffffff) XOR ucast b) = crc_byte c b XOR 0xffffffff" for c and b :: u8
  proof -
    have "(c XOR 0xffffffff) XOR ucast b = (c XOR ucast b) XOR 0xffffffff" by (simp add: ac_simps)
    then show ?thesis by (simp only: pow crc_byte_def)
  qed
  then have "foldl (\<lambda>crc b. (trivial_bit ^^ 8) (crc XOR ucast b)) (c XOR 0xffffffff) p = crc32c_bits c p XOR 0xffffffff" for c
    by (induction p arbitrary: c) (simp_all add: crc32c_bits_def)
  from this [of "crc XOR 0xffffffff"] show ?thesis by (simp add: append_trivial_def xor.assoc)
qed

subsection \<open>The routine on the CRC instructions\<close>

lemma four_bytes:
  "(c :: u32) = push_bit (8 * 0) (ucast (byte_at 0 c)) XOR push_bit (8 * 1) (ucast (byte_at 8 c)) XOR
     push_bit (8 * 2) (ucast (byte_at 16 c)) XOR push_bit (8 * 3) (ucast (byte_at 24 c))"
  (is "_ = ?rhs")
proof (rule bit_word_eqI)
  fix i
  assume "i < LENGTH(32)"
  then consider "i < 8" | "8 \<le> i" "i < 16" | "16 \<le> i" "i < 24" | "24 \<le> i" "i < 32" by fastforce
  then show "bit c i = bit ?rhs i"
    by cases (auto simp: bit_simps diff_less_conv)
qed

lemma shift_crc_zeros:
  assumes "\<And>j i. j < 4 \<Longrightarrow> i < 256 \<Longrightarrow> shifts ! j ! i = (crc_bit ^^ n) (push_bit (8 * j) (of_nat i))"
  shows "shift_crc shifts c = (crc_bit ^^ n) c"
proof -
  have row: "shifts ! j ! unat b = (crc_bit ^^ n) (push_bit (8 * j) (ucast b))" if "j < 4" for j and b :: u8
    using assms [OF that, of "unat b"] unat_u8_less [of b] by (simp add: unsigned_ucast_eq)
  have "shift_crc shifts c = shifts ! 0 ! unat (byte_at 0 c) XOR shifts ! 1 ! unat (byte_at 8 c) XOR
      shifts ! 2 ! unat (byte_at 16 c) XOR shifts ! 3 ! unat (byte_at 24 c)"
    by (simp add: shift_crc_def byte_index byte_at_drop top_byte_index)
  also have "\<dots> = (crc_bit ^^ n) (push_bit (8 * 0) (ucast (byte_at 0 c)) XOR push_bit (8 * 1) (ucast (byte_at 8 c)) XOR
      push_bit (8 * 2) (ucast (byte_at 16 c)) XOR push_bit (8 * 3) (ucast (byte_at 24 c)))"
    by (simp only: crc_bits_xor row)
  finally show ?thesis using four_bytes [of c] by simp
qed

text \<open>Appending a stream to the remainder of the bytes before it.\<close>

lemma recombine: "(crc_bit ^^ (8 * length q)) c XOR crc32c_bits 0 q = crc32c_bits c q"
  using crc32c_bits_xor [of 0 c q] by (simp add: xor.commute)

text \<open>What the routine relies on: the instructions advance the remainder by the bytes of their operand.\<close>

locale crc_instructions =
  fixes hw8 :: "u32 \<Rightarrow> u8 \<Rightarrow> u32"
    and hw :: "'a::len word \<Rightarrow> 'a word \<Rightarrow> 'a word"
  assumes hw8: "hw8 c b = crc_byte c b"
    and hw: "hw (ucast c) v = ucast (crc32c_bits c (le_bytes v))"
    and width: "LENGTH('a) = 32 \<or> LENGTH('a) = 64"
begin

lemma wide: "32 \<le> LENGTH('a)" "0 < LENGTH('a) div 8" "8 * (LENGTH('a) div 8) = LENGTH('a)"
  using width by auto

lemma byte_ok: "byte_step_ok (\<lambda>crc0 b. ucast (hw8 (ucast (crc0 :: 'a word)) b) :: 'a word)"
  using wide by (simp add: byte_step_ok_def hw8 ucast_remainder)

lemma word_ok: "block_step_ok (LENGTH('a) div 8) (\<lambda>crc0 w. hw crc0 (le_word w))"
  using wide by (simp add: block_step_ok_def hw le_bytes_le_word)

lemma hw_stream:
  assumes "LENGTH('a) div 8 \<le> length q"
  shows "hw (ucast c) (le_word (take (LENGTH('a) div 8) q)) = ucast (crc32c_bits c (take (LENGTH('a) div 8) q))"
  using wide assms by (simp add: hw le_bytes_le_word)

lemma take_stream:
  assumes "w \<le> n - k"
  shows "crc32c_bits (crc32c_bits c (take w (drop k p))) (take (n - (k + w)) (drop (k + w) p)) =
     crc32c_bits c (take (n - k) (drop k p))"
proof -
  have "n - k = w + (n - (k + w))" using assms by arith
  then have "take (n - k) (drop k p) = take (w + (n - (k + w))) (drop k p)" by (rule arg_cong)
  also have "\<dots> = take w (drop k p) @ take (n - (k + w)) (drop (k + w) p)"
    by (simp only: take_add drop_drop add.commute)
  finally show ?thesis by (simp add: crc32c_bits_append)
qed

lemma hw_inner_bits:
  assumes "LENGTH('a) div 8 dvd n" and "3 * n \<le> length blk" and "k < n" and "LENGTH('a) div 8 dvd k"
  shows "hw_inner hw n blk k (ucast a) (ucast b) (ucast c) =
     (ucast (crc32c_bits a (take (n - k) (drop k blk))),
      ucast (crc32c_bits b (take (n - k) (drop (k + n) blk))),
      ucast (crc32c_bits c (take (n - k) (drop (k + 2 * n) blk))))"
  using assms(3,4)
proof (induction "n - k" arbitrary: k a b c rule: less_induct)
  case less
  let ?w = "LENGTH('a) div 8"
  have "?w dvd n - k" using assms(1) less.prems by (simp add: dvd_diff_nat)
  then have w: "?w \<le> n - k" using less.prems by (simp add: dvd_imp_le)
  have start: "?w \<le> length (drop k blk)" "?w \<le> length (drop (k + n) blk)" "?w \<le> length (drop (k + 2 * n) blk)"
    using assms(2) w less.prems by simp_all
  let ?a = "crc32c_bits a (take ?w (drop k blk))" and ?b = "crc32c_bits b (take ?w (drop (k + n) blk))"
    and ?c = "crc32c_bits c (take ?w (drop (k + 2 * n) blk))"
  have step: "hw_inner hw n blk k (ucast a) (ucast b) (ucast c) =
      (if k + ?w < n then hw_inner hw n blk (k + ?w) (ucast ?a) (ucast ?b) (ucast ?c) else (ucast ?a, ucast ?b, ucast ?c))"
    using hw_stream [of "drop k blk" a] hw_stream [of "drop (k + n) blk" b] hw_stream [of "drop (k + 2 * n) blk" c]
      start wide(2)
    by (subst hw_inner.simps) (simp add: Let_def)
  have streams: "crc32c_bits ?a (take (n - (k + ?w)) (drop (k + ?w) blk)) = crc32c_bits a (take (n - k) (drop k blk))"
    "crc32c_bits ?b (take (n - (k + ?w)) (drop (k + ?w + n) blk)) = crc32c_bits b (take (n - k) (drop (k + n) blk))"
    "crc32c_bits ?c (take (n - (k + ?w)) (drop (k + ?w + 2 * n) blk)) = crc32c_bits c (take (n - k) (drop (k + 2 * n) blk))"
    using w take_stream [of ?w n k a blk] take_stream [of ?w n k b "drop n blk"] take_stream [of ?w n k c "drop (2 * n) blk"]
    by (simp_all add: ac_simps)
  show ?case
  proof (cases "k + ?w < n")
    case True
    then show ?thesis
      using less.hyps [of "k + ?w" ?a ?b ?c] less.prems wide(2) by (simp add: step streams)
  next
    case False
    then have "n - k = ?w" using w by simp
    then show ?thesis using False by (simp add: step)
  qed
qed

lemma hw_three_ok:
  assumes "LENGTH('a) div 8 dvd n" and "0 < n"
    and "\<And>j i. j < 4 \<Longrightarrow> i < 256 \<Longrightarrow> shifts ! j ! i = (crc_bit ^^ (8 * n)) (push_bit (8 * j) (of_nat i))"
  shows "block_step_ok (3 * n) (hw_three hw n shifts)"
proof -
  have "hw_three hw n shifts (ucast c) w = ucast (crc32c_bits c w)" if len: "length w = 3 * n" for c w
  proof -
    let ?p = "take n w" and ?q = "take n (drop n w)" and ?r = "take n (drop (2 * n) w)"
    have "w = take (n + (n + n)) w" using len by simp
    then have w: "w = ?p @ ?q @ ?r" by (simp only: take_add drop_drop mult_2)
    have inner: "hw_inner hw n w 0 (ucast c) 0 0 = (ucast (crc32c_bits c ?p), ucast (crc32c_bits 0 ?q), ucast (crc32c_bits 0 ?r))"
      using hw_inner_bits [of n w 0 c 0 0] assms(1,2) len by simp
    have shift: "shift_crc shifts x = (crc_bit ^^ (8 * n)) x" for x by (rule shift_crc_zeros) (rule assms(3))
    have "shift_crc shifts (crc32c_bits c ?p) XOR crc32c_bits 0 ?q = crc32c_bits c (?p @ ?q)"
      using recombine [of ?q "crc32c_bits c ?p"] len by (simp add: shift crc32c_bits_append)
    moreover have "shift_crc shifts (crc32c_bits c (?p @ ?q)) XOR crc32c_bits 0 ?r = crc32c_bits c w"
      using recombine [of ?r "crc32c_bits c (?p @ ?q)"] len by (subst (3) w) (simp add: shift crc32c_bits_append)
    ultimately show ?thesis
      using wide(1) by (simp add: hw_three_def inner ucast_remainder unsigned_xor_eq [symmetric])
  qed
  then show ?thesis using assms(2) by (simp add: block_step_ok_def)
qed

lemma append_hw_bits: "append_hw hw8 hw crc addr p = crc32c_bits (crc XOR 0xffffffff) p XOR 0xffffffff"
proof -
  let ?c = "crc XOR 0xffffffff"
  have div: "LENGTH('a) div 8 dvd 8" using width by auto
  then have dvd: "LENGTH('a) div 8 dvd LONG_SHIFT" "LENGTH('a) div 8 dvd SHORT_SHIFT"
    using dvd_trans [OF div, of 8192] dvd_trans [OF div, of 256] by (simp_all add: LONG_SHIFT_def SHORT_SHIFT_def)
  have pos: "0 < LONG_SHIFT" "0 < SHORT_SHIFT" by (simp_all add: LONG_SHIFT_def SHORT_SHIFT_def)
  note long = block_loop_bits [OF hw_three_ok [OF dvd(1) pos(1) long_shifts_nth]]
  note short = block_loop_bits [OF hw_three_ok [OF dvd(2) pos(2) short_shifts_nth]]
  obtain k where k: "align_loop 8 (\<lambda>crc0 b. ucast (hw8 (ucast crc0) b)) (ucast ?c :: 'a word) addr p =
      (ucast (crc32c_bits ?c (take k p)), addr + k, drop k p)"
    by (rule align_loop_bits [OF byte_ok])
  have body: "block_loop (LENGTH('a) div 8) (\<lambda>crc0 w. hw crc0 (le_word w)) (ucast c) (take (length q - length q mod 8) q) =
      (ucast (crc32c_bits c (take (length q - length q mod 8) q)), [])" for c q
  proof -
    have "LENGTH('a) div 8 dvd length q - length q mod 8" using div by (meson dvd_minus_mod dvd_trans)
    then show ?thesis by (simp add: block_loop_bits [OF word_ok] min.absorb2)
  qed
  have chain: "crc32c_bits (crc32c_bits c (take j q)) (drop j q) = crc32c_bits c q" for c j q
    by (simp add: crc32c_bits_append [symmetric])
  show ?thesis
    using wide(1)
    by (simp add: append_hw_def Let_def k long short body byte_loop [OF byte_ok] ucast_remainder chain)
qed

end

text \<open>The documented operation of the CRC32 instructions, as functions.\<close>

definition crc_instruction :: "'a::len word \<Rightarrow> 'a word \<Rightarrow> 'a word" where
  "crc_instruction crc v = ucast (crc32c_bits (ucast crc) (le_bytes v))"

interpretation crc_u32: crc_instructions crc_byte "crc_instruction :: u32 \<Rightarrow> u32 \<Rightarrow> u32"
  by unfold_locales (simp_all add: crc_instruction_def)

interpretation crc_u64: crc_instructions crc_byte "crc_instruction :: u64 \<Rightarrow> u64 \<Rightarrow> u64"
  by unfold_locales (simp_all add: crc_instruction_def ucast_remainder)

subsection \<open>Properties\<close>

lemma crc32c_append_bits:
  assumes "crc_instructions hw8 hw32" and "crc_instructions hw8 hw64"
  shows "crc32c_append p (isHwCrcSupported p ecx) m_x64 asm hw8 hw32 hw64 crc addr input =
     crc32c_bits (crc XOR 0xffffffff) input XOR 0xffffffff"
proof -
  have "isHwCrcSupported p ecx \<Longrightarrow> p \<noteq> PowerPC64" by (auto simp: isHwCrcSupported_def)
  then show ?thesis
    using crc_instructions.append_hw_bits [OF assms(1)] crc_instructions.append_hw_bits [OF assms(2)]
    by (simp add: crc32c_append_def append_table_bits)
qed

text \<open>
  C3. On every platform and build, with the processor's CRC instructions or without them, \<open>crc32c_append\<close>
  computes the bit-serial CRC-32C of the buffer, for every length and alignment, continuing from the given
  remainder.
\<close>

theorem crc32c_append_correct:
  assumes "crc_instructions hw8 hw32" and "crc_instructions hw8 hw64"
  shows "crc32c_append p (isHwCrcSupported p ecx) m_x64 asm hw8 hw32 hw64 crc addr input =
     crc32c_bits (crc XOR 0xffffffff) input XOR 0xffffffff"
  using assms by (rule crc32c_append_bits)

theorem crc32c_append_correct_witness:
  "crc32c_append Unixish (isHwCrcSupported Unixish 0x100000) False (\<lambda>c a p. c) crc_byte crc_instruction crc_instruction 0 3 [1, 2] =
     crc32c_bits 0xffffffff [1, 2] XOR 0xffffffff"
  using crc32c_append_correct [OF crc_u32.crc_instructions_axioms crc_u64.crc_instructions_axioms,
      of Unixish "0x100000" False "\<lambda>c a p. c" 0 3 "[1, 2]"] by simp

text \<open>
  C35. A checksum accumulated over any division of the data into buffers, wherever each buffer lies in
  memory, is the checksum of the whole data.
\<close>

theorem crc32c_append_chunks:
  assumes "crc_instructions hw8 hw32" and "crc_instructions hw8 hw64"
  shows "foldl (\<lambda>crc (addr, input). crc32c_append p (isHwCrcSupported p ecx) m_x64 asm hw8 hw32 hw64 crc addr input) crc chunks =
     crc32c_append p (isHwCrcSupported p ecx) m_x64 asm hw8 hw32 hw64 crc addr (concat (map snd chunks))"
  unfolding crc32c_append_bits [OF assms]
proof (induction chunks arbitrary: crc)
  case Nil
  then show ?case by (simp add: crc32c_bits_def xor.assoc)
next
  case (Cons chunk chunks)
  then show ?case by (cases chunk) (simp add: crc32c_bits_append xor.assoc)
qed

theorem crc32c_append_chunks_witness:
  "foldl (\<lambda>crc (addr, input). crc32c_append AArch64 (isHwCrcSupported AArch64 0) False (\<lambda>c a p. c) crc_byte
       crc_instruction crc_instruction crc addr input) 0 [(0, [1]), (5, [2, 3])] =
     crc32c_append AArch64 (isHwCrcSupported AArch64 0) False (\<lambda>c a p. c) crc_byte crc_instruction crc_instruction 0 0 [1, 2, 3]"
  using crc32c_append_chunks [OF crc_u32.crc_instructions_axioms crc_u64.crc_instructions_axioms,
      of AArch64 0 False "\<lambda>c a p. c" 0 "[(0, [1]), (5, [2, 3])]" 0] by simp

text \<open>
  C36. The three software routines compute the same function: the bitwise one, the one with eight tables and
  the one with sixteen or twelve.
\<close>

theorem software_routines_agree:
  "append_adler_table crc addr input = append_trivial crc input \<and>
   append_table m_x64 crc addr' input = append_trivial crc input"
  by (simp add: append_adler_table_bits append_table_bits append_trivial_bits)

text \<open>\<open>ppc_hw\<close>, which no platform selects, starts from 0 whatever the remainder it is given.\<close>

theorem ppc_hw_ignores_crc: "ppc_hw asm crc addr input = ppc_hw asm crc' addr input"
  by (simp add: ppc_hw_def)

end
