(* ===== verification/IndexedSet.thy ===== *)
theory IndexedSet
  imports Main
begin

text \<open>
  The ordered container of \<^verbatim>\<open>flow/include/flow/IndexedSet.h\<close>: an AVL tree whose nodes keep the balance of
  their subtrees and the total of the metrics below them.

  The element of a node is a key with a value, compared by the key, as \<open>MapPair\<close> does; a plain set has the
  value \<open>()\<close>.  \<open>nullptr\<close> is \<open>Leaf\<close>, whose total is the neutral metric that the code skips.  A pointer to a
  node is a location: the subtree at the node with the frames of its ancestors, the nearest first, so that
  \<open>parent\<close> is the head frame and \<open>child[d] == node\<close> is its direction; \<open>end()\<close> is \<open>None\<close>.  Direction \<open>False\<close>
  is \<open>child[0]\<close>.  Balances are integers, where the code has \<open>signed char\<close>: a balance is -1, 0 or 1 between the operations, and
  the difference of the heights of two subtrees while a range is being erased, which is within the range of a \<open>signed char\<close>
  for any number of nodes that fits in memory.
\<close>

subsection \<open>Nodes and locations\<close>

datatype ('k, 'v, 'm) tree =
  Leaf
| Node "('k, 'v, 'm) tree" 'k 'v int 'm "('k, 'v, 'm) tree"

datatype ('k, 'v, 'm) frame = Frame bool 'k 'v int 'm "('k, 'v, 'm) tree"

type_synonym ('k, 'v, 'm) loc = "('k, 'v, 'm) frame list \<times> ('k, 'v, 'm) tree"

fun total :: "('k, 'v, 'm::ab_group_add) tree \<Rightarrow> 'm" where
  "total Leaf = 0"
| "total (Node l k v b m r) = m"

fun balance :: "('k, 'v, 'm) tree \<Rightarrow> int" where
  "balance Leaf = 0"
| "balance (Node l k v b m r) = b"

fun child :: "bool \<Rightarrow> ('k, 'v, 'm) tree \<Rightarrow> ('k, 'v, 'm) tree" where
  "child d Leaf = Leaf"
| "child d (Node l k v b m r) = (if d then r else l)"

fun set_child :: "bool \<Rightarrow> ('k, 'v, 'm) tree \<Rightarrow> ('k, 'v, 'm) tree \<Rightarrow> ('k, 'v, 'm) tree" where
  "set_child d c Leaf = Leaf"
| "set_child d c (Node l k v b m r) = (if d then Node l k v b m c else Node c k v b m r)"

fun set_balance :: "int \<Rightarrow> ('k, 'v, 'm) tree \<Rightarrow> ('k, 'v, 'm) tree" where
  "set_balance b' Leaf = Leaf"
| "set_balance b' (Node l k v b m r) = Node l k v b' m r"

fun set_total :: "'m \<Rightarrow> ('k, 'v, 'm) tree \<Rightarrow> ('k, 'v, 'm) tree" where
  "set_total m' Leaf = Leaf"
| "set_total m' (Node l k v b m r) = Node l k v b m' r"

fun plug :: "('k, 'v, 'm) frame \<Rightarrow> ('k, 'v, 'm) tree \<Rightarrow> ('k, 'v, 'm) tree" where
  "plug (Frame d k v b m s) c = (if d then Node s k v b m c else Node c k v b m s)"

fun close :: "('k, 'v, 'm) tree \<Rightarrow> ('k, 'v, 'm) frame list \<Rightarrow> ('k, 'v, 'm) tree" where
  "close t [] = t"
| "close t (f # fs) = close (plug f t) fs"

fun add_total :: "'m::ab_group_add \<Rightarrow> ('k, 'v, 'm) frame \<Rightarrow> ('k, 'v, 'm) frame" where
  "add_total delta (Frame d k v b m s) = Frame d k v b (m + delta) s"

definition sgn_dir :: "bool \<Rightarrow> int" where
  "sgn_dir d = (if d then 1 else -1)"

subsection \<open>Rotations\<close>

definition ISRotate :: "('k, 'v, 'm::ab_group_add) tree \<Rightarrow> bool \<Rightarrow> ('k, 'v, 'm) tree" where
  "ISRotate oldRoot d =
     (let newRoot = child (\<not> d) oldRoot;
          orTotal = total oldRoot - total newRoot + total (child d newRoot);
          oldRoot' = set_child (\<not> d) (child d newRoot) (set_total orTotal oldRoot)
      in set_child d oldRoot' (set_total (total oldRoot) newRoot))"

definition ISAdjustBalance :: "('k, 'v, 'm) tree \<Rightarrow> bool \<Rightarrow> int \<Rightarrow> ('k, 'v, 'm) tree" where
  "ISAdjustBalance root d bal =
     (let n = child d root; nn = child (\<not> d) n;
          (rb, nb) = (if balance nn = 0 then (0, 0) else if balance nn = bal then (- bal, 0) else (0, bal))
      in set_child d (set_child (\<not> d) (set_balance 0 nn) (set_balance nb n)) (set_balance rb root))"

text \<open>The rotations of \<open>ISRebalance\<close> at an unbalanced node, with the balances it computes: the new subtree
  with the new balances of its root and of the old root, the balance \<open>nBal\<close>, and whether there were two
  rotations.\<close>

definition rebalance_rotations ::
  "('k, 'v, 'm::ab_group_add) tree \<Rightarrow> ('k, 'v, 'm) tree \<times> int \<times> bool" where
  "rebalance_rotations root =
     (let rebalanceDir = (balance root < 0);
          n = child (\<not> rebalanceDir) root;
          bal = sgn_dir rebalanceDir;
          doubleRotation = (balance n = bal);
          n = (if doubleRotation then
                 (let x = balance (child rebalanceDir n);
                      n = ISRotate n (\<not> rebalanceDir);
                      n = set_balance ((if x = - bal then -2 else -1) * bal) n
                  in set_child (\<not> rebalanceDir)
                       (set_balance ((if x = bal then -1 else 0) * bal) (child (\<not> rebalanceDir) n)) n)
               else n);
          root = set_child (\<not> rebalanceDir) n root;
          nBal = balance n * bal;
          newRootBalance = bal * (1 + max nBal (bal * balance root + 1 + max nBal 0));
          newChildBalance = balance root + bal * (1 - min nBal 0);
          root = set_balance newRootBalance (ISRotate root rebalanceDir)
      in (set_child rebalanceDir (set_balance newChildBalance (child rebalanceDir root)) root, nBal, doubleRotation))"

text \<open>\<open>None\<close>: the assertion fails or the recursion does not end.\<close>

partial_function (option) ISRebalance ::
  "('k, 'v, 'm::ab_group_add) tree \<Rightarrow> (('k, 'v, 'm) tree \<times> int) option" where
  "ISRebalance root =
     (if root = Leaf \<or> balance root \<ge> -1 \<and> balance root \<le> 1 then Some (root, 0)
      else
        let rebalanceDir = (balance root < 0);
            rootBal = balance root;
            (root, nBal, doubleRotation) = rebalance_rotations root
        in Option.bind (ISRebalance (child rebalanceDir root)) (\<lambda>(c, childHeightChange).
             let root = set_balance (balance root + childHeightChange * sgn_dir rebalanceDir) (set_child rebalanceDir c root);
                 heightChange = (if doubleRotation then -1 else max (nBal + childHeightChange) (-1))
             in if balance root < -1 \<or> balance root > 1 then
                  (if \<bar>balance root\<bar> < \<bar>rootBal\<bar> then
                     Option.bind (ISRebalance root) (\<lambda>(root, c). Some (root, heightChange + c))
                   else None)
                else Some (root, heightChange)))"

declare ISRebalance.simps [code]

subsection \<open>Moving through the tree\<close>

fun descend :: "'k::linorder \<Rightarrow> ('k, 'v, 'm) tree \<Rightarrow> ('k, 'v, 'm) frame list \<Rightarrow> ('k, 'v, 'm) loc" where
  "descend key Leaf fs = (fs, Leaf)"
| "descend key (Node l k v b m r) fs =
     (if key = k then (fs, Node l k v b m r)
      else if key > k then descend key r (Frame True k v b m l # fs)
      else descend key l (Frame False k v b m r # fs))"

text \<open>The loop \<open>while (x->child[d]) x = x->child[d]\<close>.\<close>

fun outermost :: "bool \<Rightarrow> ('k, 'v, 'm) tree \<Rightarrow> ('k, 'v, 'm) frame list \<Rightarrow> ('k, 'v, 'm) loc option" where
  "outermost d Leaf fs = None"
| "outermost d (Node l k v b m r) fs =
     (if d then (if r = Leaf then Some (fs, Node l k v b m r) else outermost d r (Frame True k v b m l # fs))
      else (if l = Leaf then Some (fs, Node l k v b m r) else outermost d l (Frame False k v b m r # fs)))"

fun climb :: "bool \<Rightarrow> ('k, 'v, 'm) tree \<Rightarrow> ('k, 'v, 'm) frame list \<Rightarrow> ('k, 'v, 'm) loc option" where
  "climb dir t [] = None"
| "climb dir t (Frame d k v b m s # fs) =
     (if d = dir then climb dir (plug (Frame d k v b m s) t) fs else Some (fs, plug (Frame d k v b m s) t))"

fun moveIterator :: "bool \<Rightarrow> ('k, 'v, 'm) loc \<Rightarrow> ('k, 'v, 'm) loc option" where
  "moveIterator dir (fs, Leaf) = None"
| "moveIterator dir (fs, Node l k v b m r) =
     (if dir then
        (if r \<noteq> Leaf then outermost (\<not> dir) r (Frame True k v b m l # fs) else climb dir (Node l k v b m r) fs)
      else
        (if l \<noteq> Leaf then outermost (\<not> dir) l (Frame False k v b m r # fs) else climb dir (Node l k v b m r) fs))"

definition is_begin :: "('k, 'v, 'm) tree \<Rightarrow> ('k, 'v, 'm) loc option" where
  "is_begin root = outermost False root []"

definition lastItem :: "('k, 'v, 'm) tree \<Rightarrow> ('k, 'v, 'm) loc option" where
  "lastItem root = outermost True root []"

definition previous :: "('k, 'v, 'm) tree \<Rightarrow> ('k, 'v, 'm) loc option \<Rightarrow> ('k, 'v, 'm) loc option" where
  "previous root it = (case it of None \<Rightarrow> lastItem root | Some x \<Rightarrow> moveIterator False x)"

definition is_find :: "('k::linorder, 'v, 'm) tree \<Rightarrow> 'k \<Rightarrow> ('k, 'v, 'm) loc option" where
  "is_find root key = (case descend key root [] of (fs, t) \<Rightarrow> if t = Leaf then None else Some (fs, t))"

definition is_count :: "('k::linorder, 'v, 'm) tree \<Rightarrow> 'k \<Rightarrow> nat" where
  "is_count root key = (if is_find root key \<noteq> None then 1 else 0)"

text \<open>The loop of \<open>lower_bound\<close> and \<open>upper_bound\<close>: \<open>right k\<close> tells to go right at a node with key \<open>k\<close>.\<close>

fun bound_walk ::
  "('k \<Rightarrow> bool) \<Rightarrow> ('k, 'v, 'm) tree \<Rightarrow> ('k, 'v, 'm) frame list \<Rightarrow> (bool \<times> ('k, 'v, 'm) loc) option" where
  "bound_walk right Leaf fs = None"
| "bound_walk right (Node l k v b m r) fs =
     (if right k then
        (if r = Leaf then Some (True, fs, Node l k v b m r) else bound_walk right r (Frame True k v b m l # fs))
      else
        (if l = Leaf then Some (False, fs, Node l k v b m r) else bound_walk right l (Frame False k v b m r # fs)))"

definition bound_result :: "(bool \<times> ('k, 'v, 'm) loc) option \<Rightarrow> ('k, 'v, 'm) loc option" where
  "bound_result w =
     (case w of None \<Rightarrow> None | Some (right, x) \<Rightarrow> if right then moveIterator True x else Some x)"

definition lower_bound :: "('k::linorder, 'v, 'm) tree \<Rightarrow> 'k \<Rightarrow> ('k, 'v, 'm) loc option" where
  "lower_bound root key = bound_result (bound_walk (\<lambda>k. k < key) root [])"

definition upper_bound :: "('k::linorder, 'v, 'm) tree \<Rightarrow> 'k \<Rightarrow> ('k, 'v, 'm) loc option" where
  "upper_bound root key = bound_result (bound_walk (\<lambda>k. \<not> key < k) root [])"

text \<open>Two iterators are equal when they point to the same node.\<close>

definition same_node :: "('k, 'v, 'm) loc option \<Rightarrow> ('k, 'v, 'm) loc option \<Rightarrow> bool" where
  "same_node i j =
     (case (i, j) of
        (None, None) \<Rightarrow> True
      | (Some (fs, t), Some (gs, u)) \<Rightarrow> map (\<lambda>f. case f of Frame d k v b m s \<Rightarrow> d) fs = map (\<lambda>f. case f of Frame d k v b m s \<Rightarrow> d) gs
      | _ \<Rightarrow> False)"

definition lastLessOrEqual :: "('k::linorder, 'v, 'm) tree \<Rightarrow> 'k \<Rightarrow> ('k, 'v, 'm) loc option" where
  "lastLessOrEqual root key =
     (let i = upper_bound root key in if same_node i (is_begin root) then None else previous root i)"

subsection \<open>Metrics\<close>

fun index_walk ::
  "'m::linordered_ab_group_add \<Rightarrow> ('k, 'v, 'm) tree \<Rightarrow> ('k, 'v, 'm) frame list \<Rightarrow> ('k, 'v, 'm) loc option" where
  "index_walk m Leaf fs = None"
| "index_walk m (Node l k v b t r) fs =
     (if l \<noteq> Leaf \<and> m < total l then index_walk m l (Frame False k v b t r # fs)
      else
        let m = m - t + total r in
        if m < 0 then Some (fs, Node l k v b t r) else index_walk m r (Frame True k v b t l # fs))"

definition is_index ::
  "('k, 'v, 'm::linordered_ab_group_add) tree \<Rightarrow> 'm \<Rightarrow> ('k, 'v, 'm) loc option" where
  "is_index root metric = index_walk metric root []"

definition getMetric :: "('k, 'v, 'm::ab_group_add) loc \<Rightarrow> 'm" where
  "getMetric x = total (snd x) - total (child False (snd x)) - total (child True (snd x))"

fun sum_up :: "'m::ab_group_add \<Rightarrow> ('k, 'v, 'm) tree \<Rightarrow> ('k, 'v, 'm) frame list \<Rightarrow> 'm" where
  "sum_up m p [] = m"
| "sum_up m p (Frame d k v b t s # fs) =
     sum_up (if d then m - total p + t else m) (plug (Frame d k v b t s) p) fs"

definition sumTo :: "('k, 'v, 'm::ab_group_add) tree \<Rightarrow> ('k, 'v, 'm) loc option \<Rightarrow> 'm" where
  "sumTo root to = (case to of None \<Rightarrow> total root | Some (fs, t) \<Rightarrow> sum_up (total (child False t)) t fs)"

definition sumRange ::
  "('k, 'v, 'm::ab_group_add) tree \<Rightarrow> ('k, 'v, 'm) loc option \<Rightarrow> ('k, 'v, 'm) loc option \<Rightarrow> 'm" where
  "sumRange root from to = sumTo root to - sumTo root from"

definition sumRange_keys :: "('k::linorder, 'v, 'm::ab_group_add) tree \<Rightarrow> 'k \<Rightarrow> 'k \<Rightarrow> 'm" where
  "sumRange_keys root from to = sumRange root (lower_bound root from) (lower_bound root to)"

subsection \<open>Insertion\<close>

text \<open>One or two rotations at a node whose child \<open>d\<close> has become too high.\<close>

definition insert_rotate :: "bool \<Rightarrow> ('k, 'v, 'm::ab_group_add) tree \<Rightarrow> ('k, 'v, 'm) tree" where
  "insert_rotate d t =
     (let n = child d t;
          bal = sgn_dir d;
          t = (if balance n = bal then set_balance 0 (set_child d (set_balance 0 n) t)
               else let t = ISAdjustBalance t d bal in set_child d (ISRotate (child d t) d) t)
      in ISRotate t (\<not> d))"

text \<open>The loop that follows the insertion of a new node below the frames: \<open>c\<close> is the child that grew.\<close>

fun insert_up :: "'m::ab_group_add \<Rightarrow> ('k, 'v, 'm) tree \<Rightarrow> ('k, 'v, 'm) frame list \<Rightarrow> ('k, 'v, 'm) tree" where
  "insert_up delta c [] = c"
| "insert_up delta c (Frame d k v b m s # fs) =
     (let b = b + sgn_dir d;
          t = plug (Frame d k v b (m + delta) s) c
      in if b = 0 then close t (map (add_total delta) fs)
         else if b \<noteq> 1 \<and> b \<noteq> -1 then close (insert_rotate d t) (map (add_total delta) fs)
         else insert_up delta t fs)"

text \<open>Overwriting the element and the metric of a node.\<close>

definition replace_node ::
  "'k \<Rightarrow> 'v \<Rightarrow> 'm::ab_group_add \<Rightarrow> ('k, 'v, 'm) frame list \<Rightarrow> ('k, 'v, 'm) tree \<Rightarrow> ('k, 'v, 'm) tree" where
  "replace_node key val metric fs t =
     (case t of
        Leaf \<Rightarrow> close t fs
      | Node l k v b m r \<Rightarrow>
          let m' = metric + total l + total r; delta = m' - m
          in close (Node l key val b m' r) (map (add_total delta) fs))"

definition is_insert ::
  "'k::linorder \<Rightarrow> 'v \<Rightarrow> 'm::ab_group_add \<Rightarrow> bool \<Rightarrow> ('k, 'v, 'm) tree \<Rightarrow> ('k, 'v, 'm) tree" where
  "is_insert key val metric replaceExisting root =
     (case descend key root [] of (fs, t) \<Rightarrow>
        if t \<noteq> Leaf then (if replaceExisting then replace_node key val metric fs t else root)
        else insert_up metric (Node Leaf key val 0 metric Leaf) fs)"

definition addMetric ::
  "'k::linorder \<Rightarrow> 'v \<Rightarrow> 'm::ab_group_add \<Rightarrow> ('k, 'v, 'm) tree \<Rightarrow> 'm \<times> ('k, 'v, 'm) tree" where
  "addMetric key val metric root =
     (case is_find root key of
        None \<Rightarrow> (metric, is_insert key val metric True root)
      | Some x \<Rightarrow> let m = metric + getMetric x in (m, is_insert key val m True root))"

subsection \<open>Erasing a node\<close>

text \<open>The rotations at a node whose child \<open>d\<close> has become too low; the flag tells whether the subtree has
  become lower, so that the loop goes on.\<close>

definition erase_rotate :: "bool \<Rightarrow> ('k, 'v, 'm::ab_group_add) tree \<Rightarrow> ('k, 'v, 'm) tree \<times> bool" where
  "erase_rotate d t =
     (let n = child (\<not> d) t;
          bal = sgn_dir d
      in if balance n = - bal then
           (ISRotate (set_balance 0 (set_child (\<not> d) (set_balance 0 n) t)) d, True)
         else if balance n = bal then
           (let t = ISAdjustBalance t (\<not> d) (- bal)
            in (ISRotate (set_child (\<not> d) (ISRotate (child (\<not> d) t) (\<not> d)) t) d, True))
         else (ISRotate (set_balance (- bal) (set_child (\<not> d) (set_balance bal n) t)) d, False))"

text \<open>The loop that follows the removal of a node: the child \<open>c\<close> has become lower by one.\<close>

fun erase_up :: "('k, 'v, 'm::ab_group_add) tree \<Rightarrow> ('k, 'v, 'm) frame list \<Rightarrow> ('k, 'v, 'm) tree" where
  "erase_up c [] = c"
| "erase_up c (Frame d k v b m s # fs) =
     (let b = b - sgn_dir d;
          t = plug (Frame d k v b m s) c
      in if b < -1 \<or> b > 1 then
           (case erase_rotate d t of (t', lower) \<Rightarrow> if lower then erase_up t' fs else close t' fs)
         else if b \<noteq> 0 then close t fs
         else erase_up t fs)"

text \<open>\<open>delete\<close> of a node, whose destructor deletes both children: the nodes that are freed, each named by its key.\<close>

fun delete_node :: "('k, 'v, 'm) tree \<Rightarrow> 'k list" where
  "delete_node Leaf = []"
| "delete_node (Node l k v b m r) = delete_node l @ delete_node r @ [k]"

text \<open>The tree after \<open>erase(iterator)\<close>, and the nodes that it has freed: the erased node is unlinked from its children
  before it is deleted.\<close>

definition erase_node :: "('k, 'v, 'm::ab_group_add) loc \<Rightarrow> ('k, 'v, 'm) tree \<times> 'k list" where
  "erase_node x =
     (case x of
        (fs, Leaf) \<Rightarrow> (close Leaf fs, [])
      | (fs, Node l k v b m r) \<Rightarrow>
          let tMetric = m - total l - total r in
          if l = Leaf \<or> r = Leaf then
            let d = (l = Leaf) in
            (erase_up (child d (Node l k v b m r)) (map (add_total (- tMetric)) fs),
             delete_node (set_child d Leaf (Node l k v b m r)))
          else
            (case outermost True l [] of
               Some (gs, Node pl pk pv pb pm pr) \<Rightarrow>
                 let pMetric = pm - total pl;
                     gs = map (add_total (- pMetric)) gs;
                     left = total (close pl gs);
                     t = Frame False pk pv b (pMetric + left + total r) r
                 in (erase_up pl (gs @ t # map (add_total (- tMetric)) fs),
                     delete_node (set_child True Leaf (set_child False Leaf (Node l k v b m r))))
             | _ \<Rightarrow> (close Leaf fs, [])))"

definition is_erase :: "('k, 'v, 'm::ab_group_add) tree \<Rightarrow> ('k, 'v, 'm) loc option \<Rightarrow> ('k, 'v, 'm) tree \<times> 'k list" where
  "is_erase root it = (case it of None \<Rightarrow> (root, []) | Some x \<Rightarrow> erase_node x)"

definition erase_key :: "('k::linorder, 'v, 'm::ab_group_add) tree \<Rightarrow> 'k \<Rightarrow> ('k, 'v, 'm) tree \<times> 'k list" where
  "erase_key root key = is_erase root (is_find root key)"

subsection \<open>Inserting a vector\<close>

text \<open>The search from the root: the node where it ends, the side of the free place there, whether the key
  was found, and \<open>blockEnd\<close>.\<close>

fun vector_search ::
  "'k::linorder \<Rightarrow> ('k, 'v, 'm) tree \<Rightarrow> ('k, 'v, 'm) frame list \<Rightarrow> 'k option \<Rightarrow> ('k, 'v, 'm) loc \<times> bool \<times> bool \<times> 'k option" where
  "vector_search key Leaf fs blockEnd = ((fs, Leaf), False, False, blockEnd)"
| "vector_search key (Node l k v b m r) fs blockEnd =
     (if key > k then
        (if r = Leaf then ((fs, Node l k v b m r), True, False, blockEnd)
         else vector_search key r (Frame True k v b m l # fs) blockEnd)
      else if key = k then ((fs, Node l k v b m r), False, True, Some k)
      else
        (if l = Leaf then ((fs, Node l k v b m r), False, False, Some k)
         else vector_search key l (Frame False k v b m r # fs) (Some k)))"

text \<open>\<open>while (t->child[d]) { t = t->child[d]; d = 0; }\<close>: the frames of the free place.\<close>

fun free_place :: "bool \<Rightarrow> ('k, 'v, 'm) tree \<Rightarrow> ('k, 'v, 'm) frame list \<Rightarrow> ('k, 'v, 'm) frame list" where
  "free_place d Leaf fs = fs"
| "free_place d (Node l k v b m r) fs =
     (if d then free_place False r (Frame True k v b m l # fs) else free_place False l (Frame False k v b m r # fs))"

text \<open>The node that holds a key, wherever it is: \<open>blockStart\<close> is a pointer.\<close>

fun node_of :: "'k \<Rightarrow> ('k, 'v, 'm) tree \<Rightarrow> ('k, 'v, 'm) frame list \<Rightarrow> ('k, 'v, 'm) loc option" where
  "node_of key Leaf fs = None"
| "node_of key (Node l k v b m r) fs =
     (if key = k then Some (fs, Node l k v b m r)
      else case node_of key l (Frame False k v b m r # fs) of
             Some x \<Rightarrow> Some x
           | None \<Rightarrow> node_of key r (Frame True k v b m l # fs))"

type_synonym ('k, 'v, 'm) vector_state = "('k, 'v, 'm) tree \<times> nat \<times> 'k option \<times> 'k option"

fun vector_step ::
  "bool \<Rightarrow> ('k::linorder, 'v, 'm::ab_group_add) vector_state \<Rightarrow> 'k \<times> 'v \<times> 'm \<Rightarrow> ('k, 'v, 'm) vector_state" where
  "vector_step replaceExisting (root, num_inserted, blockStart, blockEnd) (key, val, metric) =
     (let newNode = Node Leaf key val 0 metric Leaf in
      if blockStart = None \<or> (case blockEnd of None \<Rightarrow> False | Some e \<Rightarrow> key \<ge> e) then
        (if root = Leaf then (newNode, num_inserted + 1, Some key, None)
         else
           (case vector_search key root [] None of ((fs, t), d, foundNode, blockEnd) \<Rightarrow>
              if foundNode then
                (if replaceExisting then (replace_node key val metric fs t, num_inserted + 1, Some key, blockEnd)
                 else (root, num_inserted, Some key, blockEnd))
              else (insert_up metric newNode (free_place d t fs), num_inserted + 1, Some key, blockEnd)))
      else
        (case node_of (the blockStart) root [] of
           None \<Rightarrow> (root, num_inserted, blockStart, blockEnd)
         | Some (fs, t) \<Rightarrow> (insert_up metric newNode (free_place True t fs), num_inserted + 1, Some key, blockEnd)))"

definition insert_vector ::
  "('k::linorder \<times> 'v \<times> 'm::ab_group_add) list \<Rightarrow> bool \<Rightarrow> ('k, 'v, 'm) tree \<Rightarrow> ('k, 'v, 'm) tree \<times> nat" where
  "insert_vector dataVector replaceExisting root =
     (case foldl (vector_step replaceExisting) (root, 0, None, None) dataVector of (root, n, _, _) \<Rightarrow> (root, n))"

subsection \<open>Erasing a range\<close>

text \<open>The depths of the two nodes are made equal, then both climb until they meet; a node is the list of
  directions from it to the root.\<close>

fun common_ancestor :: "bool list \<Rightarrow> bool list \<Rightarrow> bool list" where
  "common_ancestor (p # ps) (q # qs) = (if p # ps = q # qs then p # ps else common_ancestor ps qs)"
| "common_ancestor _ _ = []"

definition ISCommonSubtreeRoot :: "bool list \<Rightarrow> bool list \<Rightarrow> bool list" where
  "ISCommonSubtreeRoot first final =
     (let f = drop (length first - length final) first;
          l = drop (length final - length first) final
      in common_ancestor f l)"

fun dir_of :: "('k, 'v, 'm) frame \<Rightarrow> bool" where
  "dir_of (Frame d k v b m s) = d"

text \<open>Following directions down from a node.\<close>

fun follow :: "bool list \<Rightarrow> ('k, 'v, 'm) tree \<Rightarrow> ('k, 'v, 'm) frame list \<Rightarrow> ('k, 'v, 'm) loc" where
  "follow (d # ds) (Node l k v b m r) fs =
     (if d then follow ds r (Frame True k v b m l # fs) else follow ds l (Frame False k v b m r # fs))"
| "follow _ t fs = (fs, t)"

text \<open>One turn of the loop of \<open>eraseHalf\<close> at the node \<open>start\<close>: its subtree afterwards, the metric removed, the
  change in height and the subtrees to free.\<close>

definition erase_half_node ::
  "bool \<Rightarrow> bool \<Rightarrow> ('k, 'v, 'm::ab_group_add) tree \<Rightarrow> 'm \<Rightarrow> int \<Rightarrow> ('k, 'v, 'm) tree list \<Rightarrow>
    (('k, 'v, 'm) tree \<times> 'm \<times> int \<times> ('k, 'v, 'm) tree list) option" where
  "erase_half_node eraseDir fromDir start metricDelta heightDelta toFree =
     (let start = set_total (total start - metricDelta) start in
      if fromDir = eraseDir then
        (case ISRebalance start of
           None \<Rightarrow> None
         | Some (node, change) \<Rightarrow> Some (node, metricDelta, heightDelta + change, toFree))
      else
        let n = child fromDir start in
        Some (n, metricDelta + total start - total n,
              heightDelta + (-1 - max 0 (balance start * sgn_dir eraseDir)), toFree @ [set_child fromDir Leaf start]))"

fun eraseHalf ::
  "bool \<Rightarrow> bool \<Rightarrow> ('k, 'v, 'm::ab_group_add) tree \<Rightarrow> 'm \<Rightarrow> int \<Rightarrow> ('k, 'v, 'm) tree list \<Rightarrow> ('k, 'v, 'm) frame list \<Rightarrow>
    (('k, 'v, 'm) tree \<times> 'm \<times> int \<times> ('k, 'v, 'm) tree list) option" where
  "eraseHalf eraseDir fromDir start metricDelta heightDelta toFree [] = Some (start, metricDelta, heightDelta, toFree)"
| "eraseHalf eraseDir fromDir start metricDelta heightDelta toFree (Frame nextDir k v b m s # fs) =
     (case erase_half_node eraseDir fromDir start metricDelta heightDelta toFree of
        None \<Rightarrow> None
      | Some (node, metricDelta, heightDelta, toFree) \<Rightarrow>
          if heightDelta \<le> 0 then
            eraseHalf eraseDir nextDir (plug (Frame nextDir k v (b + heightDelta * sgn_dir nextDir) m s) node) metricDelta
              (- min (max (b * sgn_dir nextDir) 0) ((b - (b + heightDelta * sgn_dir nextDir)) * sgn_dir nextDir)) toFree fs
          else None)"

text \<open>The loop from \<open>subRoot\<close> to the root.\<close>

fun rebalance_up ::
  "('k, 'v, 'm::ab_group_add) tree \<Rightarrow> 'm \<Rightarrow> int \<Rightarrow> ('k, 'v, 'm) frame list \<Rightarrow> ('k, 'v, 'm) tree option" where
  "rebalance_up p metricDelta heightDelta [] =
     map_option fst (ISRebalance (set_total (total p - metricDelta) p))"
| "rebalance_up p metricDelta heightDelta (Frame d k v b m s # fs) =
     (case ISRebalance (set_total (total p - metricDelta) p) of
        None \<Rightarrow> None
      | Some (p, change) \<Rightarrow>
          let b' = b + (heightDelta + change) * sgn_dir d
          in rebalance_up (plug (Frame d k v b' m s) p) metricDelta
               (max (b' * sgn_dir d) 0 - max (b * sgn_dir d) 0) fs)"

text \<open>\<open>erase(begin, end, toFree)\<close> for two different iterators.  The two nodes are given by the directions from
  the root; \<open>subRoot\<close> is then found by its key.  The result is the tree, the subtrees in \<open>toFree\<close> and the nodes that
  the erasure of \<open>subRoot\<close> has freed.\<close>

definition erase_between ::
  "('k::linorder, 'v, 'm::ab_group_add) loc \<Rightarrow> ('k, 'v, 'm) loc \<Rightarrow> (('k, 'v, 'm) tree \<times> ('k, 'v, 'm) tree list \<times> 'k list) option" where
  "erase_between first final =
     (let pf = map dir_of (fst first); pl = map dir_of (fst final);
          depth = length (ISCommonSubtreeRoot pf pl);
          below = take (length pf - depth) (fst first);
          above = drop (length pf - depth) (fst first)
      in case eraseHalf True False (snd first) 0 0 [] below of
           None \<Rightarrow> None
         | Some (subRoot, leftMetric, leftHeightDelta, toFree) \<Rightarrow>
             (case follow (rev (take (length pl - depth) pl)) subRoot [] of (gs, t) \<Rightarrow>
                (case eraseHalf False True t 0 0 toFree gs of
                   None \<Rightarrow> None
                 | Some (subRoot, rightMetric, rightHeightDelta, toFree) \<Rightarrow>
                     (case subRoot of
                        Leaf \<Rightarrow> None
                      | Node l k v b m r \<Rightarrow>
                          (case rebalance_up subRoot (leftMetric + rightMetric) (leftHeightDelta + rightHeightDelta) above of
                             None \<Rightarrow> None
                           | Some root \<Rightarrow> (case is_erase root (is_find root k) of (root, deleted) \<Rightarrow> Some (root, toFree, deleted)))))))"

definition loc_key :: "('k, 'v, 'm) loc \<Rightarrow> 'k option" where
  "loc_key x = (case snd x of Leaf \<Rightarrow> None | Node l k v b m r \<Rightarrow> Some k)"

definition erase_range ::
  "('k::linorder, 'v, 'm::ab_group_add) tree \<Rightarrow> ('k, 'v, 'm) loc option \<Rightarrow> ('k, 'v, 'm) loc option \<Rightarrow>
    (('k, 'v, 'm) tree \<times> ('k, 'v, 'm) tree list \<times> 'k list) option" where
  "erase_range root begin_it end_it =
     (if (case end_it of None \<Rightarrow> True
          | Some e \<Rightarrow> (case begin_it of None \<Rightarrow> False | Some x \<Rightarrow> the (loc_key x) \<le> the (loc_key e)))
      then
        (if same_node begin_it end_it then Some (root, [], [])
         else
           case (begin_it, previous root end_it) of
             (Some first, Some final) \<Rightarrow> erase_between first final
           | _ \<Rightarrow> None)
      else None)"

definition erase_key_range ::
  "('k::linorder, 'v, 'm::ab_group_add) tree \<Rightarrow> 'k \<Rightarrow> 'k \<Rightarrow> (('k, 'v, 'm) tree \<times> ('k, 'v, 'm) tree list \<times> 'k list) option" where
  "erase_key_range root from to = erase_range root (lower_bound root from) (lower_bound root to)"

subsection \<open>Freeing the erased nodes\<close>

function prefetch :: "('k, 'v, 'm) tree list \<Rightarrow> ('k, 'v, 'm) tree list \<Rightarrow> ('k, 'v, 'm) tree list \<times> ('k, 'v, 'm) tree list" where
  "prefetch toFree queue =
     (if length queue < 10 \<and> toFree \<noteq> [] then prefetch (butlast toFree) (queue @ [last toFree]) else (toFree, queue))"
  by pat_completeness auto
termination by (relation "measure (\<lambda>(toFree, queue). length toFree)") auto

declare prefetch.simps [simp del]

definition push_child :: "('k, 'v, 'm) tree \<Rightarrow> ('k, 'v, 'm) tree list" where
  "push_child c = (if c = Leaf then [] else [c])"

definition ISFreeNodeImpl ::
  "('k, 'v, 'm) tree list \<Rightarrow> ('k, 'v, 'm) tree list \<Rightarrow> (('k, 'v, 'm) tree list \<times> ('k, 'v, 'm) tree list \<times> 'k list) option" where
  "ISFreeNodeImpl toFree queue =
     (if queue = [] \<and> toFree = [] then None
      else
        case prefetch toFree queue of (toFree, queue) \<Rightarrow>
          (let n = hd queue in
           Some (toFree @ push_child (child False n) @ push_child (child True n), tl queue,
                 delete_node (set_child True Leaf (set_child False Leaf n)))))"

subsection \<open>The self-check\<close>

text \<open>\<open>testonly_assertBalanced\<close>: the height and the total of the subtree, or \<open>None\<close> where its assertion fails.  The
  check of the parent pointers has no counterpart, since a location has no parent pointers of its own.\<close>

fun root_key :: "('k, 'v, 'm) tree \<Rightarrow> 'k option" where
  "root_key Leaf = None"
| "root_key (Node l k v b m r) = Some k"

fun testonly_assertBalanced :: "bool \<Rightarrow> ('k::linorder, 'v, int) tree \<Rightarrow> (int \<times> int) option" where
  "testonly_assertBalanced checkAVL Leaf = Some (0, 0)"
| "testonly_assertBalanced checkAVL (Node l k v b m r) =
     (case (testonly_assertBalanced checkAVL l, testonly_assertBalanced checkAVL r) of
        (Some (lh, lt), Some (rh, rt)) \<Rightarrow>
          if (case root_key l of None \<Rightarrow> True | Some k' \<Rightarrow> k' < k) \<and> (case root_key r of None \<Rightarrow> True | Some k' \<Rightarrow> k < k') \<and>
             b = rh - lh \<and> (checkAVL \<longrightarrow> \<not> (b < -1 \<or> b > 1)) \<and> m = lt + rt + 3
          then Some (max lh rh + 1, m) else None
      | _ \<Rightarrow> None)"

subsection \<open>Maps\<close>

definition Map_at :: "'k::linorder \<Rightarrow> 'v \<Rightarrow> 'm::ab_group_add \<Rightarrow> ('k, 'v, 'm) tree \<Rightarrow> ('k, 'v, 'm) tree" where
  "Map_at key fresh one root = is_insert key fresh one False root"

definition Map_size :: "('k, 'v, 'm::ab_group_add) tree \<Rightarrow> 'm" where
  "Map_size root = sumTo root None"

end
