(* ===== verification/IndexedSet_Inv.thy ===== *)
theory IndexedSet_Inv
  imports IndexedSet
begin

text \<open>
  The invariants of \<open>IndexedSet\<close> (heights, balances, order) and the sequence of elements with their metrics
  that a tree stands for; insertion and the erasure of a node in these terms.

  The metric of a node is its total less those of its children, as \<open>getMetric\<close> computes it, so that the sequence
  \<open>items\<close> is defined for every tree and the totals need no invariant of their own.
\<close>

subsection \<open>Height, balance, elements\<close>

fun height :: "('k, 'v, 'm) tree \<Rightarrow> int" where
  "height Leaf = 0"
| "height (Node l k v b m r) = 1 + max (height l) (height r)"

fun avl :: "('k, 'v, 'm) tree \<Rightarrow> bool" where
  "avl Leaf = True"
| "avl (Node l k v b m r) \<longleftrightarrow> avl l \<and> avl r \<and> b = height r - height l \<and> -1 \<le> b \<and> b \<le> 1"

fun items :: "('k, 'v, 'm::ab_group_add) tree \<Rightarrow> ('k \<times> 'v \<times> 'm) list" where
  "items Leaf = []"
| "items (Node l k v b m r) = items l @ (k, v, m - total l - total r) # items r"

definition keys :: "('k \<times> 'v \<times> 'm) list \<Rightarrow> 'k list" where
  "keys xs = map fst xs"

definition metric_sum :: "('k \<times> 'v \<times> 'm::ab_group_add) list \<Rightarrow> 'm" where
  "metric_sum xs = sum_list (map (\<lambda>x. snd (snd x)) xs)"

lemma keys_simps [simp]: "keys [] = []" "keys (x # xs) = fst x # keys xs" "keys (xs @ ys) = keys xs @ keys ys"
  by (simp_all add: keys_def)

lemma metric_sum_simps [simp]:
  "metric_sum [] = 0" "metric_sum (x # xs) = snd (snd x) + metric_sum xs"
  "metric_sum (xs @ ys) = metric_sum xs + metric_sum ys"
  by (simp_all add: metric_sum_def)

definition indexed_set :: "('k::linorder, 'v, 'm::ab_group_add) tree \<Rightarrow> bool" where
  "indexed_set t \<longleftrightarrow> avl t \<and> sorted_wrt (<) (keys (items t))"

lemma height_nonneg [simp]: "0 \<le> height t"
  by (induction t) auto

lemma height_pos_iff [simp]: "0 < height t \<longleftrightarrow> t \<noteq> Leaf"
proof (cases t)
  case (Node l k v b m r)
  then show ?thesis by (simp add: add_pos_nonneg le_max_iff_disj)
qed simp

lemma height_zero_iff [simp]: "height t = 0 \<longleftrightarrow> t = Leaf" "height t \<le> 0 \<longleftrightarrow> t = Leaf"
  using height_pos_iff [of t] height_nonneg [of t] by linarith+

lemma height_plus [simp]: "height t + numeral n \<noteq> 0" "height t + 1 \<noteq> 0" "1 + height t \<noteq> 0"
  "numeral n + height t \<noteq> 0" "height t \<noteq> -1" "height t \<noteq> - numeral n"
  "\<not> height t < -1" "\<not> height t < - numeral n"
  using height_nonneg [of t] zero_less_numeral [of n, where 'a = int] by linarith+

lemma total_items: "metric_sum (items t) = total t"
  by (induction t) (auto simp: algebra_simps)

lemma items_Leaf_iff [simp]: "items t = [] \<longleftrightarrow> t = Leaf"
  by (cases t) auto

lemma set_field_simps [simp]:
  "items (set_balance b t) = items t" "total (set_balance b t) = total t"
  "height (set_balance b t) = height t" "height (set_total m t) = height t"
  "balance (set_total m t) = balance t" "child d (set_total m t) = child d t" "child d (set_balance b t) = child d t"
  by (cases t; simp)+

lemma sgn_dir_simps [simp]: "sgn_dir True = 1" "sgn_dir False = -1"
  by (simp_all add: sgn_dir_def)

subsection \<open>Rotations\<close>

lemma ISRotate_simps [simp]:
  "ISRotate (Node l k v b m (Node rl k' v' b' m' rr)) False =
     Node (Node l k v b (m - m' + total rl) rl) k' v' b' m rr"
  "ISRotate (Node (Node ll k' v' b' m' lr) k v b m r) True =
     Node ll k' v' b' m (Node lr k v b (m - m' + total lr) r)"
  by (simp_all add: ISRotate_def)

text \<open>The shape of a node whose child \<open>d\<close> is two levels higher than the other.\<close>

definition too_high :: "bool \<Rightarrow> ('k, 'v, 'm) tree \<Rightarrow> bool" where
  "too_high d t \<longleftrightarrow> avl (child False t) \<and> avl (child True t) \<and> balance t = 2 * sgn_dir d \<and>
     height (child d t) = height (child (\<not> d) t) + 2"

lemma insert_rotate_ok:
  assumes "too_high d t" and "balance (child d t) \<noteq> 0"
  shows "avl (insert_rotate d t) \<and> height (insert_rotate d t) = height t - 1 \<and>
     items (insert_rotate d t) = items t \<and> total (insert_rotate d t) = total t"
proof (cases d)
  case True
  obtain l k v b m r where t: "t = Node l k v b m r" using assms by (cases t) (auto simp: too_high_def)
  obtain rl k' v' b' m' rr where r: "r = Node rl k' v' b' m' rr"
    using assms True t by (cases r) (auto simp: too_high_def)
  show ?thesis
  proof (cases "b' = 1")
    case True
    then show ?thesis
      using assms \<open>d\<close> t r by (auto simp: too_high_def insert_rotate_def algebra_simps)
  next
    case False
    obtain a c x y z w where rl: "rl = Node a c x y z w"
      using assms \<open>d\<close> t r False by (cases rl) (auto simp: too_high_def)
    then show ?thesis
      using assms \<open>d\<close> t r False
      by (auto simp: too_high_def insert_rotate_def ISAdjustBalance_def Let_def algebra_simps max_def split: if_splits)
  qed
next
  case False
  obtain l k v b m r where t: "t = Node l k v b m r" using assms by (cases t) (auto simp: too_high_def)
  obtain ll k' v' b' m' lr where l: "l = Node ll k' v' b' m' lr"
    using assms False t by (cases l) (auto simp: too_high_def)
  show ?thesis
  proof (cases "b' = -1")
    case True
    then show ?thesis
      using assms \<open>\<not> d\<close> t l by (auto simp: too_high_def insert_rotate_def algebra_simps)
  next
    case False
    obtain a c x y z w where lr: "lr = Node a c x y z w"
      using assms \<open>\<not> d\<close> t l False by (cases lr) (auto simp: too_high_def)
    then show ?thesis
      using assms \<open>\<not> d\<close> t l False
      by (auto simp: too_high_def insert_rotate_def ISAdjustBalance_def Let_def algebra_simps max_def split: if_splits)
  qed
qed

text \<open>Erasing may also meet a balanced sibling; the subtree is then as high as before.\<close>

lemma erase_rotate_ok:
  assumes "too_high (\<not> d) t" and "erase_rotate d t = (t', lower)"
  shows "avl t' \<and> height t' = height t - (if lower then 1 else 0) \<and> items t' = items t \<and> total t' = total t"
proof (cases d)
  case True
  obtain l k v b m r where t: "t = Node l k v b m r" using assms(1) by (cases t) (auto simp: too_high_def)
  obtain ll k' v' b' m' lr where l: "l = Node ll k' v' b' m' lr"
    using assms(1) True t by (cases l) (auto simp: too_high_def)
  show ?thesis
  proof (cases "b' = 1")
    case double: True
    obtain a c x y z w where lr: "lr = Node a c x y z w"
      using assms(1) \<open>d\<close> t l double by (cases lr) (auto simp: too_high_def)
    then show ?thesis
      using assms \<open>d\<close> t l double
      by (auto simp: too_high_def erase_rotate_def ISAdjustBalance_def Let_def algebra_simps max_def split: if_splits)
  next
    case False
    then show ?thesis
      using assms \<open>d\<close> t l by (auto simp: too_high_def erase_rotate_def Let_def algebra_simps max_def split: if_splits)
  qed
next
  case False
  obtain l k v b m r where t: "t = Node l k v b m r" using assms(1) by (cases t) (auto simp: too_high_def)
  obtain rl k' v' b' m' rr where r: "r = Node rl k' v' b' m' rr"
    using assms(1) False t by (cases r) (auto simp: too_high_def)
  show ?thesis
  proof (cases "b' = -1")
    case double: True
    obtain a c x y z w where rl: "rl = Node a c x y z w"
      using assms(1) \<open>\<not> d\<close> t r double by (cases rl) (auto simp: too_high_def)
    then show ?thesis
      using assms \<open>\<not> d\<close> t r double
      by (auto simp: too_high_def erase_rotate_def ISAdjustBalance_def Let_def algebra_simps max_def split: if_splits)
  next
    case False
    then show ?thesis
      using assms \<open>\<not> d\<close> t r by (auto simp: too_high_def erase_rotate_def Let_def algebra_simps max_def split: if_splits)
  qed
qed

subsection \<open>Frames\<close>

text \<open>The frames around a subtree of height \<open>h\<close> in an AVL tree.\<close>

fun frames_ok :: "int \<Rightarrow> ('k, 'v, 'm) frame list \<Rightarrow> bool" where
  "frames_ok h [] = True"
| "frames_ok h (Frame d k v b m s # fs) \<longleftrightarrow>
     avl s \<and> b = sgn_dir d * (h - height s) \<and> -1 \<le> b \<and> b \<le> 1 \<and> frames_ok (1 + max h (height s)) fs"

lemma avl_close: "avl (close t fs) \<longleftrightarrow> avl t \<and> frames_ok (height t) fs"
proof (induction fs arbitrary: t)
  case (Cons f fs)
  then show ?case by (cases f) (auto simp: max.commute)
qed simp

text \<open>The elements before and after a subtree whose total is \<open>tc\<close>.\<close>

fun before :: "'m::ab_group_add \<Rightarrow> ('k, 'v, 'm) frame list \<Rightarrow> ('k \<times> 'v \<times> 'm) list" where
  "before tc [] = []"
| "before tc (Frame d k v b m s # fs) = before m fs @ (if d then items s @ [(k, v, m - total s - tc)] else [])"

fun after :: "'m::ab_group_add \<Rightarrow> ('k, 'v, 'm) frame list \<Rightarrow> ('k \<times> 'v \<times> 'm) list" where
  "after tc [] = []"
| "after tc (Frame d k v b m s # fs) = (if d then [] else (k, v, m - tc - total s) # items s) @ after m fs"

lemma items_close: "items (close t fs) = before (total t) fs @ items t @ after (total t) fs"
proof (induction fs arbitrary: t)
  case (Cons f fs)
  then show ?case by (cases f) simp
qed simp

lemma before_add_total: "before (tc + delta) (map (add_total delta) fs) = before tc fs"
proof (induction fs arbitrary: tc)
  case (Cons f fs)
  then show ?case by (cases f) simp
qed simp

lemma after_add_total: "after (tc + delta) (map (add_total delta) fs) = after tc fs"
proof (induction fs arbitrary: tc)
  case (Cons f fs)
  then show ?case by (cases f) simp
qed simp

lemma items_close_add:
  "total c = tc + delta \<Longrightarrow> items (close c (map (add_total delta) fs)) = before tc fs @ items c @ after tc fs"
  by (simp add: items_close before_add_total after_add_total)

lemma frames_ok_add_total [simp]: "frames_ok h (map (add_total delta) fs) = frames_ok h fs"
proof (induction fs arbitrary: h)
  case (Cons f fs)
  then show ?case by (cases f) simp
qed simp

subsection \<open>Insertion keeps the invariant\<close>

lemma insert_up_ok:
  assumes "avl c" and "height c = h + 1" and "frames_ok h fs" and "balance c \<noteq> 0 \<or> h = 0" and "0 \<le> h"
    and "total c = tc + delta"
  shows "avl (insert_up delta c fs) \<and> items (insert_up delta c fs) = before tc fs @ items c @ after tc fs"
  using assms
proof (induction fs arbitrary: c h tc)
  case (Cons f fs)
  obtain d k v b m s where f: "f = Frame d k v b m s" by (cases f)
  let ?b = "b + sgn_dir d"
  let ?t = "plug (Frame d k v ?b (m + delta) s) c"
  have b: "b = sgn_dir d * (h - height s)" and s: "avl s" and fs: "frames_ok (1 + max h (height s)) fs"
    using Cons.prems(3) f by auto
  have "-1 \<le> b" "b \<le> 1" using Cons.prems(3) f by auto
  then have range: "b = -1 \<or> b = 0 \<or> b = 1" by presburger
  have t: "items ?t = (if d then items s @ (k, v, m - total s - tc) # items c else items c @ (k, v, m - tc - total s) # items s)"
    "total ?t = m + delta" "height ?t = 1 + max (h + 1) (height s)"
    using Cons.prems(2,6) by (auto simp: algebra_simps max.commute)
  have done_ok: "items (close u (map (add_total delta) fs)) = before tc (f # fs) @ items c @ after tc (f # fs)"
    if "items u = items ?t" "total u = m + delta" for u
    using items_close_add [of u m delta fs] that t f by (cases d) auto
  consider "?b = 0" | "?b = 2 * sgn_dir d" | "?b = sgn_dir d" "b = 0"
    using range by (cases d) auto
  then show ?case
  proof cases
    case 1
    then have "avl ?t" "height ?t = 1 + max h (height s)"
      using s b Cons.prems(1,2) t(3) by (cases d; simp)+
    then show ?thesis
      using 1 done_ok [of ?t] fs t(2) by (simp add: f avl_close)
  next
    case 2
    then have high: "too_high d ?t" using s b Cons.prems(1,2) by (cases d) (auto simp: too_high_def)
    have "h \<noteq> 0" using 2 b height_nonneg [of s] by (cases d) auto
    then have "balance (child d ?t) \<noteq> 0" using Cons.prems(4) by (cases d) auto
    from insert_rotate_ok [OF high this] have
      "avl (insert_rotate d ?t)" "items (insert_rotate d ?t) = items ?t" "total (insert_rotate d ?t) = m + delta"
      "height (insert_rotate d ?t) = 1 + max h (height s)"
      using t(2,3) 2 b by (cases d; simp)+
    then show ?thesis
      using 2 done_ok [of "insert_rotate d ?t"] fs by (cases d) (simp_all add: f avl_close)
  next
    case 3
    then have "insert_up delta c (f # fs) = insert_up delta ?t fs" by (cases d) (simp_all add: f)
    moreover have "avl ?t" "height ?t = (1 + max h (height s)) + 1" "balance ?t \<noteq> 0"
      using 3 s b Cons.prems(1,2) t(3) by (cases d; simp)+
    ultimately show ?thesis
      using Cons.IH [of ?t "1 + max h (height s)" m] fs t f Cons.prems(5) by (cases d) (auto simp: max_def)
  qed
qed simp

subsection \<open>Removal keeps the invariant\<close>

lemma erase_up_ok:
  assumes "avl c" and "frames_ok (height c + 1) fs"
  shows "avl (erase_up c fs) \<and> items (erase_up c fs) = before (total c) fs @ items c @ after (total c) fs"
  using assms
proof (induction fs arbitrary: c)
  case (Cons f fs)
  obtain d k v b m s where f: "f = Frame d k v b m s" by (cases f)
  let ?b = "b - sgn_dir d"
  let ?t = "plug (Frame d k v ?b m s) c"
  let ?h = "height c + 1"
  have b: "b = sgn_dir d * (?h - height s)" and s: "avl s" and fs: "frames_ok (1 + max ?h (height s)) fs"
    using Cons.prems(2) f by auto
  have "-1 \<le> b" "b \<le> 1" using Cons.prems(2) f by auto
  then have range: "b = -1 \<or> b = 0 \<or> b = 1" by presburger
  have t: "items ?t = (if d then items s @ (k, v, m - total s - total c) # items c else items c @ (k, v, m - total c - total s) # items s)"
    "total ?t = m" "height ?t = 1 + max (height c) (height s)"
    by (auto simp: algebra_simps max.commute)
  have done_ok: "before (total u) fs @ items u @ after (total u) fs = before (total c) (f # fs) @ items c @ after (total c) (f # fs)"
    if "items u = items ?t" "total u = m" for u
    using that t f by (cases d) auto
  consider "?b = - 2 * sgn_dir d" | "?b = - sgn_dir d" "b = 0" | "?b = 0"
    using range by (cases d) auto
  then show ?case
  proof cases
    case 1
    then have high: "too_high (\<not> d) ?t" using s b Cons.prems(1) by (cases d) (auto simp: too_high_def)
    obtain t' lower where rot: "erase_rotate d ?t = (t', lower)" by (cases "erase_rotate d ?t")
    from erase_rotate_ok [OF high rot] have t': "avl t'" "items t' = items ?t" "total t' = m"
      "height t' = 1 + max ?h (height s) - (if lower then 1 else 0)"
      using t(2,3) 1 b by (cases d; simp)+
    have step: "erase_up c (f # fs) = (if lower then erase_up t' fs else close t' fs)"
      using 1 rot by (cases d) (simp_all add: f Let_def)
    show ?thesis
    proof (cases lower)
      case True
      then show ?thesis
        using Cons.IH [OF t'(1)] fs t'(4) done_ok [OF t'(2,3)] by (simp add: step add.commute)
    next
      case False
      then show ?thesis
        using fs t'(1,4) done_ok [OF t'(2,3)] by (simp add: step avl_close items_close)
    qed
  next
    case 2
    then have "erase_up c (f # fs) = close ?t fs" by (cases d) (simp_all add: f Let_def)
    moreover have "avl ?t" "height ?t = 1 + max ?h (height s)"
      using 2 s b Cons.prems(1) t(3) by (cases d; simp)+
    ultimately show ?thesis
      using fs done_ok [of ?t] t(2) by (simp add: avl_close items_close del: plug.simps)
  next
    case 3
    then have "erase_up c (f # fs) = erase_up ?t fs" by (cases d) (simp_all add: f Let_def)
    moreover have "avl ?t" "height ?t + 1 = 1 + max ?h (height s)"
      using 3 s b Cons.prems(1) t(3) by (cases d; simp)+
    ultimately show ?thesis
      using Cons.IH [of ?t] fs done_ok [of ?t] t(2) by (simp add: add.commute del: plug.simps)
  qed
qed simp

subsection \<open>Appended frames\<close>

fun out_height :: "int \<Rightarrow> ('k, 'v, 'm) frame list \<Rightarrow> int" where
  "out_height h [] = h"
| "out_height h (Frame d k v b m s # fs) = out_height (1 + max h (height s)) fs"

fun out_total :: "'m \<Rightarrow> ('k, 'v, 'm) frame list \<Rightarrow> 'm" where
  "out_total tc [] = tc"
| "out_total tc (Frame d k v b m s # fs) = out_total m fs"

lemma close_append: "close t (fs @ gs) = close (close t fs) gs"
  by (induction fs arbitrary: t) auto

lemma height_close: "height (close t fs) = out_height (height t) fs"
proof (induction fs arbitrary: t)
  case (Cons f fs)
  then show ?case by (cases f) (auto simp: max.commute)
qed simp

lemma total_close: "total (close t fs) = out_total (total t) fs"
proof (induction fs arbitrary: t)
  case (Cons f fs)
  then show ?case by (cases f) auto
qed simp

lemma frames_ok_append: "frames_ok h (fs @ gs) \<longleftrightarrow> frames_ok h fs \<and> frames_ok (out_height h fs) gs"
proof (induction fs arbitrary: h)
  case (Cons f fs)
  then show ?case by (cases f) auto
qed simp

lemma before_append: "before tc (fs @ gs) = before (out_total tc fs) gs @ before tc fs"
proof (induction fs arbitrary: tc)
  case (Cons f fs)
  then show ?case by (cases f) auto
qed simp

lemma after_append: "after tc (fs @ gs) = after tc fs @ after (out_total tc fs) gs"
proof (induction fs arbitrary: tc)
  case (Cons f fs)
  then show ?case by (cases f) auto
qed simp

lemma out_height_add_total [simp]: "out_height h (map (add_total delta) fs) = out_height h fs"
proof (induction fs arbitrary: h)
  case (Cons f fs)
  then show ?case by (cases f) simp
qed simp

subsection \<open>Erasing a node\<close>

lemma outermost_ok:
  "outermost d t fs = Some (gs, u) \<Longrightarrow> close u gs = close t fs \<and> u \<noteq> Leaf \<and> child d u = Leaf \<and>
     (\<exists>hs. gs = hs @ fs \<and> (\<forall>f\<in>set hs. dir_of f = d))"
proof (induction d t fs rule: outermost.induct)
  case (2 d l k v b m r fs)
  have "(\<exists>hs'. hs @ f # fs = hs' @ fs \<and> (\<forall>f\<in>set hs'. dir_of f = d))"
    if "\<forall>f\<in>set hs. dir_of f = d" "dir_of f = d" for hs and f :: "('a, 'b, 'c) frame"
    using that by (intro exI [of _ "hs @ [f]"]) auto
  then show ?case
    using 2 by (auto split: if_splits)
qed simp

lemma outermost_None: "outermost d t fs = None \<longleftrightarrow> t = Leaf"
  by (induction d t fs rule: outermost.induct) auto

lemma after_all_right: "\<forall>f\<in>set fs. dir_of f \<Longrightarrow> after tc fs = []"
proof (induction fs arbitrary: tc)
  case (Cons f fs)
  then show ?case by (cases f) auto
qed simp

lemma before_all_left: "\<forall>f\<in>set fs. \<not> dir_of f \<Longrightarrow> before tc fs = []"
proof (induction fs arbitrary: tc)
  case (Cons f fs)
  then show ?case by (cases f) auto
qed simp

lemma erase_node_ok:
  assumes "avl (close (Node l k v b m r) fs)"
  shows "avl (fst (erase_node (fs, Node l k v b m r))) \<and>
     items (fst (erase_node (fs, Node l k v b m r))) = before m fs @ items l @ items r @ after m fs \<and>
     snd (erase_node (fs, Node l k v b m r)) = [k]"
proof -
  let ?t = "Node l k v b m r" and ?d = "- (m - total l - total r)"
  let ?fs = "map (add_total ?d) fs"
  have t: "avl ?t" and fs: "frames_ok (height ?t) fs" using assms by (simp_all only: avl_close)
  show ?thesis
  proof (cases "l = Leaf \<or> r = Leaf")
    case True
    let ?c = "if l = Leaf then r else l"
    have c: "avl ?c" "height ?c + 1 = height ?t" "total ?c = m + ?d" "items ?c = items l @ items r"
      using t True by (auto simp: max_def)
    have "erase_node (fs, ?t) = (erase_up ?c ?fs, [k])" using True by (auto simp: erase_node_def Let_def)
    moreover have "frames_ok (height ?c + 1) ?fs" unfolding c(2) using fs by (simp only: frames_ok_add_total)
    ultimately show ?thesis
      using erase_up_ok [of ?c ?fs] c(1,3,4) by (simp only: fst_conv snd_conv before_add_total after_add_total append_assoc simp_thms)
  next
    case False
    then obtain gs u where out: "outermost True l [] = Some (gs, u)" using outermost_None [of True l "[]"] by auto
    from outermost_ok [OF out] have l: "close u gs = l" and u: "u \<noteq> Leaf" "child True u = Leaf"
      and right: "\<forall>f\<in>set gs. dir_of f" by auto
    then obtain pl pk pv pb pm where up: "u = Node pl pk pv pb pm Leaf" by (cases u) auto
    let ?p = "- (pm - total pl)"
    let ?gs = "map (add_total ?p) gs"
    have "avl u" and gs: "frames_ok (height u) gs" using t l by (auto simp: avl_close)
    then have pl: "avl pl" "height u = height pl + 1" using up by auto
    define T where "T = Frame False pk pv b (pm - total pl + total (close pl ?gs) + total r) r"
    have step: "erase_node (fs, ?t) = (erase_up pl (?gs @ T # ?fs), [k])"
      using False out up by (simp add: erase_node_def Let_def T_def)
    have "out_height (height pl + 1) gs = height l" using height_close [of u gs] l pl(2) by simp
    moreover have "frames_ok (height l) (T # ?fs)" using t fs by (simp add: T_def max.commute)
    ultimately have "frames_ok (height pl + 1) (?gs @ T # ?fs)"
      using gs pl(2) by (simp only: frames_ok_append frames_ok_add_total out_height_add_total)
    note result = erase_up_ok [OF pl(1) this]
    have inner: "before (total pl) ?gs = before pm gs" "after (total pl) ?gs = []"
      using before_add_total [of pm ?p gs] after_add_total [of pm ?p gs] after_all_right [OF right, of pm] by simp_all
    have il: "items l = before pm gs @ items pl @ [(pk, pv, pm - total pl)]"
      using items_close [of u gs] l up after_all_right [OF right] by simp
    have left: "total (close pl ?gs) + (pm - total pl) = total l"
    proof -
      have "total (close pl ?gs) = metric_sum (before pm gs @ items pl)"
        using items_close [of pl ?gs] inner total_items [of "close pl ?gs"] by simp
      moreover have "total l = metric_sum (before pm gs @ items pl) + (pm - total pl)"
        using total_items [of l] unfolding il by (simp add: algebra_simps)
      ultimately show ?thesis by simp
    qed
    have tT: "pm - total pl + total (close pl ?gs) + total r = m + ?d"
    proof -
      have "pm - total pl + total (close pl ?gs) = total l" using left by (simp add: add.commute)
      then show ?thesis by (simp add: algebra_simps)
    qed
    have last: "total l - out_total (total pl) ?gs = pm - total pl"
      using left total_close [of pl ?gs] by (simp add: algebra_simps)
    have outer: "before (out_total (total pl) ?gs) (T # ?fs) = before m fs"
      "after (out_total (total pl) ?gs) (T # ?fs) = (pk, pv, pm - total pl) # items r @ after m fs"
      using total_close [of pl ?gs] before_add_total [of m ?d fs] after_add_total [of m ?d fs]
      last
      unfolding T_def tT by (simp_all add: tT [symmetric])
    show ?thesis
      using result by (simp only: step fst_conv snd_conv before_append after_append inner outer il append_assoc append_Cons append_Nil simp_thms)
  qed
qed

end
