(* ===== verification/IndexedSet_Rebalance.thy ===== *)
theory IndexedSet_Rebalance
  imports IndexedSet_Inv
begin

text \<open>
  \<open>ISRebalance\<close>: given a node of any balance whose children are AVL trees, it ends, its assertion holds, and it
  returns an AVL tree with the same elements together with the change in height, which is 0 or -1.  The change in
  balance after the recursion on the lower subtree is the heart of it: a second rebalancing of the root is
  only needed after a double rotation, and then the root is off by exactly two with a balanced higher child.
\<close>

definition semi :: "('k, 'v, 'm) tree \<Rightarrow> bool" where
  "semi t \<longleftrightarrow> avl (child False t) \<and> avl (child True t) \<and> balance t = height (child True t) - height (child False t)"

lemma semi_avl: "semi t \<Longrightarrow> -1 \<le> balance t \<Longrightarrow> balance t \<le> 1 \<Longrightarrow> avl t"
  by (cases t) (auto simp: semi_def)

lemma avl_semi: "avl t \<Longrightarrow> semi t"
  by (cases t) (auto simp: semi_def)

lemma semi_set_total [simp]: "semi (set_total m t) = semi t"
  by (cases t) (simp_all add: semi_def)

lemma height_child: "t \<noteq> Leaf \<Longrightarrow> height t = 1 + max (height (child d t)) (height (child (\<not> d) t))"
  by (cases t) (auto simp: max.commute)

lemma items_set_child:
  "items c = items (child d t) \<Longrightarrow> total c = total (child d t) \<Longrightarrow> items (set_child d c t) = items t"
  by (cases t) auto

lemma set_child_simps [simp]:
  "total (set_child d c t) = total t" "balance (set_child d c t) = balance t"
  "child d (set_child d c t) = (if t = Leaf then Leaf else c)"
  "child (\<not> d) (set_child d c t) = child (\<not> d) t" "set_child d c t = Leaf \<longleftrightarrow> t = Leaf"
  "set_balance b t = Leaf \<longleftrightarrow> t = Leaf" "balance (set_balance b t) = (if t = Leaf then 0 else b)"
  by (cases t; simp)+

text \<open>A single rotation: \<open>A\<close> and \<open>D\<close> are the children of the higher child, \<open>G\<close> is the lower child.\<close>

lemma rotations_single:
  assumes "semi t" and "balance t < -1 \<or> balance t > 1" and "d = (balance t < 0)"
    and "balance (child (\<not> d) t) \<noteq> sgn_dir d"
  defines "A \<equiv> child (\<not> d) (child (\<not> d) t)" and "D \<equiv> child d (child (\<not> d) t)" and "G \<equiv> child d t"
  shows "\<exists>r. rebalance_rotations t = (r, height D - height A, False) \<and> r \<noteq> Leaf \<and> child (\<not> d) r = A \<and>
     child d r \<noteq> Leaf \<and> semi (child d r) \<and> child (\<not> d) (child d r) = D \<and> child d (child d r) = G \<and>
     balance r * sgn_dir d = height (child d r) - height A \<and> items r = items t \<and> total r = total t \<and>
     avl A \<and> avl D \<and> height D \<le> height A \<and> height A \<le> height D + 1 \<and> height G + 1 \<le> height A \<and>
     height t = height A + 2 \<and> size (child d r) < size t"
proof (cases d)
  case True
  obtain l k v b m g where t: "t = Node l k v b m g" using assms(1,2) by (cases t) (auto simp: semi_def)
  obtain a k' v' b' m' c where l: "l = Node a k' v' b' m' c"
    using assms(1,2,3) True t by (cases l) (auto simp: semi_def)
  show ?thesis
    using assms True t l
    by (auto simp: rebalance_rotations_def semi_def A_def D_def G_def Let_def algebra_simps max_def min_def split: if_splits)
next
  case False
  obtain g k v b m r where t: "t = Node g k v b m r" using assms(1,2) by (cases t) (auto simp: semi_def)
  obtain c k' v' b' m' a where r: "r = Node c k' v' b' m' a"
    using assms(1,2,3) False t by (cases r) (auto simp: semi_def)
  show ?thesis
    using assms False t r
    by (auto simp: rebalance_rotations_def semi_def A_def D_def G_def Let_def algebra_simps max_def min_def split: if_splits)
qed

text \<open>A double rotation: \<open>E\<close> is the child of \<open>D\<close> that goes to the lower side, and \<open>A\<close> gives the height of the rest.\<close>

lemma rotations_double:
  assumes "semi t" and "balance t < -1 \<or> balance t > 1" and "d = (balance t < 0)"
    and "balance (child (\<not> d) t) = sgn_dir d"
  defines "A \<equiv> child (\<not> d) (child (\<not> d) t)" and "E \<equiv> child d (child d (child (\<not> d) t))" and "G \<equiv> child d t"
  shows "\<exists>r nBal. rebalance_rotations t = (r, nBal, True) \<and> r \<noteq> Leaf \<and> avl (child (\<not> d) r) \<and>
     height (child (\<not> d) r) = height A + 1 \<and>
     child d r \<noteq> Leaf \<and> semi (child d r) \<and> child (\<not> d) (child d r) = E \<and> child d (child d r) = G \<and>
     balance r * sgn_dir d = height (child d r) - (height A + 1) \<and> items r = items t \<and> total r = total t \<and>
     avl E \<and> height E \<le> height A \<and> height A \<le> height E + 1 \<and> height G \<le> height A \<and>
     (height E < height A \<longrightarrow> balance (child (\<not> d) r) = 0) \<and>
     height t = height A + 3 \<and> size (child d r) < size t"
proof (cases d)
  case True
  obtain l k v b m g where t: "t = Node l k v b m g" using assms(1,2) by (cases t) (auto simp: semi_def)
  obtain a k' v' b' m' dd where l: "l = Node a k' v' b' m' dd"
    using assms(1,2,3) True t by (cases l) (auto simp: semi_def)
  obtain c k'' v'' b'' m'' e where dd: "dd = Node c k'' v'' b'' m'' e"
    using assms(1,4) True t l by (cases dd) (auto simp: semi_def)
  show ?thesis
    using assms True t l dd
    by (auto simp: rebalance_rotations_def semi_def A_def E_def G_def Let_def algebra_simps max_def min_def split: if_splits)
next
  case False
  obtain g k v b m r where t: "t = Node g k v b m r" using assms(1,2) by (cases t) (auto simp: semi_def)
  obtain dd k' v' b' m' a where r: "r = Node dd k' v' b' m' a"
    using assms(1,2,3) False t by (cases r) (auto simp: semi_def)
  obtain e k'' v'' b'' m'' c where dd: "dd = Node e k'' v'' b'' m'' c"
    using assms(1,4) False t r by (cases dd) (auto simp: semi_def)
  show ?thesis
    using assms False t r dd
    by (auto simp: rebalance_rotations_def semi_def A_def E_def G_def Let_def algebra_simps max_def min_def split: if_splits)
qed

lemma ISRebalance_balanced:
  "-1 \<le> balance t \<Longrightarrow> balance t \<le> 1 \<Longrightarrow> ISRebalance t = Some (t, 0)"
  by (subst ISRebalance.simps) simp

definition rebalanced :: "('k, 'v, 'm::ab_group_add) tree \<Rightarrow> ('k, 'v, 'm) tree \<Rightarrow> int \<Rightarrow> bool" where
  "rebalanced t t' c \<longleftrightarrow> avl t' \<and> items t' = items t \<and> total t' = total t \<and> height t' = height t + c"

text \<open>Replacing the lower subtree by its rebalanced form.\<close>

definition relink :: "bool \<Rightarrow> ('k, 'v, 'm) tree \<Rightarrow> int \<Rightarrow> ('k, 'v, 'm) tree \<Rightarrow> ('k, 'v, 'm) tree" where
  "relink d c hc r = set_balance (balance r + hc * sgn_dir d) (set_child d c r)"

lemma relink_ok:
  assumes "r \<noteq> Leaf" and "rebalanced (child d r) c hc" and "avl (child (\<not> d) r)"
    and "balance r * sgn_dir d = height (child d r) - height (child (\<not> d) r)"
  shows "semi (relink d c hc r) \<and> items (relink d c hc r) = items r \<and> total (relink d c hc r) = total r \<and>
     balance (relink d c hc r) * sgn_dir d = height c - height (child (\<not> d) r) \<and>
     height (relink d c hc r) = 1 + max (height c) (height (child (\<not> d) r)) \<and>
     child (\<not> d) (relink d c hc r) = child (\<not> d) r \<and> child d (relink d c hc r) = c \<and> relink d c hc r \<noteq> Leaf"
proof -
  have "items (set_child d c r) = items r"
    using assms(2) by (intro items_set_child) (simp_all add: rebalanced_def)
  then show ?thesis
    using assms by (cases r; cases d) (auto simp: relink_def semi_def rebalanced_def algebra_simps max.commute)
qed

lemma ISRebalance_unfold:
  assumes "balance t < -1 \<or> balance t > 1" and "d = (balance t < 0)" and "rebalance_rotations t = (r, nBal, dbl)"
    and "ISRebalance (child d r) = Some (c, hc)"
  shows "ISRebalance t =
     (let q = relink d c hc r; h = (if dbl then -1 else max (nBal + hc) (-1)) in
      if balance q < -1 \<or> balance q > 1 then
        (if \<bar>balance q\<bar> < \<bar>balance t\<bar> then Option.bind (ISRebalance q) (\<lambda>(q, c). Some (q, h + c)) else None)
      else Some (q, h))"
proof -
  have "\<not> (t = Leaf \<or> balance t \<ge> -1 \<and> balance t \<le> 1)" using assms(1) by auto
  then show ?thesis
    by (subst ISRebalance.simps)
      (simp only: if_False Let_def assms(2) [symmetric] assms(3,4) prod.case Option.bind.simps relink_def)
qed

text \<open>A root off by exactly two with a balanced higher child.\<close>

lemma ISRebalance_two:
  assumes "semi t" and "balance t = - 2 * sgn_dir d" and "balance (child (\<not> d) t) = 0"
  shows "\<exists>t'. ISRebalance t = Some (t', 0) \<and> rebalanced t t' 0"
proof -
  let ?A = "child (\<not> d) (child (\<not> d) t)" and ?D = "child d (child (\<not> d) t)" and ?G = "child d t"
  have off: "balance t < -1 \<or> balance t > 1" and d: "d = (balance t < 0)" using assms(2) by (cases d; simp)+
  have "t \<noteq> Leaf" using off by auto
  have same: "height ?D = height ?A"
    using assms(1,3) by (cases t; cases d; cases "child (\<not> d) t") (auto simp: semi_def)
  from rotations_single [OF assms(1) off d] assms(3) obtain r where r: "rebalance_rotations t = (r, height ?D - height ?A, False)"
      "r \<noteq> Leaf" "child (\<not> d) r = ?A" "child d r \<noteq> Leaf" "semi (child d r)" "child (\<not> d) (child d r) = ?D" "child d (child d r) = ?G"
      "balance r * sgn_dir d = height (child d r) - height ?A" "items r = items t" "total r = total t" "avl ?A"
      "height ?G + 1 \<le> height ?A" "height t = height ?A + 2"
    by (cases d) auto
  have G: "height ?G = height ?A - 1"
    using assms(1,2) same height_child [of "child (\<not> d) t" d] \<open>height t = _\<close> height_child [OF \<open>t \<noteq> Leaf\<close>, of d]
    by (cases d) (auto simp: semi_def max_def split: if_splits)
  then have F: "balance (child d r) = sgn_dir d * (-1)" and hF: "height (child d r) = 1 + height ?A"
    using r(5,6,7) same height_child [OF r(4), of d] by (cases d; auto simp: semi_def max_def)+
  then have bal: "ISRebalance (child d r) = Some (child d r, 0)" by (intro ISRebalance_balanced) (cases d; simp)+
  have c: "rebalanced (child d r) (child d r) 0"
    using r(5) F semi_avl [of "child d r"] by (cases d) (auto simp: rebalanced_def)
  note q = relink_ok [OF r(2) c, unfolded r(3), OF r(11) r(8)]
  have "balance (relink d (child d r) 0 r) * sgn_dir d = 1" using q hF by simp
  then have "balance (relink d (child d r) 0 r) = sgn_dir d" by (cases d) auto
  then have "-1 \<le> balance (relink d (child d r) 0 r)" "balance (relink d (child d r) 0 r) \<le> 1" by (cases d; simp)+
  then have "ISRebalance t = Some (relink d (child d r) 0 r, 0)"
    using ISRebalance_unfold [OF off d r(1) bal] same by (simp add: Let_def)
  moreover have "rebalanced t (relink d (child d r) 0 r) 0"
    using q r(9,10,13) hF semi_avl [OF conjunct1 [OF q]] \<open>-1 \<le> _\<close> \<open>_ \<le> 1\<close> by (simp add: rebalanced_def)
  ultimately show ?thesis by blast
qed

text \<open>The specification in the comments of \<open>ISRebalance\<close>.\<close>

theorem ISRebalance_ok:
  "semi t \<Longrightarrow> \<exists>t' c. ISRebalance t = Some (t', c) \<and> rebalanced t t' c \<and> (c = 0 \<or> c = -1)"
proof (induction "size t" arbitrary: t rule: less_induct)
  case less
  show ?case
  proof (cases "balance t < -1 \<or> balance t > 1")
    case False
    then show ?thesis
      using ISRebalance_balanced [of t] semi_avl [OF less.prems] by (auto simp: rebalanced_def)
  next
    case off: True
    define d where "d = (balance t < 0)"
    let ?A = "child (\<not> d) (child (\<not> d) t)"
    show ?thesis
    proof (cases "balance (child (\<not> d) t) = sgn_dir d")
      case False
      let ?D = "child d (child (\<not> d) t)" and ?G = "child d t"
      from rotations_single [OF less.prems off d_def False] obtain r where
        r: "rebalance_rotations t = (r, height ?D - height ?A, False)" "r \<noteq> Leaf" "child (\<not> d) r = ?A" "child d r \<noteq> Leaf"
          "semi (child d r)" "child (\<not> d) (child d r) = ?D" "child d (child d r) = ?G"
          "balance r * sgn_dir d = height (child d r) - height ?A" "items r = items t" "total r = total t" "avl ?A" "avl ?D"
          "height ?D \<le> height ?A" "height ?A \<le> height ?D + 1" "height ?G + 1 \<le> height ?A" "height t = height ?A + 2"
          "size (child d r) < size t" by blast
      from less.hyps [OF r(17,5)] obtain c hc where c: "ISRebalance (child d r) = Some (c, hc)"
        "rebalanced (child d r) c hc" "hc = 0 \<or> hc = -1" by blast
      let ?q = "relink d c hc r"
      note q = relink_ok [OF r(2) c(2), unfolded r(3), OF r(11) r(8)]
      have hF: "height (child d r) = 1 + height ?D"
        using height_child [OF r(4), of d] r(6,7,13,14,15) by (auto simp: max_def)
      have hc: "height c = 1 + height ?D + hc" using c(2) hF by (simp add: rebalanced_def)
      have "balance ?q * sgn_dir d = 1 + height ?D + hc - height ?A" using q hc by simp
      then have range: "-1 \<le> balance ?q" "balance ?q \<le> 1" using r(13,14) c(3) by (cases d; auto)+
      then have "ISRebalance t = Some (?q, max (height ?D - height ?A + hc) (-1))"
        using ISRebalance_unfold [OF off d_def r(1) c(1)] by (simp add: Let_def)
      moreover have "rebalanced t ?q (max (height ?D - height ?A + hc) (-1))"
        using q r(9,10,16) hc r(13,14) c(3) semi_avl [OF conjunct1 [OF q] range] by (auto simp: rebalanced_def max_def)
      moreover have "max (height ?D - height ?A + hc) (-1) = 0 \<or> max (height ?D - height ?A + hc) (-1) = -1"
        using r(13,14) c(3) by (auto simp: max_def)
      ultimately show ?thesis by blast
    next
      case True
      let ?E = "child d (child d (child (\<not> d) t))" and ?G = "child d t"
      from rotations_double [OF less.prems off d_def True] obtain r nBal where
        r: "rebalance_rotations t = (r, nBal, True)" "r \<noteq> Leaf" "avl (child (\<not> d) r)" "height (child (\<not> d) r) = height ?A + 1"
          "child d r \<noteq> Leaf" "semi (child d r)" "child (\<not> d) (child d r) = ?E" "child d (child d r) = ?G"
          "balance r * sgn_dir d = height (child d r) - (height ?A + 1)" "items r = items t" "total r = total t"
          "height ?E \<le> height ?A" "height ?A \<le> height ?E + 1" "height ?G \<le> height ?A"
          "height ?E < height ?A \<longrightarrow> balance (child (\<not> d) r) = 0" "height t = height ?A + 3" "size (child d r) < size t" by blast
      from less.hyps [OF r(17,6)] obtain c hc where c: "ISRebalance (child d r) = Some (c, hc)"
        "rebalanced (child d r) c hc" "hc = 0 \<or> hc = -1" by blast
      let ?q = "relink d c hc r"
      note q = relink_ok [OF r(2) c(2) r(3), unfolded r(4), OF r(9)]
      have hF: "height (child d r) = 1 + max (height ?E) (height ?G)"
        using height_child [OF r(5), of d] r(7,8) by (simp add: max.commute)
      have hc: "height c = 1 + max (height ?E) (height ?G) + hc" using c(2) hF by (simp add: rebalanced_def)
      have bq: "balance ?q * sgn_dir d = height c - (height ?A + 1)" using q by simp
      have same: "items ?q = items t" "total ?q = total t" "height ?q = height t - 1"
        using q r(10,11,16) hc r(12,14) c(3) by (auto simp: max_def)
      note unf = ISRebalance_unfold [OF off d_def r(1) c(1)]
      show ?thesis
      proof (cases "balance ?q < -1 \<or> balance ?q > 1")
        case False
        then have "ISRebalance t = Some (?q, -1)" using unf by (simp add: Let_def)
        moreover have "rebalanced t ?q (-1)"
          using False same semi_avl [OF conjunct1 [OF q]] by (auto simp: rebalanced_def)
        ultimately show ?thesis by blast
      next
        case still: True
        have low: "hc = -1" "height ?E = height ?A - 1" "height ?G \<le> height ?E"
          using still bq hc r(12,13,14) c(3) by (cases d; auto simp: max_def split: if_splits)+
        then have two: "balance ?q = - 2 * sgn_dir d" using bq hc by (cases d) (auto simp: max_def split: if_splits)
        have "\<bar>balance (child d r)\<bar> > 1"
        proof (rule ccontr)
          assume "\<not> ?thesis"
          then have "ISRebalance (child d r) = Some (child d r, 0)" by (intro ISRebalance_balanced) auto
          then show False using c(1) low(1) by simp
        qed
        then have "height ?G + 2 \<le> height ?E"
          using r(6,7,8) low(3) by (cases d) (auto simp: semi_def)
        moreover have "t \<noteq> Leaf" using off by auto
        then have "height (child (\<not> d) t) = height ?A + 2"
          using height_child [of t d] r(14,16) by (auto simp: max_def split: if_splits)
        moreover have "\<bar>balance t\<bar> = \<bar>height (child (\<not> d) t) - height ?G\<bar>"
          using less.prems by (cases d) (auto simp: semi_def)
        ultimately have "\<bar>balance ?q\<bar> < \<bar>balance t\<bar>"
          using two low(2) by (cases d) auto
        moreover have "balance (child (\<not> d) ?q) = 0" using q r(15) low(2) by simp
        then obtain q' where "ISRebalance ?q = Some (q', 0)" "rebalanced ?q q' 0"
          using ISRebalance_two [OF conjunct1 [OF q] two] by blast
        ultimately have "ISRebalance t = Some (q', -1)" "rebalanced t q' (-1)"
          using unf still same by (simp_all add: Let_def rebalanced_def)
        then show ?thesis by blast
      qed
    qed
  qed
qed

end
