(* ===== verification/IndexedSet_Ops.thy ===== *)
theory IndexedSet_Ops
  imports IndexedSet_Inv
begin

text \<open>
  The operations of \<open>IndexedSet\<close> on the sequence of elements: search, iteration, sums of metrics, insertion
  and erasure by key.  A location in a tree is a position in its sequence.
\<close>

subsection \<open>Positions\<close>

definition loc_in :: "('k, 'v, 'm) tree \<Rightarrow> ('k, 'v, 'm) loc \<Rightarrow> bool" where
  "loc_in root x \<longleftrightarrow> snd x \<noteq> Leaf \<and> close (snd x) (fst x) = root"

definition loc_before :: "('k, 'v, 'm::ab_group_add) loc \<Rightarrow> ('k \<times> 'v \<times> 'm) list" where
  "loc_before x = before (total (snd x)) (fst x) @ items (child False (snd x))"

definition loc_after :: "('k, 'v, 'm::ab_group_add) loc \<Rightarrow> ('k \<times> 'v \<times> 'm) list" where
  "loc_after x = items (child True (snd x)) @ after (total (snd x)) (fst x)"

fun loc_item :: "('k, 'v, 'm::ab_group_add) loc \<Rightarrow> 'k \<times> 'v \<times> 'm" where
  "loc_item (fs, Node l k v b m r) = (k, v, m - total l - total r)"
| "loc_item (fs, Leaf) = undefined"

lemma loc_items: "loc_in root x \<Longrightarrow> items root = loc_before x @ loc_item x # loc_after x"
  by (cases x; cases "snd x") (auto simp: loc_in_def loc_before_def loc_after_def items_close)

lemma loc_key_item: "loc_in root x \<Longrightarrow> loc_key x = Some (fst (loc_item x))"
  by (cases x; cases "snd x") (auto simp: loc_in_def loc_key_def)

lemma getMetric_item: "loc_in root x \<Longrightarrow> getMetric x = snd (snd (loc_item x))"
  by (cases x; cases "snd x") (auto simp: loc_in_def getMetric_def)

text \<open>Two locations in the same tree with the same directions are the same.\<close>

lemma follow_close: "follow (rev (map dir_of fs) @ ds) (close t fs) gs = follow ds t (fs @ gs)"
proof (induction fs arbitrary: t ds)
  case (Cons f fs)
  then show ?case by (cases f) (auto simp del: follow.simps(2) simp add: follow.simps(1))
qed simp

lemma loc_unique:
  "close t fs = close u gs \<Longrightarrow> map dir_of fs = map dir_of gs \<Longrightarrow> fs = gs \<and> t = u"
  using follow_close [of fs "[]" t "[]"] follow_close [of gs "[]" u "[]"] by simp

subsection \<open>Iteration\<close>

lemma climb_right:
  assumes "after (total t) fs = []"
  shows "climb True t fs = None"
  using assms
proof (induction fs arbitrary: t)
  case (Cons f fs)
  then show ?case by (cases f) (auto split: if_splits)
qed simp

lemma climb_right_Some:
  assumes "after (total t) fs \<noteq> []" and "t \<noteq> Leaf"
  shows "\<exists>y. climb True t fs = Some y \<and> loc_in (close t fs) y \<and> loc_before y = before (total t) fs @ items t"
  using assms
proof (induction fs arbitrary: t)
  case (Cons f fs)
  obtain d k v b m s where f: "f = Frame d k v b m s" by (cases f)
  show ?case
  proof (cases "d")
    case True
    then show ?thesis using Cons.IH [of "plug f t"] Cons.prems by (simp add: f)
  next
    case False
    then show ?thesis using Cons.prems by (simp add: f loc_in_def loc_before_def)
  qed
qed simp

lemma climb_left:
  assumes "before (total t) fs = []"
  shows "climb False t fs = None"
  using assms
proof (induction fs arbitrary: t)
  case (Cons f fs)
  then show ?case by (cases f) (auto split: if_splits)
qed simp

lemma climb_left_Some:
  assumes "before (total t) fs \<noteq> []" and "t \<noteq> Leaf"
  shows "\<exists>y. climb False t fs = Some y \<and> loc_in (close t fs) y \<and> loc_after y = items t @ after (total t) fs"
  using assms
proof (induction fs arbitrary: t)
  case (Cons f fs)
  obtain d k v b m s where f: "f = Frame d k v b m s" by (cases f)
  show ?case
  proof (cases "\<not> d")
    case True
    then show ?thesis using Cons.IH [of "plug f t"] Cons.prems by (simp add: f)
  next
    case False
    then show ?thesis using Cons.prems by (simp add: f loc_in_def loc_after_def)
  qed
qed simp

lemma outermost_position:
  assumes "t \<noteq> Leaf"
  shows "\<exists>y. outermost d t fs = Some y \<and> loc_in (close t fs) y \<and>
     (if d then loc_after y = after (total t) fs else loc_before y = before (total t) fs)"
proof -
  obtain gs u where out: "outermost d t fs = Some (gs, u)" using assms outermost_None [of d t fs] by auto
  from outermost_ok [OF out] obtain hs where hs: "close u gs = close t fs" "u \<noteq> Leaf" "child d u = Leaf" "gs = hs @ fs"
    "\<forall>f\<in>set hs. dir_of f = d" by auto
  have "close u hs = t" using loc_unique [of "close u hs" fs t fs] hs(1,4) by (simp add: close_append)
  then have "out_total (total u) hs = total t" using total_close [of u hs] by simp
  then show ?thesis
    using out hs before_all_left [of hs] after_all_right [of hs]
    by (cases d) (auto simp: loc_in_def loc_after_def loc_before_def before_append after_append)
qed

lemma next_ok:
  assumes "loc_in root x"
  shows "if loc_after x = [] then moveIterator True x = None
    else \<exists>y. moveIterator True x = Some y \<and> loc_in root y \<and> loc_before y = loc_before x @ [loc_item x]"
proof -
  obtain fs l k v b m r where x: "x = (fs, Node l k v b m r)" "close (Node l k v b m r) fs = root"
    using assms by (cases x; cases "snd x") (auto simp: loc_in_def)
  show ?thesis
  proof (cases "r = Leaf")
    case True
    then show ?thesis
      using x climb_right [of "Node l k v b m r" fs] climb_right_Some [of "Node l k v b m r" fs]
      by (auto simp: loc_after_def loc_before_def)
  next
    case False
    then show ?thesis
      using x outermost_position [OF False, of False "Frame True k v b m l # fs"]
      by (auto simp: loc_after_def loc_before_def)
  qed
qed

lemma previous_ok:
  assumes "loc_in root x"
  shows "if loc_before x = [] then moveIterator False x = None
    else \<exists>y. moveIterator False x = Some y \<and> loc_in root y \<and> loc_after y = loc_item x # loc_after x"
proof -
  obtain fs l k v b m r where x: "x = (fs, Node l k v b m r)" "close (Node l k v b m r) fs = root"
    using assms by (cases x; cases "snd x") (auto simp: loc_in_def)
  show ?thesis
  proof (cases "l = Leaf")
    case True
    then show ?thesis
      using x climb_left [of "Node l k v b m r" fs] climb_left_Some [of "Node l k v b m r" fs]
      by (auto simp: loc_after_def loc_before_def)
  next
    case False
    then show ?thesis
      using x outermost_position [OF False, of True "Frame False k v b m r # fs"]
      by (auto simp: loc_after_def loc_before_def)
  qed
qed

lemma same_node_iff:
  assumes "loc_in root x" and "loc_in root y"
  shows "same_node (Some x) (Some y) \<longleftrightarrow> x = y"
proof -
  have dir: "(\<lambda>f. case f of Frame d k v b m s \<Rightarrow> d) = dir_of"
    by (rule ext) (simp split: frame.split)
  show ?thesis
    using assms loc_unique [of "snd x" "fst x" "snd y" "fst y"]
    by (cases x; cases y) (auto simp: same_node_def dir loc_in_def)
qed

subsection \<open>Bounds\<close>

text \<open>\<open>bound_walk\<close> when the elements that lie to the right are those that do not satisfy \<open>P\<close>.\<close>

lemma bound_walk_ok:
  assumes "t \<noteq> Leaf" and "sorted_wrt (\<lambda>x y. P (fst y) \<longrightarrow> P (fst x)) (items t)"
    and "\<forall>x\<in>set (before (total t) fs). P (fst x)" and "\<forall>x\<in>set (after (total t) fs). \<not> P (fst x)"
  shows "\<exists>right x. bound_walk P t fs = Some (right, x) \<and> loc_in (close t fs) x \<and> right = P (fst (loc_item x)) \<and>
     (\<forall>y\<in>set (loc_before x). P (fst y)) \<and> (\<forall>y\<in>set (loc_after x). \<not> P (fst y))"
  using assms
proof (induction P t fs rule: bound_walk.induct)
  case (2 P l k v b m r fs)
  show ?case
  proof (cases "P k")
    case True
    then have l: "\<forall>x\<in>set (items l). P (fst x)" using "2.prems"(2) by (auto simp: sorted_wrt_append)
    show ?thesis
    proof (cases "r = Leaf")
      case True
      then show ?thesis using \<open>P k\<close> l "2.prems" by (auto simp: loc_in_def loc_before_def loc_after_def)
    next
      case False
      then show ?thesis using "2.IH"(1) [OF \<open>P k\<close> False False] "2.prems" l \<open>P k\<close>
        by (simp add: sorted_wrt_append ball_Un)
    qed
  next
    case False
    then have r: "\<forall>x\<in>set (items r). \<not> P (fst x)" using "2.prems"(2) by (auto simp: sorted_wrt_append)
    show ?thesis
    proof (cases "l = Leaf")
      case True
      then show ?thesis using \<open>\<not> P k\<close> r "2.prems" by (auto simp: loc_in_def loc_before_def loc_after_def)
    next
      case left: False
      then show ?thesis using "2.IH"(2) [OF \<open>\<not> P k\<close> left left] "2.prems" r \<open>\<not> P k\<close>
        by (simp add: sorted_wrt_append ball_Un)
    qed
  qed
qed simp

lemma bound_ok:
  assumes "sorted_wrt (\<lambda>x y. P (fst y) \<longrightarrow> P (fst x)) (items root)"
  shows "case bound_result (bound_walk P root []) of
       None \<Rightarrow> \<forall>x\<in>set (items root). P (fst x)
     | Some x \<Rightarrow> loc_in root x \<and> loc_before x = filter (\<lambda>y. P (fst y)) (items root) \<and> \<not> P (fst (loc_item x))"
proof (cases "root = Leaf")
  case False
  obtain right x where x: "bound_walk P root [] = Some (right, x)" "loc_in root x" "right = P (fst (loc_item x))"
    "\<forall>y\<in>set (loc_before x). P (fst y)" "\<forall>y\<in>set (loc_after x). \<not> P (fst y)"
    using bound_walk_ok [OF False assms, of "[]"] by auto
  have root: "items root = loc_before x @ loc_item x # loc_after x" by (rule loc_items) (rule x)
  show ?thesis
  proof (cases right)
    case right: True
    show ?thesis
    proof (cases "loc_after x = []")
      case True
      then show ?thesis using right x next_ok [OF x(2)] root by (simp add: bound_result_def)
    next
      case False
      then obtain y where y: "moveIterator True x = Some y" "loc_in root y" "loc_before y = loc_before x @ [loc_item x]"
        using next_ok [OF x(2)] by auto
      have "loc_item y \<in> set (loc_after x)" using loc_items [OF y(2)] root y(3) by auto
      then show ?thesis
        using right x y root by (auto simp: bound_result_def filter_id_conv filter_empty_conv)
    qed
  next
    case False
    then show ?thesis using x root by (auto simp: bound_result_def filter_id_conv filter_empty_conv)
  qed
qed (simp add: bound_result_def)

lemma sorted_keys_pred:
  assumes "sorted_wrt (<) (keys xs)" and "\<And>a b :: 'k::linorder. a < b \<Longrightarrow> P b \<Longrightarrow> P a"
  shows "sorted_wrt (\<lambda>x y. P (fst y) \<longrightarrow> P (fst x)) xs"
  using assms by (auto simp: keys_def sorted_wrt_map elim!: sorted_wrt_mono_rel [rotated])

lemma lower_bound_ok:
  assumes "indexed_set root"
  shows "case lower_bound root key of
       None \<Rightarrow> \<forall>x\<in>set (items root). fst x < key
     | Some x \<Rightarrow> loc_in root x \<and> loc_before x = filter (\<lambda>y. fst y < key) (items root) \<and> key \<le> fst (loc_item x)"
  using bound_ok [of "\<lambda>k. k < key" root] sorted_keys_pred [of "items root" "\<lambda>k. k < key"] assms
  by (auto simp: indexed_set_def lower_bound_def not_less split: option.splits)

lemma upper_bound_ok:
  assumes "indexed_set root"
  shows "case upper_bound root key of
       None \<Rightarrow> \<forall>x\<in>set (items root). fst x \<le> key
     | Some x \<Rightarrow> loc_in root x \<and> loc_before x = filter (\<lambda>y. fst y \<le> key) (items root) \<and> key < fst (loc_item x)"
  using bound_ok [of "\<lambda>k. \<not> key < k" root] sorted_keys_pred [of "items root" "\<lambda>k. \<not> key < k"] assms
  by (auto simp: indexed_set_def upper_bound_def not_less split: option.splits)

subsection \<open>Search by key\<close>

lemma descend_ok:
  assumes "descend key t fs = (gs, u)" and "sorted_wrt (<) (keys (items t))"
    and "\<forall>x\<in>set (before (total t) fs). fst x < key" and "\<forall>x\<in>set (after (total t) fs). key < fst x"
  shows "close u gs = close t fs \<and> (\<forall>x\<in>set (before (total u) gs). fst x < key) \<and>
     (\<forall>x\<in>set (after (total u) gs). key < fst x) \<and> (u = Leaf \<or> (\<exists>l v b m r. u = Node l key v b m r))"
  using assms
proof (induction key t fs rule: descend.induct)
  case (2 key l k v b m r fs)
  have l: "\<forall>x\<in>set (items l). fst x < k" and r: "\<forall>x\<in>set (items r). k < fst x"
    and "sorted_wrt (<) (keys (items l))" "sorted_wrt (<) (keys (items r))"
    using "2.prems"(2) by (auto simp: keys_def sorted_wrt_append)
  consider "key = k" | "k < key" | "key < k" by force
  then show ?case
  proof cases
    case 1
    then show ?thesis using "2.prems" by auto
  next
    case 2
    then have "key \<noteq> k" "\<forall>x\<in>set (items l). fst x < key" using l less_trans by auto
    then show ?thesis
      using 2 "2.IH"(1) "2.prems" \<open>sorted_wrt (<) (keys (items r))\<close> by (simp add: ball_Un)
  next
    case 3
    then have "key \<noteq> k" "\<not> k < key" "\<forall>x\<in>set (items r). key < fst x" using r less_trans by auto
    then show ?thesis
      using 3 "2.IH"(2) "2.prems" \<open>sorted_wrt (<) (keys (items l))\<close> by (simp add: ball_Un)
  qed
qed auto

lemma filter_split:
  assumes "xs = ys @ zs" and "\<forall>x\<in>set ys. P x" and "\<forall>x\<in>set zs. \<not> P x"
  shows "filter P xs = ys" "filter (\<lambda>x. \<not> P x) xs = zs"
  using assms by (simp_all add: filter_id_conv filter_empty_conv)

lemma descend_root:
  assumes "indexed_set root" and "descend key root [] = (fs, u)"
  obtains "u = Leaf" "close Leaf fs = root" "avl (close Leaf fs)"
      "filter (\<lambda>x. fst x < key) (items root) = before 0 fs" "filter (\<lambda>x. key < fst x) (items root) = after 0 fs"
      "items root = before 0 fs @ after 0 fs" "key \<notin> set (keys (items root))"
  | l v b m r where "u = Node l key v b m r" "close u fs = root"
      "filter (\<lambda>x. fst x < key) (items root) = before m fs @ items l" "filter (\<lambda>x. key < fst x) (items root) = items r @ after m fs"
      "items root = (before m fs @ items l) @ (key, v, m - total l - total r) # items r @ after m fs"
proof -
  have root: "avl root" "sorted_wrt (<) (keys (items root))" using assms(1) by (simp_all add: indexed_set_def)
  from descend_ok [OF assms(2) root(2)] have u: "close u fs = root" and less: "\<forall>x\<in>set (before (total u) fs). fst x < key"
    and greater: "\<forall>x\<in>set (after (total u) fs). key < fst x" and shape: "u = Leaf \<or> (\<exists>l v b m r. u = Node l key v b m r)" by auto
  have items: "items root = before (total u) fs @ items u @ after (total u) fs" using u items_close by metis
  from shape show ?thesis
  proof
    assume leaf: "u = Leaf"
    have "filter (\<lambda>x. fst x < key) (items root) = before 0 fs" "filter (\<lambda>x. key < fst x) (items root) = after 0 fs"
      using items leaf less greater by (auto simp: filter_id_conv filter_empty_conv not_less_iff_gr_or_eq)
    moreover have "key \<notin> set (keys (items root))" using items leaf less greater by (auto simp: keys_def)
    ultimately show ?thesis using that(1) leaf u root(1) items by auto
  next
    assume "\<exists>l v b m r. u = Node l key v b m r"
    then obtain l v b m r where node: "u = Node l key v b m r" by blast
    have "\<forall>x\<in>set (items l). fst x < key" "\<forall>x\<in>set (items r). key < fst x"
      using root(2) items node by (auto simp: keys_def sorted_wrt_append)
    then have "filter (\<lambda>x. fst x < key) (items root) = before m fs @ items l" "filter (\<lambda>x. key < fst x) (items root) = items r @ after m fs"
      using items node less greater by (auto simp: filter_id_conv filter_empty_conv not_less_iff_gr_or_eq)
    then show ?thesis using that(2) node u items by auto
  qed
qed

lemma is_find_ok:
  assumes "indexed_set root"
  shows "case is_find root key of
       None \<Rightarrow> key \<notin> set (keys (items root))
     | Some x \<Rightarrow> loc_in root x \<and> fst (loc_item x) = key \<and> loc_before x = filter (\<lambda>y. fst y < key) (items root)"
proof -
  obtain fs u where d: "descend key root [] = (fs, u)" by (cases "descend key root []")
  from descend_root [OF assms d] show ?thesis
    by cases (auto simp: is_find_def d loc_in_def loc_before_def)
qed

subsection \<open>Insertion\<close>

definition put :: "'k::linorder \<Rightarrow> 'v \<Rightarrow> 'm \<Rightarrow> ('k \<times> 'v \<times> 'm) list \<Rightarrow> ('k \<times> 'v \<times> 'm) list" where
  "put key val metric xs = filter (\<lambda>x. fst x < key) xs @ (key, val, metric) # filter (\<lambda>x. key < fst x) xs"

lemma sorted_put: "sorted_wrt (<) (keys xs) \<Longrightarrow> sorted_wrt (<) (keys (put key val metric xs))"
  by (auto simp: put_def keys_def sorted_wrt_append sorted_wrt_map sorted_wrt_filter)

lemma replace_node_ok:
  assumes "avl (close (Node l k v b m r) fs)"
  shows "avl (replace_node key val metric fs (Node l k v b m r)) \<and>
     items (replace_node key val metric fs (Node l k v b m r)) = (before m fs @ items l) @ (key, val, metric) # items r @ after m fs"
proof -
  let ?m = "metric + total l + total r"
  have "items (close (Node l key val b ?m r) (map (add_total (?m - m)) fs)) = before m fs @ items (Node l key val b ?m r) @ after m fs"
    by (rule items_close_add) simp
  moreover have "avl (close (Node l key val b ?m r) (map (add_total (?m - m)) fs))"
    using assms by (simp add: avl_close)
  ultimately show ?thesis by (simp add: replace_node_def Let_def)
qed

lemma new_node_ok:
  assumes "avl (close Leaf fs)"
  shows "avl (insert_up metric (Node Leaf key val 0 metric Leaf) fs) \<and>
     items (insert_up metric (Node Leaf key val 0 metric Leaf) fs) = before 0 fs @ (key, val, metric) # after 0 fs"
  using insert_up_ok [of "Node Leaf key val 0 metric Leaf" 0 fs 0 metric] assms by (simp add: avl_close)

lemma is_insert_ok:
  assumes "indexed_set root"
  shows "indexed_set (is_insert key val metric replace root) \<and>
     items (is_insert key val metric replace root) =
       (if replace \<or> key \<notin> set (keys (items root)) then put key val metric (items root) else items root)"
proof -
  have sorted: "sorted_wrt (<) (keys (put key val metric (items root)))"
    using assms by (intro sorted_put) (simp add: indexed_set_def)
  obtain fs u where d: "descend key root [] = (fs, u)" by (cases "descend key root []")
  from descend_root [OF assms d] show ?thesis
  proof cases
    case 1
    then show ?thesis
      using new_node_ok [of fs metric key val] sorted by (simp add: is_insert_def d indexed_set_def put_def)
  next
    case (2 l v b m r)
    have "key \<in> set (keys (items root))" using 2(5) by simp
    moreover have "avl (close (Node l key v b m r) fs)" using assms 2 by (simp add: indexed_set_def)
    ultimately show ?thesis
      using replace_node_ok [of l key v b m r fs key val metric] sorted 2 assms
      by (auto simp: is_insert_def d indexed_set_def put_def)
  qed
qed

subsection \<open>Erasure by key\<close>

lemma erase_key_ok:
  assumes "indexed_set root"
  shows "indexed_set (fst (erase_key root key)) \<and> items (fst (erase_key root key)) = filter (\<lambda>x. fst x \<noteq> key) (items root) \<and>
     snd (erase_key root key) = (if key \<in> set (keys (items root)) then [key] else [])"
proof -
  have sorted: "sorted_wrt (<) (keys (filter (\<lambda>x. fst x \<noteq> key) (items root)))"
    using assms by (simp add: indexed_set_def keys_def sorted_wrt_map sorted_wrt_filter)
  obtain fs u where d: "descend key root [] = (fs, u)" by (cases "descend key root []")
  from descend_root [OF assms d] show ?thesis
  proof cases
    case 1
    have "filter (\<lambda>x. fst x \<noteq> key) (items root) = items root" using 1(7) by (auto simp: filter_id_conv keys_def)
    then show ?thesis using 1 assms by (simp add: erase_key_def is_find_def d is_erase_def)
  next
    case (2 l v b m r)
    have avl: "avl (close (Node l key v b m r) fs)" using assms 2 by (simp add: indexed_set_def)
    have "\<forall>x\<in>set (before m fs @ items l). fst x \<noteq> key" "\<forall>x\<in>set (items r @ after m fs). fst x \<noteq> key"
      unfolding 2(3,4) [symmetric] by auto
    then have "filter (\<lambda>x. fst x \<noteq> key) (items root) = before m fs @ items l @ items r @ after m fs"
      unfolding 2(5) by (auto simp: filter_id_conv)
    then show ?thesis
      using erase_node_ok [OF avl] sorted 2 by (simp add: erase_key_def is_find_def d is_erase_def indexed_set_def)
  qed
qed

subsection \<open>Sums\<close>

lemma sum_up_before: "sum_up m p fs = m + metric_sum (before (total p) fs)"
proof (induction fs arbitrary: m p)
  case (Cons f fs)
  then show ?case by (cases f) (simp add: total_items algebra_simps)
qed simp

lemma sumTo_ok:
  "loc_in root x \<Longrightarrow> sumTo root (Some x) = metric_sum (loc_before x)"
  "sumTo root None = metric_sum (items root)"
  by (cases x; simp add: sumTo_def sum_up_before loc_before_def total_items add.commute) (simp add: sumTo_def total_items)

lemma sumTo_lower_bound:
  assumes "indexed_set root"
  shows "sumTo root (lower_bound root key) = metric_sum (filter (\<lambda>x. fst x < key) (items root))"
proof (cases "lower_bound root key")
  case None
  then have "filter (\<lambda>x. fst x < key) (items root) = items root"
    using lower_bound_ok [OF assms, of key] by (simp add: filter_id_conv)
  then show ?thesis using None by (simp add: sumTo_ok)
next
  case (Some x)
  then show ?thesis using lower_bound_ok [OF assms, of key] by (simp add: sumTo_ok)
qed

lemma index_walk_ok:
  fixes t :: "('k, 'v, 'm::linordered_ab_group_add) tree"
  shows "case index_walk m t fs of
      None \<Rightarrow> t = Leaf \<or> metric_sum (items t) \<le> m
    | Some x \<Rightarrow> loc_in (close t fs) x \<and> (\<exists>p. loc_before x = before (total t) fs @ p \<and>
        (p = [] \<or> metric_sum p \<le> m) \<and> m < metric_sum p + snd (snd (loc_item x)))"
proof (induction m t fs rule: index_walk.induct)
  case (2 m l k v b t r fs)
  let ?m = "m - t + total r"
  consider "l \<noteq> Leaf" "m < total l" | "l = Leaf \<or> total l \<le> m" "?m < 0" | "l = Leaf \<or> total l \<le> m" "0 \<le> ?m"
    by (meson not_less)
  then show ?case
  proof cases
    case 1
    then show ?thesis
      using "2.IH"(1) by (auto simp: total_items not_le split: option.splits)
  next
    case 2
    have "m < total l + (t - total l - total r)" using 2(2) by (simp add: algebra_simps)
    then show ?thesis
      using 2 by (auto simp: loc_in_def loc_before_def total_items intro!: exI [of _ "items l"])
  next
    case 3
    then have right: "index_walk m (Node l k v b t r) fs = index_walk ?m r (Frame True k v b t l # fs)"
      by (auto simp: Let_def not_less)
    have not_left: "\<not> (l \<noteq> Leaf \<and> m < total l)" "\<not> ?m < 0" using 3 by auto
    let ?q = "items l @ [(k, v, t - total l - total r)]"
    have sum: "metric_sum ?q = m - ?m" by (simp add: total_items algebra_simps)
    note IH = "2.IH"(2) [OF not_left(1) refl not_left(2)]
    show ?thesis
    proof (cases "index_walk ?m r (Frame True k v b t l # fs)")
      case None
      then have "r = Leaf \<or> total r \<le> ?m" using IH by (simp add: total_items)
      then have "t \<le> m" using 3(2) by (auto simp: algebra_simps)
      then show ?thesis using None right by (simp add: total_items)
    next
      case (Some x)
      then obtain p where p: "loc_in (close (Node l k v b t r) fs) x" "loc_before x = before t fs @ ?q @ p"
        "p = [] \<or> metric_sum p \<le> ?m" "?m < metric_sum p + snd (snd (loc_item x))"
        using IH by auto
      have "metric_sum (?q @ p) \<le> m"
      proof -
        have "metric_sum p \<le> ?m" using p(3) 3(2) by auto
        then have "metric_sum ?q + metric_sum p \<le> (m - ?m) + ?m" unfolding sum by (rule add_left_mono)
        then show ?thesis by (simp add: add.assoc)
      qed
      moreover have "m < metric_sum (?q @ p) + snd (snd (loc_item x))"
      proof -
        have "(m - ?m) + ?m < (m - ?m) + (metric_sum p + snd (snd (loc_item x)))" using p(4) by (rule add_strict_left_mono)
        then show ?thesis unfolding metric_sum_simps(3) [of ?q p] sum by (simp add: add.assoc)
      qed
      ultimately show ?thesis
        using Some right p(1,2) by (auto intro!: exI [of _ "?q @ p"])
    qed
  qed
qed simp

end
