(* ===== verification/IndexedSet_Range.thy ===== *)
theory IndexedSet_Range
  imports IndexedSet_Rebalance IndexedSet_Ops "HOL-Library.Multiset"
begin

text \<open>
  The erasure of a range of an \<open>IndexedSet\<close>: \<open>eraseHalf\<close> on both sides of the common ancestor, the
  rebalancing up to the root, and the erasure of the ancestor itself.
\<close>

subsection \<open>One turn of eraseHalf\<close>

text \<open>What a turn leaves of the subtree at \<open>start\<close>, whose total is \<open>md\<close> too high.\<close>

definition kept :: "bool \<Rightarrow> bool \<Rightarrow> 'm::ab_group_add \<Rightarrow> ('k, 'v, 'm) tree \<Rightarrow> ('k \<times> 'v \<times> 'm) list" where
  "kept e fd md t = (if fd = e then items (set_total (total t - md) t) else items (child fd t))"

definition freed :: "('k, 'v, 'm::ab_group_add) tree list \<Rightarrow> 'k multiset" where
  "freed ts = mset (concat (map (\<lambda>t. keys (items t)) ts))"

lemma freed_simps [simp]: "freed [] = {#}" "freed (ts @ us) = freed ts + freed us" "freed (t # ts) = mset (keys (items t)) + freed ts"
  by (simp_all add: freed_def)

lemma keys_set_total [simp]: "keys (items (set_total m t)) = keys (items t)"
  by (cases t) auto

lemma total_set_total: "t \<noteq> Leaf \<Longrightarrow> total (set_total m t) = m"
  by (cases t) auto

lemma erase_half_node_ok:
  assumes "semi st" and "st \<noteq> Leaf" and "hc \<le> 0"
  shows "\<exists>n md' hc' fr'. erase_half_node e fd st md hc fr = Some (n, md', hc', fr') \<and> avl n \<and>
     items n = kept e fd md st \<and> total n + md' = total st \<and> height n - hc' = height st - hc \<and> hc' \<le> 0 \<and>
     freed fr' + mset (keys (items n)) = freed fr + mset (keys (items st))"
proof (cases "fd = e")
  case True
  obtain n c where n: "ISRebalance (set_total (total st - md) st) = Some (n, c)"
    "rebalanced (set_total (total st - md) st) n c" "c = 0 \<or> c = -1"
    using ISRebalance_ok [of "set_total (total st - md) st"] assms(1) by auto
  have "keys (items n) = keys (items st)" using n(2) by (simp add: rebalanced_def)
  then show ?thesis
    using True n assms(2,3) total_set_total [OF assms(2)]
    by (auto simp: erase_half_node_def kept_def rebalanced_def)
next
  case False
  obtain l k v b m r where st: "st = Node l k v b m r" using assms(2) by (cases st) auto
  have bal: "avl l" "avl r" "b = height r - height l" using assms(1) st by (auto simp: semi_def)
  then show ?thesis
    using False assms(3) st
    by (cases e; cases fd) (auto simp: erase_half_node_def kept_def max_def Let_def)
qed

lemma new_height_delta:
  fixes h :: int
  assumes "b = sgn_dir d * (h - hs)" and "hn = h + hc" and "hc \<le> 0"
  shows "- min (max (b * sgn_dir d) 0) ((b - (b + hc * sgn_dir d)) * sgn_dir d) = max hn hs - max h hs"
  using assms by (cases d) (auto simp: max_def min_def)

text \<open>The loop of \<open>eraseHalf\<close> through the frames \<open>gs\<close>.\<close>

lemma eraseHalf_loop:
  assumes "semi st" and "st \<noteq> Leaf" and "hc \<le> 0" and "frames_ok (height st - hc) gs"
  shows "\<exists>fd' st' md' hc' fr'. eraseHalf e fd st md hc fr (gs @ rest) = eraseHalf e fd' st' md' hc' fr' rest \<and>
     semi st' \<and> st' \<noteq> Leaf \<and> hc' \<le> 0 \<and> height st' - hc' = out_height (height st - hc) gs \<and>
     total st' = out_total (total st) gs \<and>
     kept e fd' md' st' = (if e then before (total st) gs @ kept e fd md st else kept e fd md st @ after (total st) gs) \<and>
     freed fr' + mset (keys (items st')) = freed fr + mset (keys (items (close st gs)))"
  using assms
proof (induction gs arbitrary: fd st md hc fr)
  case (Cons f gs)
  obtain d k v b m s where f: "f = Frame d k v b m s" by (cases f)
  obtain n md1 hc1 fr1 where n: "erase_half_node e fd st md hc fr = Some (n, md1, hc1, fr1)" "avl n"
    "items n = kept e fd md st" "total n + md1 = total st" "height n - hc1 = height st - hc" "hc1 \<le> 0"
    "freed fr1 + mset (keys (items n)) = freed fr + mset (keys (items st))"
    using erase_half_node_ok [OF Cons.prems(1,2,3)] by blast
  have s: "avl s" and b: "b = sgn_dir d * ((height st - hc) - height s)"
    and rest: "frames_ok (1 + max (height st - hc) (height s)) gs"
    using Cons.prems(4) f by auto
  let ?st = "plug (Frame d k v (b + hc1 * sgn_dir d) m s) n"
  let ?hc = "- min (max (b * sgn_dir d) 0) ((b - (b + hc1 * sgn_dir d)) * sgn_dir d)"
  have hc: "?hc = max (height n) (height s) - max (height st - hc) (height s)"
    using n(5,6) by (intro new_height_delta [OF b]) auto
  have st: "semi ?st" "?st \<noteq> Leaf" "height ?st = 1 + max (height n) (height s)" "total ?st = m"
    using s n(2,5) b by (cases d; auto simp: semi_def max.commute)+
  have neg: "?hc \<le> 0" unfolding hc using n(5,6) by (auto simp: max_def)
  have h: "height ?st - ?hc = 1 + max (height st - hc) (height s)" unfolding hc st(3) by simp
  have step: "eraseHalf e fd st md hc fr ((f # gs) @ rest) = eraseHalf e d ?st md1 ?hc fr1 (gs @ rest)"
    using n(1,6) by (simp add: f)
  have nt: "total n = total st - md1" using n(4) by (simp add: eq_diff_eq)
  have metric: "m - md1 - total s - total n = m - total s - total st" "m - md1 - total n - total s = m - total st - total s"
    unfolding nt by (simp_all add: algebra_simps)
  have K: "kept e d md1 ?st = (if d = e then (if d then items s @ (k, v, m - total s - total st) # items n
      else items n @ (k, v, m - total st - total s) # items s) else items n)"
    by (cases d; cases e) (simp_all add: kept_def metric)
  have fr: "freed fr1 + mset (keys (items (close ?st gs))) = freed fr + mset (keys (items (close st (f # gs))))"
  proof -
    have "mset (keys (items ?st)) = add_mset k (mset (keys (items s))) + mset (keys (items n))"
      "mset (keys (items (plug f st))) = add_mset k (mset (keys (items s))) + mset (keys (items st))"
      by (cases d; simp add: f)+
    moreover have "keys (items (close u gs)) = keys (before m gs) @ keys (items u) @ keys (after m gs)" if "total u = m" for u
      using that by (simp add: items_close)
    ultimately show ?thesis
      using st(4) n(7) by (simp add: f)
  qed
  obtain fd' st' md' hc' fr' where IH: "eraseHalf e d ?st md1 ?hc fr1 (gs @ rest) = eraseHalf e fd' st' md' hc' fr' rest"
    "semi st'" "st' \<noteq> Leaf" "hc' \<le> 0" "height st' - hc' = out_height (height ?st - ?hc) gs" "total st' = out_total (total ?st) gs"
    "kept e fd' md' st' = (if e then before (total ?st) gs @ kept e d md1 ?st else kept e d md1 ?st @ after (total ?st) gs)"
    "freed fr' + mset (keys (items st')) = freed fr1 + mset (keys (items (close ?st gs)))"
    using Cons.IH [of ?st ?hc d md1 fr1] st(1,2) neg rest unfolding h by blast
  show ?case
    using IH unfolding step h K st(4) fr n(3) by (intro exI [of _ fd'] exI [of _ st'] exI [of _ md'] exI [of _ hc'] exI [of _ fr']) (auto simp: f)
next
  case Nil
  then show ?case by (intro exI [of _ fd] exI [of _ st] exI [of _ md] exI [of _ hc] exI [of _ fr]) auto
qed

text \<open>A whole half: the last frame is the node where the loop stops.\<close>

lemma eraseHalf_half:
  assumes "avl (close st gs)" and "avl s" and "b = sgn_dir e' * (height (close st gs) - height s)" and "st \<noteq> Leaf"
  shows "\<exists>n b' md hc fr'. eraseHalf e (\<not> e) st 0 0 fr (gs @ [Frame e' k v b m s]) = Some (plug (Frame e' k v b' m s) n, md, hc, fr') \<and>
     avl n \<and> semi (plug (Frame e' k v b' m s) n) \<and>
     items n = (if e then before (total st) gs @ items (child False st) else items (child True st) @ after (total st) gs) \<and>
     total n + md = total (close st gs) \<and>
     height (plug (Frame e' k v b' m s) n) - hc = height (close st (gs @ [Frame e' k v b m s])) \<and> hc \<le> 0 \<and>
     freed fr' + mset (keys (items n)) = freed fr + mset (keys (items (close st gs)))"
proof -
  let ?f = "Frame e' k v b m s"
  have st: "avl st" and fs: "frames_ok (height st - 0) gs" using assms(1) by (auto simp: avl_close)
  obtain fd' st' md' hc' fr' where loop: "eraseHalf e (\<not> e) st 0 0 fr (gs @ [?f]) = eraseHalf e fd' st' md' hc' fr' [?f]"
    "semi st'" "st' \<noteq> Leaf" "hc' \<le> 0" "height st' - hc' = out_height (height st - 0) gs" "total st' = out_total (total st) gs"
    "kept e fd' md' st' = (if e then before (total st) gs @ kept e (\<not> e) 0 st else kept e (\<not> e) 0 st @ after (total st) gs)"
    "freed fr' + mset (keys (items st')) = freed fr + mset (keys (items (close st gs)))"
    using eraseHalf_loop [OF avl_semi [OF st] assms(4) order_refl fs, of e "\<not> e" 0 fr "[?f]"] by blast
  obtain n md hc1 fr1 where n: "erase_half_node e fd' st' md' hc' fr' = Some (n, md, hc1, fr1)" "avl n"
    "items n = kept e fd' md' st'" "total n + md = total st'" "height n - hc1 = height st' - hc'" "hc1 \<le> 0"
    "freed fr1 + mset (keys (items n)) = freed fr' + mset (keys (items st'))"
    using erase_half_node_ok [OF loop(2,3,4)] by blast
  note s = assms(2) and b = assms(3)
  have hn: "height n = height (close st gs) + hc1" using n(5) loop(5) by (simp add: height_close)
  have hc: "- min (max (b * sgn_dir e') 0) ((b - (b + hc1 * sgn_dir e')) * sgn_dir e') =
      max (height n) (height s) - max (height (close st gs)) (height s)"
    by (rule new_height_delta [OF b hn n(6)])
  have "semi (plug (Frame e' k v (b + hc1 * sgn_dir e') m s) n)"
    using s n(2) b hn by (cases e') (auto simp: semi_def)
  moreover have "height (plug (Frame e' k v (b + hc1 * sgn_dir e') m s) n) - (max (height n) (height s) - max (height (close st gs)) (height s)) =
      height (close st (gs @ [?f]))"
    by (cases e') (simp_all add: close_append max.commute)
  moreover have "max (height n) (height s) - max (height (close st gs)) (height s) \<le> 0" using hn n(6) by (auto simp: max_def)
  moreover have "items n = (if e then before (total st) gs @ items (child False st) else items (child True st) @ after (total st) gs)"
    using n(3) loop(7) by (simp add: kept_def)
  moreover have "total n + md = total (close st gs)" using n(4) loop(6) by (simp add: total_close)
  moreover have "freed fr1 + mset (keys (items n)) = freed fr + mset (keys (items (close st gs)))" using n(7) loop(8) by simp
  moreover have "eraseHalf e (\<not> e) st 0 0 fr (gs @ [?f]) = Some (plug (Frame e' k v (b + hc1 * sgn_dir e') m s) n, md,
      max (height n) (height s) - max (height (close st gs)) (height s), fr1)"
    using loop(1) n(1,6) by (simp add: hc [symmetric])
  ultimately show ?thesis using n(2) by blast
qed

subsection \<open>Rebalancing up to the root\<close>

lemma rebalance_up_ok:
  assumes "semi p" and "p \<noteq> Leaf" and "frames_ok (height p - hc) fs"
  shows "\<exists>root. rebalance_up p md hc fs = Some root \<and> avl root \<and>
     items root = before (total p) fs @ items (set_total (total p - md) p) @ after (total p) fs"
  using assms
proof (induction fs arbitrary: p hc)
  case Nil
  then show ?case using ISRebalance_ok [of "set_total (total p - md) p"] by (auto simp: rebalanced_def)
next
  case (Cons f fs)
  obtain d k v b m s where f: "f = Frame d k v b m s" by (cases f)
  obtain p' c where p': "ISRebalance (set_total (total p - md) p) = Some (p', c)"
    "rebalanced (set_total (total p - md) p) p' c" "c = 0 \<or> c = -1"
    using ISRebalance_ok [of "set_total (total p - md) p"] Cons.prems(1) by auto
  let ?b = "b + (hc + c) * sgn_dir d"
  let ?q = "plug (Frame d k v ?b m s) p'" and ?hc = "max (?b * sgn_dir d) 0 - max (b * sgn_dir d) 0"
  have s: "avl s" and b: "b = sgn_dir d * ((height p - hc) - height s)" and rest: "frames_ok (1 + max (height p - hc) (height s)) fs"
    using Cons.prems(3) f by auto
  have hp: "height p' = height p + c" "total p' = total p - md" "avl p'" "items p' = items (set_total (total p - md) p)"
    using p'(2) total_set_total [OF Cons.prems(2)] by (auto simp: rebalanced_def)
  have bq: "?b = sgn_dir d * (height p' - height s)" using b hp(1) by (cases d) auto
  have q: "semi ?q" "?q \<noteq> Leaf" "total ?q = m" using s hp(3) bq by (cases d; auto simp: semi_def)+
  have "height ?q - ?hc = 1 + max (height p - hc) (height s)"
    unfolding bq using b hp(1) by (cases d) (auto simp: max_def)
  then obtain root where root: "rebalance_up ?q md ?hc fs = Some root" "avl root"
    "items root = before (total ?q) fs @ items (set_total (total ?q - md) ?q) @ after (total ?q) fs"
    using Cons.IH [OF q(1,2), of ?hc] rest by auto
  have metric: "m - md - total s - (total p - md) = m - total s - total p" "m - md - (total p - md) - total s = m - total p - total s"
    by (simp_all add: algebra_simps)
  have "items root = before (total p) (f # fs) @ items p' @ after (total p) (f # fs)"
    using root(3) by (cases d) (simp_all add: f hp(2) metric)
  then show ?case using root(1,2) p'(1) hp(4) by (simp add: f Let_def)
qed

subsection \<open>The common ancestor\<close>

lemma common_ancestor_split:
  assumes "length f = length l"
  shows "\<exists>p q. f = p @ common_ancestor f l \<and> l = q @ common_ancestor f l \<and> length p = length q \<and> (p = [] \<or> last p \<noteq> last q)"
  using assms
proof (induction f l rule: common_ancestor.induct)
  case (1 p ps q qs)
  show ?case
  proof (cases "p # ps = q # qs")
    case False
    then obtain p' q' where IH: "ps = p' @ common_ancestor ps qs" "qs = q' @ common_ancestor ps qs" "length p' = length q'"
      "p' = [] \<or> last p' \<noteq> last q'" using 1 by auto
    have "last (p # p') \<noteq> last (q # q')"
      using IH False by (cases "p' = []") auto
    then show ?thesis
      using IH False by (intro exI [of _ "p # p'"] exI [of _ "q # q'"]) auto
  qed auto
qed auto

lemma ISCommonSubtreeRoot_split:
  obtains p q where "f = p @ ISCommonSubtreeRoot f l" "l = q @ ISCommonSubtreeRoot f l"
    "p = [] \<or> q = [] \<or> last p \<noteq> last q"
proof -
  let ?P = "take (length f - length l) f" and ?Q = "take (length l - length f) l"
  have "length (drop (length f - length l) f) = length (drop (length l - length f) l)" by simp
  from common_ancestor_split [OF this] obtain p q where pq: "drop (length f - length l) f = p @ ISCommonSubtreeRoot f l"
    "drop (length l - length f) l = q @ ISCommonSubtreeRoot f l" "length p = length q" "p = [] \<or> last p \<noteq> last q"
    unfolding ISCommonSubtreeRoot_def Let_def by blast
  have "f = (?P @ p) @ ISCommonSubtreeRoot f l" "l = (?Q @ q) @ ISCommonSubtreeRoot f l"
    using append_take_drop_id [of "length f - length l" f] append_take_drop_id [of "length l - length f" l]
    unfolding pq(1,2) by simp_all
  moreover have "?P @ p = [] \<or> ?Q @ q = [] \<or> last (?P @ p) \<noteq> last (?Q @ q)"
  proof (cases "p = []")
    case True
    have "?P = [] \<or> ?Q = []" by (cases "length f \<le> length l") auto
    then show ?thesis using True pq(3) by auto
  next
    case False
    then have "q \<noteq> []" using pq(3) by auto
    then show ?thesis using False pq(4) by (simp add: last_appendR)
  qed
  ultimately show ?thesis by (rule that)
qed

lemma map_eq_append: "map f xs = p @ q \<Longrightarrow> map f (take (length p) xs) = p \<and> map f (drop (length p) xs) = q"
  by (simp add: take_map [symmetric] drop_map [symmetric])

text \<open>Two nodes of a tree below their common ancestor.\<close>

lemma common_split:
  assumes "close tx fx = close ty fy"
  obtains gx gy up where "fx = gx @ up" "fy = gy @ up" "close tx gx = close ty gy"
    "length up = length (ISCommonSubtreeRoot (map dir_of fx) (map dir_of fy))"
    "gx = [] \<or> gy = [] \<or> dir_of (last gx) \<noteq> dir_of (last gy)"
proof -
  let ?c = "ISCommonSubtreeRoot (map dir_of fx) (map dir_of fy)"
  obtain p q where pq: "map dir_of fx = p @ ?c" "map dir_of fy = q @ ?c" "p = [] \<or> q = [] \<or> last p \<noteq> last q"
    by (rule ISCommonSubtreeRoot_split)
  let ?gx = "take (length p) fx" and ?ux = "drop (length p) fx" and ?gy = "take (length q) fy" and ?uy = "drop (length q) fy"
  have dirs: "map dir_of ?gx = p" "map dir_of ?ux = ?c" "map dir_of ?gy = q" "map dir_of ?uy = ?c"
    using map_eq_append [OF pq(1)] map_eq_append [OF pq(2)] by auto
  have "close (close tx ?gx) ?ux = close (close ty ?gy) ?uy"
    using assms by (simp add: close_append [symmetric])
  from loc_unique [OF this] have same: "?ux = ?uy" "close tx ?gx = close ty ?gy" using dirs by auto
  have "?gx = [] \<or> ?gy = [] \<or> dir_of (last ?gx) \<noteq> dir_of (last ?gy)"
    using pq(3) dirs(1,3) by (metis last_map list.map_disc_iff)
  moreover have "length ?ux = length ?c" using arg_cong [OF dirs(2), of length] by simp
  moreover have "fy = ?gy @ ?ux" unfolding same(1) by simp
  ultimately show ?thesis using that [of ?gx ?ux ?gy] same(2) by simp
qed

lemma before_length_less:
  "t \<noteq> Leaf \<Longrightarrow> length (before (total t) gs @ items (child False t)) < length (items (close t gs))"
  by (cases t) (auto simp: items_close)

text \<open>The last frame below the ancestor \<open>Node sl k v b m sr\<close>.\<close>

lemma last_frame:
  assumes "close t gs = Node sl k v b m sr" and "gs \<noteq> []"
  obtains hs where "gs = hs @ [Frame (dir_of (last gs)) k v b m (if dir_of (last gs) then sl else sr)]"
    "close t hs = (if dir_of (last gs) then sr else sl)"
proof (cases gs rule: rev_cases)
  case (snoc hs f)
  then show ?thesis using that [of hs] assms(1) by (cases f) (auto simp: close_append split: if_splits)
qed (use assms in simp)

text \<open>How many elements of the ancestor's subtree precede a node of it.\<close>

definition rank_below :: "('k, 'v, 'm::ab_group_add) tree \<Rightarrow> ('k, 'v, 'm) frame list \<Rightarrow> nat" where
  "rank_below t gs = length (before (total t) gs @ items (child False t))"

lemma rank_sides:
  assumes "close t gs = Node sl k v b m sr" and "t \<noteq> Leaf"
  shows "if gs = [] then rank_below t gs = length (items sl)
    else if dir_of (last gs) then length (items sl) < rank_below t gs else rank_below t gs < length (items sl)"
proof (cases "gs = []")
  case True
  then show ?thesis using assms by (simp add: rank_below_def)
next
  case False
  obtain hs where hs: "gs = hs @ [Frame (dir_of (last gs)) k v b m (if dir_of (last gs) then sl else sr)]"
    "close t hs = (if dir_of (last gs) then sr else sl)" by (rule last_frame [OF assms(1) False])
  have "before (total t) gs = before (out_total (total t) hs) [Frame (dir_of (last gs)) k v b m (if dir_of (last gs) then sl else sr)] @ before (total t) hs"
    by (subst hs(1)) (rule before_append)
  then show ?thesis
    using hs(2) before_length_less [OF assms(2), of hs] False by (auto simp: rank_below_def)
qed

text \<open>The half on one side: nothing happens when the node is the ancestor itself.\<close>

lemma left_half:
  assumes "close t gs = Node sl k v b m sr" and "avl sl" "avl sr" "b = height sr - height sl" and "t \<noteq> Leaf"
    and "gs \<noteq> [] \<Longrightarrow> \<not> dir_of (last gs)"
  shows "\<exists>n b' md hc fr'. eraseHalf True False t 0 0 fr gs = Some (Node n k v b' m sr, md, hc, fr') \<and> avl n \<and>
     b' = height sr - height n \<and> items n = before (total t) gs @ items (child False t) \<and> total n + md = total sl \<and>
     1 + max (height n) (height sr) - hc = height (Node sl k v b m sr) \<and> hc \<le> 0 \<and>
     freed fr' + mset (keys (items n)) = freed fr + mset (keys (items sl))"
proof (cases "gs = []")
  case True
  then show ?thesis using assms(1,2,3,4) by auto
next
  case False
  from assms(6) [OF False] obtain hs where hs: "gs = hs @ [Frame False k v b m sr]" "close t hs = sl"
    using last_frame [OF assms(1) False] by auto
  from eraseHalf_half [of t hs sr b False True fr k v m] assms hs obtain n b' md hc fr' where
    "eraseHalf True False t 0 0 fr gs = Some (Node n k v b' m sr, md, hc, fr')" "avl n" "semi (Node n k v b' m sr)"
    "items n = before (total t) hs @ items (child False t)" "total n + md = total sl"
    "height (Node n k v b' m sr) - hc = height (Node sl k v b m sr)" "hc \<le> 0"
    "freed fr' + mset (keys (items n)) = freed fr + mset (keys (items sl))" by (auto simp: close_append)
  then show ?thesis using hs by (auto simp: semi_def before_append)
qed

lemma right_half:
  assumes "close t gs = Node sl k v b m sr" and "avl sl" "avl sr" "b = height sr - height sl" and "t \<noteq> Leaf"
    and "gs \<noteq> [] \<Longrightarrow> dir_of (last gs)"
  shows "\<exists>n b' md hc fr'. eraseHalf False True t 0 0 fr gs = Some (Node sl k v b' m n, md, hc, fr') \<and> avl n \<and>
     b' = height n - height sl \<and> items n = items (child True t) @ after (total t) gs \<and> total n + md = total sr \<and>
     1 + max (height sl) (height n) - hc = height (Node sl k v b m sr) \<and> hc \<le> 0 \<and>
     freed fr' + mset (keys (items n)) = freed fr + mset (keys (items sr))"
proof (cases "gs = []")
  case True
  then show ?thesis using assms(1,2,3,4) by auto
next
  case False
  from assms(6) [OF False] obtain hs where hs: "gs = hs @ [Frame True k v b m sl]" "close t hs = sr"
    using last_frame [OF assms(1) False] by auto
  from eraseHalf_half [of t hs sl b True False fr k v m] assms hs obtain n b' md hc fr' where
    "eraseHalf False True t 0 0 fr gs = Some (Node sl k v b' m n, md, hc, fr')" "avl n" "semi (Node sl k v b' m n)"
    "items n = items (child True t) @ after (total t) hs" "total n + md = total sr"
    "height (Node sl k v b' m n) - hc = height (Node sl k v b m sr)" "hc \<le> 0"
    "freed fr' + mset (keys (items n)) = freed fr + mset (keys (items sr))" by (auto simp: close_append)
  then show ?thesis using hs by (auto simp: semi_def after_append)
qed

text \<open>The frames of the last node after the left half: only the ancestor's own frame has changed.\<close>

lemma follow_right:
  assumes "close t gs = Node sl k v b m sr" and "gs \<noteq> [] \<Longrightarrow> dir_of (last gs)"
  shows "\<exists>gs' t'. follow (rev (map dir_of gs)) (Node sl' k v b' m sr) [] = (gs', t') \<and>
     close t' gs' = Node sl' k v b' m sr \<and> (gs' = [] \<longleftrightarrow> gs = []) \<and> (gs' \<noteq> [] \<longrightarrow> dir_of (last gs')) \<and>
     (t \<noteq> Leaf \<longrightarrow> t' \<noteq> Leaf) \<and> items (child True t') @ after (total t') gs' = items (child True t) @ after (total t) gs"
proof (cases "gs = []")
  case True
  then show ?thesis using assms(1) by auto
next
  case False
  from assms(2) [OF False] obtain hs where hs: "gs = hs @ [Frame True k v b m sl]" "close t hs = sr"
    using last_frame [OF assms(1) False] by auto
  have "follow (rev (map dir_of gs)) (Node sl' k v b' m sr) [] = follow (rev (map dir_of hs)) sr [Frame True k v b' m sl']"
    using hs(1) by simp
  also have "\<dots> = (hs @ [Frame True k v b' m sl'], t)"
    using follow_close [of hs "[]" t "[Frame True k v b' m sl']"] hs(2) by simp
  finally show ?thesis using hs by (auto simp: close_append after_append)
qed

subsection \<open>Both halves and the whole range\<close>

text \<open>Both halves below the ancestor: what is left on its two sides.\<close>

lemma two_halves:
  assumes x: "close tx gx = Node sl k v b m sr" "tx \<noteq> Leaf" "gx \<noteq> [] \<Longrightarrow> \<not> dir_of (last gx)"
    and y: "close ty gy = Node sl k v b m sr" "ty \<noteq> Leaf" "gy \<noteq> [] \<Longrightarrow> dir_of (last gy)"
    and avl: "avl sl" "avl sr" "b = height sr - height sl"
  shows "\<exists>n1 b1 md1 hc1 fr1 gs t n2 b2 md2 hc2 fr2.
     eraseHalf True False tx 0 0 [] gx = Some (Node n1 k v b1 m sr, md1, hc1, fr1) \<and>
     follow (rev (map dir_of gy)) (Node n1 k v b1 m sr) [] = (gs, t) \<and>
     eraseHalf False True t 0 0 fr1 gs = Some (Node n1 k v b2 m n2, md2, hc2, fr2) \<and>
     semi (Node n1 k v b2 m n2) \<and> height (Node n1 k v b2 m n2) - (hc1 + hc2) = height (Node sl k v b m sr) \<and>
     items n1 = before (total tx) gx @ items (child False tx) \<and> items n2 = items (child True ty) @ after (total ty) gy \<and>
     total n1 + md1 = total sl \<and> total n2 + md2 = total sr \<and>
     freed fr2 + mset (keys (items n1)) + mset (keys (items n2)) = mset (keys (items sl)) + mset (keys (items sr))"
proof -
  obtain n1 b1 md1 hc1 fr1 where l: "eraseHalf True False tx 0 0 [] gx = Some (Node n1 k v b1 m sr, md1, hc1, fr1)" "avl n1"
    "b1 = height sr - height n1" "items n1 = before (total tx) gx @ items (child False tx)" "total n1 + md1 = total sl"
    "1 + max (height n1) (height sr) - hc1 = height (Node sl k v b m sr)"
    "freed fr1 + mset (keys (items n1)) = mset (keys (items sl))"
    using left_half [OF x(1) avl x(2,3), of "[]"] by auto
  obtain gs t where f: "follow (rev (map dir_of gy)) (Node n1 k v b1 m sr) [] = (gs, t)" "close t gs = Node n1 k v b1 m sr"
    "gs \<noteq> [] \<longrightarrow> dir_of (last gs)" "t \<noteq> Leaf"
    "items (child True t) @ after (total t) gs = items (child True ty) @ after (total ty) gy"
    using follow_right [OF y(1,3), of n1 b1] y(2) by auto
  obtain n2 b2 md2 hc2 fr2 where r: "eraseHalf False True t 0 0 fr1 gs = Some (Node n1 k v b2 m n2, md2, hc2, fr2)" "avl n2"
    "b2 = height n2 - height n1" "items n2 = items (child True t) @ after (total t) gs" "total n2 + md2 = total sr"
    "1 + max (height n1) (height n2) - hc2 = height (Node n1 k v b1 m sr)"
    "freed fr2 + mset (keys (items n2)) = freed fr1 + mset (keys (items sr))"
    using right_half [OF f(2) l(2) avl(2) l(3) f(4), of fr1] f(3) by blast
  have "semi (Node n1 k v b2 m n2)" using l(2) r(2,3) by (simp add: semi_def)
  moreover have "height (Node n1 k v b2 m n2) - (hc1 + hc2) = height (Node sl k v b m sr)" using l(6) r(6) by simp
  moreover have "freed fr2 + mset (keys (items n1)) + mset (keys (items n2)) = mset (keys (items sl)) + mset (keys (items sr))"
    using l(7) r(7) by (metis (no_types, opaque_lifting) add.assoc add.commute)
  moreover have "items n2 = items (child True ty) @ after (total ty) gy" using r(4) f(5) by simp
  ultimately show ?thesis using l(1,4,5) f(1) r(1,5) by blast
qed

text \<open>The nodes \<open>x\<close> and \<open>y\<close> stand on the two sides of their common ancestor.\<close>

lemma sides:
  assumes "close tx gx = Node sl k v b m sr" "tx \<noteq> Leaf" "close ty gy = Node sl k v b m sr" "ty \<noteq> Leaf"
    and "gx = [] \<or> gy = [] \<or> dir_of (last gx) \<noteq> dir_of (last gy)" and "rank_below tx gx \<le> rank_below ty gy"
  shows "gx \<noteq> [] \<Longrightarrow> \<not> dir_of (last gx)" and "gy \<noteq> [] \<Longrightarrow> dir_of (last gy)"
  using rank_sides [OF assms(1,2)] rank_sides [OF assms(3,4)] assms(5,6) by (auto split: if_splits)

lemma side_items:
  assumes "close t gs = Node sl k v b m sr" and "t \<noteq> Leaf"
  shows "(gs \<noteq> [] \<Longrightarrow> \<not> dir_of (last gs)) \<Longrightarrow> \<exists>zs. items sl = (before (total t) gs @ items (child False t)) @ zs"
    and "(gs \<noteq> [] \<Longrightarrow> dir_of (last gs)) \<Longrightarrow> \<exists>zs. items sr = zs @ items (child True t) @ after (total t) gs"
proof -
  obtain tl tk tv tb tm tr where t: "t = Node tl tk tv tb tm tr" using assms(2) by (cases t) auto
  show "\<exists>zs. items sl = (before (total t) gs @ items (child False t)) @ zs" if dir: "gs \<noteq> [] \<Longrightarrow> \<not> dir_of (last gs)"
  proof (cases "gs = []")
    case False
    from dir [OF False] obtain hs where hs: "gs = hs @ [Frame False k v b m sr]" "close t hs = sl"
      using last_frame [OF assms(1) False] by auto
    then show ?thesis using items_close [of t hs] by (auto simp: before_append t)
  qed (use assms in simp)
  show "\<exists>zs. items sr = zs @ items (child True t) @ after (total t) gs" if dir: "gs \<noteq> [] \<Longrightarrow> dir_of (last gs)"
  proof (cases "gs = []")
    case False
    from dir [OF False] obtain hs where hs: "gs = hs @ [Frame True k v b m sl]" "close t hs = sr"
      using last_frame [OF assms(1) False] by auto
    then show ?thesis using items_close [of t hs] by (auto simp: after_append t)
  qed (use assms in simp)
qed

lemma erase_between_ok:
  assumes root: "indexed_set root" and x: "loc_in root x" and y: "loc_in root y"
    and order: "length (loc_before x) \<le> length (loc_before y)"
  shows "\<exists>root' fr del. erase_between x y = Some (root', fr, del) \<and> indexed_set root' \<and> items root' = loc_before x @ loc_after y \<and>
     mset (keys (items root)) = mset (keys (items root')) + mset del + freed fr"
proof -
  obtain fx tx fy ty where xy: "x = (fx, tx)" "y = (fy, ty)" by (cases x; cases y)
  have loc: "close tx fx = root" "tx \<noteq> Leaf" "close ty fy = root" "ty \<noteq> Leaf" using x y xy by (auto simp: loc_in_def)
  then obtain gx gy up where split: "fx = gx @ up" "fy = gy @ up" "close tx gx = close ty gy"
    "length up = length (ISCommonSubtreeRoot (map dir_of fx) (map dir_of fy))" "gx = [] \<or> gy = [] \<or> dir_of (last gx) \<noteq> dir_of (last gy)"
    using common_split [of tx fx ty fy] by metis
  obtain sl k v b m sr where sub: "close tx gx = Node sl k v b m sr"
  proof (cases "close tx gx")
    case Leaf
    then show ?thesis using items_close [of tx gx] loc(2) by simp
  qed
  have close: "close (Node sl k v b m sr) up = root" using loc(1) split(1) sub by (simp add: close_append)
  have "avl (Node sl k v b m sr)" and frames: "frames_ok (height (Node sl k v b m sr)) up"
    using root avl_close [of "Node sl k v b m sr" up] close by (simp_all add: indexed_set_def)
  then have avl: "avl sl" "avl sr" "b = height sr - height sl" by auto
  have sub': "close ty gy = Node sl k v b m sr" using split(3) sub by simp
  have tot: "out_total (total tx) gx = m" "out_total (total ty) gy = m" using total_close [of tx gx] total_close [of ty gy] sub sub' by auto
  have bx: "loc_before x = before m up @ before (total tx) gx @ items (child False tx)"
    and lb: "loc_before y = before m up @ before (total ty) gy @ items (child False ty)"
    and ay: "loc_after y = items (child True ty) @ after (total ty) gy @ after m up"
    using xy split(1,2) tot by (simp_all add: loc_before_def loc_after_def before_append after_append)
  have rank: "rank_below tx gx \<le> rank_below ty gy" using order bx lb by (simp add: rank_below_def)
  note side = sides [OF sub loc(2) sub' loc(4) split(5) rank]
  obtain n1 b1 md1 hc1 fr1 gs t n2 b2 md2 hc2 fr2 where half:
    "eraseHalf True False tx 0 0 [] gx = Some (Node n1 k v b1 m sr, md1, hc1, fr1)"
    "follow (rev (map dir_of gy)) (Node n1 k v b1 m sr) [] = (gs, t)"
    "eraseHalf False True t 0 0 fr1 gs = Some (Node n1 k v b2 m n2, md2, hc2, fr2)" "semi (Node n1 k v b2 m n2)"
    "height (Node n1 k v b2 m n2) - (hc1 + hc2) = height (Node sl k v b m sr)"
    "items n1 = before (total tx) gx @ items (child False tx)" "items n2 = items (child True ty) @ after (total ty) gy"
    "total n1 + md1 = total sl" "total n2 + md2 = total sr"
    "freed fr2 + mset (keys (items n1)) + mset (keys (items n2)) = mset (keys (items sl)) + mset (keys (items sr))"
    using two_halves [OF sub loc(2) side(1) sub' loc(4) side(2) avl] by blast
  have "frames_ok (height (Node n1 k v b2 m n2) - (hc1 + hc2)) up" using frames unfolding half(5) .
  from rebalance_up_ok [OF half(4) _ this, of "md1 + md2"] obtain root1 where up: "rebalance_up (Node n1 k v b2 m n2) (md1 + md2) (hc1 + hc2) up = Some root1" "avl root1"
    "items root1 = before m up @ items (set_total (m - (md1 + md2)) (Node n1 k v b2 m n2)) @ after m up"
    by auto
  have items1: "items root1 = loc_before x @ (k, v, m - (md1 + md2) - total n1 - total n2) # loc_after y"
    using up(3) half(6,7) bx ay by simp
  have items: "items root = before m up @ items sl @ (k, v, m - total sl - total sr) # items sr @ after m up"
    using items_close [of "Node sl k v b m sr" up] close by simp
  have ends: "loc_before x = before m up @ items n1" "loc_after y = items n2 @ after m up"
    using half(6,7) bx ay by simp_all
  have keys: "mset (keys (items root)) = mset (keys (items root1)) + freed fr2"
    using half(10) [symmetric] by (simp add: items items1 ends add_ac)
  obtain zs zs' where zs: "items sl = items n1 @ zs" "items sr = zs' @ items n2"
    using side_items(1) [OF sub loc(2) side(1)] side_items(2) [OF sub' loc(4) side(2)] half(6,7) by auto
  have "indexed_set root1"
    using root up(2) by (auto simp: indexed_set_def items items1 ends zs sorted_wrt_append)
  then obtain root2 where erased: "erase_key root1 k = (root2, [k])" "indexed_set root2" "items root2 = filter (\<lambda>z. fst z \<noteq> k) (items root1)"
    using erase_key_ok [of root1 k] by (cases "erase_key root1 k") (auto simp: items1 split: if_splits)
  have "k \<notin> set (keys (loc_before x)) \<union> set (keys (loc_after y))"
    using \<open>indexed_set root1\<close> by (auto simp: indexed_set_def items1 sorted_wrt_append)
  then have "filter (\<lambda>z. fst z \<noteq> k) (loc_before x) = loc_before x" "filter (\<lambda>z. fst z \<noteq> k) (loc_after y) = loc_after y"
    by (force simp: keys_def filter_id_conv)+
  then have "items root2 = loc_before x @ loc_after y" by (simp add: erased(3) items1)
  moreover have "erase_between x y = Some (root2, fr2, [k])"
    using half(1,2,3) up(1) split(1,2,4) erased(1) by (simp add: erase_between_def xy Let_def erase_key_def flip: rev_map)
  ultimately show ?thesis using erased(2) by (intro exI [of _ root2] exI [of _ fr2] exI [of _ "[k]"]) (simp add: keys items1)
qed

text \<open>The elements before an iterator; \<open>end()\<close> follows all of them.\<close>

definition iter_before :: "('k, 'v, 'm::ab_group_add) tree \<Rightarrow> ('k, 'v, 'm) loc option \<Rightarrow> ('k \<times> 'v \<times> 'm) list" where
  "iter_before root it = (case it of None \<Rightarrow> items root | Some x \<Rightarrow> loc_before x)"

definition iter_in :: "('k, 'v, 'm::ab_group_add) tree \<Rightarrow> ('k, 'v, 'm) loc option \<Rightarrow> bool" where
  "iter_in root it = (case it of None \<Rightarrow> True | Some x \<Rightarrow> loc_in root x)"

lemma previous_iter:
  assumes "iter_in root it" and "iter_before root it \<noteq> []"
  shows "\<exists>y. previous root it = Some y \<and> loc_in root y \<and> loc_before y @ [loc_item y] = iter_before root it \<and>
     items root = iter_before root it @ loc_after y"
proof (cases it)
  case None
  then have "root \<noteq> Leaf" using assms(2) by (auto simp: iter_before_def)
  from outermost_position [OF this, of True "[]"] obtain y where y: "lastItem root = Some y" "loc_in root y" "loc_after y = []"
    by (auto simp: lastItem_def)
  then show ?thesis using loc_items [OF y(2)] None by (simp add: iter_before_def previous_def)
next
  case (Some x)
  then have x: "loc_in root x" "loc_before x \<noteq> []" using assms by (auto simp: iter_in_def iter_before_def)
  from previous_ok [OF x(1)] x(2) obtain y where y: "moveIterator False x = Some y" "loc_in root y" "loc_after y = loc_item x # loc_after x"
    by auto
  have "loc_before y @ [loc_item y] = loc_before x"
    using loc_items [OF x(1)] loc_items [OF y(2)] y(3) by simp
  then show ?thesis using Some y loc_items [OF y(2)] by (auto simp: iter_before_def previous_def)
qed

lemma loc_rank_unique:
  assumes "loc_in root x" "loc_in root y" "length (loc_before x) = length (loc_before y)"
  shows "x = y"
proof -
  obtain fx tx fy ty where xy: "x = (fx, tx)" "y = (fy, ty)" by (cases x; cases y)
  have loc: "close tx fx = root" "tx \<noteq> Leaf" "close ty fy = root" "ty \<noteq> Leaf" using assms(1,2) xy by (auto simp: loc_in_def)
  then obtain gx gy up where split: "fx = gx @ up" "fy = gy @ up" "close tx gx = close ty gy"
    "gx = [] \<or> gy = [] \<or> dir_of (last gx) \<noteq> dir_of (last gy)"
    using common_split [of tx fx ty fy] by metis
  obtain sl k v b m sr where sub: "close tx gx = Node sl k v b m sr"
  proof (cases "close tx gx")
    case Leaf
    then show ?thesis using items_close [of tx gx] loc(2) by simp
  qed
  have sub': "close ty gy = Node sl k v b m sr" using split(3) sub by simp
  have "out_total (total tx) gx = out_total (total ty) gy" using total_close [of tx gx] total_close [of ty gy] sub sub' by simp
  then have "rank_below tx gx = rank_below ty gy"
    using assms(3) xy split(1,2) by (simp add: loc_before_def rank_below_def before_append)
  then have "gx = []" "gy = []" using rank_sides [OF sub loc(2)] rank_sides [OF sub' loc(4)] split(4) by (auto split: if_splits)
  then show ?thesis using split xy by simp
qed

lemma loc_order:
  assumes "indexed_set root" "loc_in root x" "loc_in root y"
  shows "length (loc_before x) \<le> length (loc_before y) \<longleftrightarrow> fst (loc_item x) \<le> fst (loc_item y)"
proof -
  have nth: "keys (items root) ! length (loc_before z) = fst (loc_item z)" "length (loc_before z) < length (keys (items root))"
    if "loc_in root z" for z using loc_items [OF that] by (simp_all add: keys_def nth_append)
  have "sorted_wrt (<) (keys (items root))" using assms(1) by (simp add: indexed_set_def)
  then show ?thesis
    using nth [OF assms(2)] nth [OF assms(3)] sorted_wrt_nth_less [of "(<)" "keys (items root)"]
    by (metis leD leI nless_le order.refl)
qed

lemma same_iter_iff:
  assumes "iter_in root i" "iter_in root j"
  shows "same_node i j \<longleftrightarrow> length (iter_before root i) = length (iter_before root j)"
proof (cases i; cases j)
  fix x y assume ij: "i = Some x" "j = Some y"
  then show ?thesis
    using assms same_node_iff [of root x y] loc_rank_unique [of root x y] by (auto simp: iter_in_def iter_before_def)
qed (use assms loc_items [of root] in \<open>auto simp: iter_in_def iter_before_def same_node_def\<close>)

text \<open>The assertion of \<open>erase(begin, end, toFree)\<close> holds exactly when \<open>begin\<close> does not follow \<open>end\<close>.\<close>

lemma erase_assert_iff:
  assumes "indexed_set root" "iter_in root i" "iter_in root j"
  shows "(case j of None \<Rightarrow> True
          | Some e \<Rightarrow> (case i of None \<Rightarrow> False | Some x \<Rightarrow> the (loc_key x) \<le> the (loc_key e))) \<longleftrightarrow>
    length (iter_before root i) \<le> length (iter_before root j)"
proof (cases i; cases j)
  fix x y assume ij: "i = Some x" "j = Some y"
  then show ?thesis
    using assms loc_order [of root x y] loc_key_item [of root] by (auto simp: iter_in_def iter_before_def)
qed (use assms loc_items [of root] in \<open>auto simp: iter_in_def iter_before_def\<close>)

lemma iter_prefix: "iter_in root i \<Longrightarrow> take (length (iter_before root i)) (items root) = iter_before root i"
  using loc_items [of root] by (auto simp: iter_in_def iter_before_def split: option.splits)

lemma erase_range_ok:
  assumes root: "indexed_set root" and it: "iter_in root from" "iter_in root to"
  shows "if length (iter_before root from) \<le> length (iter_before root to)
    then \<exists>root' fr del. erase_range root from to = Some (root', fr, del) \<and> indexed_set root' \<and>
      items root' = iter_before root from @ drop (length (iter_before root to)) (items root) \<and>
      mset (keys (items root)) = mset (keys (items root')) + mset del + freed fr
    else erase_range root from to = None"
proof -
  let ?f = "iter_before root from" and ?t = "iter_before root to"
  note assert = erase_assert_iff [OF assms]
  consider "length ?f = length ?t" | "length ?f < length ?t" | "length ?t < length ?f" by linarith
  then show ?thesis
  proof cases
    case 1
    have "items root = ?f @ drop (length ?t) (items root)"
      using iter_prefix [OF it(1)] 1 append_take_drop_id [of "length ?t" "items root"] by simp
    moreover have "erase_range root from to = Some (root, [], [])"
      using 1 assert same_iter_iff [OF it] by (auto simp: erase_range_def)
    moreover have "mset (keys (items root)) = mset (keys (items root)) + mset [] + freed []" by simp
    ultimately show ?thesis using 1 root by (metis order.refl)
  next
    case 2
    then have "?t \<noteq> []" by auto
    then obtain y where y: "previous root to = Some y" "loc_in root y" "loc_before y @ [loc_item y] = ?t" "items root = ?t @ loc_after y"
      using previous_iter [OF it(2)] by blast
    have "length ?t \<le> length (items root)" using y(4) by simp
    then obtain x where x: "from = Some x" "loc_in root x" using it(1) 2 by (auto simp: iter_in_def iter_before_def split: option.splits)
    have "length (loc_before x) \<le> length (loc_before y)"
      using 2 x arg_cong [OF y(3), of length] by (simp add: iter_before_def)
    from erase_between_ok [OF root x(2) y(2) this] obtain root' fr del where e: "erase_between x y = Some (root', fr, del)" "indexed_set root'"
      "items root' = loc_before x @ loc_after y" "mset (keys (items root)) = mset (keys (items root')) + mset del + freed fr"
      by (auto simp del: mset_append)
    have "drop (length ?t) (items root) = loc_after y" using y(4) by simp
    moreover have "?f = loc_before x" using x by (simp add: iter_before_def)
    moreover have "erase_range root from to = erase_between x y"
      using x y(1) 2 assert same_iter_iff [OF it] by (auto simp: erase_range_def)
    ultimately show ?thesis using e 2 by (metis less_imp_le)
  next
    case 3
    then show ?thesis using assert by (auto simp: erase_range_def)
  qed
qed

lemma lower_bound_iter:
  assumes "indexed_set root"
  shows "iter_in root (lower_bound root key)" "iter_before root (lower_bound root key) = filter (\<lambda>x. fst x < key) (items root)"
  using lower_bound_ok [OF assms, of key]
  by (auto simp: iter_in_def iter_before_def filter_id_conv split: option.splits)

lemma length_filter_mono: "(\<And>x. x \<in> set xs \<Longrightarrow> P x \<Longrightarrow> Q x) \<Longrightarrow> length (filter P xs) \<le> length (filter Q xs)"
  by (induction xs) auto

lemma drop_filter_less:
  fixes xs :: "('k::linorder \<times> 'v \<times> 'm) list"
  assumes "sorted_wrt (<) (keys xs)"
  shows "drop (length (filter (\<lambda>x. fst x < key) xs)) xs = filter (\<lambda>x. \<not> fst x < key) xs"
  using assms
proof (induction xs)
  case (Cons x xs)
  show ?case
  proof (cases "fst x < key")
    case False
    have "\<forall>y\<in>set xs. fst x < fst y" using Cons.prems by (auto simp: keys_def)
    then have "\<forall>y\<in>set xs. \<not> fst y < key" using False by (meson order.strict_trans)
    then have "filter (\<lambda>x. fst x < key) xs = []" "filter (\<lambda>x. \<not> fst x < key) xs = xs"
      by (simp_all add: filter_empty_conv filter_id_conv)
    then show ?thesis using False by simp
  qed (use Cons in simp)
qed simp

lemma erase_key_range_ok:
  assumes "indexed_set root" and "from \<le> to"
  shows "\<exists>root' fr del. erase_key_range root from to = Some (root', fr, del) \<and> indexed_set root' \<and>
     items root' = filter (\<lambda>x. \<not> (from \<le> fst x \<and> fst x < to)) (items root)"
proof -
  have sorted: "sorted_wrt (<) (keys (items root))" using assms(1) by (simp add: indexed_set_def)
  have "length (filter (\<lambda>x. fst x < from) (items root)) \<le> length (filter (\<lambda>x. fst x < to) (items root))"
    using assms(2) by (intro length_filter_mono) auto
  then obtain root' fr del where e: "erase_key_range root from to = Some (root', fr, del)" "indexed_set root'"
    "items root' = filter (\<lambda>x. fst x < from) (items root) @ filter (\<lambda>x. \<not> fst x < to) (items root)"
    using erase_range_ok [OF assms(1) lower_bound_iter(1) lower_bound_iter(1), of "from" to] assms(1)
    by (auto simp: erase_key_range_def lower_bound_iter(2) drop_filter_less [OF sorted])
  moreover have "filter (\<lambda>x. fst x < from) xs @ filter (\<lambda>x. \<not> fst x < to) xs = filter (\<lambda>x. \<not> (from \<le> fst x \<and> fst x < to)) xs"
    if "sorted_wrt (<) (keys xs)" for xs :: "('a \<times> 'b \<times> 'c) list"
    using that
  proof (induction xs)
    case (Cons x xs)
    have "filter (\<lambda>x. fst x < from) xs = []" if "\<not> fst x < from"
      using that Cons.prems by (fastforce simp: keys_def filter_empty_conv)
    then show ?case using Cons assms(2) by (cases "fst x < from") auto
  qed simp
  ultimately show ?thesis using sorted by simp
qed

end
