(* ===== verification/IndexedSet_Free.thy ===== *)
theory IndexedSet_Free
  imports IndexedSet_Range
begin

text \<open>
  The release of the nodes of an erased range: \<open>ISFreeNodesSync\<close> repeats \<open>ISFreeNodeImpl\<close> until the stack and
  the prefetch queue are empty.  It ends, and it deletes every node of the forest exactly once.
\<close>

fun nodes :: "('k, 'v, 'm) tree \<Rightarrow> nat" where
  "nodes Leaf = 0"
| "nodes (Node l k v b m r) = nodes l + nodes r + 1"

definition work :: "('k, 'v, 'm) tree list \<Rightarrow> nat" where
  "work ts = sum_list (map (\<lambda>t. 2 * nodes t + 1) ts)"

lemma work_simps [simp]: "work [] = 0" "work (t # ts) = 2 * nodes t + 1 + work ts" "work (ts @ us) = work ts + work us"
  by (simp_all add: work_def)

lemma work_push_child: "work (push_child c) \<le> 2 * nodes c + 1"
  by (simp add: push_child_def)

lemma prefetch_ok:
  assumes "prefetch toFree queue = (toFree', queue')"
  shows "mset (toFree @ queue) = mset (toFree' @ queue') \<and> (toFree \<noteq> [] \<or> queue \<noteq> [] \<longrightarrow> queue' \<noteq> [])"
  using assms
proof (induction toFree queue rule: prefetch.induct)
  case (1 toFree queue)
  show ?case
  proof (cases "length queue < 10 \<and> toFree \<noteq> []")
    case True
    have "mset toFree = add_mset (last toFree) (mset (butlast toFree))"
      using True by (metis append_butlast_last_id mset.simps mset_append add_mset_add_single)
    then show ?thesis using "1.IH" [OF True] "1.prems" True by (auto simp: prefetch.simps [of toFree queue])
  next
    case False
    then show ?thesis using "1.prems" by (auto simp: prefetch.simps [of toFree queue])
  qed
qed

lemma work_mset: "mset ts = mset us \<Longrightarrow> work ts = work us"
  unfolding work_def by (simp flip: sum_mset_sum_list)

text \<open>One call takes a node from the queue and leaves its children.\<close>

lemma ISFreeNodeImpl_ok:
  assumes "ISFreeNodeImpl toFree queue = Some (toFree', queue', ks)"
  obtains t rest where "mset (toFree @ queue) = add_mset t (mset rest)"
    "mset (toFree' @ queue') = mset (push_child (child False t) @ push_child (child True t) @ rest)"
    "ks = (case t of Leaf \<Rightarrow> [] | Node l k v b m r \<Rightarrow> [k])"
proof -
  have del: "delete_node (set_child True Leaf (set_child False Leaf t)) = (case t of Leaf \<Rightarrow> [] | Node l k v b m r \<Rightarrow> [k])"
    for t :: "('a, 'b, 'c) tree" by (cases t) simp_all
  obtain a q where p: "prefetch toFree queue = (a, q)" by (cases "prefetch toFree queue")
  have "q \<noteq> []" "mset (toFree @ queue) = mset (a @ q)"
    using prefetch_ok [OF p] assms by (auto simp: ISFreeNodeImpl_def split: if_splits)
  then obtain t ts where q: "q = t # ts" "mset (toFree @ queue) = add_mset t (mset (a @ ts))" by (cases q) auto
  show ?thesis
    by (rule that [of t "a @ ts"])
      (use assms p q in \<open>auto simp: ISFreeNodeImpl_def Let_def del split: if_splits\<close>)
qed

lemma ISFreeNodeImpl_work:
  assumes "ISFreeNodeImpl toFree queue = Some (toFree', queue', ks)"
  shows "work (toFree' @ queue') < work (toFree @ queue)"
proof -
  obtain t rest where t: "mset (toFree @ queue) = mset (t # rest)"
    "mset (toFree' @ queue') = mset (push_child (child False t) @ push_child (child True t) @ rest)"
    using ISFreeNodeImpl_ok [OF assms] by (metis mset.simps(2))
  have "work (push_child (child False t)) + work (push_child (child True t)) < 2 * nodes t + 1"
  proof (cases t)
    case (Node l k v b m r)
    then show ?thesis using work_push_child [of l] work_push_child [of r] by simp
  qed (simp add: push_child_def)
  then show ?thesis using work_mset [OF t(1)] work_mset [OF t(2)] by simp
qed

function ISFreeNodesSync :: "('k, 'v, 'm) tree list \<Rightarrow> ('k, 'v, 'm) tree list \<Rightarrow> 'k list" where
  "ISFreeNodesSync toFree prefetchQueue =
     (case ISFreeNodeImpl toFree prefetchQueue of
        None \<Rightarrow> []
      | Some (toFree, prefetchQueue, deleted) \<Rightarrow> deleted @ ISFreeNodesSync toFree prefetchQueue)"
  by pat_completeness auto
termination
  by (relation "measure (\<lambda>(toFree, prefetchQueue). work (toFree @ prefetchQueue))")
    (auto simp del: work_simps dest!: sym [THEN ISFreeNodeImpl_work] ISFreeNodeImpl_work)

declare ISFreeNodesSync.simps [simp del]

lemma freed_sum: "freed ts = \<Sum>\<^sub># (image_mset (\<lambda>t. mset (keys (items t))) (mset ts))"
  by (induction ts) auto

lemma freed_mset: "mset ts = mset us \<Longrightarrow> freed ts = freed us"
  by (simp add: freed_sum)

lemma freed_push_child: "freed (push_child c) = mset (keys (items c))"
  by (simp add: push_child_def)

lemma ISFreeNodesSync_ok: "mset (ISFreeNodesSync toFree queue) = freed (toFree @ queue)"
proof (induction toFree queue rule: ISFreeNodesSync.induct)
  case (1 toFree queue)
  show ?case
  proof (cases "ISFreeNodeImpl toFree queue")
    case None
    then have "toFree = []" "queue = []"
      by (auto simp: ISFreeNodeImpl_def Let_def split: if_splits prod.splits)
    then show ?thesis using None by (simp add: ISFreeNodesSync.simps)
  next
    case (Some x)
    then obtain a q ks where step: "ISFreeNodeImpl toFree queue = Some (a, q, ks)" by (cases x) auto
    obtain t rest where t: "mset (toFree @ queue) = mset (t # rest)"
      "mset (a @ q) = mset (push_child (child False t) @ push_child (child True t) @ rest)"
      "ks = (case t of Leaf \<Rightarrow> [] | Node l k v b m r \<Rightarrow> [k])"
      using ISFreeNodeImpl_ok [OF step] by (metis mset.simps(2))
    have "mset ks + mset (keys (items (child False t))) + mset (keys (items (child True t))) = mset (keys (items t))"
      using t(3) by (cases t) auto
    then have "mset ks + freed (a @ q) = freed (toFree @ queue)"
      unfolding freed_mset [OF t(1)] freed_mset [OF t(2)] by (simp add: freed_push_child add.assoc flip: add.assoc)
    then show ?thesis using 1 [OF step refl refl] step by (subst ISFreeNodesSync.simps) simp
  qed
qed

subsection \<open>Erasing a range and freeing it\<close>

text \<open>\<open>erase(begin, end)\<close>: the tree, and every node that is freed on the way, in the order of the calls of \<open>delete\<close>.\<close>

definition erase_sync ::
  "('k::linorder, 'v, 'm::ab_group_add) tree \<Rightarrow> ('k, 'v, 'm) loc option \<Rightarrow> ('k, 'v, 'm) loc option \<Rightarrow> (('k, 'v, 'm) tree \<times> 'k list) option" where
  "erase_sync root begin_it end_it =
     (case erase_range root begin_it end_it of
        None \<Rightarrow> None
      | Some (root, toFree, deleted) \<Rightarrow> Some (root, deleted @ ISFreeNodesSync toFree []))"

lemma erase_sync_ok:
  assumes "indexed_set root" "iter_in root i" "iter_in root j" "length (iter_before root i) \<le> length (iter_before root j)"
  shows "\<exists>root' deleted. erase_sync root i j = Some (root', deleted) \<and> indexed_set root' \<and>
     items root' = iter_before root i @ drop (length (iter_before root j)) (items root) \<and>
     mset (keys (items root)) = mset (keys (items root')) + mset deleted"
proof -
  obtain root' fr del where e: "erase_range root i j = Some (root', fr, del)" "indexed_set root'"
    "items root' = iter_before root i @ drop (length (iter_before root j)) (items root)"
    "mset (keys (items root)) = mset (keys (items root')) + mset del + freed fr"
    using erase_range_ok [OF assms(1,2,3)] unfolding if_P [OF assms(4)] by blast
  then have "erase_sync root i j = Some (root', del @ ISFreeNodesSync fr [])" by (simp add: erase_sync_def)
  moreover have "mset (keys (items root)) = mset (keys (items root')) + mset (del @ ISFreeNodesSync fr [])"
    using e(4) by (simp add: ISFreeNodesSync_ok add.assoc)
  ultimately show ?thesis using e(2,3) by blast
qed

end
