(* ===== verification/IndexedSet_Vector.thy ===== *)
theory IndexedSet_Vector
  imports IndexedSet_Ops
begin

text \<open>
  The insertion of a vector into an \<open>IndexedSet\<close>.  The code remembers the node it inserted last and the key
  that follows it, and inserts the next element directly behind that node when it is below that key.  For a
  vector with increasing keys this is the same as inserting the elements one by one.
\<close>

subsection \<open>The free place behind a node\<close>

lemma free_place_first:
  "close Leaf (free_place False t fs) = close t fs \<and> before 0 (free_place False t fs) = before (total t) fs \<and>
     after 0 (free_place False t fs) = items t @ after (total t) fs"
  by (induction t arbitrary: fs) auto

lemma free_place_behind:
  assumes "t = Node l k v b m r"
  shows "close Leaf (free_place True t fs) = close t fs"
    and "before 0 (free_place True t fs) = before m fs @ items l @ [(k, v, m - total l - total r)]"
    and "after 0 (free_place True t fs) = items r @ after m fs"
  using free_place_first [of r "Frame True k v b m l # fs"] assms by (auto simp: algebra_simps)

lemma node_of_ok:
  assumes "key \<in> set (keys (items t))"
  shows "\<exists>gs l v b m r. node_of key t fs = Some (gs, Node l key v b m r) \<and> close (Node l key v b m r) gs = close t fs"
  using assms
proof (induction t arbitrary: fs)
  case (Node l k v b m r)
  have none: "node_of key t fs = None" if "key \<notin> set (keys (items t))" for t :: "('a, 'b, 'c) tree" and fs
    using that by (induction t arbitrary: fs) auto
  consider "key = k" | "key \<noteq> k" "key \<in> set (keys (items l))" | "key \<noteq> k" "key \<notin> set (keys (items l))" "key \<in> set (keys (items r))"
    using Node.prems by auto
  then show ?case
  proof cases
    case 2
    then show ?thesis using Node.IH(1) [of "Frame False k v b m r # fs"] by auto
  next
    case 3
    then show ?thesis using Node.IH(2) [of "Frame True k v b m l # fs"] none [OF 3(2)] by auto
  qed auto
qed simp

subsection \<open>The search\<close>

definition first_key :: "('k \<times> 'v \<times> 'm) list \<Rightarrow> 'k option" where
  "first_key xs = (case xs of [] \<Rightarrow> None | x # _ \<Rightarrow> Some (fst x))"

lemma first_key_simps [simp]: "first_key [] = None" "first_key (x # xs) = Some (fst x)"
  by (simp_all add: first_key_def)

lemma vector_search_descend:
  assumes "t \<noteq> Leaf" and "descend key t fs = (gs, u)" and "be = first_key (after (total t) fs)"
  shows "if u = Leaf then \<exists>fs' t' d. vector_search key t fs be = ((fs', t'), d, False, first_key (after 0 gs)) \<and> free_place d t' fs' = gs
    else vector_search key t fs be = ((gs, u), False, True, Some key)"
  using assms
proof (induction key t fs be arbitrary: gs u rule: vector_search.induct)
  case (2 key l k v b m r fs be)
  consider "key = k" | "k < key" | "key < k" by force
  then show ?case
  proof cases
    case 1
    then show ?thesis using "2.prems" by auto
  next
    case right: 2
    then have ne: "key \<noteq> k" "\<not> key < k" by auto
    show ?thesis
    proof (cases "r = Leaf")
      case True
      then have "gs = Frame True k v b m l # fs" "u = Leaf" using right ne "2.prems"(2) by simp_all
      then show ?thesis using True right "2.prems"(3) by auto
    next
      case False
      then show ?thesis using right ne "2.IH"(1) [of gs u] "2.prems" by (simp split: if_splits)
    qed
  next
    case left: 3
    then have ne: "key \<noteq> k" "\<not> k < key" by auto
    show ?thesis
    proof (cases "l = Leaf")
      case True
      then have "gs = Frame False k v b m r # fs" "u = Leaf" using left ne "2.prems"(2) by simp_all
      then show ?thesis using True left by auto
    next
      case False
      then show ?thesis using left ne "2.IH"(2) [of gs u] "2.prems" by (simp split: if_splits)
    qed
  qed
qed simp

subsection \<open>One element of the vector\<close>

definition add_one :: "bool \<Rightarrow> ('k::linorder \<times> 'v \<times> 'm) list \<Rightarrow> 'k \<times> 'v \<times> 'm \<Rightarrow> ('k \<times> 'v \<times> 'm) list" where
  "add_one replace xs x = (if replace \<or> fst x \<notin> set (keys xs) then put (fst x) (fst (snd x)) (snd (snd x)) xs else xs)"

text \<open>The block behind the last element: it ends at the next key, or at the element itself when it was there
  before.\<close>

definition block_ok :: "('k::linorder, 'v, 'm::ab_group_add) tree \<Rightarrow> 'k option \<Rightarrow> 'k option \<Rightarrow> bool" where
  "block_ok root bs be \<longleftrightarrow> (case bs of None \<Rightarrow> True
     | Some s \<Rightarrow> s \<in> set (keys (items root)) \<and> (be = Some s \<or> be = first_key (filter (\<lambda>x. s < fst x) (items root))))"

lemma filter_put_greater [simp]: "filter (\<lambda>x. key < fst x) (put key val metric xs) = filter (\<lambda>x. key < fst x) xs"
  by (induction xs) (auto simp: put_def)

lemma keys_put [simp]: "set (keys (put key val metric xs)) = insert key (set (keys xs))"
  by (force simp: put_def keys_def)

lemma search_step_ok:
  assumes root: "indexed_set root" and search: "bs = None \<or> (\<exists>e. be = Some e \<and> e \<le> key)"
  shows "\<exists>root' be'. vector_step replace (root, n, bs, be) (key, val, metric) =
      (root', n + (if replace \<or> key \<notin> set (keys (items root)) then 1 else 0), Some key, be') \<and>
     indexed_set root' \<and> items root' = add_one replace (items root) (key, val, metric) \<and> block_ok root' (Some key) be'"
proof (cases "root = Leaf")
  case True
  then show ?thesis using search by (auto simp: indexed_set_def add_one_def put_def block_ok_def)
next
  case False
  obtain gs u where d: "descend key root [] = (gs, u)" by (cases "descend key root []")
  note search_eq = vector_search_descend [OF False d, of None]
  have sorted: "sorted_wrt (<) (keys (put key val metric (items root)))"
    using root by (intro sorted_put) (simp add: indexed_set_def)
  from descend_root [OF root d] show ?thesis
  proof cases
    case 1
    then obtain fs' t' dir where v: "vector_search key root [] None = ((fs', t'), dir, False, first_key (after 0 gs))"
      "free_place dir t' fs' = gs" using search_eq by auto
    let ?root = "insert_up metric (Node Leaf key val 0 metric Leaf) gs"
    have new: "avl ?root" "items ?root = put key val metric (items root)"
      using new_node_ok [OF 1(3), of metric key val] 1(4,5) by (simp_all add: put_def)
    have "vector_step replace (root, n, bs, be) (key, val, metric) = (?root, n + 1, Some key, first_key (after 0 gs))"
      using v search False by auto
    then show ?thesis
      using new sorted 1(5,7) by (auto simp: indexed_set_def add_one_def block_ok_def)
  next
    case (2 l v b m r)
    have v: "vector_search key root [] None = ((gs, u), False, True, Some key)" using search_eq 2(1) by auto
    have key: "key \<in> set (keys (items root))" using 2(5) by simp
    show ?thesis
    proof (cases replace)
      case True
      have "avl (replace_node key val metric gs u)" "items (replace_node key val metric gs u) = put key val metric (items root)"
        using replace_node_ok [of l key v b m r gs key val metric] root 2(1,2,3,4) by (auto simp: indexed_set_def put_def)
      then show ?thesis using v search False True sorted by (auto simp: indexed_set_def add_one_def block_ok_def)
    next
      case False
      then show ?thesis using v search \<open>root \<noteq> Leaf\<close> root key by (auto simp: add_one_def block_ok_def)
    qed
  qed
qed

lemma block_step_ok:
  assumes root: "indexed_set root" and block: "block_ok root (Some s) be" and key: "s < key" "\<And>e. be = Some e \<Longrightarrow> key < e"
  shows "\<exists>root'. vector_step replace (root, n, Some s, be) (key, val, metric) = (root', n + 1, Some key, be) \<and>
     key \<notin> set (keys (items root)) \<and> indexed_set root' \<and> items root' = put key val metric (items root) \<and> block_ok root' (Some key) be"
proof -
  have s: "s \<in> set (keys (items root))" and be: "be = first_key (filter (\<lambda>x. s < fst x) (items root))"
    using block key by (auto simp: block_ok_def)
  obtain gs l v b m r where node: "node_of s root [] = Some (gs, Node l s v b m r)" "close (Node l s v b m r) gs = root"
    using node_of_ok [OF s, of "[]"] by auto
  let ?p = "free_place True (Node l s v b m r) gs"
  have p: "close Leaf ?p = root" "items root = before 0 ?p @ after 0 ?p"
    "before 0 ?p = (before m gs @ items l) @ [(s, v, m - total l - total r)]"
    using free_place_behind [of "Node l s v b m r" l s v b m r gs] node(2) items_close [of "Leaf :: ('a, 'b, 'c) tree" ?p] by auto
  have sorted: "sorted_wrt (<) (keys (before 0 ?p @ after 0 ?p))" using root p(2) by (simp add: indexed_set_def)
  have low: "\<forall>x\<in>set (before 0 ?p). fst x \<le> s" and high: "\<forall>x\<in>set (after 0 ?p). s < fst x"
    using sorted p(3) by (auto simp: keys_def sorted_wrt_append intro: less_imp_le)
  have split: "filter (\<lambda>x. s < fst x) (items root) = after 0 ?p"
    using low high by (auto simp: p(2) filter_empty_conv filter_id_conv not_less)
  have first: "\<forall>x\<in>set (after 0 ?p). key < fst x"
  proof (cases "after 0 ?p")
    case (Cons y ys)
    then have "key < fst y" using be split key(2) by simp
    moreover have "\<forall>x\<in>set ys. fst y < fst x" using sorted Cons by (auto simp: keys_def sorted_wrt_append)
    ultimately show ?thesis using Cons by auto
  qed simp
  have low': "\<forall>x\<in>set (before 0 ?p). fst x < key" using low key(1) by auto
  have put: "put key val metric (items root) = before 0 ?p @ (key, val, metric) # after 0 ?p"
    "filter (\<lambda>x. key < fst x) (items root) = after 0 ?p"
  proof -
    have "\<forall>x\<in>set (after 0 ?p). \<not> fst x < key" "\<forall>x\<in>set (before 0 ?p). \<not> key < fst x" using first low' by auto
    then have "filter (\<lambda>x. fst x < key) (items root) = before 0 ?p" "filter (\<lambda>x. key < fst x) (items root) = after 0 ?p"
      unfolding p(2) filter_append using first low' by (simp_all add: filter_id_conv filter_empty_conv del: free_place.simps)
    then show "put key val metric (items root) = before 0 ?p @ (key, val, metric) # after 0 ?p"
      "filter (\<lambda>x. key < fst x) (items root) = after 0 ?p" by (simp_all add: put_def del: free_place.simps)
  qed
  let ?root = "insert_up metric (Node Leaf key val 0 metric Leaf) ?p"
  have "avl ?root" "items ?root = put key val metric (items root)"
    using new_node_ok [of ?p metric key val] root p(1) put(1) by (simp_all add: indexed_set_def)
  moreover have "sorted_wrt (<) (keys (put key val metric (items root)))"
    using root by (intro sorted_put) (simp add: indexed_set_def)
  moreover have "key \<notin> set (keys (items root))" using low' first by (auto simp: p(2) keys_def)
  moreover have "vector_step replace (root, n, Some s, be) (key, val, metric) = (?root, n + 1, Some key, be)"
  proof -
    have "\<not> (case be of None \<Rightarrow> False | Some e \<Rightarrow> key \<ge> e)" using key(2) by (auto split: option.splits)
    then show ?thesis using node(1) by (simp add: Let_def)
  qed
  ultimately show ?thesis using be split put(2) by (auto simp: indexed_set_def block_ok_def)
qed

subsection \<open>The whole vector\<close>

definition count_new :: "bool \<Rightarrow> ('k \<times> 'v \<times> 'm) list \<Rightarrow> ('k \<times> 'v \<times> 'm) list \<Rightarrow> nat" where
  "count_new replace xs ys = length (filter (\<lambda>y. replace \<or> fst y \<notin> set (keys xs)) ys)"

lemma vector_step_ok:
  assumes "indexed_set root" "block_ok root bs be" "\<And>s. bs = Some s \<Longrightarrow> s < fst x"
  shows "\<exists>root' be'. vector_step replace (root, n, bs, be) x = (root', n + count_new replace (items root) [x], Some (fst x), be') \<and>
     indexed_set root' \<and> items root' = add_one replace (items root) x \<and> block_ok root' (Some (fst x)) be'"
proof (cases "bs = None \<or> (\<exists>e. be = Some e \<and> e \<le> fst x)")
  case True
  have "count_new replace (items root) [x] = (if replace \<or> fst x \<notin> set (keys (items root)) then 1 else 0)"
    by (simp add: count_new_def)
  then show ?thesis
    using search_step_ok [OF assms(1) True, of replace n "fst (snd x)" "snd (snd x)"] by simp
next
  case False
  then obtain s where s: "bs = Some s" "\<And>e. be = Some e \<Longrightarrow> fst x < e" by force
  then show ?thesis
    using block_step_ok [of root s be "fst x" replace n "fst (snd x)" "snd (snd x)"] assms by (auto simp: count_new_def add_one_def)
qed

lemma count_new_add:
  assumes "\<forall>y\<in>set ys. fst x < fst y"
  shows "count_new replace (add_one replace xs x) ys = count_new replace xs ys"
  using assms unfolding count_new_def add_one_def
  by (intro arg_cong [of _ _ length] filter_cong) auto

lemma vector_fold_ok:
  assumes "indexed_set root" "block_ok root bs be" "sorted_wrt (<) (keys xs)" "\<And>s x. bs = Some s \<Longrightarrow> x \<in> set xs \<Longrightarrow> s < fst x"
  shows "\<exists>root' bs' be'. foldl (vector_step replace) (root, n, bs, be) xs = (root', n + count_new replace (items root) xs, bs', be') \<and>
     indexed_set root' \<and> items root' = foldl (add_one replace) (items root) xs"
  using assms
proof (induction xs arbitrary: root n bs be)
  case (Cons x xs)
  obtain root1 be1 where one: "vector_step replace (root, n, bs, be) x = (root1, n + count_new replace (items root) [x], Some (fst x), be1)"
    "indexed_set root1" "items root1 = add_one replace (items root) x" "block_ok root1 (Some (fst x)) be1"
    using vector_step_ok [OF Cons.prems(1,2), of x replace n] Cons.prems(4) by auto
  have above: "\<forall>y\<in>set xs. fst x < fst y" using Cons.prems(3) by (auto simp: keys_def)
  have "count_new replace (items root) (x # xs) = count_new replace (items root) [x] + count_new replace (items root1) xs"
    unfolding one(3) count_new_add [OF above] by (simp add: count_new_def)
  moreover have "sorted_wrt (<) (keys xs)" using Cons.prems(3) by simp
  ultimately show ?case
    using Cons.IH [OF one(2,4), of "n + count_new replace (items root) [x]"] above one(1,3) by (auto simp: add.assoc)
qed (auto simp: count_new_def)

lemma insert_vector_ok:
  assumes "indexed_set root" "sorted_wrt (<) (keys xs)"
  shows "indexed_set (fst (insert_vector xs replace root)) \<and>
     items (fst (insert_vector xs replace root)) = foldl (add_one replace) (items root) xs \<and>
     snd (insert_vector xs replace root) = count_new replace (items root) xs"
  using vector_fold_ok [OF assms(1) _ assms(2), of None None replace 0] by (auto simp: insert_vector_def block_ok_def)

end
