(* ===== verification/IndexedSet_Props.thy ===== *)
theory IndexedSet_Props
  imports IndexedSet_Free IndexedSet_Vector
begin

text \<open>
  What \<open>IndexedSet\<close> promises.  The contract of a sorted container is a locale over its elements in key order;
  the lemmas in it relate the operations to a finite map.  It is interpreted on the tree of
  \<^verbatim>\<open>flow/include/flow/IndexedSet.h\<close>, and the theorems state the results for the code's model.
\<close>

subsection \<open>Operations and the map they implement\<close>

datatype ('k, 'v, 'm) set_op =
  Insert 'k 'v 'm bool
| InsertAll "('k \<times> 'v \<times> 'm) list" bool
| Erase 'k
| EraseRange 'k 'k

fun op_ok :: "('k::linorder, 'v, 'm) set_op \<Rightarrow> bool" where
  "op_ok (Insert k v m r) = True"
| "op_ok (InsertAll xs r) = sorted_wrt (<) (map fst xs)"
| "op_ok (Erase k) = True"
| "op_ok (EraseRange a b) = (a \<le> b)"

definition map_insert :: "bool \<Rightarrow> ('k \<rightharpoonup> 'v \<times> 'm) \<Rightarrow> 'k \<times> 'v \<times> 'm \<Rightarrow> ('k \<rightharpoonup> 'v \<times> 'm)" where
  "map_insert r M x = (if r \<or> M (fst x) = None then M(fst x \<mapsto> snd x) else M)"

fun map_step :: "('k::linorder, 'v, 'm) set_op \<Rightarrow> ('k \<rightharpoonup> 'v \<times> 'm) \<Rightarrow> ('k \<rightharpoonup> 'v \<times> 'm)" where
  "map_step (Insert k v m r) M = map_insert r M (k, v, m)"
| "map_step (InsertAll xs r) M = foldl (map_insert r) M xs"
| "map_step (Erase k) M = M(k := None)"
| "map_step (EraseRange a b) M = (\<lambda>k. if a \<le> k \<and> k < b then None else M k)"

fun is_step :: "('k::linorder, 'v, 'm::ab_group_add) set_op \<Rightarrow> ('k, 'v, 'm) tree \<Rightarrow> ('k, 'v, 'm) tree option" where
  "is_step (Insert k v m r) t = Some (is_insert k v m r t)"
| "is_step (InsertAll xs r) t = Some (fst (insert_vector xs r t))"
| "is_step (Erase k) t = Some (fst (erase_key t k))"
| "is_step (EraseRange a b) t = map_option fst (erase_key_range t a b)"

fun run_ops :: "('o \<Rightarrow> 's \<Rightarrow> 's option) \<Rightarrow> 'o list \<Rightarrow> 's \<Rightarrow> 's option" where
  "run_ops step [] s = Some s"
| "run_ops step (x # xs) s = Option.bind (step x s) (run_ops step xs)"

subsection \<open>The contract of a sorted container\<close>

locale sorted_container =
  fixes ok :: "'s \<Rightarrow> bool" and elems :: "'s \<Rightarrow> ('k::linorder \<times> 'v \<times> 'm::ab_group_add) list"
    and step :: "('k, 'v, 'm) set_op \<Rightarrow> 's \<Rightarrow> 's option"
  assumes elems_sorted: "ok s \<Longrightarrow> sorted_wrt (<) (keys (elems s))"
    and step_insert: "ok s \<Longrightarrow> \<exists>s'. step (Insert k v m r) s = Some s' \<and> ok s' \<and> elems s' = add_one r (elems s) (k, v, m)"
    and step_insert_all: "ok s \<Longrightarrow> sorted_wrt (<) (keys xs) \<Longrightarrow>
      \<exists>s'. step (InsertAll xs r) s = Some s' \<and> ok s' \<and> elems s' = foldl (add_one r) (elems s) xs"
    and step_erase: "ok s \<Longrightarrow> \<exists>s'. step (Erase k) s = Some s' \<and> ok s' \<and> elems s' = filter (\<lambda>x. fst x \<noteq> k) (elems s)"
    and step_erase_range: "ok s \<Longrightarrow> a \<le> b \<Longrightarrow>
      \<exists>s'. step (EraseRange a b) s = Some s' \<and> ok s' \<and> elems s' = filter (\<lambda>x. \<not> (a \<le> fst x \<and> fst x < b)) (elems s)"
begin

lemma map_of_filter_key: "map_of (filter (\<lambda>x. P (fst x)) xs) = (\<lambda>k. if P k then map_of xs k else None)"
  by (induction xs) auto

lemma map_of_put: "map_of (put k v m xs) = (map_of xs)(k \<mapsto> (v, m))"
  unfolding put_def map_of_append map_of_filter_key [of "\<lambda>j. j < k"]
  by (rule ext) (auto simp: map_add_def map_of_filter_key [of "\<lambda>j. k < j"] split: option.split)

lemma map_of_add_one: "map_of (add_one r xs x) = map_insert r (map_of xs) x"
  by (auto simp: add_one_def map_insert_def map_of_put keys_def map_of_eq_None_iff)

lemma map_of_add_all: "map_of (foldl (add_one r) xs ys) = foldl (map_insert r) (map_of xs) ys"
  by (induction ys arbitrary: xs) (simp_all add: map_of_add_one)

lemma step_map:
  assumes "ok s" and "op_ok x"
  shows "\<exists>s'. step x s = Some s' \<and> ok s' \<and> map_of (elems s') = map_step x (map_of (elems s))"
proof (cases x)
  case (Insert k v m r)
  then show ?thesis using step_insert [OF assms(1)] by (metis map_of_add_one map_step.simps(1))
next
  case (InsertAll xs r)
  then have "sorted_wrt (<) (keys xs)" using assms(2) by (simp add: keys_def)
  from step_insert_all [OF assms(1) this, of r] show ?thesis using InsertAll map_of_add_all by auto
next
  case (Erase k)
  then show ?thesis using step_erase [OF assms(1), of k] by (auto simp: map_of_filter_key [of "\<lambda>j. j \<noteq> k"] fun_eq_iff)
next
  case (EraseRange a b)
  then show ?thesis
    using step_erase_range [OF assms(1), of a b] assms(2) map_of_filter_key [of "\<lambda>j. \<not> (a \<le> j \<and> j < b)" "elems s"]
    by (auto simp: fun_eq_iff)
qed

lemma run_map:
  assumes "ok s" and "list_all op_ok xs"
  shows "\<exists>s'. run_ops step xs s = Some s' \<and> ok s' \<and> map_of (elems s') = fold map_step xs (map_of (elems s))"
  using assms
proof (induction xs arbitrary: s)
  case (Cons x xs)
  from step_map [OF Cons.prems(1), of x] Cons.prems(2) obtain s1 where
    "step x s = Some s1" "ok s1" "map_of (elems s1) = map_step x (map_of (elems s))" by auto
  then show ?case using Cons.IH [of s1] Cons.prems(2) by auto
qed simp

end

interpretation avl: sorted_container indexed_set items is_step
proof
  show "sorted_wrt (<) (keys (items s))" if "indexed_set s" for s :: "('k::linorder, 'v, 'm::ab_group_add) tree"
    using that by (simp add: indexed_set_def)
  show "\<exists>s'. is_step (Insert k v m r) s = Some s' \<and> indexed_set s' \<and> items s' = add_one r (items s) (k, v, m)"
    if "indexed_set s" for s :: "('k::linorder, 'v, 'm::ab_group_add) tree" and k v m r
    using is_insert_ok [OF that, of k v m r] by (simp add: add_one_def)
  show "\<exists>s'. is_step (InsertAll xs r) s = Some s' \<and> indexed_set s' \<and> items s' = foldl (add_one r) (items s) xs"
    if "indexed_set s" "sorted_wrt (<) (keys xs)" for s :: "('k::linorder, 'v, 'm::ab_group_add) tree" and xs r
    using insert_vector_ok [OF that, of r] by simp
  show "\<exists>s'. is_step (Erase k) s = Some s' \<and> indexed_set s' \<and> items s' = filter (\<lambda>x. fst x \<noteq> k) (items s)"
    if "indexed_set s" for s :: "('k::linorder, 'v, 'm::ab_group_add) tree" and k
    using erase_key_ok [OF that, of k] by simp
  show "\<exists>s'. is_step (EraseRange a b) s = Some s' \<and> indexed_set s' \<and> items s' = filter (\<lambda>x. \<not> (a \<le> fst x \<and> fst x < b)) (items s)"
    if "indexed_set s" "a \<le> b" for s :: "('k::linorder, 'v, 'm::ab_group_add) tree" and a b
    using erase_key_range_ok [OF that] by auto
qed

lemma indexed_set_Leaf [simp]: "indexed_set Leaf"
  by (simp add: indexed_set_def)

subsection \<open>Refinement\<close>

text \<open>C1. Every sequence of insertions (single, or of a vector with increasing keys), erasures and range
  erasures on an empty set runs to its end with no failed assertion, leaves a balanced search tree with correct
  balances, and its elements are those of the finite map that the same operations build.\<close>

theorem IndexedSet_refines_map:
  fixes ops :: "('k::linorder, 'v, 'm::ab_group_add) set_op list"
  assumes "list_all op_ok ops"
  shows "\<exists>root. run_ops is_step ops Leaf = Some root \<and> indexed_set root \<and>
     map_of (items root) = fold map_step ops Map.empty"
  using avl.run_map [of "Leaf :: ('k, 'v, 'm) tree" ops] assms by simp

theorem IndexedSet_refines_map_witness:
  "\<exists>root. run_ops is_step [Insert (2::nat) () (1::int) True, InsertAll [(1, (), 5), (3, (), 7)] False, EraseRange 1 3] Leaf = Some root \<and>
     indexed_set root \<and> map_of (items root) = [3 \<mapsto> ((), 7)]"
proof -
  let ?ops = "[Insert (2::nat) () (1::int) True, InsertAll [(1, (), 5), (3, (), 7)] False, EraseRange 1 3]"
  have "fold map_step ?ops Map.empty = [3 \<mapsto> ((), 7)]" by (rule ext) (simp add: map_insert_def)
  then show ?thesis using IndexedSet_refines_map [of ?ops] by simp
qed

subsection \<open>Queries\<close>

lemma find_value:
  assumes "indexed_set root"
  shows "map_option (\<lambda>x. snd (loc_item x)) (is_find root key) = map_of (items root) key"
proof (cases "is_find root key")
  case None
  then show ?thesis using is_find_ok [OF assms, of key] map_of_eq_None_iff [of "items root" key] by (simp add: keys_def)
next
  case (Some x)
  then have x: "loc_in root x" "fst (loc_item x) = key" using is_find_ok [OF assms, of key] by auto
  have "distinct (map fst (items root))" using assms by (simp add: indexed_set_def keys_def strict_sorted_iff)
  moreover have "(key, snd (loc_item x)) \<in> set (items root)"
    using loc_items [OF x(1)] x(2) by (metis in_set_conv_decomp prod.collapse)
  ultimately show ?thesis using Some by simp
qed

lemma upper_bound_iter:
  assumes "indexed_set root"
  shows "iter_in root (upper_bound root key)" "iter_before root (upper_bound root key) = filter (\<lambda>x. fst x \<le> key) (items root)"
  using upper_bound_ok [OF assms, of key]
  by (auto simp: iter_in_def iter_before_def filter_id_conv split: option.splits)

text \<open>C29. \<open>find\<close> answers with the node of the key exactly when the set holds the key; \<open>lower_bound\<close> and
  \<open>upper_bound\<close> answer with the node that has exactly the elements below the key, or up to it, before it, and
  with \<open>end()\<close> when there is no other element.\<close>

theorem IndexedSet_search:
  assumes "indexed_set root"
  shows "map_option (\<lambda>x. snd (loc_item x)) (is_find root key) = map_of (items root) key \<and>
     iter_in root (lower_bound root key) \<and> iter_in root (upper_bound root key) \<and>
     iter_before root (lower_bound root key) = filter (\<lambda>x. fst x < key) (items root) \<and>
     iter_before root (upper_bound root key) = filter (\<lambda>x. fst x \<le> key) (items root)"
  using find_value [OF assms] lower_bound_iter [OF assms] upper_bound_iter [OF assms] by simp

definition three :: "(nat, unit, int) tree" where
  "three = Node (Node Leaf 1 () 0 5 Leaf) 2 () 0 13 (Node Leaf 3 () 0 7 Leaf)"

lemma three_ok [simp]: "indexed_set three" "items three = [(1, (), 5), (2, (), 1), (3, (), 7)]"
  by (simp_all add: three_def indexed_set_def)

theorem IndexedSet_search_witness:
  "map_option (\<lambda>x. snd (loc_item x)) (is_find three 2) = Some ((), 1) \<and>
     iter_before three (lower_bound three 2) = [(1, (), 5)] \<and> iter_before three (upper_bound three 2) = [(1, (), 5), (2, (), 1)]"
  using IndexedSet_search [of three 2] by simp

lemma metric_sum_split:
  assumes "a \<le> (b :: 'k::linorder)"
  shows "metric_sum (filter (\<lambda>x. fst x < b) xs) - metric_sum (filter (\<lambda>x. fst x < a) xs) =
    metric_sum (filter (\<lambda>x. a \<le> fst x \<and> fst x < b) xs)"
  using assms by (induction xs) (auto simp: algebra_simps not_le split: if_splits)

lemma sumTo_iter: "iter_in root it \<Longrightarrow> sumTo root it = metric_sum (iter_before root it)"
  by (cases it) (auto simp: iter_in_def iter_before_def sumTo_ok)

text \<open>C30. \<open>sumTo\<close> at an iterator is the sum of the metrics of the elements before it, and \<open>sumRange\<close> of two keys
  is the sum of the metrics of the elements \<open>x\<close> with \<open>from \<le> x < to\<close>.\<close>

theorem IndexedSet_sums:
  assumes "indexed_set root" and "iter_in root it" and "a \<le> b"
  shows "sumTo root it = metric_sum (iter_before root it) \<and>
     sumRange_keys root a b = metric_sum (filter (\<lambda>x. a \<le> fst x \<and> fst x < b) (items root))"
  using assms by (simp add: sumRange_keys_def sumRange_def sumTo_iter lower_bound_iter metric_sum_split)

theorem IndexedSet_sums_witness: "sumTo three None = 13 \<and> sumRange_keys three 1 3 = 6"
  using IndexedSet_sums [of three None 1 3] by (simp add: iter_in_def iter_before_def)

lemma index_ok:
  fixes root :: "('k, 'v, 'm::linordered_ab_group_add) tree"
  assumes "0 \<le> m"
  shows "case is_index root m of
      None \<Rightarrow> metric_sum (items root) \<le> m
    | Some x \<Rightarrow> loc_in root x \<and> metric_sum (loc_before x) \<le> m \<and> m < metric_sum (loc_before x @ [loc_item x])"
  using index_walk_ok [where m = m and t = root and fs = "[]"] assms by (auto simp: is_index_def split: option.splits)

text \<open>C31. With metrics that are not negative, \<open>index(m)\<close> answers with the first element whose metrics, summed up
  to and with it, exceed \<open>m\<close>, and with \<open>end()\<close> when the whole sum does not.\<close>

theorem IndexedSet_index:
  fixes root :: "('k, 'v, 'm::linordered_ab_group_add) tree"
  assumes "0 \<le> m" and "\<forall>x\<in>set (items root). 0 \<le> snd (snd x)"
  shows "case is_index root m of
      None \<Rightarrow> \<forall>p q. items root = p @ q \<longrightarrow> metric_sum p \<le> m
    | Some x \<Rightarrow> loc_in root x \<and> m < metric_sum (loc_before x @ [loc_item x]) \<and>
        (\<forall>p q. loc_before x = p @ q \<longrightarrow> metric_sum p \<le> m)"
proof -
  have nonneg: "0 \<le> metric_sum q" if "set q \<subseteq> set (items root)" for q
    using that assms(2) by (induction q) auto
  have prefix: "metric_sum p \<le> m" if "metric_sum (p @ q) \<le> m" "set q \<subseteq> set (items root)" for p q
    using that nonneg [of q] by (simp add: add_increasing2 order.trans [rotated])
  show ?thesis
  proof (cases "is_index root m")
    case None
    then show ?thesis using index_ok [OF assms(1), where root = root] prefix by auto
  next
    case (Some x)
    then have x: "loc_in root x" "metric_sum (loc_before x) \<le> m" "m < metric_sum (loc_before x @ [loc_item x])"
      using index_ok [OF assms(1), where root = root] by auto
    have "metric_sum p \<le> m" if "loc_before x = p @ q" for p q
      using prefix [of p q] x(2) that loc_items [OF x(1)] by auto
    then show ?thesis using Some x by auto
  qed
qed

theorem IndexedSet_index_witness:
  "case is_index three 5 of None \<Rightarrow> False | Some x \<Rightarrow> loc_item x = (2, (), 1)"
proof -
  have "is_index three 5 = Some ([], three)" by (simp add: is_index_def three_def Let_def)
  then show ?thesis using IndexedSet_index [of 5 three] by (simp add: three_def)
qed

lemma begin_ok:
  "case is_begin root of None \<Rightarrow> items root = [] | Some x \<Rightarrow> loc_in root x \<and> loc_before x = []"
proof (cases "root = Leaf")
  case False
  from outermost_position [OF this, of False "[]"] show ?thesis by (auto simp: is_begin_def)
qed (simp add: is_begin_def)

fun walk :: "nat \<Rightarrow> ('k, 'v, 'm::ab_group_add) loc option \<Rightarrow> ('k \<times> 'v \<times> 'm) list" where
  "walk 0 it = []"
| "walk (Suc n) it = (case it of None \<Rightarrow> [] | Some x \<Rightarrow> loc_item x # walk n (moveIterator True x))"

lemma walk_ok:
  assumes "loc_in root x" and "length (loc_after x) < n"
  shows "walk n (Some x) = loc_item x # loc_after x"
  using assms
proof (induction n arbitrary: x)
  case (Suc n)
  show ?case
  proof (cases "loc_after x = []")
    case True
    then show ?thesis using next_ok [OF Suc.prems(1)] by (cases n) auto
  next
    case False
    with next_ok [OF Suc.prems(1)] obtain y where y: "moveIterator True x = Some y" "loc_in root y" "loc_before y = loc_before x @ [loc_item x]"
      by auto
    have "loc_after x = loc_item y # loc_after y" using loc_items [OF Suc.prems(1)] loc_items [OF y(2)] y(3) by simp
    then show ?thesis using Suc.IH [OF y(2)] Suc.prems(2) y(1) by simp
  qed
qed simp

text \<open>C32. Stepping an iterator with \<open>++\<close> from \<open>begin()\<close> visits every element once, in order, and then reaches
  \<open>end()\<close>; \<open>previous\<close> undoes the step.\<close>

theorem IndexedSet_iteration:
  "(\<forall>n > length (items root). walk n (is_begin root) = items root) \<and>
   (\<forall>x y. loc_in root x \<longrightarrow> moveIterator True x = Some y \<longrightarrow> previous root (Some y) = Some x)"
proof (intro conjI allI impI)
  fix n assume n: "length (items root) < n"
  show "walk n (is_begin root) = items root"
  proof (cases "is_begin root")
    case None
    then show ?thesis using begin_ok [of root] by (cases n) auto
  next
    case (Some x)
    then have x: "loc_in root x" "loc_before x = []" using begin_ok [of root] by auto
    then show ?thesis using walk_ok [OF x(1), of n] n Some loc_items [OF x(1)] by simp
  qed
next
  fix x y assume x: "loc_in root x" and "moveIterator True x = Some y"
  then have y: "loc_in root y" "loc_before y = loc_before x @ [loc_item x]"
    using next_ok [OF x] by (auto split: if_splits)
  then obtain z where z: "moveIterator False y = Some z" "loc_in root z" "loc_after z = loc_item y # loc_after y"
    using previous_ok [OF y(1)] by auto
  have "length (loc_before z) = length (loc_before x)"
    using loc_items [OF z(2)] loc_items [OF y(1)] z(3) y(2) by simp
  then show "previous root (Some y) = Some x" using loc_rank_unique [OF z(2) x] z(1) by (simp add: previous_def)
qed

theorem IndexedSet_iteration_witness: "walk 4 (is_begin three) = [(1, (), 5), (2, (), 1), (3, (), 7)]"
  using IndexedSet_iteration [of three] by simp

subsection \<open>Balance\<close>

text \<open>C7. \<open>ISRebalance\<close> on a node with balanced subtrees of any heights and a correct balance ends, its assertion
  that the imbalance decreases never fails, and it returns a balanced tree with the same elements, metrics and
  total, with the change of its height, which is 0 or -1.\<close>

theorem ISRebalance_restores:
  assumes "avl l" and "avl r" and "b = height r - height l"
  shows "\<exists>t c. ISRebalance (Node l k v b m r) = Some (t, c) \<and> avl t \<and> items t = items (Node l k v b m r) \<and>
     total t = m \<and> height t = 1 + max (height l) (height r) + c \<and> (c = 0 \<or> c = -1)"
  using ISRebalance_ok [of "Node l k v b m r"] assms by (auto simp: semi_def rebalanced_def)

theorem ISRebalance_restores_witness:
  "\<exists>t c. ISRebalance (Node three 4 () (-2) 14 Leaf) = Some (t, c) \<and> avl t \<and>
     items t = [(1, (), 5), (2, (), 1), (3, (), 7), (4, (), 1)]"
proof -
  have three: "avl three" "height three = 2" "total three = 13" by (simp_all add: three_def)
  then show ?thesis using ISRebalance_restores [of three Leaf "-2" 4 "()" 14] by auto
qed

lemma square_sum_bound:
  fixes a b :: nat
  assumes "2 ^ (n + 1) \<le> a ^ 2" and "2 ^ n \<le> b ^ 2"
  shows "2 ^ (n + 2) \<le> (a + b) ^ 2"
proof -
  have "(2 ^ n) ^ 2 \<le> (a ^ 2) * (b ^ 2 :: nat)"
    using mult_mono [OF assms(1,2)] by (simp add: power2_eq_square)
  then have "(2 ^ n) ^ 2 \<le> (a * b) ^ 2" by (simp add: power_mult_distrib)
  then have "2 ^ n \<le> a * b" by (rule power2_le_imp_le) simp
  then show ?thesis using assms by (simp add: power2_eq_square algebra_simps)
qed

lemma height_bound: "avl t \<Longrightarrow> 2 ^ nat (height t) \<le> (length (items t) + 1) ^ 2"
proof (induction t)
  case (Node l k v b m r)
  define a where "a = length (items l) + 1"
  define c where "c = length (items r) + 1"
  have IH: "2 ^ nat (height l) \<le> a ^ 2" "2 ^ nat (height r) \<le> c ^ 2" and avl: "-1 \<le> height r - height l" "height r - height l \<le> 1"
    using Node by (auto simp: a_def c_def)
  have len: "length (items (Node l k v b m r)) + 1 = a + c" by (simp add: a_def c_def)
  have mono: "2 ^ i \<le> x" if "2 ^ j \<le> x" "i \<le> j" for i j x :: nat
    using that power_increasing [of i j "2 :: nat"] by linarith
  consider "height r \<le> height l" | "height l < height r" by linarith
  then show ?case
  proof cases
    case 1
    show ?thesis
    proof (cases "height l = 0")
      case False
      then have "0 < height l" using height_nonneg [of l] by linarith
      then have n: "nat (height l) = nat (height l - 1) + 1" "nat (height (Node l k v b m r)) = nat (height l - 1) + 2"
        "nat (height l - 1) \<le> nat (height r)" using 1 avl by (simp_all del: height_pos_iff)
      have "2 ^ nat (height l - 1) \<le> c ^ 2" by (rule mono [OF IH(2) n(3)])
      then show ?thesis unfolding len n(2) using square_sum_bound [of "nat (height l - 1)" a c] IH(1) n(1) by simp
    next
      case True
      then have "l = Leaf" "r = Leaf" using 1 by auto
      then show ?thesis by simp
    qed
  next
    case 2
    then have "0 < height r" using height_nonneg [of l] by linarith
    then have n: "nat (height r) = nat (height r - 1) + 1" "nat (height (Node l k v b m r)) = nat (height r - 1) + 2"
      "nat (height r - 1) \<le> nat (height l)" using 2 avl by (simp_all del: height_pos_iff)
    have "2 ^ nat (height r - 1) \<le> a ^ 2" by (rule mono [OF IH(1) n(3)])
    then show ?thesis
      unfolding len n(2) using square_sum_bound [of "nat (height r - 1)" c a] IH(2) n(1) by (simp add: add.commute)
  qed
qed simp

lemma descend_depth: "int (length (fst (descend key t fs))) \<le> int (length fs) + height t"
proof (induction key t fs rule: descend.induct)
  case (2 key l k v b m r fs)
  then show ?case using height_nonneg [of l] height_nonneg [of r] by (auto simp: max_def)
qed simp

lemma bound_walk_depth: "bound_walk P t fs = Some (d, gs, u) \<Longrightarrow> int (length gs) \<le> int (length fs) + height t"
proof (induction P t fs rule: bound_walk.induct)
  case (2 P l k v b m r fs)
  then show ?case using height_nonneg [of l] height_nonneg [of r] by (auto split: if_splits)
qed simp

fun stored_balances :: "('k, 'v, 'm) tree \<Rightarrow> int set" where
  "stored_balances Leaf = {}"
| "stored_balances (Node l k v b m r) = insert b (stored_balances l \<union> stored_balances r)"

lemma avl_stored_balances: "avl t \<Longrightarrow> stored_balances t \<subseteq> {-1, 0, 1}"
  by (induction t) auto

lemma size_of_map: "indexed_set root \<Longrightarrow> card (dom (map_of (items root))) = length (items root)"
  using distinct_card [of "keys (items root)"] strict_sorted_iff [of "keys (items root)"]
  by (simp add: indexed_set_def dom_map_of_conv_image_fst keys_def)

text \<open>C34. After every sequence of operations on an empty set every search is short: the descent from the root that
  \<open>find\<close>, \<open>insert\<close> and \<open>erase(key)\<close> start with, and the one of \<open>lower_bound\<close> and \<open>upper_bound\<close>, passes at most
  \<open>2 log\<^sub>2 (n + 1)\<close> nodes, where \<open>n\<close> is the number of elements that the operations leave in the finite map; and every
  balance that is stored is -1, 0 or 1.\<close>

theorem IndexedSet_search_depth:
  fixes ops :: "('k::linorder, 'v, 'm::ab_group_add) set_op list"
  assumes "list_all op_ok ops"
  shows "\<exists>root. run_ops is_step ops Leaf = Some root \<and> stored_balances root \<subseteq> {-1, 0, 1} \<and>
    (\<forall>key. 2 ^ length (fst (descend key root [])) \<le> (card (dom (fold map_step ops Map.empty)) + 1) ^ 2) \<and>
    (\<forall>P d gs u. bound_walk P root [] = Some (d, gs, u) \<longrightarrow> 2 ^ length gs \<le> (card (dom (fold map_step ops Map.empty)) + 1) ^ 2)"
proof -
  obtain root where r: "run_ops is_step ops (Leaf :: ('k, 'v, 'm) tree) = Some root" "indexed_set root" "map_of (items root) = fold map_step ops Map.empty"
    using avl.run_map [of "Leaf :: ('k, 'v, 'm) tree" ops] assms by auto
  have n: "card (dom (fold map_step ops Map.empty)) = length (items root)" using size_of_map [OF r(2)] r(3) by simp
  have avl: "avl root" using r(2) by (simp add: indexed_set_def)
  have bound: "2 ^ d \<le> (length (items root) + 1) ^ 2" if "int d \<le> height root" for d
  proof -
    have "2 ^ d \<le> (2 :: nat) ^ nat (height root)" using that by (intro power_increasing) auto
    then show ?thesis using height_bound [OF avl] by linarith
  qed
  then show ?thesis
    using r(1) avl_stored_balances [OF avl] descend_depth [of _ root "[]"] bound_walk_depth [of _ root "[]"] unfolding n
    by (metis of_nat_0 add_0 list.size(3))
qed

theorem IndexedSet_search_depth_witness:
  "\<exists>root. run_ops is_step [Insert (2::nat) () (1::int) True, InsertAll [(1, (), 5), (3, (), 7)] False, Erase 3] Leaf = Some root \<and>
     2 ^ length (fst (descend 1 root [])) \<le> (9 :: nat)"
proof -
  let ?ops = "[Insert (2::nat) () (1::int) True, InsertAll [(1, (), 5), (3, (), 7)] False, Erase 3]"
  have "dom (fold map_step ?ops Map.empty) = {1, 2}" by (auto simp: map_insert_def dom_def split: if_splits)
  then have "card (dom (fold map_step ?ops Map.empty)) = 2" by simp
  then show ?thesis using IndexedSet_search_depth [of ?ops] by (auto simp: power2_eq_square simp del: fold.simps run_ops.simps)
qed

subsection \<open>Erasing a range\<close>

text \<open>The elements between two iterators.\<close>

definition iter_range :: "('k, 'v, 'm::ab_group_add) tree \<Rightarrow> ('k, 'v, 'm) loc option \<Rightarrow> ('k, 'v, 'm) loc option \<Rightarrow> ('k \<times> 'v \<times> 'm) list" where
  "iter_range root i j = drop (length (iter_before root i)) (iter_before root j)"

lemma iter_ranges:
  assumes "iter_in root i" "iter_in root j" "length (iter_before root i) \<le> length (iter_before root j)"
  shows "items root = iter_before root i @ iter_range root i j @ drop (length (iter_before root j)) (items root)"
proof -
  have "iter_before root j = take (length (iter_before root i)) (iter_before root j) @ iter_range root i j" by (simp add: iter_range_def)
  moreover have "take (length (iter_before root i)) (iter_before root j) = iter_before root i"
    using iter_prefix [OF assms(1)] iter_prefix [OF assms(2)] assms(3) by (metis take_take min.absorb1)
  ultimately show ?thesis using iter_prefix [OF assms(2)] append_take_drop_id [of "length (iter_before root j)" "items root"] by simp
qed

text \<open>C8. Erasing between two iterators removes exactly the elements from the first up to the second, restores
  every balance, and frees exactly the nodes that held them: every one is deleted, none of them twice and no other
  node, whether it goes through \<open>toFree\<close> or is the last one, which \<open>erase(iterator)\<close> deletes.  (A node keeps its element
  for its life, and the keys of a set are distinct: a node is named by its key.)  When the first iterator does not precede
  the second the assertion at the start of the routine fails.\<close>

theorem IndexedSet_erase_range:
  assumes "indexed_set root" and "iter_in root i" and "iter_in root j"
  shows "if length (iter_before root i) \<le> length (iter_before root j)
    then \<exists>root' deleted. erase_sync root i j = Some (root', deleted) \<and> indexed_set root' \<and>
      items root' = iter_before root i @ drop (length (iter_before root j)) (items root) \<and>
      distinct deleted \<and> mset deleted = mset (keys (iter_range root i j))
    else erase_sync root i j = None"
proof (cases "length (iter_before root i) \<le> length (iter_before root j)")
  case True
  obtain root' deleted where e: "erase_sync root i j = Some (root', deleted)" "indexed_set root'"
    "items root' = iter_before root i @ drop (length (iter_before root j)) (items root)"
    "mset (keys (items root)) = mset (keys (items root')) + mset deleted"
    using erase_sync_ok [OF assms True] by blast
  have "mset (keys (items root)) = mset (keys (items root')) + mset (keys (iter_range root i j))"
    unfolding e(3) using arg_cong [OF iter_ranges [OF assms(2,3) True], of "\<lambda>xs. mset (keys xs)"] by (simp add: add_ac)
  then have m: "mset deleted = mset (keys (iter_range root i j))" using e(4) by simp
  have "distinct (keys (items root))" using assms(1) strict_sorted_iff by (auto simp: indexed_set_def)
  then have "distinct (keys (iter_range root i j))" using arg_cong [OF iter_ranges [OF assms(2,3) True], of keys] by (simp add: keys_def)
  then have "distinct deleted" using m by (metis mset_eq_imp_distinct_iff)
  then show ?thesis using True e(1,2,3) m by auto
next
  case False
  then show ?thesis using erase_range_ok [OF assms] by (auto simp: erase_sync_def)
qed

theorem IndexedSet_erase_range_witness:
  "\<exists>root' deleted. erase_sync three (lower_bound three 2) None = Some (root', deleted) \<and> indexed_set root' \<and> items root' = [(1, (), 5)] \<and>
     distinct deleted \<and> set deleted = {2, 3}"
proof -
  obtain root' deleted where e: "erase_sync three (lower_bound three 2) None = Some (root', deleted)" "indexed_set root'"
    "items root' = [(1, (), 5)]" "distinct deleted" "mset deleted = mset [2, 3]"
    using IndexedSet_erase_range [of three "lower_bound three 2" None] lower_bound_iter [of three 2]
    by (auto simp: iter_in_def iter_before_def iter_range_def)
  moreover have "set deleted = {2, 3}" using mset_eq_setD [OF e(5)] by simp
  ultimately show ?thesis by blast
qed

subsection \<open>Inserting a vector\<close>

text \<open>C33. Inserting a vector with increasing keys gives the elements that inserting them one by one gives, and the
  result counts the elements that were inserted or overwritten.\<close>

theorem IndexedSet_insert_vector:
  assumes "indexed_set root" and "sorted_wrt (<) (map fst xs)"
  shows "indexed_set (fst (insert_vector xs replace root)) \<and>
     items (fst (insert_vector xs replace root)) = items (fold (\<lambda>(k, v, m). is_insert k v m replace) xs root) \<and>
     snd (insert_vector xs replace root) = length (filter (\<lambda>y. replace \<or> fst y \<notin> fst ` set (items root)) xs)"
proof -
  have one: "indexed_set (fold (\<lambda>(k, v, m). is_insert k v m replace) xs root) \<and>
      items (fold (\<lambda>(k, v, m). is_insert k v m replace) xs root) = foldl (add_one replace) (items root) xs"
    if "indexed_set root" for root xs
    using that
  proof (induction xs arbitrary: root)
    case (Cons x xs)
    then show ?case using is_insert_ok [of root "fst x" "fst (snd x)" "snd (snd x)" replace]
      by (cases x) (simp add: add_one_def)
  qed simp
  from this [OF assms(1), of xs] show ?thesis
    using insert_vector_ok [of root xs replace] assms by (simp add: keys_def count_new_def)
qed

theorem IndexedSet_insert_vector_witness:
  "items (fst (insert_vector [(0, (), 2), (2, (), 9), (4, (), 8)] True three)) =
     [(0, (), 2), (1, (), 5), (2, (), 9), (3, (), 7), (4, (), 8)] \<and>
   snd (insert_vector [(0, (), 2), (2, (), 9), (4, (), 8)] True three) = 3"
proof -
  let ?xs = "[(0, (), 2), (2, (), 9), (4, (), 8)]"
  have "items (fold (\<lambda>(k, v, m). is_insert k v m True) ?xs three) = [(0, (), 2), (1, (), 5), (2, (), 9), (3, (), 7), (4, (), 8)]"
    by code_simp
  then show ?thesis using IndexedSet_insert_vector [of three ?xs True] by simp
qed

text \<open>The order of the vector matters: after inserting 5 and then 3 into \<open>{10}\<close> the element 5 is no longer found,
  because 3 was placed behind it.\<close>

lemma insert_vector_unsorted:
  "indexed_set (Node Leaf (10 :: nat) () 0 (1 :: int) Leaf) \<and>
   map fst (items (fst (insert_vector [(5, (), 1), (3, (), 1)] True (Node Leaf 10 () 0 (1 :: int) Leaf)))) = [5 :: nat, 3, 10] \<and>
   is_find (fst (insert_vector [(5, (), 1), (3, (), 1)] True (Node Leaf (10 :: nat) () 0 (1 :: int) Leaf))) 5 = None"
  by (intro conjI) (simp add: indexed_set_def, code_simp, code_simp)

subsection \<open>The self-check\<close>

lemma root_key_in: "root_key t = Some k \<Longrightarrow> k \<in> set (keys (items t))"
  by (cases t) auto

lemma assertBalanced_ok:
  "avl t \<Longrightarrow> sorted_wrt (<) (keys (items t)) \<Longrightarrow> (\<forall>x\<in>set (items t). snd (snd x) = 3) \<Longrightarrow>
    testonly_assertBalanced c t = Some (height t, total t)"
proof (induction t)
  case (Node l k v b m r)
  have "m - total l - total r = 3" using Node.prems(3) by simp
  moreover have "testonly_assertBalanced c l = Some (height l, total l)" "testonly_assertBalanced c r = Some (height r, total r)"
    using Node by (auto simp: sorted_wrt_append)
  moreover have "k' < k" if "root_key l = Some k'" for k' using root_key_in [OF that] Node.prems(2) by (auto simp: sorted_wrt_append)
  moreover have "k < k'" if "root_key r = Some k'" for k' using root_key_in [OF that] Node.prems(2) by (auto simp: sorted_wrt_append)
  ultimately show ?case using Node.prems(1) by (auto split: option.splits)
qed simp

lemma assertBalanced_avl: "testonly_assertBalanced True t = Some (h, m) \<Longrightarrow> avl t \<and> h = height t \<and> m = total t"
  by (induction t arbitrary: h m) (fastforce split: option.splits prod.splits if_splits)+

text \<open>The self-check of the unit tests passes on every set that the operations build with the metric 3, and a
  tree it accepts has correct balances that satisfy the AVL condition.\<close>

theorem assertBalanced_accepts:
  fixes ops :: "('k::linorder, 'v, int) set_op list"
  assumes "list_all op_ok ops" and "run_ops is_step ops Leaf = Some root" and "\<forall>x\<in>set (items root). snd (snd x) = 3"
  shows "testonly_assertBalanced True root = Some (height root, 3 * int (length (items root))) \<and> avl root"
proof -
  have ok: "indexed_set root" using avl.run_map [of "Leaf :: ('k, 'v, int) tree" ops] assms(1,2) by simp
  have "metric_sum xs = 3 * int (length xs)" if "\<forall>x\<in>set xs. snd (snd x) = 3" for xs :: "('k \<times> 'v \<times> int) list"
    using that by (induction xs) auto
  then have "total root = 3 * int (length (items root))" using assms(3) total_items [of root] by simp
  then show ?thesis using assertBalanced_ok [of root True] ok assms(3) by (simp add: indexed_set_def)
qed

theorem assertBalanced_accepts_witness:
  "testonly_assertBalanced True (Node Leaf (1::nat) () 1 6 (Node Leaf 2 () 0 3 Leaf)) = Some (2, 6)"
proof -
  let ?ops = "[Insert (1::nat) () (3::int) True, Insert 2 () 3 True]"
  have "run_ops is_step ?ops Leaf = Some (Node Leaf 1 () 1 6 (Node Leaf 2 () 0 3 Leaf))" by code_simp
  then show ?thesis using assertBalanced_accepts [of ?ops "Node Leaf 1 () 1 6 (Node Leaf 2 () 0 3 Leaf)"] by simp
qed

text \<open>It compares a node with its children only: a tree whose left subtree holds a larger key is accepted.\<close>

lemma assertBalanced_incomplete:
  "\<exists>t :: (nat, unit, int) tree. testonly_assertBalanced True t = Some (3, 12) \<and> map fst (items t) = [1 :: nat, 9, 5, 7] \<and> \<not> indexed_set t"
proof -
  let ?t = "Node (Node Leaf (1 :: nat) () 1 (6 :: int) (Node Leaf 9 () 0 3 Leaf)) 5 () (-1) 12 (Node Leaf 7 () 0 3 Leaf)"
  have "testonly_assertBalanced True ?t = Some (3, 12) \<and> map fst (items ?t) = [1 :: nat, 9, 5, 7] \<and> \<not> indexed_set ?t"
    by (simp add: indexed_set_def)
  then show ?thesis by (rule exI)
qed

subsection \<open>Derived operations\<close>

lemma begin_iter: "iter_in root (is_begin root) \<and> iter_before root (is_begin root) = []"
  using begin_ok [of root] by (auto simp: iter_in_def iter_before_def split: option.splits)

lemma lastLessOrEqual_ok:
  assumes "indexed_set root"
  shows "case lastLessOrEqual root key of
      None \<Rightarrow> filter (\<lambda>x. fst x \<le> key) (items root) = []
    | Some x \<Rightarrow> loc_in root x \<and> loc_before x @ [loc_item x] = filter (\<lambda>x. fst x \<le> key) (items root)"
proof -
  note u = upper_bound_iter [OF assms, of key]
  have same: "same_node (upper_bound root key) (is_begin root) \<longleftrightarrow> filter (\<lambda>x. fst x \<le> key) (items root) = []"
    using same_iter_iff [OF u(1), of "is_begin root"] begin_iter [of root] u(2) by simp
  show ?thesis
  proof (cases "filter (\<lambda>x. fst x \<le> key) (items root) = []")
    case True
    then show ?thesis using same by (simp add: lastLessOrEqual_def Let_def)
  next
    case False
    then show ?thesis using same previous_iter [OF u(1)] u(2) by (auto simp: lastLessOrEqual_def Let_def)
  qed
qed

text \<open>\<open>lastLessOrEqual\<close> finds the last element up to a key; \<open>addMetric\<close> adds to the metric of a key, counting a
  key that is not in the set as zero; \<open>operator[]\<close> of a \<open>Map\<close> adds a missing key and changes no other entry.\<close>

theorem IndexedSet_derived:
  assumes "indexed_set root"
  shows "(case lastLessOrEqual root key of
      None \<Rightarrow> filter (\<lambda>x. fst x \<le> key) (items root) = []
    | Some x \<Rightarrow> loc_in root x \<and> loc_before x @ [loc_item x] = filter (\<lambda>x. fst x \<le> key) (items root)) \<and>
    (let old = (case map_of (items root) key of None \<Rightarrow> 0 | Some vm \<Rightarrow> snd vm); (new, root') = addMetric key val metric root
     in new = metric + old \<and> indexed_set root' \<and> items root' = put key val (metric + old) (items root)) \<and>
    indexed_set (Map_at key val metric root) \<and>
    items (Map_at key val metric root) = add_one False (items root) (key, val, metric)"
proof -
  have "case addMetric key val metric root of (new, root') \<Rightarrow>
      new = metric + (case map_of (items root) key of None \<Rightarrow> 0 | Some vm \<Rightarrow> snd vm) \<and> indexed_set root' \<and>
      items root' = put key val (metric + (case map_of (items root) key of None \<Rightarrow> 0 | Some vm \<Rightarrow> snd vm)) (items root)"
  proof (cases "is_find root key")
    case None
    then show ?thesis
      using find_value [OF assms, of key] is_insert_ok [OF assms, of key val metric True] by (simp add: addMetric_def)
  next
    case (Some x)
    then have x: "loc_in root x" using is_find_ok [OF assms, of key] by simp
    have "map_of (items root) key = Some (snd (loc_item x))" using find_value [OF assms, of key] Some by simp
    then show ?thesis
      using Some getMetric_item [OF x] is_insert_ok [OF assms, of key val _ True] by (simp add: addMetric_def Let_def)
  qed
  then show ?thesis
    using lastLessOrEqual_ok [OF assms, of key] is_insert_ok [OF assms, of key val metric False]
    by (simp add: Let_def Map_at_def add_one_def)
qed

theorem IndexedSet_derived_witness:
  "addMetric 2 () 4 three = (5, snd (addMetric 2 () 4 three)) \<and> items (snd (addMetric 2 () 4 three)) = [(1, (), 5), (2, (), 5), (3, (), 7)]"
  using IndexedSet_derived [of three 2 "()" 4] by (auto simp: put_def split: prod.splits)

end
