(* ===== verification/Deque.thy ===== *)
theory Deque
  imports Prelude
begin

text \<open>
  The double-ended queue of \<^verbatim>\<open>flow/include/flow/Deque.h\<close>: a circular array with a capacity that is a power of
  two, 32-bit positions and a mask.

  A slot of the array is \<open>Some x\<close> while an object is alive in it and \<open>None\<close> in raw memory, so that reading,
  destroying or assigning to a slot without an object is the error \<open>Undefined\<close>.  \<open>nullptr\<close> is \<open>None\<close>.  The
  constructors of the elements are taken not to throw; the flag \<open>alloc\<close> tells whether memory is available.
\<close>

unbundle bit_operations_syntax

record 'a deque =
  arr :: "'a option list option"
  begin_ix :: "32 word"
  end_ix :: "32 word"
  mask_ix :: "32 word"

datatype deque_error = BadAlloc | OutOfMemory | OutOfRange | AssertFailed | Undefined

type_synonym 'a dq_result = "deque_error + 'a"

definition bind_dq :: "'a dq_result \<Rightarrow> ('a \<Rightarrow> 'b dq_result) \<Rightarrow> 'b dq_result" where
  "bind_dq r f = (case r of Inl e \<Rightarrow> Inl e | Inr x \<Rightarrow> f x)"

definition Deque_new :: "'a deque" where
  "Deque_new = \<lparr>arr = None, begin_ix = 0, end_ix = 0, mask_ix = -1\<rparr>"

definition dq_size :: "'a deque \<Rightarrow> 32 word" where
  "dq_size d = end_ix d - begin_ix d"

definition dq_empty :: "'a deque \<Rightarrow> bool" where
  "dq_empty d \<longleftrightarrow> end_ix d = begin_ix d"

definition dq_capacity :: "'a deque \<Rightarrow> 32 word" where
  "dq_capacity d = mask_ix d + 1"

definition dq_max_size :: nat where
  "dq_max_size = 2 ^ 30"

definition dq_full :: "'a deque \<Rightarrow> bool" where
  "dq_full d \<longleftrightarrow> end_ix d = begin_ix d + mask_ix d + 1"

subsection \<open>Slots\<close>

definition slot :: "'a deque \<Rightarrow> 32 word \<Rightarrow> 'a dq_result" where
  "slot d w =
     (case arr d of
        None \<Rightarrow> Inl Undefined
      | Some xs \<Rightarrow> if unat w < length xs then (case xs ! unat w of None \<Rightarrow> Inl Undefined | Some x \<Rightarrow> Inr x) else Inl Undefined)"

definition put_slot :: "'a deque \<Rightarrow> 32 word \<Rightarrow> 'a option \<Rightarrow> 'a deque dq_result" where
  "put_slot d w v =
     (case arr d of
        None \<Rightarrow> Inl Undefined
      | Some xs \<Rightarrow> if unat w < length xs then Inr (d\<lparr>arr := Some (xs[unat w := v])\<rparr>) else Inl Undefined)"

definition destroy :: "'a deque \<Rightarrow> 32 word \<Rightarrow> 'a deque dq_result" where
  "destroy d w = bind_dq (slot d w) (\<lambda>_. put_slot d w None)"

text \<open>The values of the loop variable in \<open>for (i = b; i != e; i++)\<close>.\<close>

definition positions :: "32 word \<Rightarrow> 32 word \<Rightarrow> 32 word list" where
  "positions b e = map (\<lambda>j. b + of_nat j) [0..<unat (e - b)]"

fun destroy_all :: "32 word list \<Rightarrow> 'a deque \<Rightarrow> 'a deque dq_result" where
  "destroy_all [] d = Inr d"
| "destroy_all (i # is) d = bind_dq (destroy d (i AND mask_ix d)) (destroy_all is)"

fun move_all :: "32 word list \<Rightarrow> 'a deque \<Rightarrow> 'a option list \<Rightarrow> 'a option list dq_result" where
  "move_all [] d newArr = Inr newArr"
| "move_all (i # is) d newArr =
     bind_dq (slot d (i AND mask_ix d)) (\<lambda>x. move_all is d (newArr[unat (i - begin_ix d) := Some x]))"

subsection \<open>Growing\<close>

definition grow :: "bool \<Rightarrow> 'a deque \<Rightarrow> 'a deque dq_result" where
  "grow alloc d =
     (let mp1 = (if arr d \<noteq> None then unat (mask_ix d) + 1 else 4);
          newSize = mp1 * 2
      in if newSize > dq_max_size then Inl BadAlloc
         else if \<not> alloc then Inl OutOfMemory
         else bind_dq (move_all (positions (begin_ix d) (end_ix d)) d (replicate newSize None)) (\<lambda>newArr.
              bind_dq (destroy_all (positions (begin_ix d) (end_ix d)) d) (\<lambda>_.
              Inr \<lparr>arr = Some newArr, begin_ix = 0, end_ix = end_ix d - begin_ix d, mask_ix = of_nat (newSize - 1)\<rparr>)))"

definition reserve_one :: "bool \<Rightarrow> 'a deque \<Rightarrow> 'a deque dq_result" where
  "reserve_one alloc d = (if dq_full d then grow alloc d else Inr d)"

subsection \<open>Adding and removing\<close>

definition push_back :: "bool \<Rightarrow> 'a \<Rightarrow> 'a deque \<Rightarrow> 'a deque dq_result" where
  "push_back alloc val d =
     bind_dq (reserve_one alloc d) (\<lambda>d.
     bind_dq (put_slot d (end_ix d AND mask_ix d) (Some val)) (\<lambda>d. Inr (d\<lparr>end_ix := end_ix d + 1\<rparr>)))"

text \<open>\<open>push_back(const T&)\<close> with a reference to the element \<open>i\<close> of the same deque: the reference dangles once the
  array has been replaced.\<close>

definition push_back_own :: "bool \<Rightarrow> 32 word \<Rightarrow> 'a deque \<Rightarrow> 'a deque dq_result" where
  "push_back_own alloc i d =
     (if dq_full d then bind_dq (grow alloc d) (\<lambda>_. Inl Undefined)
      else bind_dq (slot d ((begin_ix d + i) AND mask_ix d)) (\<lambda>val. push_back alloc val d))"

definition emplace_back :: "bool \<Rightarrow> 'a \<Rightarrow> 'a deque \<Rightarrow> ('a deque \<times> 'a) dq_result" where
  "emplace_back alloc val d =
     bind_dq (reserve_one alloc d) (\<lambda>d.
     bind_dq (put_slot d (end_ix d AND mask_ix d) (Some val)) (\<lambda>d.
     bind_dq (slot d (end_ix d AND mask_ix d)) (\<lambda>result. Inr (d\<lparr>end_ix := end_ix d + 1\<rparr>, result))))"

definition pop_back :: "'a deque \<Rightarrow> 'a deque dq_result" where
  "pop_back d =
     (if dq_empty d then Inl AssertFailed
      else let d = d\<lparr>end_ix := end_ix d - 1\<rparr> in destroy d (end_ix d AND mask_ix d))"

definition pop_front :: "'a deque \<Rightarrow> 'a deque dq_result" where
  "pop_front d =
     (if dq_empty d then Inl AssertFailed
      else bind_dq (destroy d (begin_ix d)) (\<lambda>d.
             if begin_ix d = mask_ix d
             then Inr (d\<lparr>begin_ix := begin_ix d - mask_ix d, end_ix := end_ix d - (mask_ix d + 1)\<rparr>)
             else Inr (d\<lparr>begin_ix := begin_ix d + 1\<rparr>)))"

definition dq_clear :: "'a deque \<Rightarrow> 'a deque dq_result" where
  "dq_clear d =
     bind_dq (destroy_all (positions (begin_ix d) (end_ix d)) d) (\<lambda>d. Inr (d\<lparr>begin_ix := 0, end_ix := 0\<rparr>))"

subsection \<open>Access\<close>

definition dq_front :: "'a deque \<Rightarrow> 'a dq_result" where
  "dq_front d = slot d (begin_ix d)"

definition dq_back :: "'a deque \<Rightarrow> 'a dq_result" where
  "dq_back d = slot d ((end_ix d - 1) AND mask_ix d)"

definition index_op :: "'a deque \<Rightarrow> int \<Rightarrow> 'a dq_result" where
  "index_op d i = slot d ((begin_ix d + word_of_int i) AND mask_ix d)"

definition at_op :: "'a deque \<Rightarrow> int \<Rightarrow> 'a dq_result" where
  "at_op d i = (if i < 0 \<or> word_of_int i \<ge> end_ix d - begin_ix d then Inl OutOfRange else index_op d i)"

fun equal_loop :: "nat list \<Rightarrow> 'a deque \<Rightarrow> 'a deque \<Rightarrow> bool dq_result" where
  "equal_loop [] d r = Inr True"
| "equal_loop (i # is) d r =
     bind_dq (index_op d (int i)) (\<lambda>x. bind_dq (index_op r (int i)) (\<lambda>y. if x \<noteq> y then Inr False else equal_loop is d r))"

definition dq_equal :: "'a deque \<Rightarrow> 'a deque \<Rightarrow> bool dq_result" where
  "dq_equal d r = (if dq_size d \<noteq> dq_size r then Inr False else equal_loop [0..<unat (dq_size d)] d r)"

subsection \<open>Copying and moving\<close>

text \<open>\<open>std::copy\<close> assigns to the slots of the new array, which hold no objects yet: this is defined only for
  trivially copyable elements.\<close>

fun copy_range :: "bool \<Rightarrow> nat list \<Rightarrow> nat \<Rightarrow> 'a deque \<Rightarrow> 'a option list \<Rightarrow> 'a option list dq_result" where
  "copy_range trivial [] out r new = Inr new"
| "copy_range trivial (i # is) out r new =
     bind_dq (slot r (of_nat i)) (\<lambda>x.
       if trivial \<and> out < length new then copy_range trivial is (out + 1) r (new[out := Some x]) else Inl Undefined)"

definition copy_elements :: "bool \<Rightarrow> 'a deque \<Rightarrow> 'a option list \<Rightarrow> 'a option list dq_result" where
  "copy_elements trivial r new =
     (let cap = unat (dq_capacity r); b = unat (begin_ix r) in
      if end_ix r < dq_capacity r then copy_range trivial [b..<b + unat (dq_size r)] 0 r new
      else bind_dq (copy_range trivial [b..<cap] 0 r new) (\<lambda>new.
           copy_range trivial [0..<unat (end_ix r AND mask_ix r)] (cap - b) r new))"

definition Deque_copy :: "bool \<Rightarrow> bool \<Rightarrow> 'a deque \<Rightarrow> 'a deque dq_result" where
  "Deque_copy trivial alloc r =
     (let d = \<lparr>arr = None, begin_ix = 0, end_ix = dq_size r, mask_ix = mask_ix r\<rparr>;
          cap = unat (dq_capacity r)
      in if cap > 0 \<and> \<not> alloc then Inl OutOfMemory
         else if \<not> (dq_capacity d \<ge> end_ix d \<or> end_ix d = 0) then Inl AssertFailed
         else bind_dq (copy_elements trivial r (replicate cap None)) (\<lambda>new.
              Inr (d\<lparr>arr := (if cap > 0 then Some new else None)\<rparr>)))"

definition Deque_move :: "'a deque \<Rightarrow> 'a deque \<times> 'a deque" where
  "Deque_move r = (\<lparr>arr = arr r, begin_ix = begin_ix r, end_ix = end_ix r, mask_ix = mask_ix r\<rparr>, Deque_new)"

definition cleanup :: "'a deque \<Rightarrow> 'a deque dq_result" where
  "cleanup d =
     bind_dq (destroy_all (positions (begin_ix d) (end_ix d)) d) (\<lambda>d. Inr (d\<lparr>arr := None\<rparr>))"

definition copy_assign :: "bool \<Rightarrow> bool \<Rightarrow> 'a deque \<Rightarrow> 'a deque \<Rightarrow> 'a deque dq_result" where
  "copy_assign trivial alloc d r = bind_dq (cleanup d) (\<lambda>_. Deque_copy trivial alloc r)"

definition move_assign :: "'a deque \<Rightarrow> 'a deque \<Rightarrow> ('a deque \<times> 'a deque) dq_result" where
  "move_assign d r = bind_dq (cleanup d) (\<lambda>_. Inr (Deque_move r))"

text \<open>Copy assignment of a deque to itself: the argument is the object that is being overwritten, so the elements are read from the
  new array.\<close>

definition copy_assign_self :: "bool \<Rightarrow> bool \<Rightarrow> 'a deque \<Rightarrow> 'a deque dq_result" where
  "copy_assign_self trivial alloc d =
     bind_dq (cleanup d) (\<lambda>d.
       let d = d\<lparr>begin_ix := 0\<rparr>; d = d\<lparr>end_ix := dq_size d\<rparr>; cap = unat (dq_capacity d) in
       if cap > 0 \<and> \<not> alloc then Inl OutOfMemory
       else if \<not> (dq_capacity d \<ge> end_ix d \<or> end_ix d = 0) then Inl AssertFailed
       else let d = d\<lparr>arr := (if cap > 0 then Some (replicate cap None) else None)\<rparr> in
            bind_dq (copy_elements trivial d (replicate cap None)) (\<lambda>new. Inr (d\<lparr>arr := (if cap > 0 then Some new else None)\<rparr>)))"

end
