(* ===== verification/Deque_Correct.thy ===== *)
theory Deque_Correct
  imports Deque
begin

text \<open>
  The circular array implements a list.  A deque is described by the exponent of its capacity, the position of its
  first element and the list of its elements; every operation takes such a deque to the one that the list operation
  gives, and meets no slot without an object.
\<close>

subsection \<open>The ring\<close>

definition dist :: "nat \<Rightarrow> nat \<Rightarrow> nat \<Rightarrow> nat" where
  "dist b c p = (if b \<le> p then p - b else p + c - b)"

definition nth_opt :: "'a list \<Rightarrow> nat \<Rightarrow> 'a option" where
  "nth_opt ys j = (if j < length ys then Some (ys ! j) else None)"

definition ring :: "nat \<Rightarrow> nat \<Rightarrow> 'a list \<Rightarrow> 'a option list" where
  "ring b c ys = map (\<lambda>p. nth_opt ys (dist b c p)) [0..<c]"

lemma length_ring [simp]: "length (ring b c ys) = c"
  by (simp add: ring_def)

lemma ring_nth [simp]: "p < c \<Longrightarrow> ring b c ys ! p = nth_opt ys (dist b c p)"
  by (simp add: ring_def)

lemma ring_empty [simp]: "ring b c [] = replicate c None"
  by (rule nth_equalityI) (simp_all add: nth_opt_def)

lemma dist_iff: "b < c \<Longrightarrow> p < c \<Longrightarrow> j < c \<Longrightarrow> (b + j) mod c = p \<longleftrightarrow> j = dist b c p"
  by (auto simp: dist_def mod_if)

lemma dist_less: "b < c \<Longrightarrow> p < c \<Longrightarrow> dist b c p < c"
  by (auto simp: dist_def)

lemma nth_opt_snoc: "nth_opt (ys @ [y]) j = (if j = length ys then Some y else nth_opt ys j)"
  by (auto simp: nth_opt_def nth_append)

lemma nth_opt_Cons: "nth_opt (y # ys) (Suc j) = nth_opt ys j"
  by (simp add: nth_opt_def)

lemma ring_elem:
  assumes "b < c" "j < length ys" "length ys \<le> c"
  shows "ring b c ys ! ((b + j) mod c) = Some (ys ! j)"
proof -
  have "(b + j) mod c < c" using assms(1) by simp
  then show ?thesis using assms dist_iff [of b c "(b + j) mod c" j] by (simp add: nth_opt_def)
qed

lemma ring_push:
  assumes "b < c" "length ys < c"
  shows "(ring b c ys)[(b + length ys) mod c := Some y] = ring b c (ys @ [y])"
proof (rule nth_equalityI)
  fix p assume "p < length ((ring b c ys)[(b + length ys) mod c := Some y])"
  then show "(ring b c ys)[(b + length ys) mod c := Some y] ! p = ring b c (ys @ [y]) ! p"
    using assms dist_iff [of b c p "length ys"] by (auto simp: nth_list_update nth_opt_snoc)
qed simp

lemma ring_pop_back:
  assumes "b < c" "length ys < c"
  shows "(ring b c (ys @ [y]))[(b + length ys) mod c := None] = ring b c ys"
proof (rule nth_equalityI)
  fix p assume "p < length ((ring b c (ys @ [y]))[(b + length ys) mod c := None])"
  then show "(ring b c (ys @ [y]))[(b + length ys) mod c := None] ! p = ring b c ys ! p"
    using assms dist_iff [of b c p "length ys"] by (auto simp: nth_list_update nth_opt_snoc) (simp add: nth_opt_def)
qed simp

lemma dist_next: "b < c \<Longrightarrow> p < c \<Longrightarrow> p \<noteq> b \<Longrightarrow> dist b c p = Suc (dist ((b + 1) mod c) c p)"
  by (auto simp: dist_def mod_if)

lemma ring_pop_front:
  assumes "b < c" "length ys < c"
  shows "(ring b c (y # ys))[b := None] = ring ((b + 1) mod c) c ys"
proof (rule nth_equalityI)
  fix p assume "p < length ((ring b c (y # ys))[b := None])"
  then have p: "p < c" by simp
  show "(ring b c (y # ys))[b := None] ! p = ring ((b + 1) mod c) c ys ! p"
  proof (cases "p = b")
    case True
    have "dist ((b + 1) mod c) c b = c - 1" using assms(1) by (auto simp: dist_def mod_if)
    then show ?thesis using True p assms by (simp add: nth_opt_def)
  next
    case False
    then show ?thesis using p assms dist_next [of b c p] by (simp add: nth_opt_Cons)
  qed
qed simp

lemma ring_straight: "length ys \<le> c \<Longrightarrow> ring 0 c ys = map Some ys @ replicate (c - length ys) None"
  by (rule nth_equalityI) (auto simp: nth_opt_def dist_def nth_append)

subsection \<open>Positions as words\<close>

lemma unat_of_nat_32: "n < 2 ^ 32 \<Longrightarrow> unat (of_nat n :: 32 word) = n"
  by (simp add: unat_of_nat take_bit_nat_eq_self)

lemma of_nat_32_eq_iff: "a < 2 ^ 32 \<Longrightarrow> b < 2 ^ 32 \<Longrightarrow> (of_nat a :: 32 word) = of_nat b \<longleftrightarrow> a = b"
  by (metis unat_of_nat_32)

lemma of_nat_mask: "(of_nat (2 ^ k - 1) :: 32 word) = mask k"
  by (simp add: mask_eq_exp_minus_1 of_nat_diff)

lemma and_capacity_mask: "(of_nat n :: 32 word) AND of_nat (2 ^ k - 1) = of_nat (n mod 2 ^ k)"
  unfolding of_nat_mask take_bit_eq_mask [symmetric] by (simp only: take_bit_of_nat take_bit_nat_def)

lemma positions_nat:
  assumes "n < 2 ^ 32"
  shows "positions (of_nat b) (of_nat (b + n)) = map (\<lambda>j. of_nat (b + j)) [0..<n]"
  using assms unat_of_nat_32 [of n] by (simp add: positions_def)

subsection \<open>Representation\<close>

definition repr :: "nat \<Rightarrow> nat \<Rightarrow> 'a list \<Rightarrow> 'a deque" where
  "repr k b ys = \<lparr>arr = Some (ring b (2 ^ k) ys), begin_ix = of_nat b, end_ix = of_nat (b + length ys),
     mask_ix = of_nat (2 ^ k - 1)\<rparr>"

definition shape :: "nat \<Rightarrow> nat \<Rightarrow> 'a list \<Rightarrow> bool" where
  "shape k b ys \<longleftrightarrow> 3 \<le> k \<and> k \<le> 30 \<and> b < 2 ^ k \<and> length ys \<le> 2 ^ k"

definition deque_rep :: "'a deque \<Rightarrow> 'a list \<Rightarrow> bool" where
  "deque_rep d ys \<longleftrightarrow> d = Deque_new \<and> ys = [] \<or> (\<exists>k b. shape k b ys \<and> d = repr k b ys)"

lemma deque_repI: "shape k b ys \<Longrightarrow> deque_rep (repr k b ys) ys"
  by (auto simp: deque_rep_def)

lemma shape_bounds:
  assumes "shape k b ys"
  shows "b < 2 ^ 30" "length ys \<le> 2 ^ 30" "b + length ys < 2 ^ 31" "(2 :: nat) ^ k \<le> 2 ^ 30" "b < 2 ^ k" "length ys \<le> 2 ^ k"
proof -
  show k: "(2 :: nat) ^ k \<le> 2 ^ 30" using assms by (intro power_increasing) (auto simp: shape_def)
  show "b < 2 ^ k" "length ys \<le> 2 ^ k" using assms by (auto simp: shape_def)
  then show "b < 2 ^ 30" "length ys \<le> 2 ^ 30" "b + length ys < 2 ^ 31" using k by auto
qed

lemma repr_fields [simp]:
  "arr (repr k b ys) = Some (ring b (2 ^ k) ys)" "begin_ix (repr k b ys) = of_nat b"
  "end_ix (repr k b ys) = of_nat (b + length ys)" "mask_ix (repr k b ys) = of_nat (2 ^ k - 1)"
  by (simp_all add: repr_def)

lemma unat_wrapped:
  assumes "shape k b ys"
  shows "unat (of_nat (p mod 2 ^ k) :: 32 word) = p mod 2 ^ k"
proof (rule unat_of_nat_32)
  have "p mod 2 ^ k < 2 ^ k" by simp
  also have "\<dots> \<le> 2 ^ 30" by (rule shape_bounds(4) [OF assms])
  finally show "p mod 2 ^ k < 2 ^ 32" by simp
qed

lemma slot_repr:
  assumes "shape k b ys" "j < length ys"
  shows "slot (repr k b ys) (of_nat (b + j) AND of_nat (2 ^ k - 1)) = Inr (ys ! j)"
proof -
  note s = shape_bounds [OF assms(1)]
  have u: "unat (of_nat ((b + j) mod 2 ^ k) :: 32 word) = (b + j) mod 2 ^ k" by (rule unat_wrapped [OF assms(1)])
  show ?thesis
    unfolding and_capacity_mask slot_def using s ring_elem [OF s(5) assms(2) s(6)] u by simp
qed

lemma put_slot_wrapped:
  assumes "shape k b ys"
  shows "put_slot (repr k b ys) (of_nat p AND of_nat (2 ^ k - 1)) v =
    Inr ((repr k b ys)\<lparr>arr := Some ((ring b (2 ^ k) ys)[p mod 2 ^ k := v])\<rparr>)"
  unfolding and_capacity_mask put_slot_def by (simp add: unat_wrapped [OF assms])

lemma dq_full_repr:
  assumes "shape k b ys"
  shows "dq_full (repr k b ys) \<longleftrightarrow> length ys = 2 ^ k"
proof -
  note s = shape_bounds [OF assms]
  have "of_nat b + of_nat (2 ^ k - 1) + 1 = (of_nat (b + 2 ^ k) :: 32 word)" by (simp add: of_nat_diff)
  then show ?thesis using s of_nat_32_eq_iff [of "b + length ys" "b + 2 ^ k"] by (simp add: dq_full_def add.assoc)
qed

lemma dq_size_repr:
  assumes "shape k b ys"
  shows "dq_size (repr k b ys) = of_nat (length ys)" "unat (dq_size (repr k b ys)) = length ys"
    "dq_empty (repr k b ys) \<longleftrightarrow> ys = []"
  using shape_bounds [OF assms] unat_of_nat_32 [of "length ys"] of_nat_32_eq_iff [of "b + length ys" b]
  by (auto simp: dq_size_def dq_empty_def)

lemma positions_repr:
  assumes "shape k b ys"
  shows "positions (begin_ix (repr k b ys)) (end_ix (repr k b ys)) = map (\<lambda>j. of_nat (b + j)) [0..<length ys]"
  using positions_nat [of "length ys" b] shape_bounds [OF assms] by simp

lemma move_all_repr:
  assumes "shape k b ys" "length ys \<le> m" "i \<le> length ys"
  shows "move_all (map (\<lambda>j. of_nat (b + j)) [i..<length ys]) (repr k b ys) (map Some (take i ys) @ replicate (m - i) None) =
    Inr (map Some ys @ replicate (m - length ys) None)"
  using assms(3)
proof (induction "length ys - i" arbitrary: i)
  case (Suc n)
  then have i: "i < length ys" by simp
  have u: "unat (of_nat (b + i) - of_nat b :: 32 word) = i"
    using shape_bounds [OF assms(1)] i unat_of_nat_32 [of i] by simp
  have "(map Some (take i ys) @ replicate (m - i) None)[i := Some (ys ! i)] =
      map Some (take (Suc i) ys) @ replicate (m - Suc i) None"
    using i assms(2) by (simp add: list_update_append take_Suc_conv_app_nth replicate_Suc [symmetric] Suc_diff_Suc
        del: replicate_Suc) (metis Suc_diff_Suc less_le_trans list_update_code(2) replicate_Suc)
  then show ?case
    using Suc.hyps(1) [of "Suc i"] Suc.hyps(2) i slot_repr [OF assms(1) i] u
    by (simp add: upt_conv_Cons bind_dq_def del: of_nat_add)
qed simp

lemma destroy_all_repr:
  assumes "shape k b ys" "i \<le> length ys"
  shows "destroy_all (map (\<lambda>j. of_nat (b + j)) [i..<length ys])
      ((repr k b ys)\<lparr>arr := Some (ring ((b + i) mod 2 ^ k) (2 ^ k) (drop i ys))\<rparr>) =
    Inr ((repr k b ys)\<lparr>arr := Some (replicate (2 ^ k) None)\<rparr>)"
  using assms(2)
proof (induction "length ys - i" arbitrary: i)
  case (Suc n)
  then have i: "i < length ys" by simp
  note s = shape_bounds [OF assms(1)]
  let ?d = "(repr k b ys)\<lparr>arr := Some (ring ((b + i) mod 2 ^ k) (2 ^ k) (drop i ys))\<rparr>"
  have drop: "drop i ys = ys ! i # drop (Suc i) ys" using i by (simp add: Cons_nth_drop_Suc)
  have len: "length (drop (Suc i) ys) < 2 ^ k" using i s(6) by simp
  have "slot ?d (of_nat ((b + i) mod 2 ^ k)) = Inr (ys ! i)"
    using unat_wrapped [OF assms(1)] drop by (simp add: slot_def nth_opt_def dist_def)
  moreover have "put_slot ?d (of_nat ((b + i) mod 2 ^ k)) None =
      Inr ((repr k b ys)\<lparr>arr := Some (ring ((b + Suc i) mod 2 ^ k) (2 ^ k) (drop (Suc i) ys))\<rparr>)"
    using unat_wrapped [OF assms(1)] ring_pop_front [of "(b + i) mod 2 ^ k" "2 ^ k" "drop (Suc i) ys" "ys ! i"] len drop
    by (simp add: put_slot_def mod_Suc_eq)
  ultimately have "destroy ?d (of_nat (b + i) AND of_nat (2 ^ k - 1)) =
      Inr ((repr k b ys)\<lparr>arr := Some (ring ((b + Suc i) mod 2 ^ k) (2 ^ k) (drop (Suc i) ys))\<rparr>)"
    unfolding and_capacity_mask destroy_def by (simp add: bind_dq_def)
  then show ?case
    using Suc.hyps(1) [of "Suc i"] Suc.hyps(2) i by (simp add: upt_conv_Cons bind_dq_def del: of_nat_add)
qed simp

subsection \<open>The operations\<close>

lemma destroy_all_whole:
  assumes "shape k b ys"
  shows "destroy_all (positions (begin_ix (repr k b ys)) (end_ix (repr k b ys))) (repr k b ys) =
    Inr ((repr k b ys)\<lparr>arr := Some (replicate (2 ^ k) None)\<rparr>)"
proof -
  have "(repr k b ys)\<lparr>arr := Some (ring ((b + 0) mod 2 ^ k) (2 ^ k) (drop 0 ys))\<rparr> = repr k b ys"
    using shape_bounds(5) [OF assms] by (simp add: repr_def)
  then show ?thesis unfolding positions_repr [OF assms] using destroy_all_repr [OF assms, of 0] by simp
qed

lemma grow_repr:
  assumes "shape k b ys"
  shows "grow alloc (repr k b ys) = (if k = 30 then Inl BadAlloc else if alloc then Inr (repr (k + 1) 0 ys) else Inl OutOfMemory)"
proof -
  note s = shape_bounds [OF assms]
  have "k = 30 \<or> k < 30" using assms by (auto simp: shape_def)
  moreover have u: "unat (of_nat (2 ^ k - 1) :: 32 word) + 1 = 2 ^ k" using s(4) unat_of_nat_32 [of "2 ^ k - 1"] by simp
  have big: "(2 ^ k * 2 > dq_max_size) \<longleftrightarrow> \<not> k < 30"
  proof -
    have "2 ^ (k + 1) > (2 :: nat) ^ 30 \<longleftrightarrow> k + 1 > 30" by (rule power_strict_increasing_iff) simp
    then show ?thesis by (auto simp: dq_max_size_def)
  qed
  moreover have "move_all (map (\<lambda>j. of_nat (b + j)) [0..<length ys]) (repr k b ys) (replicate (2 ^ k * 2) None) =
      Inr (ring 0 (2 ^ (k + 1)) ys)"
    using move_all_repr [OF assms, of "2 ^ k * 2" 0] s(6) ring_straight [of ys "2 ^ (k + 1)"] by (simp add: mult.commute)
  moreover have "(of_nat (b + length ys) :: 32 word) - of_nat b = of_nat (length ys)" by simp
  ultimately show ?thesis
    using destroy_all_whole [OF assms] positions_repr [OF assms] u
    by (auto simp: grow_def Let_def bind_dq_def repr_def mult.commute simp del: of_nat_add)
qed

lemma grow_new: "grow alloc Deque_new = (if alloc then Inr (repr 3 0 []) else Inl OutOfMemory)"
  by (simp add: grow_def Deque_new_def dq_max_size_def positions_def bind_dq_def repr_def)

lemma reserve_one_ok:
  assumes "deque_rep d ys" and "alloc" and "length ys < dq_max_size"
  shows "\<exists>k b. reserve_one alloc d = Inr (repr k b ys) \<and> shape k b ys \<and> length ys < 2 ^ k"
proof (cases "d = Deque_new")
  case True
  have "Deque_new \<noteq> repr k b ys" for k b by (simp add: Deque_new_def repr_def)
  then have "ys = []" using assms(1) True by (auto simp: deque_rep_def)
  moreover have "reserve_one alloc d = Inr (repr 3 0 [])"
    using True assms(2) grow_new [of alloc] by (simp add: reserve_one_def dq_full_def Deque_new_def)
  ultimately show ?thesis by (intro exI [of _ 3] exI [of _ 0]) (simp add: shape_def)
next
  case False
  then obtain k b where s: "shape k b ys" "d = repr k b ys" using assms(1) by (auto simp: deque_rep_def)
  show ?thesis
  proof (cases "length ys = 2 ^ k")
    case True
    then have "k \<noteq> 30" using assms(3) by (auto simp: dq_max_size_def)
    then have "reserve_one alloc d = Inr (repr (k + 1) 0 ys)" "shape (k + 1) 0 ys" "length ys < 2 ^ (k + 1)"
      using True s assms(2) by (auto simp: reserve_one_def dq_full_repr grow_repr shape_def)
    then show ?thesis by blast
  next
    case False
    then have "reserve_one alloc d = Inr (repr k b ys)" "length ys < 2 ^ k"
      using s shape_bounds(6) [OF s(1)] by (auto simp: reserve_one_def dq_full_repr)
    then show ?thesis using s(1) by blast
  qed
qed

lemma push_repr:
  assumes "shape k b ys" "length ys < 2 ^ k"
  shows "(repr k b ys)\<lparr>arr := Some ((ring b (2 ^ k) ys)[(b + length ys) mod 2 ^ k := Some y]), end_ix := of_nat (b + length ys) + 1\<rparr> =
    repr k b (ys @ [y])" "shape k b (ys @ [y])"
  using assms ring_push [of b "2 ^ k" ys y] by (auto simp: repr_def shape_def)

lemma push_back_ok:
  assumes "deque_rep d ys" "alloc" "length ys < dq_max_size"
  shows "\<exists>d'. push_back alloc y d = Inr d' \<and> deque_rep d' (ys @ [y])"
proof -
  obtain k b where r: "reserve_one alloc d = Inr (repr k b ys)" "shape k b ys" "length ys < 2 ^ k"
    using reserve_one_ok [OF assms] by blast
  have "push_back alloc y d = Inr (repr k b (ys @ [y]))"
    using r(1) put_slot_wrapped [OF r(2), of "b + length ys" "Some y"] push_repr(1) [OF r(2,3)]
    by (simp add: push_back_def bind_dq_def del: of_nat_add)
  then show ?thesis using deque_repI [OF push_repr(2) [OF r(2,3)]] by blast
qed

lemma pop_back_ok:
  assumes "deque_rep d ys"
  shows "if ys = [] then pop_back d = Inl AssertFailed else \<exists>d'. pop_back d = Inr d' \<and> deque_rep d' (butlast ys)"
proof (cases ys rule: rev_cases)
  case Nil
  then show ?thesis using assms dq_size_repr(3) [of _ _ ys] by (auto simp: deque_rep_def pop_back_def) (simp add: dq_empty_def Deque_new_def)
next
  case (snoc zs z)
  then obtain k b where s: "shape k b ys" "d = repr k b ys" using assms by (auto simp: deque_rep_def)
  have zs: "shape k b zs" "length zs < 2 ^ k" using s(1) snoc by (auto simp: shape_def)
  let ?d = "(repr k b ys)\<lparr>end_ix := of_nat (b + length zs)\<rparr>"
  have e: "(of_nat (b + length ys) :: 32 word) - 1 = of_nat (b + length zs)" using snoc by simp
  have slot: "slot ?d (of_nat (b + length zs) AND of_nat (2 ^ k - 1)) = Inr z"
    using slot_repr [OF s(1), of "length zs"] snoc by (simp add: slot_def del: of_nat_add)
  have "put_slot ?d (of_nat (b + length zs) AND of_nat (2 ^ k - 1)) None = Inr (repr k b zs)"
    unfolding and_capacity_mask put_slot_def
    using unat_wrapped [OF s(1)] ring_pop_back [of b "2 ^ k" zs z] zs snoc by (simp add: repr_def shape_def)
  then have "pop_back d = Inr (repr k b zs)"
    using s dq_size_repr(3) [OF s(1)] snoc slot e by (simp add: pop_back_def Let_def destroy_def bind_dq_def del: of_nat_add)
  then show ?thesis using deque_repI [OF zs(1)] snoc by auto
qed

lemma pop_front_ok:
  assumes "deque_rep d ys"
  shows "if ys = [] then pop_front d = Inl AssertFailed else \<exists>d'. pop_front d = Inr d' \<and> deque_rep d' (tl ys)"
proof (cases ys)
  case Nil
  then show ?thesis using assms dq_size_repr(3) [of _ _ ys] by (auto simp: deque_rep_def pop_front_def) (simp add: dq_empty_def Deque_new_def)
next
  case (Cons y zs)
  then obtain k b where s: "shape k b ys" "d = repr k b ys" using assms by (auto simp: deque_rep_def)
  note bounds = shape_bounds [OF s(1)]
  have b: "unat (of_nat b :: 32 word) = b" "b < 2 ^ k" using bounds unat_of_nat_32 [of b] by auto
  have "destroy d (of_nat b) = Inr ((repr k b ys)\<lparr>arr := Some (ring ((b + 1) mod 2 ^ k) (2 ^ k) zs)\<rparr>)"
    using b s(2) Cons ring_pop_front [of b "2 ^ k" zs y] bounds(6)
    by (simp add: destroy_def slot_def put_slot_def bind_dq_def nth_opt_def dist_def)
  moreover have "of_nat b = (of_nat (2 ^ k - 1) :: 32 word) \<longleftrightarrow> b = 2 ^ k - 1"
    using bounds by (intro of_nat_32_eq_iff) auto
  ultimately have "pop_front d = (if b = 2 ^ k - 1
      then Inr ((repr k b ys)\<lparr>arr := Some (ring ((b + 1) mod 2 ^ k) (2 ^ k) zs),
             begin_ix := 0, end_ix := of_nat (b + length ys) - (of_nat (2 ^ k - 1) + 1)\<rparr>)
      else Inr ((repr k b ys)\<lparr>arr := Some (ring ((b + 1) mod 2 ^ k) (2 ^ k) zs), begin_ix := of_nat b + 1\<rparr>))"
    using s dq_size_repr(3) [OF s(1)] Cons by (simp add: pop_front_def bind_dq_def del: of_nat_add)
  also have "\<dots> = Inr (repr k ((b + 1) mod 2 ^ k) zs)"
    using Cons b(2) by (auto simp: repr_def of_nat_diff)
  finally show ?thesis using Cons s(1) deque_repI [of k "(b + 1) mod 2 ^ k" zs] by (auto simp: shape_def)
qed

lemma clear_ok:
  assumes "deque_rep d ys"
  shows "\<exists>d'. dq_clear d = Inr d' \<and> deque_rep d' []"
proof (cases "d = Deque_new")
  case True
  then show ?thesis by (simp add: dq_clear_def Deque_new_def positions_def bind_dq_def deque_rep_def)
next
  case False
  then obtain k b where s: "shape k b ys" "d = repr k b ys" using assms by (auto simp: deque_rep_def)
  have "dq_clear d = Inr (repr k 0 [])"
    using s destroy_all_whole [OF s(1)] by (simp add: dq_clear_def bind_dq_def repr_def)
  then show ?thesis using s(1) deque_repI [of k 0 "[]"] by (auto simp: shape_def)
qed

subsection \<open>Access and comparison\<close>

lemma dq_index_ok:
  assumes "deque_rep d ys" "j < length ys"
  shows "index_op d (int j) = Inr (ys ! j)"
proof -
  obtain k b where s: "shape k b ys" "d = repr k b ys" using assms by (auto simp: deque_rep_def)
  then show ?thesis using slot_repr [OF s(1) assms(2)] by (simp add: index_op_def)
qed

lemma size_ok:
  assumes "deque_rep d ys"
  shows "unat (dq_size d) = length ys" "dq_empty d \<longleftrightarrow> ys = []" "length ys \<le> dq_max_size"
proof -
  have "unat (dq_size d) = length ys \<and> (dq_empty d \<longleftrightarrow> ys = []) \<and> length ys \<le> dq_max_size"
  proof (cases "d = Deque_new")
    case True
    have "Deque_new \<noteq> repr k b ys" for k b by (simp add: Deque_new_def repr_def)
    then have "ys = []" using assms True by (auto simp: deque_rep_def)
    then show ?thesis using True by (simp add: dq_size_def dq_empty_def Deque_new_def)
  next
    case False
    then obtain k b where s: "shape k b ys" "d = repr k b ys" using assms by (auto simp: deque_rep_def)
    then show ?thesis using dq_size_repr [OF s(1)] shape_bounds(2) [OF s(1)] by (simp add: dq_max_size_def)
  qed
  then show "unat (dq_size d) = length ys" "dq_empty d \<longleftrightarrow> ys = []" "length ys \<le> dq_max_size" by auto
qed

lemma at_ok:
  assumes "deque_rep d ys" "-(2 ^ 31) \<le> i" "i < 2 ^ 31"
  shows "at_op d i = (if 0 \<le> i \<and> i < int (length ys) then Inr (ys ! nat i) else Inl OutOfRange)"
proof (cases "0 \<le> i")
  case True
  then obtain j where j: "i = int j" using nonneg_int_cases by auto
  have "j < 2 ^ 32" using assms(3) j by simp
  then have "unat (word_of_int i :: 32 word) = j" using unat_of_nat_32 [of j] j by simp
  then have "word_of_int i \<ge> end_ix d - begin_ix d \<longleftrightarrow> length ys \<le> j"
    using size_ok(1) [OF assms(1)] by (simp add: word_le_nat_alt dq_size_def)
  then show ?thesis using j dq_index_ok [OF assms(1), of j] by (simp add: at_op_def)
qed (simp add: at_op_def)

lemma front_back_ok:
  assumes "deque_rep d ys" "ys \<noteq> []"
  shows "dq_front d = Inr (hd ys)" "dq_back d = Inr (last ys)"
proof -
  obtain k b where s: "shape k b ys" "d = repr k b ys" using assms by (auto simp: deque_rep_def)
  note bounds = shape_bounds [OF s(1)]
  have "b mod 2 ^ k = b" using bounds(5) by simp
  then have "slot (repr k b ys) (of_nat b) = Inr (ys ! 0)"
    using slot_repr [OF s(1), of 0] assms(2) and_capacity_mask [of b k] by (simp del: of_nat_diff)
  then show "dq_front d = Inr (hd ys)" using s(2) assms(2) by (simp add: dq_front_def hd_conv_nth)
  have "(of_nat (b + length ys) :: 32 word) - 1 = of_nat (b + (length ys - 1))"
    using assms(2) by (cases ys) auto
  then show "dq_back d = Inr (last ys)"
    using slot_repr [OF s(1), of "length ys - 1"] s(2) assms(2)
    by (simp add: dq_back_def last_conv_nth del: of_nat_add)
qed

lemma equal_loop_ok:
  assumes "deque_rep d xs" "deque_rep r ys" "length xs = n" "length ys = n" "i \<le> n"
  shows "equal_loop [i..<n] d r = Inr (drop i xs = drop i ys)"
  using assms(5)
proof (induction "n - i" arbitrary: i)
  case (Suc m)
  then have i: "i < n" by simp
  have "drop i xs = xs ! i # drop (Suc i) xs" "drop i ys = ys ! i # drop (Suc i) ys"
    using i assms(3,4) by (simp_all add: Cons_nth_drop_Suc)
  then show ?case
    using Suc.hyps(1) [of "Suc i"] Suc.hyps(2) i dq_index_ok [OF assms(1), of i] dq_index_ok [OF assms(2), of i] assms(3,4)
    by (simp add: upt_conv_Cons bind_dq_def)
qed (use assms in simp)

lemma unat_eq_imp_eq: "unat (v :: 32 word) = unat w \<Longrightarrow> v = w"
  by (simp only: word_unat_eq_iff)

lemma equal_ok:
  assumes "deque_rep d xs" "deque_rep r ys"
  shows "dq_equal d r = Inr (xs = ys)"
proof (cases "length xs = length ys")
  case True
  have "unat (dq_size d) = unat (dq_size r)" unfolding size_ok(1) [OF assms(1)] size_ok(1) [OF assms(2)] by (rule True)
  then have "dq_size d = dq_size r" by (rule unat_eq_imp_eq)
  moreover have "equal_loop [0..<length xs] d r = Inr (xs = ys)"
    using equal_loop_ok [OF assms refl True [symmetric], of 0] by simp
  ultimately show ?thesis unfolding dq_equal_def size_ok(1) [OF assms(1)] by simp
next
  case False
  then have "dq_size d \<noteq> dq_size r" using size_ok(1) [OF assms(1)] size_ok(1) [OF assms(2)] by auto
  then show ?thesis using False by (auto simp: dq_equal_def)
qed

subsection \<open>Copies\<close>

lemma copy_range_ok:
  assumes "length zs = n" "\<forall>j<n. slot r (of_nat (p + j)) = Inr (zs ! j)" "out + n \<le> length new"
  shows "copy_range True [p..<p + n] out r new = Inr (take out new @ map Some zs @ drop (out + n) new)"
  using assms
proof (induction n arbitrary: p out new zs)
  case (Suc n)
  obtain z zs' where zs: "zs = z # zs'" using Suc.prems(1) by (cases zs) auto
  have "slot r (of_nat p) = Inr z" using Suc.prems(2) zs by force
  moreover have "\<forall>j<n. slot r (of_nat (Suc p + j)) = Inr (zs' ! j)"
  proof (intro allI impI)
    fix j assume "j < n"
    then show "slot r (of_nat (Suc p + j)) = Inr (zs' ! j)" using Suc.prems(2) [rule_format, of "Suc j"] zs by simp
  qed
  moreover have "[p..<p + Suc n] = p # [Suc p..<Suc p + n]" by (simp add: upt_conv_Cons del: upt_Suc)
  moreover have "take (Suc out) (new[out := Some z]) = take out new @ [Some z]"
    using Suc.prems(3) by (simp add: take_Suc_conv_app_nth)
  ultimately show ?case
    using Suc.IH [of zs' "Suc p" "Suc out" "new[out := Some z]"] Suc.prems zs by (simp add: bind_dq_def del: upt_Suc)
qed simp

lemma slot_position:
  assumes "shape k b ys" "p < 2 ^ k"
  shows "slot (repr k b ys) (of_nat p) = (case nth_opt ys (dist b (2 ^ k) p) of None \<Rightarrow> Inl Undefined | Some x \<Rightarrow> Inr x)"
  using unat_wrapped [OF assms(1), of p] assms(2) by (simp add: slot_def)

lemma copy_repr:
  assumes "shape k b ys"
  shows "Deque_copy True True (repr k b ys) = Inr (repr k 0 ys)"
proof -
  note s = shape_bounds [OF assms]
  let ?r = "repr k b ys" and ?c = "2 ^ k :: nat" and ?n = "length ys"
  have cap: "dq_capacity ?r = of_nat ?c" "unat (dq_capacity ?r) = ?c"
    using s(4) unat_of_nat_32 [of ?c] by (simp_all add: dq_capacity_def of_nat_diff)
  have b: "unat (begin_ix ?r) = b" using s(1) unat_of_nat_32 [of b] by simp
  have e: "unat (end_ix ?r) = b + ?n" using s(3) unat_of_nat_32 [of "b + ?n"] by (simp del: of_nat_add)
  have less: "end_ix ?r < dq_capacity ?r \<longleftrightarrow> b + ?n < ?c" using e cap(2) by (simp add: word_less_nat_alt del: repr_fields)
  have assert: "dq_capacity ?r \<ge> dq_size ?r"
    using dq_size_repr(2) [OF assms] cap(2) s(6) by (simp add: word_le_nat_alt)
  have new: "take 0 (replicate ?c None) @ map Some ys @ drop (0 + ?n) (replicate ?c None) = ring 0 ?c ys"
    using ring_straight [OF s(6)] by simp
  have eq: "copy_elements True ?r (replicate ?c None) =
     (if b + ?n < ?c then copy_range True [b..<b + ?n] 0 ?r (replicate ?c None)
      else bind_dq (copy_range True [b..<?c] 0 ?r (replicate ?c None)) (\<lambda>new.
           copy_range True [0..<unat (end_ix ?r AND mask_ix ?r)] (?c - b) ?r new))"
    unfolding copy_elements_def Let_def cap(2) b dq_size_repr(2) [OF assms] less ..
  have "copy_elements True ?r (replicate ?c None) = Inr (ring 0 ?c ys)"
  proof (cases "b + ?n < ?c")
    case True
    have "\<forall>j<?n. slot ?r (of_nat (b + j)) = Inr (ys ! j)"
      using True slot_position [OF assms] by (auto simp: nth_opt_def dist_def simp del: of_nat_add)
    then show ?thesis using True eq new copy_range_ok [of ys ?n ?r b 0 "replicate ?c None"] s(6) by simp
  next
    case False
    let ?n1 = "?c - b" and ?n2 = "b + ?n - ?c"
    have n: "?n1 \<le> ?n" "?n1 + ?n2 = ?n" "b + ?n1 = ?c" using False s(5) by auto
    have wrap: "unat (end_ix ?r AND mask_ix ?r) = ?n2"
    proof -
      have "(b + ?n) mod ?c = ?n2" using False s(5,6) by (simp add: mod_if)
      then show ?thesis using unat_wrapped [OF assms, of "b + ?n"] and_capacity_mask [of "b + ?n" k] by (simp del: of_nat_add)
    qed
    have one: "\<forall>j<?n1. slot ?r (of_nat (b + j)) = Inr (take ?n1 ys ! j)"
      using n slot_position [OF assms] by (auto simp: nth_opt_def dist_def simp del: of_nat_add)
    have two: "\<forall>j<?n2. slot ?r (of_nat (0 + j)) = Inr (drop ?n1 ys ! j)"
    proof (intro allI impI)
      fix j assume j: "j < ?n2"
      then have "j < b" "dist b ?c j = ?n1 + j" "?n1 + j < ?n" using n s(5,6) by (auto simp: dist_def)
      then show "slot ?r (of_nat (0 + j)) = Inr (drop ?n1 ys ! j)"
        using slot_position [OF assms, of j] s(5) n by (simp add: nth_opt_def)
    qed
    have c1: "copy_range True [b..<?c] 0 ?r (replicate ?c None) = Inr (map Some (take ?n1 ys) @ replicate b None)"
      using copy_range_ok [of "take ?n1 ys" ?n1 ?r b 0 "replicate ?c None"] one n by simp
    have "copy_range True [0..<?n2] ?n1 ?r (map Some (take ?n1 ys) @ replicate b None) =
        Inr (map Some (take ?n1 ys) @ map Some (drop ?n1 ys) @ replicate (b - ?n2) None)"
      using copy_range_ok [of "drop ?n1 ys" ?n2 ?r 0 ?n1 "map Some (take ?n1 ys) @ replicate b None"] two n s(5,6) by simp
    also have "map Some (take ?n1 ys) @ map Some (drop ?n1 ys) @ replicate (b - ?n2) None = ring 0 ?c ys"
      using ring_straight [OF s(6)] n s(5) by (simp flip: map_append append_assoc)
    finally show ?thesis using False eq c1 wrap by (simp add: bind_dq_def del: repr_fields)
  qed
  moreover have "dq_capacity \<lparr>arr = None, begin_ix = 0, end_ix = dq_size ?r, mask_ix = mask_ix ?r\<rparr> = dq_capacity ?r"
    by (simp add: dq_capacity_def)
  ultimately show ?thesis
    using assert dq_size_repr(1) [OF assms] unfolding Deque_copy_def Let_def cap(2)
    by (simp add: bind_dq_def repr_def dq_capacity_def)
qed

lemma copy_ok:
  assumes "deque_rep r ys"
  shows "\<exists>d. Deque_copy True True r = Inr d \<and> deque_rep d ys"
proof (cases "r = Deque_new")
  case True
  have "Deque_new \<noteq> repr k b ys" for k b by (simp add: Deque_new_def repr_def)
  then have "ys = []" using assms True by (auto simp: deque_rep_def)
  moreover have "Deque_copy True True r = Inr Deque_new"
    using True by (simp add: Deque_copy_def copy_elements_def Deque_new_def dq_capacity_def dq_size_def bind_dq_def)
  ultimately show ?thesis by (auto simp: deque_rep_def)
next
  case False
  then obtain k b where s: "shape k b ys" "r = repr k b ys" using assms by (auto simp: deque_rep_def)
  then show ?thesis using copy_repr [OF s(1)] deque_repI [of k 0 ys] by (auto simp: shape_def)
qed

lemma copy_nontrivial:
  assumes "deque_rep r ys" "ys \<noteq> []"
  shows "Deque_copy False True r = Inl Undefined"
proof -
  obtain k b where s: "shape k b ys" "r = repr k b ys" using assms by (auto simp: deque_rep_def)
  note bounds = shape_bounds [OF s(1)]
  have cap: "dq_capacity r = of_nat (2 ^ k)" "unat (dq_capacity r) = 2 ^ k"
    using bounds(4) unat_of_nat_32 [of "2 ^ k"] s(2) by (simp_all add: dq_capacity_def of_nat_diff)
  have b: "unat (begin_ix r) = b" using bounds(1) unat_of_nat_32 [of b] s(2) by simp
  have first: "copy_range False (b # is) out r new = Inl Undefined" for "is" out new
    using slot_position [OF s(1) bounds(5)] assms(2) s(2) by (simp add: bind_dq_def nth_opt_def dist_def)
  have "copy_elements False r new = Inl Undefined" for new
    unfolding copy_elements_def Let_def cap(2) b
    using dq_size_repr(2) [OF s(1)] s(2) bounds(5) assms(2) first by (simp add: upt_conv_Cons bind_dq_def)
  moreover have "dq_size r \<le> dq_capacity r"
    using dq_size_repr(2) [OF s(1)] cap(2) bounds(6) s(2) by (simp add: word_le_nat_alt)
  ultimately show ?thesis
    unfolding Deque_copy_def Let_def by (simp add: bind_dq_def dq_capacity_def)
qed

subsection \<open>The contract of a queue\<close>

text \<open>What the clients of the deque rely on: the operations act on a list of at most \<open>limit\<close> elements.\<close>

datatype 'a queue_op = Push 'a | PopFront | PopBack | Clear

fun list_step :: "'a queue_op \<Rightarrow> 'a list \<Rightarrow> 'a list" where
  "list_step (Push x) xs = xs @ [x]"
| "list_step PopFront xs = tl xs"
| "list_step PopBack xs = butlast xs"
| "list_step Clear xs = []"

fun op_allowed :: "nat \<Rightarrow> 'a queue_op \<Rightarrow> 'a list \<Rightarrow> bool" where
  "op_allowed limit (Push x) xs = (length xs < limit)"
| "op_allowed limit Clear xs = True"
| "op_allowed limit _ xs = (xs \<noteq> [])"

text \<open>The first operation of a sequence that the list does not allow.\<close>

fun first_refused :: "nat \<Rightarrow> 'a queue_op list \<Rightarrow> 'a list \<Rightarrow> 'a queue_op option" where
  "first_refused limit [] xs = None"
| "first_refused limit (x # ops) xs = (if op_allowed limit x xs then first_refused limit ops (list_step x xs) else Some x)"

locale bounded_queue =
  fixes rep :: "'q \<Rightarrow> 'a list \<Rightarrow> bool" and step :: "'a queue_op \<Rightarrow> 'q \<Rightarrow> 'e + 'q" and refusal :: "'a queue_op \<Rightarrow> 'e" and limit :: nat
  assumes step_rep: "rep q xs \<Longrightarrow> op_allowed limit x xs \<Longrightarrow> \<exists>q'. step x q = Inr q' \<and> rep q' (list_step x xs)"
    and step_error: "rep q xs \<Longrightarrow> \<not> op_allowed limit x xs \<Longrightarrow> step x q = Inl (refusal x)"
begin

fun steps :: "'a queue_op list \<Rightarrow> 'q \<Rightarrow> 'e + 'q" where
  "steps [] q = Inr q"
| "steps (x # ops) q = (case step x q of Inl e \<Rightarrow> Inl e | Inr q' \<Rightarrow> steps ops q')"

lemma steps_rep:
  assumes "rep q xs"
  shows "case first_refused limit ops xs of
      None \<Rightarrow> \<exists>q'. steps ops q = Inr q' \<and> rep q' (fold list_step ops xs)
    | Some x \<Rightarrow> steps ops q = Inl (refusal x)"
  using assms
proof (induction ops arbitrary: q xs)
  case (Cons x ops)
  show ?case
  proof (cases "op_allowed limit x xs")
    case True
    then obtain q' where q: "step x q = Inr q'" "rep q' (list_step x xs)" using step_rep Cons.prems by blast
    then show ?thesis using Cons.IH [OF q(2)] True by (cases "first_refused limit ops (list_step x xs)") simp_all
  next
    case False
    then show ?thesis using step_error [OF Cons.prems] by simp
  qed
qed simp

end

fun deque_step :: "'a queue_op \<Rightarrow> 'a deque \<Rightarrow> 'a deque dq_result" where
  "deque_step (Push x) d = push_back True x d"
| "deque_step PopFront d = pop_front d"
| "deque_step PopBack d = pop_back d"
| "deque_step Clear d = dq_clear d"

fun deque_steps :: "'a queue_op list \<Rightarrow> 'a deque \<Rightarrow> 'a deque dq_result" where
  "deque_steps [] d = Inr d"
| "deque_steps (x # ops) d = bind_dq (deque_step x d) (deque_steps ops)"

lemma push_back_full:
  assumes "deque_rep d ys" "length ys = dq_max_size"
  shows "push_back alloc y d = Inl BadAlloc"
proof -
  have "ys \<noteq> []" using assms(2) by (auto simp: dq_max_size_def)
  then obtain k b where s: "shape k b ys" "d = repr k b ys" using assms by (auto simp: deque_rep_def)
  have "2 ^ 30 \<le> (2 :: nat) ^ k" using shape_bounds(6) [OF s(1)] assms(2) by (simp add: dq_max_size_def)
  then have "\<not> k < 30" using power_strict_increasing [of k 30 "2 :: nat"] by linarith
  then have "k = 30" using s(1) by (simp add: shape_def)
  then show ?thesis
    using s dq_full_repr [OF s(1)] grow_repr [OF s(1)] assms(2)
    by (simp add: push_back_def reserve_one_def bind_dq_def dq_max_size_def)
qed

text \<open>What a refused operation ends with: the failed \<open>ASSERT(!empty())\<close> of the removals, and \<open>std::bad_alloc\<close> from \<open>grow\<close>.\<close>

fun deque_refusal :: "'a queue_op \<Rightarrow> deque_error" where
  "deque_refusal (Push x) = BadAlloc"
| "deque_refusal _ = AssertFailed"

interpretation dq: bounded_queue deque_rep deque_step deque_refusal dq_max_size
proof
  fix d :: "'a deque" and ys x
  assume d: "deque_rep d ys"
  show "\<exists>d'. deque_step x d = Inr d' \<and> deque_rep d' (list_step x ys)" if "op_allowed dq_max_size x ys"
    using that push_back_ok [OF d TrueI] pop_front_ok [OF d] pop_back_ok [OF d] clear_ok [OF d] by (cases x) auto
  show "deque_step x d = Inl (deque_refusal x)" if "\<not> op_allowed dq_max_size x ys"
    using that push_back_full [OF d] size_ok(3) [OF d] pop_front_ok [OF d] pop_back_ok [OF d] by (cases x) auto
qed

lemma deque_steps_eq: "deque_steps ops d = dq.steps ops d"
  by (induction ops arbitrary: d) (auto simp: bind_dq_def split: sum.split)

lemma refused_not_clear: "first_refused limit ops xs \<noteq> Some Clear"
  by (induction ops arbitrary: xs) auto

text \<open>C4. Every sequence of \<open>push_back\<close>, \<open>pop_front\<close>, \<open>pop_back\<close> and \<open>clear\<close> on an empty deque, with memory available,
  acts as on a list of at most \<open>2 ^ 30\<close> elements.  When the list allows every operation it succeeds, and \<open>size\<close>,
  \<open>front\<close>, \<open>back\<close> and \<open>operator[]\<close> show the list.  Otherwise the first operation that is not allowed ends it with its own
  error: a failed assertion when an element is taken from an empty deque, \<open>std::bad_alloc\<close> when one is added to a full
  deque of the maximal size.  In no case is a slot without an object read, destroyed or assigned to, which would be the
  error \<open>Undefined\<close>.\<close>

theorem Deque_refines_list:
  "case first_refused dq_max_size ops [] of
     None \<Rightarrow> \<exists>d. deque_steps ops Deque_new = Inr d \<and>
       (let ys = fold list_step ops [] in
         unat (dq_size d) = length ys \<and> (\<forall>j<length ys. index_op d (int j) = Inr (ys ! j)) \<and>
         (ys \<noteq> [] \<longrightarrow> dq_front d = Inr (hd ys) \<and> dq_back d = Inr (last ys)))
   | Some (Push x) \<Rightarrow> deque_steps ops Deque_new = Inl BadAlloc
   | Some PopFront \<Rightarrow> deque_steps ops Deque_new = Inl AssertFailed
   | Some PopBack \<Rightarrow> deque_steps ops Deque_new = Inl AssertFailed
   | Some Clear \<Rightarrow> False"
proof -
  have new: "deque_rep Deque_new []" by (simp add: deque_rep_def)
  show ?thesis
  proof (cases "first_refused dq_max_size ops ([] :: 'a list)")
    case None
    then obtain d where d: "deque_steps ops Deque_new = Inr d" "deque_rep d (fold list_step ops [])"
      using dq.steps_rep [OF new, of ops] by (auto simp: deque_steps_eq)
    then show ?thesis using None size_ok(1) [OF d(2)] dq_index_ok [OF d(2)] front_back_ok [OF d(2)] by (auto simp: Let_def)
  next
    case (Some x)
    then have "x \<noteq> Clear" using refused_not_clear by blast
    then show ?thesis using Some dq.steps_rep [OF new, of ops] by (cases x) (simp_all add: deque_steps_eq)
  qed
qed

theorem Deque_refines_list_witness:
  "(\<exists>d. deque_steps [Push (1::nat), Push 2, PopFront, Push 3] Deque_new = Inr d \<and> dq_front d = Inr 2 \<and> dq_back d = Inr 3) \<and>
   deque_steps [Push (1::nat), PopBack, PopFront, Clear] Deque_new = Inl AssertFailed"
  using Deque_refines_list [of "[Push (1::nat), Push 2, PopFront, Push 3]"] Deque_refines_list [of "[Push (1::nat), PopBack, PopFront, Clear]"]
  by (auto simp: Let_def dq_max_size_def)

text \<open>C37. \<open>at\<close> returns the element at every index of the deque and throws \<open>out_of_range\<close> at every other \<open>int\<close>; two deques
  are equal exactly when they hold the same elements; a copy of a deque of trivially copyable elements holds
  the same elements, also when they wrap around the end of the array.\<close>

theorem Deque_access_and_copy:
  assumes "deque_rep d ys" and "deque_rep r zs" and "-(2 ^ 31) \<le> i" and "i < 2 ^ 31"
  shows "at_op d i = (if 0 \<le> i \<and> i < int (length ys) then Inr (ys ! nat i) else Inl OutOfRange) \<and>
     dq_equal d r = Inr (ys = zs) \<and> (\<exists>c. Deque_copy True True d = Inr c \<and> dq_equal d c = Inr True)"
  using at_ok [OF assms(1,3,4)] equal_ok [OF assms(1,2)] copy_ok [OF assms(1)] equal_ok [OF assms(1)] by auto

theorem Deque_access_and_copy_witness:
  "at_op (repr 3 7 [10::nat, 20]) 1 = Inr 20 \<and> at_op (repr 3 7 [10::nat, 20]) 2 = Inl OutOfRange \<and>
   (\<exists>c. Deque_copy True True (repr 3 7 [10::nat, 20]) = Inr c)"
proof -
  have d: "deque_rep (repr 3 7 [10::nat, 20]) [10, 20]" by (intro deque_repI) (simp add: shape_def)
  show ?thesis using Deque_access_and_copy [OF d d, of 1] Deque_access_and_copy [OF d d, of 2] by auto
qed

text \<open>The copy constructor assigns to memory that holds no objects yet, which is undefined for elements with a
  constructor of their own; and a reference to an element of a full deque dangles before \<open>push_back\<close> reads it.\<close>

lemma Deque_copy_raw_memory: "deque_rep r ys \<Longrightarrow> ys \<noteq> [] \<Longrightarrow> Deque_copy False True r = Inl Undefined"
  by (rule copy_nontrivial)

lemma push_back_own_dangles:
  assumes "shape k b ys" "length ys = 2 ^ k" "k < 30"
  shows "push_back_own True i (repr k b ys) = Inl Undefined"
  using assms dq_full_repr [OF assms(1)] grow_repr [OF assms(1)] by (simp add: push_back_own_def bind_dq_def)

subsection \<open>Emplacing, moving and assigning\<close>

lemma emplace_back_ok:
  assumes "deque_rep d ys" "alloc" "length ys < dq_max_size"
  shows "\<exists>d'. emplace_back alloc y d = Inr (d', y) \<and> deque_rep d' (ys @ [y])"
proof -
  obtain k b where r: "reserve_one alloc d = Inr (repr k b ys)" "shape k b ys" "length ys < 2 ^ k"
    using reserve_one_ok [OF assms] by blast
  let ?d = "(repr k b ys)\<lparr>arr := Some ((ring b (2 ^ k) ys)[(b + length ys) mod 2 ^ k := Some y])\<rparr>"
  have "slot ?d (of_nat (b + length ys) AND of_nat (2 ^ k - 1)) = Inr y"
    unfolding and_capacity_mask using unat_wrapped [OF r(2)] by (simp add: slot_def)
  then have "emplace_back alloc y d = Inr (repr k b (ys @ [y]), y)"
    using r(1) put_slot_wrapped [OF r(2), of "b + length ys" "Some y"] push_repr(1) [OF r(2,3), of y]
    by (simp add: emplace_back_def bind_dq_def del: of_nat_add)
  then show ?thesis using deque_repI [OF push_repr(2) [OF r(2,3)]] by blast
qed

lemma cleanup_ok: "deque_rep d ys \<Longrightarrow> \<exists>d'. cleanup d = Inr d' \<and> arr d' = None \<and> end_ix d' = end_ix d \<and> mask_ix d' = mask_ix d"
proof (cases "d = Deque_new")
  case True
  then show ?thesis by (simp add: cleanup_def Deque_new_def positions_def bind_dq_def)
next
  case False
  assume "deque_rep d ys"
  with False obtain k b where s: "shape k b ys" "d = repr k b ys" by (auto simp: deque_rep_def)
  then show ?thesis using destroy_all_whole [OF s(1)] by (simp add: cleanup_def bind_dq_def)
qed

text \<open>What the other deque held before does not matter, and the moved deque is left empty.\<close>

lemma Deque_assign:
  fixes d r :: "'a deque"
  assumes "deque_rep d xs" and "deque_rep r ys"
  shows "\<exists>d'. copy_assign True True d r = Inr d' \<and> deque_rep d' ys"
    and "\<exists>d' r'. move_assign d r = Inr (d', r') \<and> deque_rep d' ys \<and> deque_rep r' []"
proof -
  obtain c where c: "cleanup d = Inr c" using cleanup_ok [OF assms(1)] by blast
  have "Deque_move r = (r, Deque_new)" by (cases r) (simp add: Deque_move_def)
  moreover have "deque_rep Deque_new ([] :: 'a list)" by (simp add: deque_rep_def)
  ultimately show "\<exists>d' r'. move_assign d r = Inr (d', r') \<and> deque_rep d' ys \<and> deque_rep r' []"
    using assms(2) c by (simp add: move_assign_def bind_dq_def)
  show "\<exists>d'. copy_assign True True d r = Inr d' \<and> deque_rep d' ys"
    using copy_ok [OF assms(2)] c by (simp add: copy_assign_def bind_dq_def)
qed

text \<open>Assigning a deque to itself reads slots without objects.\<close>

lemma Deque_self_assign: "copy_assign_self True True (repr 3 0 [y]) = Inl Undefined"
proof -
  have "shape 3 0 [y]" by (simp add: shape_def)
  then have "cleanup (repr 3 0 [y]) = Inr ((repr 3 0 [y])\<lparr>arr := None\<rparr>)"
    using destroy_all_whole [of 3 0 "[y]"] by (simp add: cleanup_def bind_dq_def)
  then show ?thesis
    by (simp add: copy_assign_self_def bind_dq_def dq_size_def dq_capacity_def copy_elements_def slot_def upt_conv_Cons)
qed

end
