(* ===== verification/ThreadSafeQueue.thy ===== *)
theory ThreadSafeQueue
  imports Main
begin

text \<open>
  The queue between threads of \<^verbatim>\<open>flow/include/flow/ThreadSafeQueue.h\<close>: any number of producers, one consumer, no
  locks.  Producers and the consumer interleave at every access to an atomic variable; a step below is one such
  access with the thread-local work that follows it.

  A node is the stub, the sleeping mark or a data node; the node with number \<open>k\<close> holds the \<open>k\<close>-th datum in the
  order in which the producers exchanged \<open>head\<close>.  \<open>pending\<close> holds the pushes that have exchanged \<open>head\<close> and not yet
  linked their node.  The fields \<open>pushed\<close>, \<open>popped\<close>, \<open>asleep\<close> and \<open>woken\<close> are records for the proofs.
\<close>

datatype node = Stub | Sleeping | Data nat

text \<open>Where the consumer is: the flag is set in the second \<open>popNode\<close> of a \<open>pop\<close>.\<close>

datatype consumer_pc =
  Idle
| PopLoad bool
| PopLoadNext bool node
| PopLoadHead bool node
| PopStoreStub bool node
| PopExchange bool node
| PopLink bool node node
| PopReload bool node
| SleepLoad
| SleepStore
| SleepExchange
| SleepLink node
| AssertionFailed

record 'a tsq =
  head :: node
  tail :: node
  nxt :: "node \<Rightarrow> node option"
  sleepy :: bool
  pc :: consumer_pc
  pending :: "(node \<times> node) list"
  pushed :: "'a list"
  popped :: "'a list"
  asleep :: bool
  woken :: bool

datatype 'a event = Push 'a | Link node | CallPop | CallCanSleep | Continue

datatype 'a result = Nothing | PushReturns bool | PopReturns "'a option" | CanSleepReturns bool

definition tsq_init :: "'a tsq" where
  "tsq_init = \<lparr>head = Stub, tail = Stub, nxt = (\<lambda>_. None), sleepy = False, pc = Idle, pending = [],
     pushed = [], popped = [], asleep = False, woken = False\<rparr>"

subsection \<open>Producers\<close>

text \<open>\<open>push\<close> up to the exchange of \<open>head\<close>; its result is known from the node before.\<close>

definition push :: "'a \<Rightarrow> 'a tsq \<Rightarrow> 'a tsq \<times> 'a result" where
  "push x s =
     (let n = Data (length (pushed s)); prev = head s in
      (s\<lparr>nxt := (nxt s)(n := None), head := n, pending := (prev, n) # pending s, pushed := pushed s @ [x],
         woken := woken s \<or> prev = Sleeping\<rparr>, PushReturns (prev = Sleeping)))"

text \<open>The store to \<open>prev->next\<close> that ends \<open>pushNode\<close>.\<close>

definition push_link :: "node \<Rightarrow> 'a tsq \<Rightarrow> ('a tsq \<times> 'a result) option" where
  "push_link n s =
     (case find (\<lambda>p. snd p = n) (pending s) of
        None \<Rightarrow> None
      | Some (prev, n) \<Rightarrow>
          Some (s\<lparr>nxt := (nxt s)(prev := Some n), pending := filter (\<lambda>p. snd p \<noteq> n) (pending s)\<rparr>, Nothing))"

subsection \<open>The consumer: pop\<close>

text \<open>What \<open>pop\<close> does with the result of \<open>popNode\<close>.\<close>

definition pop_return :: "bool \<Rightarrow> node option \<Rightarrow> 'a tsq \<Rightarrow> 'a tsq \<times> 'a result" where
  "pop_return second b s =
     (case b of
        None \<Rightarrow> (s\<lparr>pc := Idle\<rparr>, PopReturns None)
      | Some Sleeping \<Rightarrow> (if second then (s\<lparr>pc := AssertionFailed\<rparr>, Nothing) else (s\<lparr>sleepy := False, pc := PopLoad True\<rparr>, Nothing))
      | Some Stub \<Rightarrow> (s\<lparr>pc := AssertionFailed\<rparr>, Nothing)
      | Some (Data k) \<Rightarrow> (s\<lparr>popped := popped s @ [pushed s ! k], pc := Idle\<rparr>, PopReturns (Some (pushed s ! k))))"

text \<open>The end of \<open>popNode\<close> when the successor of the node \<open>t\<close> at the tail is known.\<close>

definition advance :: "bool \<Rightarrow> node \<Rightarrow> node \<Rightarrow> 'a tsq \<Rightarrow> 'a tsq \<times> 'a result" where
  "advance second t next_node s = pop_return second (Some t) (s\<lparr>tail := next_node\<rparr>)"

fun pop_step :: "consumer_pc \<Rightarrow> 'a tsq \<Rightarrow> ('a tsq \<times> 'a result) option" where
  "pop_step (PopLoad second) s =
     (let t = tail s in
      if t = Stub then
        (case nxt s t of
           None \<Rightarrow> Some (pop_return second None s)
         | Some n \<Rightarrow> Some (s\<lparr>tail := n, pc := PopLoadNext second n\<rparr>, Nothing))
      else
        (case nxt s t of
           Some n \<Rightarrow> Some (advance second t n s)
         | None \<Rightarrow> Some (s\<lparr>pc := PopLoadHead second t\<rparr>, Nothing)))"
| "pop_step (PopLoadNext second t) s =
     (case nxt s t of
        Some n \<Rightarrow> Some (advance second t n s)
      | None \<Rightarrow> Some (s\<lparr>pc := PopLoadHead second t\<rparr>, Nothing))"
| "pop_step (PopLoadHead second t) s =
     (if t \<noteq> head s then Some (pop_return second None s) else Some (s\<lparr>pc := PopStoreStub second t\<rparr>, Nothing))"
| "pop_step (PopStoreStub second t) s = Some (s\<lparr>nxt := (nxt s)(Stub := None), pc := PopExchange second t\<rparr>, Nothing)"
| "pop_step (PopExchange second t) s = Some (s\<lparr>head := Stub, pc := PopLink second t (head s)\<rparr>, Nothing)"
| "pop_step (PopLink second t prev) s = Some (s\<lparr>nxt := (nxt s)(prev := Some Stub), pc := PopReload second t\<rparr>, Nothing)"
| "pop_step (PopReload second t) s =
     (case nxt s t of
        Some n \<Rightarrow> Some (advance second t n s)
      | None \<Rightarrow> Some (pop_return second None s))"
| "pop_step _ s = None"

subsection \<open>The consumer: canSleep\<close>

definition canSleep_call :: "'a tsq \<Rightarrow> 'a tsq \<times> 'a result" where
  "canSleep_call s = (if sleepy s then (s, CanSleepReturns False) else (s\<lparr>pc := SleepLoad\<rparr>, Nothing))"

fun canSleep_step :: "consumer_pc \<Rightarrow> 'a tsq \<Rightarrow> ('a tsq \<times> 'a result) option" where
  "canSleep_step SleepLoad s =
     (if tail s \<noteq> Stub \<or> nxt s (tail s) \<noteq> None then Some (s\<lparr>pc := Idle\<rparr>, CanSleepReturns False)
      else Some (s\<lparr>pc := SleepStore\<rparr>, Nothing))"
| "canSleep_step SleepStore s = Some (s\<lparr>nxt := (nxt s)(Sleeping := None), pc := SleepExchange\<rparr>, Nothing)"
| "canSleep_step SleepExchange s = Some (s\<lparr>head := Sleeping, pc := SleepLink (head s), woken := False\<rparr>, Nothing)"
| "canSleep_step (SleepLink prev) s =
     (let ok = (prev = Stub) in
      Some (s\<lparr>nxt := (nxt s)(prev := Some Sleeping), sleepy := True, pc := Idle, asleep := ok\<rparr>, CanSleepReturns ok))"
| "canSleep_step _ s = None"

subsection \<open>The whole system\<close>

fun tsq_step :: "'a event \<Rightarrow> 'a tsq \<Rightarrow> ('a tsq \<times> 'a result) option" where
  "tsq_step (Push x) s = Some (push x s)"
| "tsq_step (Link n) s = push_link n s"
| "tsq_step CallPop s = (if pc s = Idle then Some (s\<lparr>pc := PopLoad False, asleep := False\<rparr>, Nothing) else None)"
| "tsq_step CallCanSleep s = (if pc s = Idle then Some (canSleep_call (s\<lparr>asleep := False\<rparr>)) else None)"
| "tsq_step Continue s = (case pop_step (pc s) s of Some r \<Rightarrow> Some r | None \<Rightarrow> canSleep_step (pc s) s)"

text \<open>The states that some interleaving reaches.\<close>

inductive reachable :: "'a tsq \<Rightarrow> bool" where
  init: "reachable tsq_init"
| step: "reachable s \<Longrightarrow> tsq_step e s = Some (s', out) \<Longrightarrow> reachable s'"

end
