(* ===== verification/ThreadSafeQueue_Correct.thy ===== *)
theory ThreadSafeQueue_Correct
  imports ThreadSafeQueue
begin

text \<open>
  Correctness of the queue between threads under every interleaving.  The nodes from \<open>tail\<close> to \<open>head\<close> form a chain in
  which every link is either stored or still pending in one thread.
\<close>

subsection \<open>Chains\<close>

fun linked :: "(node \<Rightarrow> node option) \<Rightarrow> (node \<times> node) set \<Rightarrow> node list \<Rightarrow> bool" where
  "linked nx P [] = False"
| "linked nx P [a] = (nx a = None)"
| "linked nx P (a # b # r) = ((if (a, b) \<in> P then nx a = None else nx a = Some b) \<and> linked nx P (b # r))"

definition pairs :: "node list \<Rightarrow> (node \<times> node) set" where
  "pairs ch = set (zip ch (tl ch))"

lemma pairs_simps [simp]: "pairs [] = {}" "pairs [a] = {}" "pairs (a # b # r) = insert (a, b) (pairs (b # r))"
  by (simp_all add: pairs_def)

lemma pairs_in: "(a, b) \<in> pairs ch \<Longrightarrow> a \<in> set ch \<and> b \<in> set ch"
  by (cases ch) (auto simp: pairs_def dest: set_zip_leftD set_zip_rightD)

lemma pairs_append: "ch \<noteq> [] \<Longrightarrow> pairs (ch @ [n]) = insert (last ch, n) (pairs ch)"
  by (induction ch rule: induct_list012) auto

lemma linked_cong:
  assumes "\<And>a. a \<in> set ch \<Longrightarrow> nx a = nx' a" and "\<And>a b. (a, b) \<in> pairs ch \<Longrightarrow> (a, b) \<in> P \<longleftrightarrow> (a, b) \<in> P'"
  shows "linked nx P ch = linked nx' P' ch"
  using assms by (induction ch rule: induct_list012) auto

lemma linked_append:
  assumes "linked nx P ch" "n \<notin> set ch" "nx n = None"
  shows "linked nx (insert (last ch, n) P) (ch @ [n])"
  using assms
proof (induction ch rule: induct_list012)
  case (3 a b r)
  have "(a, b) \<noteq> (last (b # r), n)" using "3.prems"(2) by auto
  then show ?case using 3 by auto
qed auto

lemma linked_last: "linked nx P ch \<Longrightarrow> nx (last ch) = None"
  by (induction ch rule: induct_list012) auto

text \<open>Storing a pending link.\<close>

lemma linked_store:
  assumes "linked nx P ch" "distinct ch" "(p, n) \<in> pairs ch"
  shows "linked (nx(p := Some n)) (P - {(p, n)}) ch"
  using assms
proof (induction ch rule: induct_list012)
  case (3 a b r)
  show ?case
  proof (cases "(p, n) = (a, b)")
    case True
    have "linked (nx(p := Some n)) (P - {(p, n)}) (b # r) = linked nx P (b # r)"
      using True "3.prems"(2) pairs_in [of _ _ "b # r"] by (intro linked_cong) auto
    then show ?thesis using True "3.prems" by (simp add: fun_upd_same del: fun_upd_apply)
  next
    case False
    then have pr: "(p, n) \<in> pairs (b # r)" using "3.prems"(3) by auto
    have "p \<in> set (b # r)" using pairs_in [OF pr] by auto
    then have "p \<noteq> a" using "3.prems"(2) by auto
    then show ?thesis using 3 pr by auto
  qed
qed auto

lemma pairs_right_unique: "distinct ch \<Longrightarrow> (a, n) \<in> pairs ch \<Longrightarrow> (b, n) \<in> pairs ch \<Longrightarrow> a = b"
proof (induction ch rule: induct_list012)
  case (3 x y r)
  have "x' \<noteq> x \<and> y' \<noteq> y" if "(x', y') \<in> pairs (y # r)" for x' y'
  proof -
    have "y' \<in> set r" using that unfolding pairs_def by (auto dest: set_zip_rightD)
    then show ?thesis using pairs_in [OF that] "3.prems"(1) by auto
  qed
  then show ?case using 3 by auto
qed auto

subsection \<open>The invariant\<close>

text \<open>The link that the consumer itself has still to store.\<close>

fun own_link :: "consumer_pc \<Rightarrow> (node \<times> node) set" where
  "own_link (PopLink second t prev) = {(prev, Stub)}"
| "own_link (SleepLink prev) = {(prev, Sleeping)}"
| "own_link _ = {}"

fun is_data :: "node \<Rightarrow> bool" where
  "is_data (Data k) = True"
| "is_data _ = False"

definition data_of :: "node list \<Rightarrow> nat list" where
  "data_of ch = concat (map (\<lambda>n. case n of Data k \<Rightarrow> [k] | _ \<Rightarrow> []) ch)"

lemma data_of_simps [simp]:
  "data_of [] = []" "data_of (Data k # ch) = k # data_of ch" "data_of (Stub # ch) = data_of ch"
  "data_of (Sleeping # ch) = data_of ch" "data_of (ch @ ch') = data_of ch @ data_of ch'"
  by (simp_all add: data_of_def)

text \<open>What the consumer knows at each place.\<close>

fun pc_ok :: "consumer_pc \<Rightarrow> 'a tsq \<Rightarrow> node list \<Rightarrow> bool" where
  "pc_ok Idle s ch = True"
| "pc_ok (PopLoad second) s ch = (second \<longrightarrow> \<not> sleepy s)"
| "pc_ok (PopLoadNext second t) s ch = ((second \<longrightarrow> \<not> sleepy s) \<and> tail s = t \<and> t \<noteq> Stub)"
| "pc_ok (PopLoadHead second t) s ch = ((second \<longrightarrow> \<not> sleepy s) \<and> tail s = t \<and> t \<noteq> Stub)"
| "pc_ok (PopStoreStub second t) s ch = ((second \<longrightarrow> \<not> sleepy s) \<and> tail s = t \<and> t \<noteq> Stub \<and> Stub \<notin> set ch)"
| "pc_ok (PopExchange second t) s ch =
     ((second \<longrightarrow> \<not> sleepy s) \<and> tail s = t \<and> t \<noteq> Stub \<and> Stub \<notin> set ch \<and> nxt s Stub = None)"
| "pc_ok (PopLink second t prev) s ch = ((second \<longrightarrow> \<not> sleepy s) \<and> tail s = t \<and> t \<noteq> Stub)"
| "pc_ok (PopReload second t) s ch = ((second \<longrightarrow> \<not> sleepy s) \<and> tail s = t \<and> t \<noteq> Stub)"
| "pc_ok SleepLoad s ch = (\<not> sleepy s)"
| "pc_ok SleepStore s ch = (\<not> sleepy s \<and> tail s = Stub)"
| "pc_ok SleepExchange s ch = (\<not> sleepy s \<and> tail s = Stub \<and> nxt s Sleeping = None)"
| "pc_ok (SleepLink prev) s ch = (\<not> sleepy s \<and> tail s = Stub)"
| "pc_ok AssertionFailed s ch = False"

definition sleep_marked :: "'a tsq \<Rightarrow> bool" where
  "sleep_marked s \<longleftrightarrow> sleepy s \<or> (\<exists>p. pc s = SleepLink p)"

text \<open>While the consumer sleeps, or is about to, a datum in the queue has been announced by a push.\<close>

definition wake_ok :: "'a tsq \<Rightarrow> node list \<Rightarrow> bool" where
  "wake_ok s ch \<longleftrightarrow> (pc s \<noteq> Idle \<longrightarrow> \<not> asleep s) \<and> (asleep s \<or> pc s = SleepLink Stub \<longrightarrow> woken s \<or> data_of ch = [] \<and> head s = Sleeping)"

definition chain_ok :: "'a tsq \<Rightarrow> node list \<Rightarrow> bool" where
  "chain_ok s ch \<longleftrightarrow>
     ch \<noteq> [] \<and> distinct ch \<and> hd ch = tail s \<and> last ch = head s \<and>
     linked (nxt s) (set (pending s) \<union> own_link (pc s)) ch \<and>
     set (pending s) \<union> own_link (pc s) \<subseteq> pairs ch \<and> (\<forall>(p, n)\<in>set (pending s). is_data n) \<and>
     data_of ch = [length (popped s)..<length (pushed s)] \<and> take (length (popped s)) (pushed s) = popped s \<and>
     (Sleeping \<in> set ch \<longleftrightarrow> sleep_marked s)"

definition tsq_inv :: "'a tsq \<Rightarrow> bool" where
  "tsq_inv s \<longleftrightarrow> (\<exists>ch. chain_ok s ch \<and> pc_ok (pc s) s ch \<and> wake_ok s ch)"

lemma tsq_invI: "chain_ok s ch \<Longrightarrow> pc_ok (pc s) s ch \<Longrightarrow> wake_ok s ch \<Longrightarrow> tsq_inv s"
  by (auto simp: tsq_inv_def)

lemma data_of_mem: "Data k \<in> set ch \<longleftrightarrow> k \<in> set (data_of ch)"
  by (induction ch) (auto simp: data_of_def split: node.splits)

subsection \<open>Producers keep it\<close>

lemma push_inv:
  assumes "tsq_inv s"
  shows "tsq_inv (fst (push x s))"
proof -
  obtain ch where ch: "chain_ok s ch" "pc_ok (pc s) s ch" "wake_ok s ch" using assms by (auto simp: tsq_inv_def)
  let ?n = "Data (length (pushed s))" and ?s = "fst (push x s)"
  let ?P = "set (pending s) \<union> own_link (pc s)"
  have new: "?n \<notin> set ch" using ch(1) by (auto simp: chain_ok_def data_of_mem)
  have "linked ((nxt s)(?n := None)) ?P ch = linked (nxt s) ?P ch" using new by (intro linked_cong) auto
  then have "linked ((nxt s)(?n := None)) (insert (last ch, ?n) ?P) (ch @ [?n])"
    using ch(1) new by (intro linked_append) (auto simp: chain_ok_def)
  moreover have "length (popped s) \<le> length (pushed s)"
    using ch(1) arg_cong [of _ _ length] by (fastforce simp: chain_ok_def)
  ultimately have "chain_ok ?s (ch @ [?n])"
    using ch(1) new pairs_append [of ch ?n]
    by (auto simp: chain_ok_def push_def Let_def sleep_marked_def)
  moreover have "pc_ok (pc ?s) ?s (ch @ [?n])" using ch(2) by (cases "pc s") (auto simp: push_def Let_def)
  moreover have "wake_ok ?s (ch @ [?n])" using ch(3) by (auto simp: wake_ok_def push_def Let_def)
  ultimately show ?thesis by (rule tsq_invI)
qed

lemma find_pending: "find (\<lambda>p. snd p = n) xs = Some (prev, m) \<Longrightarrow> (prev, n) \<in> set xs \<and> m = n"
  by (induction xs) (auto split: if_splits)

lemma push_link_inv:
  assumes "tsq_inv s" "push_link n s = Some (s', out)"
  shows "tsq_inv s'"
proof -
  obtain ch where ch: "chain_ok s ch" "pc_ok (pc s) s ch" "wake_ok s ch" using assms(1) by (auto simp: tsq_inv_def)
  let ?P = "set (pending s) \<union> own_link (pc s)"
  obtain prev where p: "(prev, n) \<in> set (pending s)"
    and s': "s' = s\<lparr>nxt := (nxt s)(prev := Some n), pending := filter (\<lambda>p. snd p \<noteq> n) (pending s)\<rparr>"
    using assms(2) find_pending [of n "pending s"] by (auto simp: push_link_def split: option.splits)
  have pr: "(prev, n) \<in> pairs ch" and dist: "distinct ch" and data: "is_data n" using ch(1) p by (auto simp: chain_ok_def)
  have own: "(a, n) \<notin> own_link (pc s)" for a using data by (cases "pc s") auto
  have P: "set (filter (\<lambda>p. snd p \<noteq> n) (pending s)) \<union> own_link (pc s) = ?P - {(prev, n)}"
  proof -
    have uniq: "a = prev" if "(a, n) \<in> set (pending s)" for a
    proof (rule pairs_right_unique [OF dist _ pr])
      show "(a, n) \<in> pairs ch" using that ch(1) by (auto simp: chain_ok_def)
    qed
    have "(a, c) \<in> set (filter (\<lambda>p. snd p \<noteq> n) (pending s)) \<union> own_link (pc s) \<longleftrightarrow> (a, c) \<in> ?P - {(prev, n)}" for a c
      using uniq [of a] own [of a] by (cases "c = n") auto
    then show ?thesis by (intro equalityI subrelI) blast+
  qed
  have "linked ((nxt s)(prev := Some n)) (?P - {(prev, n)}) ch"
    using ch(1) dist pr by (intro linked_store) (auto simp: chain_ok_def)
  then have "chain_ok s' ch" using ch(1) P by (auto simp: chain_ok_def s' sleep_marked_def)
  moreover have "pc_ok (pc s') s' ch"
  proof -
    have "prev \<in> set ch" using pairs_in [OF pr] by simp
    moreover have "prev \<noteq> Sleeping" if "\<not> sleep_marked s"
      using that ch(1) \<open>prev \<in> set ch\<close> by (auto simp: chain_ok_def)
    ultimately show ?thesis using ch(2) by (cases "pc s") (auto simp: s' sleep_marked_def)
  qed
  moreover have "wake_ok s' ch" using ch(3) by (auto simp: wake_ok_def s')
  ultimately show ?thesis by (rule tsq_invI)
qed

subsection \<open>The consumer keeps it\<close>

text \<open>The node at the tail whose successor is known leaves the chain.\<close>

lemma advance_inv:
  assumes "chain_ok s ch" "nxt s (tail s) = Some n" "own_link (pc s) = {}" "\<not> asleep s" "t = tail s" "t \<noteq> Stub"
    and "second \<longrightarrow> \<not> sleepy s"
  shows "tsq_inv (fst (advance second t n s))"
proof -
  have "linked (nxt s) (set (pending s)) ch" "hd ch = t" "ch \<noteq> []" using assms by (auto simp: chain_ok_def)
  then obtain r where r: "ch = t # n # r" "(t, n) \<notin> set (pending s)" "linked (nxt s) (set (pending s)) (n # r)"
    using assms(2,5) by (cases "(nxt s, set (pending s), ch)" rule: linked.cases) (auto split: if_splits)
  have sub: "set (pending s) \<subseteq> pairs (n # r)" using assms(1,3) r(1,2) by (auto simp: chain_ok_def)
  have unmarked: "\<not> (\<exists>p. pc s = SleepLink p)" using assms(3) by auto
  show ?thesis
  proof (cases t)
    case Sleeping
    then have "sleepy s" using assms(1) r(1) unmarked by (auto simp: chain_ok_def sleep_marked_def)
    then have "\<not> second" using assms(7) by simp
    then have "chain_ok (fst (advance second t n s)) (n # r)"
      using assms(1,3) r sub Sleeping by (auto simp: chain_ok_def advance_def pop_return_def sleep_marked_def)
    then show ?thesis
      by (rule tsq_invI) (use \<open>\<not> second\<close> Sleeping assms(4) in \<open>auto simp: advance_def pop_return_def wake_ok_def\<close>)
  next
    case (Data k)
    have up: "k # data_of (n # r) = [length (popped s)..<length (pushed s)]" using assms(1) r(1) Data by (auto simp: chain_ok_def)
    then have "length (popped s) < length (pushed s) \<and> length (popped s) = k \<and>
        [length (popped s) + 1..<length (pushed s)] = data_of (n # r)"
      using upt_eq_Cons_conv by metis
    then have k: "k = length (popped s)" "k < length (pushed s)" "data_of (n # r) = [Suc k..<length (pushed s)]" by auto
    have tk: "take (length (popped s)) (pushed s) = popped s" using assms(1) by (simp add: chain_ok_def)
    have "take (Suc k) (pushed s) = take k (pushed s) @ [pushed s ! k]" using k(2) by (rule take_Suc_conv_app_nth)
    then have take: "take (Suc (length (popped s))) (pushed s) = popped s @ [pushed s ! k]" unfolding k(1) tk .
    have s': "fst (advance second t n s) = s\<lparr>tail := n, popped := popped s @ [pushed s ! k], pc := Idle\<rparr>"
      using Data by (simp add: advance_def pop_return_def)
    have "Sleeping \<in> set (n # r) \<longleftrightarrow> sleepy s" "distinct (n # r)" "last (n # r) = head s" "\<forall>(p, n)\<in>set (pending s). is_data n"
      using assms(1) r(1) Data unmarked by (auto simp: chain_ok_def sleep_marked_def)
    then have "chain_ok (fst (advance second t n s)) (n # r)"
      unfolding s' using r(3) sub k(3) take unfolding k(1) by (simp add: chain_ok_def sleep_marked_def)
    then show ?thesis
      by (rule tsq_invI) (use Data assms(4) in \<open>auto simp: advance_def pop_return_def wake_ok_def\<close>)
  qed (use assms(6) in simp)
qed

text \<open>Steps that change only the place of the consumer.\<close>

lemma move_inv:
  assumes "chain_ok s ch" "own_link (pc s) = {}" "own_link p = {}" "\<not> asleep s" "pc_ok p s ch"
  shows "tsq_inv (s\<lparr>pc := p\<rparr>)"
proof (rule tsq_invI)
  have "(\<exists>q. pc s = SleepLink q) = False" "(\<exists>q. p = SleepLink q) = False" using assms(2,3) by auto
  then show "chain_ok (s\<lparr>pc := p\<rparr>) ch" using assms(1,2,3) by (simp add: chain_ok_def sleep_marked_def)
  show "pc_ok (pc (s\<lparr>pc := p\<rparr>)) (s\<lparr>pc := p\<rparr>) ch" using assms(5) by (cases p) auto
  show "wake_ok (s\<lparr>pc := p\<rparr>) ch" using assms(3,4) by (auto simp: wake_ok_def)
qed

lemma chain_successor:
  assumes "chain_ok s ch" "nxt s (tail s) = Some n" "tail s = Stub" "own_link (pc s) = {}"
  shows "\<exists>r. ch = Stub # n # r \<and> chain_ok (s\<lparr>tail := n\<rparr>) (n # r) \<and> n \<noteq> Stub"
proof -
  have "linked (nxt s) (set (pending s)) ch" "hd ch = Stub" "ch \<noteq> []" using assms by (auto simp: chain_ok_def)
  then obtain r where r: "ch = Stub # n # r" "(Stub, n) \<notin> set (pending s)" "linked (nxt s) (set (pending s)) (n # r)"
    using assms(2,3) by (cases "(nxt s, set (pending s), ch)" rule: linked.cases) (auto split: if_splits)
  then show ?thesis using assms(1,4) by (auto simp: chain_ok_def sleep_marked_def)
qed

lemma single_chain: "chain_ok s ch \<Longrightarrow> tail s = head s \<Longrightarrow> ch = [head s]"
  unfolding chain_ok_def by (metis distinct.simps(2) last.simps last_in_set list.sel(1) neq_Nil_conv)

lemma pop_none: "pop_return second None s = (s\<lparr>pc := Idle\<rparr>, PopReturns None)"
  by (simp add: pop_return_def)

text \<open>The consumer appends a node of its own, the stub or the sleeping mark.\<close>

lemma exchange_chain:
  assumes "chain_ok s ch" "own_link (pc s) = {}" "n \<notin> set ch" "nxt s n = None" "\<not> is_data n"
    and "own_link p = {(head s, n)}" and "n = Sleeping \<longleftrightarrow> (\<exists>q. p = SleepLink q)"
  shows "chain_ok (s\<lparr>head := n, pc := p\<rparr>) (ch @ [n])"
proof -
  have "linked (nxt s) (insert (last ch, n) (set (pending s))) (ch @ [n])"
    using assms(1,2,3,4) by (intro linked_append) (auto simp: chain_ok_def)
  moreover have "data_of (ch @ [n]) = data_of ch" using assms(5) by (cases n) auto
  moreover have "pc s \<noteq> SleepLink q" for q using assms(2) by auto
  ultimately show ?thesis
    using assms(1,2,3,6,7) pairs_append [of ch n] by (auto simp: chain_ok_def sleep_marked_def)
qed

text \<open>It stores the link to that node.\<close>

lemma link_chain:
  assumes "chain_ok s ch" "own_link (pc s) = {(prev, n)}" "\<not> is_data n" "own_link p = {}"
    and "sleep_marked (s\<lparr>pc := p, sleepy := b\<rparr>) = sleep_marked s"
  shows "chain_ok (s\<lparr>nxt := (nxt s)(prev := Some n), sleepy := b, pc := p\<rparr>) ch"
proof -
  have pr: "(prev, n) \<in> pairs ch" and no: "(prev, n) \<notin> set (pending s)" using assms(1,2,3) by (auto simp: chain_ok_def)
  have "linked ((nxt s)(prev := Some n)) ((set (pending s) \<union> {(prev, n)}) - {(prev, n)}) ch"
    using assms(1,2) pr by (intro linked_store) (auto simp: chain_ok_def)
  moreover have "(set (pending s) \<union> {(prev, n)}) - {(prev, n)} = set (pending s)" using no by auto
  ultimately show ?thesis using assms(1,2,4,5) by (auto simp: chain_ok_def sleep_marked_def)
qed

lemma pop_step_inv:
  assumes "tsq_inv s" "pop_step (pc s) s = Some (s', out)"
  shows "tsq_inv s'"
proof -
  obtain ch where ch: "chain_ok s ch" "pc_ok (pc s) s ch" "wake_ok s ch" using assms(1) by (auto simp: tsq_inv_def)
  have awake: "\<not> asleep s" using ch(3) assms(2) by (cases "pc s") (auto simp: wake_ok_def)
  show ?thesis
  proof (cases "pc s")
    case (PopLoad second)
    show ?thesis
    proof (cases "tail s = Stub")
      case True
      show ?thesis
      proof (cases "nxt s (tail s)")
        case None
        then have "s' = s\<lparr>pc := Idle\<rparr>" using assms(2) PopLoad True by (simp add: pop_none)
        then show ?thesis using move_inv [OF ch(1), of Idle] PopLoad awake by simp
      next
        case (Some n)
        obtain r where r: "chain_ok (s\<lparr>tail := n\<rparr>) (n # r)" "n \<noteq> Stub"
          using chain_successor [OF ch(1) Some True] PopLoad by auto
        have "s' = (s\<lparr>tail := n\<rparr>)\<lparr>pc := PopLoadNext second n\<rparr>" using assms(2) PopLoad True Some by simp
        then show ?thesis using move_inv [OF r(1), of "PopLoadNext second n"] PopLoad awake ch(2) r(2) by simp
      qed
    next
      case False
      show ?thesis
      proof (cases "nxt s (tail s)")
        case None
        then have "s' = s\<lparr>pc := PopLoadHead second (tail s)\<rparr>" using assms(2) PopLoad False by simp
        then show ?thesis using move_inv [OF ch(1), of "PopLoadHead second (tail s)"] PopLoad awake ch(2) False by simp
      next
        case (Some n)
        then have "s' = fst (advance second (tail s) n s)" using assms(2) PopLoad False by simp
        then show ?thesis using advance_inv [OF ch(1) Some _ awake refl False, of second] PopLoad ch(2) by simp
      qed
    qed
  next
    case (PopLoadNext second t)
    then have t: "tail s = t" "t \<noteq> Stub" "second \<longrightarrow> \<not> sleepy s" using ch(2) by auto
    show ?thesis
    proof (cases "nxt s t")
      case None
      then have "s' = s\<lparr>pc := PopLoadHead second t\<rparr>" using assms(2) PopLoadNext by simp
      then show ?thesis using move_inv [OF ch(1), of "PopLoadHead second t"] PopLoadNext awake t by simp
    next
      case (Some n)
      then have s': "s' = fst (advance second t n s)" and n: "nxt s (tail s) = Some n" using assms(2) PopLoadNext t(1) by simp_all
      show ?thesis unfolding s' by (rule advance_inv [OF ch(1) n _ awake t(1) [symmetric] t(2,3)]) (simp add: PopLoadNext)
    qed
  next
    case (PopLoadHead second t)
    then have t: "tail s = t" "t \<noteq> Stub" "second \<longrightarrow> \<not> sleepy s" using ch(2) by auto
    show ?thesis
    proof (cases "t = head s")
      case True
      then have "s' = s\<lparr>pc := PopStoreStub second t\<rparr>" using assms(2) PopLoadHead by simp
      moreover have "Stub \<notin> set ch" using single_chain [OF ch(1)] t True by auto
      ultimately show ?thesis using move_inv [OF ch(1), of "PopStoreStub second t"] PopLoadHead awake t by simp
    next
      case False
      then have "s' = s\<lparr>pc := Idle\<rparr>" using assms(2) PopLoadHead by (simp add: pop_none)
      then show ?thesis using move_inv [OF ch(1), of Idle] PopLoadHead awake by simp
    qed
  next
    case (PopStoreStub second t)
    then have s': "s' = s\<lparr>nxt := (nxt s)(Stub := None), pc := PopExchange second t\<rparr>" using assms(2) by simp
    have "linked ((nxt s)(Stub := None)) (set (pending s)) ch = linked (nxt s) (set (pending s)) ch"
      using ch(2) PopStoreStub by (intro linked_cong) auto
    then have "chain_ok s' ch" using ch(1) PopStoreStub by (auto simp: chain_ok_def s' sleep_marked_def)
    then show ?thesis
      by (rule tsq_invI) (use ch(2) PopStoreStub awake in \<open>auto simp: s' wake_ok_def\<close>)
  next
    case (PopExchange second t)
    then have s': "s' = s\<lparr>head := Stub, pc := PopLink second t (head s)\<rparr>" using assms(2) by simp
    have "chain_ok s' (ch @ [Stub])"
      unfolding s' using ch(1,2) PopExchange by (intro exchange_chain) auto
    then show ?thesis
      by (rule tsq_invI) (use ch(2) PopExchange awake in \<open>auto simp: s' wake_ok_def\<close>)
  next
    case (PopLink second t prev)
    then have s': "s' = s\<lparr>nxt := (nxt s)(prev := Some Stub), sleepy := sleepy s, pc := PopReload second t\<rparr>" using assms(2) by simp
    have "chain_ok s' ch"
      unfolding s' using ch(1,2) PopLink by (intro link_chain) (auto simp: sleep_marked_def)
    then show ?thesis
      by (rule tsq_invI) (use ch(2) PopLink awake in \<open>auto simp: s' wake_ok_def\<close>)
  next
    case (PopReload second t)
    then have t: "tail s = t" "t \<noteq> Stub" "second \<longrightarrow> \<not> sleepy s" using ch(2) by auto
    show ?thesis
    proof (cases "nxt s t")
      case None
      then have "s' = s\<lparr>pc := Idle\<rparr>" using assms(2) PopReload by (simp add: pop_none)
      then show ?thesis using move_inv [OF ch(1), of Idle] PopReload awake by simp
    next
      case (Some n)
      then have s': "s' = fst (advance second t n s)" and n: "nxt s (tail s) = Some n" using assms(2) PopReload t(1) by simp_all
      show ?thesis unfolding s' by (rule advance_inv [OF ch(1) n _ awake t(1) [symmetric] t(2,3)]) (simp add: PopReload)
    qed
  qed (use assms(2) in auto)
qed

lemma canSleep_step_inv:
  assumes "tsq_inv s" "canSleep_step (pc s) s = Some (s', out)"
  shows "tsq_inv s'"
proof -
  obtain ch where ch: "chain_ok s ch" "pc_ok (pc s) s ch" "wake_ok s ch" using assms(1) by (auto simp: tsq_inv_def)
  have awake: "\<not> asleep s" using ch(3) assms(2) by (cases "pc s") (auto simp: wake_ok_def)
  show ?thesis
  proof (cases "pc s")
    case SleepLoad
    show ?thesis
    proof (cases "tail s \<noteq> Stub \<or> nxt s (tail s) \<noteq> None")
      case True
      then have "s' = s\<lparr>pc := Idle\<rparr>" using assms(2) SleepLoad by simp
      then show ?thesis using move_inv [OF ch(1), of Idle] SleepLoad awake by simp
    next
      case False
      then have "s' = s\<lparr>pc := SleepStore\<rparr>" using assms(2) SleepLoad by simp
      then show ?thesis using move_inv [OF ch(1), of SleepStore] SleepLoad awake ch(2) False by simp
    qed
  next
    case SleepStore
    then have s': "s' = s\<lparr>nxt := (nxt s)(Sleeping := None), pc := SleepExchange\<rparr>" using assms(2) by simp
    have "Sleeping \<notin> set ch" using ch(1,2) SleepStore by (auto simp: chain_ok_def sleep_marked_def)
    then have "linked ((nxt s)(Sleeping := None)) (set (pending s)) ch = linked (nxt s) (set (pending s)) ch"
      by (intro linked_cong) auto
    then have "chain_ok s' ch" using ch(1) SleepStore by (auto simp: chain_ok_def s' sleep_marked_def)
    then show ?thesis
      by (rule tsq_invI) (use ch(2) SleepStore awake in \<open>auto simp: s' wake_ok_def\<close>)
  next
    case SleepExchange
    then have s': "s' = (s\<lparr>head := Sleeping, pc := SleepLink (head s)\<rparr>)\<lparr>woken := False\<rparr>" using assms(2) by simp
    have no: "Sleeping \<notin> set ch" using ch(1,2) SleepExchange by (auto simp: chain_ok_def sleep_marked_def)
    then have "chain_ok (s\<lparr>head := Sleeping, pc := SleepLink (head s)\<rparr>) (ch @ [Sleeping])"
      using ch(1,2) SleepExchange by (intro exchange_chain) auto
    then have "chain_ok s' (ch @ [Sleeping])" by (simp add: s' chain_ok_def sleep_marked_def)
    moreover have "data_of ch = []" if "head s = Stub"
      using single_chain [OF ch(1)] that ch(2) SleepExchange by simp
    ultimately show ?thesis
      by (intro tsq_invI [of s' "ch @ [Sleeping]"]) (use ch(2) SleepExchange awake in \<open>auto simp: s' wake_ok_def\<close>)
  next
    case (SleepLink prev)
    then have s': "s' = (s\<lparr>nxt := (nxt s)(prev := Some Sleeping), sleepy := True, pc := Idle\<rparr>)\<lparr>asleep := prev = Stub\<rparr>"
      using assms(2) by (simp add: Let_def)
    have "chain_ok (s\<lparr>nxt := (nxt s)(prev := Some Sleeping), sleepy := True, pc := Idle\<rparr>) ch"
      using ch(1,2) SleepLink by (intro link_chain) (auto simp: sleep_marked_def)
    then have "chain_ok s' ch" by (simp add: s' chain_ok_def sleep_marked_def)
    then show ?thesis
      by (rule tsq_invI) (use ch(3) SleepLink in \<open>auto simp: s' wake_ok_def\<close>)
  qed (use assms(2) in auto)
qed

lemma reachable_inv: "reachable s \<Longrightarrow> tsq_inv s"
proof (induction rule: reachable.induct)
  case init
  show ?case by (rule tsq_invI [of _ "[Stub]"]) (auto simp: tsq_init_def chain_ok_def wake_ok_def sleep_marked_def)
next
  case (step s e s' out)
  show ?case
  proof (cases e)
    case (Push x)
    then show ?thesis using step push_inv [OF step.IH, of x] by auto
  next
    case (Link n)
    then show ?thesis using step push_link_inv by auto
  next
    case CallPop
    then have s': "s' = s\<lparr>pc := PopLoad False, asleep := False\<rparr>" "pc s = Idle" using step.hyps(2) by (auto split: if_splits)
    obtain ch where "chain_ok s ch" using step.IH by (auto simp: tsq_inv_def)
    then show ?thesis
      by (intro tsq_invI [of _ ch]) (use s' in \<open>auto simp: chain_ok_def wake_ok_def sleep_marked_def\<close>)
  next
    case CallCanSleep
    then have s': "s' = fst (canSleep_call (s\<lparr>asleep := False\<rparr>))" "pc s = Idle" using step.hyps(2) by (auto split: if_splits)
    obtain ch where "chain_ok s ch" using step.IH by (auto simp: tsq_inv_def)
    then show ?thesis
      by (intro tsq_invI [of _ ch]) (use s' in \<open>auto simp: canSleep_call_def chain_ok_def wake_ok_def sleep_marked_def\<close>)
  next
    case Continue
    then show ?thesis
      using step pop_step_inv canSleep_step_inv by (auto split: option.splits)
  qed
qed

subsection \<open>Results\<close>

fun run_events :: "'a event list \<Rightarrow> 'a tsq \<Rightarrow> 'a tsq" where
  "run_events [] s = s"
| "run_events (e # es) s = (case tsq_step e s of None \<Rightarrow> s | Some (s', out) \<Rightarrow> run_events es s')"

lemma reachable_run: "reachable s \<Longrightarrow> reachable (run_events es s)"
  by (induction es arbitrary: s) (auto split: option.splits intro: reachable.step)

text \<open>C2. Under every interleaving of the producers and the consumer, the data that \<open>pop\<close> has returned are the first
  data pushed, in the order in which the pushes took effect: nothing is lost, doubled or reordered, and the two
  assertions of \<open>pop\<close> never fail.\<close>

theorem ThreadSafeQueue_fifo:
  assumes "reachable s"
  shows "popped s = take (length (popped s)) (pushed s) \<and> length (popped s) \<le> length (pushed s) \<and> pc s \<noteq> AssertionFailed"
proof -
  obtain ch where ch: "chain_ok s ch" "pc_ok (pc s) s ch" using reachable_inv [OF assms] by (auto simp: tsq_inv_def)
  have take: "take (length (popped s)) (pushed s) = popped s" using ch(1) by (simp add: chain_ok_def)
  have "length (take (length (popped s)) (pushed s)) = length (popped s)" unfolding take ..
  then have "length (popped s) \<le> length (pushed s)" by simp
  then show ?thesis using take ch(2) by (auto simp del: take_all_iff)
qed

theorem ThreadSafeQueue_fifo_witness:
  "popped (run_events [Push (7::nat), Push 8, Link (Data 1), CallPop, Continue, Link (Data 0), CallPop, Continue, Continue] tsq_init) = [7]"
proof -
  let ?s = "run_events [Push (7::nat), Push 8, Link (Data 1), CallPop, Continue, Link (Data 0), CallPop, Continue, Continue] tsq_init"
  have "length (popped ?s) = 1" "pushed ?s = [7, 8]"
    by (simp_all add: tsq_init_def push_def push_link_def pop_return_def advance_def Let_def)
  then show ?thesis using ThreadSafeQueue_fifo [OF reachable_run [OF reachable.init]] by (metis One_nat_def take_Suc_Cons take_0)
qed

text \<open>C17. No wake-up is lost: after \<open>canSleep\<close> has returned true, as long as no datum has been announced by a \<open>push\<close> that
  returned true, the queue is empty and the next \<open>push\<close> will return true.\<close>

theorem ThreadSafeQueue_no_lost_wakeup:
  assumes "reachable s" and "asleep s" and "\<not> woken s"
  shows "popped s = pushed s \<and> snd (push x s) = PushReturns True"
proof -
  obtain ch where ch: "chain_ok s ch" "wake_ok s ch" using reachable_inv [OF assms(1)] by (auto simp: tsq_inv_def)
  have "data_of ch = []" "head s = Sleeping" using ch(2) assms(2,3) by (auto simp: wake_ok_def)
  then have "[length (popped s)..<length (pushed s)] = []" "take (length (popped s)) (pushed s) = popped s"
    using ch(1) by (simp_all add: chain_ok_def)
  then have "length (pushed s) \<le> length (popped s)" "take (length (popped s)) (pushed s) = popped s"
    unfolding upt_eq_Nil_conv by auto
  then show ?thesis using \<open>head s = Sleeping\<close> by (simp add: push_def Let_def)
qed

theorem ThreadSafeQueue_no_lost_wakeup_witness:
  "snd (push (5::nat) (run_events [CallCanSleep, Continue, Continue, Continue, Continue] tsq_init)) = PushReturns True"
proof -
  let ?s = "run_events [CallCanSleep, Continue, Continue, Continue, Continue] tsq_init :: nat tsq"
  have "asleep ?s" "\<not> woken ?s" by (simp_all add: tsq_init_def canSleep_call_def Let_def)
  from ThreadSafeQueue_no_lost_wakeup [OF reachable_run [OF reachable.init] this, of 5] show ?thesis ..
qed

text \<open>C18. No thread writes to a node that has been deleted: the node before every node that is pushed and not yet
  linked, by a producer or by the consumer, has not been returned by \<open>pop\<close>.\<close>

theorem ThreadSafeQueue_memory_safe:
  assumes "reachable s" and "(Data k, n) \<in> set (pending s) \<union> own_link (pc s)"
  shows "length (popped s) \<le> k \<and> k < length (pushed s)"
proof -
  obtain ch where ch: "chain_ok s ch" using reachable_inv [OF assms(1)] by (auto simp: tsq_inv_def)
  then have "(Data k, n) \<in> pairs ch" using assms(2) by (auto simp: chain_ok_def)
  then have "k \<in> set (data_of ch)" using pairs_in data_of_mem by blast
  then show ?thesis using ch by (auto simp: chain_ok_def)
qed

theorem ThreadSafeQueue_memory_safe_witness:
  "length (popped (run_events [Push (7::nat), Push 8] tsq_init)) \<le> 0"
proof -
  let ?s = "run_events [Push (7::nat), Push 8] tsq_init"
  have "(Data 0, Data 1) \<in> set (pending ?s) \<union> own_link (pc ?s)" by (simp add: tsq_init_def push_def Let_def)
  from ThreadSafeQueue_memory_safe [OF reachable_run [OF reachable.init] this] show ?thesis ..
qed

end
