(* ===== verification/ErrorTable.thy ===== *)
theory ErrorTable
  imports Main
begin

text \<open>
  The error definitions of \<^verbatim>\<open>flow/include/flow/error_definitions.h\<close>: the name, the code and the description of
  every error, in the order of the file.
\<close>

type_synonym error_def = "string \<times> int \<times> string"

definition error_definitions_1 :: "error_def list" where
  "error_definitions_1 = [
    (''success'', 0, ''Success''),
    (''end_of_stream'', 1, ''End of stream''),
    (''operation_failed'', 1000, ''Operation failed''),
    (''wrong_shard_server'', 1001, ''Shard is not available from this server''),
    (''operation_obsolete'', 1002, ''Operation result no longer necessary''),
    (''cold_cache_server'', 1003, ''Cache server is not warm for this range''),
    (''timed_out'', 1004, ''Operation timed out''),
    (''coordinated_state_conflict'', 1005, ''Conflict occurred while changing coordination information''),
    (''all_alternatives_failed'', 1006, ''All alternatives failed''),
    (''transaction_too_old'', 1007, ''Transaction is too old to perform reads or be committed''),
    (''no_more_servers'', 1008, ''Not enough physical servers available''),
    (''future_version'', 1009, ''Request for future version''),
    (''movekeys_conflict'', 1010, ''Conflicting attempts to change data distribution''),
    (''tlog_stopped'', 1011, ''TLog stopped''),
    (''server_request_queue_full'', 1012, ''Server request queue is full''),
    (''not_committed'', 1020, ''Transaction not committed due to conflict with another transaction''),
    (''commit_unknown_result'', 1021, ''Transaction may or may not have committed''),
    (''commit_unknown_result_fatal'', 1022, ''Idempotency id for transaction may have expired, so the commit status of the transaction cannot be determined''),
    (''transaction_cancelled'', 1025, ''Operation aborted because the transaction was cancelled''),
    (''connection_failed'', 1026, ''Network connection failed''),
    (''coordinators_changed'', 1027, ''Coordination servers have changed''),
    (''new_coordinators_timed_out'', 1028, ''New coordination servers did not respond in a timely way''),
    (''watch_cancelled'', 1029, ''Watch cancelled because storage server watch limit exceeded''),
    (''request_maybe_delivered'', 1030, ''Request may or may not have been delivered''),
    (''transaction_timed_out'', 1031, ''Operation aborted because the transaction timed out''),
    (''too_many_watches'', 1032, ''Too many watches currently set''),
    (''locality_information_unavailable'', 1033, ''Locality information not available''),
    (''watches_disabled'', 1034, ''Watches cannot be set if read your writes is disabled''),
    (''default_error_or'', 1035, ''Default error for an ErrorOr object''),
    (''accessed_unreadable'', 1036, ''Read or wrote an unreadable key''),
    (''process_behind'', 1037, ''Storage process does not have recent mutations''),
    (''database_locked'', 1038, ''Database is locked''),
    (''cluster_version_changed'', 1039, ''The protocol version of the cluster has changed''),
    (''external_client_already_loaded'', 1040, ''External client has already been loaded''),
    (''lookup_failed'', 1041, ''DNS lookup failed''),
    (''commit_proxy_memory_limit_exceeded'', 1042, ''CommitProxy commit memory limit exceeded''),
    (''shutdown_in_progress'', 1043, ''Operation no longer supported due to shutdown''),
    (''serialization_failed'', 1044, ''Failed to deserialize an object''),
    (''connection_unreferenced'', 1048, ''No peer references for connection''),
    (''connection_idle'', 1049, ''Connection closed after idle timeout''),
    (''disk_adapter_reset'', 1050, ''The disk queue adapter reset''),
    (''batch_transaction_throttled'', 1051, ''Batch GRV request rate limit exceeded''),
    (''dd_cancelled'', 1052, ''Data distribution components cancelled''),
    (''dd_not_found'', 1053, ''Data distributor not found''),
    (''wrong_connection_file'', 1054, ''Connection file mismatch''),
    (''version_already_compacted'', 1055, ''The requested changes have been compacted away''),
    (''local_config_changed'', 1056, ''Local configuration file has changed. Restart and apply these changes''),
    (''unsupported_format_version'', 1058, ''Format version not supported''),
    (''unknown_change_feed'', 1059, ''Change feed not found''),
    (''change_feed_not_registered'', 1060, ''Change feed not registered''),
    (''change_feed_cancelled'', 1062, ''Change feed was cancelled''),
    (''change_feed_popped'', 1066, ''Tried to read a version older than what has been popped from the change feed''),
    (''page_header_wrong_page_id'', 1068, ''Page header does not match location on disk''),
    (''page_header_checksum_failed'', 1069, ''Page header checksum failed''),
    (''page_header_version_not_supported'', 1070, ''Page header version is not supported'')]"

definition error_definitions_2 :: "error_def list" where
  "error_definitions_2 = [
    (''page_encoding_not_supported'', 1071, ''Page encoding type is not supported or not valid''),
    (''page_decoding_failed'', 1072, ''Page content decoding failed''),
    (''unexpected_encoding_type'', 1073, ''Page content decoding failed''),
    (''encryption_key_not_found'', 1074, ''Encryption key not found''),
    (''data_move_cancelled'', 1075, ''Data move was cancelled''),
    (''data_move_dest_team_not_found'', 1076, ''Dest team was not found for data move''),
    (''grv_proxy_memory_limit_exceeded'', 1078, ''GetReadVersion proxy memory limit exceeded''),
    (''storage_too_many_feed_streams'', 1080, ''Too many feed streams to a single storage server''),
    (''storage_engine_not_initialized'', 1081, ''Storage engine was never successfully initialized.''),
    (''unknown_storage_engine'', 1082, ''Storage engine type is not recognized.''),
    (''duplicate_snapshot_request'', 1083, ''A duplicate snapshot request has been sent, the old request is discarded.''),
    (''dd_config_changed'', 1084, ''DataDistribution configuration changed.''),
    (''consistency_check_urgent_task_failed'', 1085, ''Consistency check urgent task is failed''),
    (''data_move_conflict'', 1086, ''Data move conflict in SS''),
    (''consistency_check_urgent_duplicate_request'', 1087, ''Consistency check urgent got a duplicate request''),
    (''broken_promise'', 1100, ''Broken promise''),
    (''operation_cancelled'', 1101, ''Asynchronous operation cancelled''),
    (''future_released'', 1102, ''Future has been released''),
    (''connection_leaked'', 1103, ''Connection object leaked''),
    (''never_reply'', 1104, ''Never reply to the request''),
    (''retry'', 1105, ''Retry operation''),
    (''recruitment_failed'', 1200, ''Recruitment of a server failed''),
    (''move_to_removed_server'', 1201, ''Attempt to move keys to a storage server that was removed''),
    (''worker_removed'', 1202, ''Normal worker shut down''),
    (''cluster_recovery_failed'', 1203, ''Cluster recovery failed''),
    (''master_max_versions_in_flight'', 1204, ''Master hit maximum number of versions in flight''),
    (''tlog_failed'', 1205, ''Cluster recovery terminating because a TLog failed''),
    (''worker_recovery_failed'', 1206, ''Recovery of a worker process failed''),
    (''please_reboot'', 1207, ''Reboot of server process requested''),
    (''please_reboot_delete'', 1208, ''Reboot of server process requested, with deletion of state''),
    (''commit_proxy_failed'', 1209, ''Master terminating because a CommitProxy failed''),
    (''resolver_failed'', 1210, ''Cluster recovery terminating because a Resolver failed''),
    (''server_overloaded'', 1211, ''Server is under too much load and cannot respond''),
    (''backup_worker_failed'', 1212, ''Cluster recovery terminating because a backup worker failed''),
    (''tag_throttled'', 1213, ''Transaction tag is being throttled''),
    (''grv_proxy_failed'', 1214, ''Cluster recovery terminating because a GRVProxy failed''),
    (''dd_tracker_cancelled'', 1215, ''The data distribution tracker has been cancelled''),
    (''failed_to_progress'', 1216, ''Process has failed to make sufficient progress''),
    (''invalid_cluster_id'', 1217, ''Attempted to join cluster with a different cluster ID''),
    (''restart_cluster_controller'', 1218, ''Restart cluster controller process''),
    (''please_reboot_kv_store'', 1219, ''Need to reboot the storage engine''),
    (''incompatible_software_version'', 1220, ''Current software does not support database format''),
    (''audit_storage_failed'', 1221, ''Validate storage consistency operation failed''),
    (''audit_storage_exceeded_request_limit'', 1222, ''Exceeded the max number of allowed concurrent audit storage requests''),
    (''key_value_store_deadline_exceeded'', 1224, ''Exceeded maximum time allowed to read or write.''),
    (''audit_storage_error'', 1226, ''Found data corruption''),
    (''master_failed'', 1227, ''Cluster recovery terminating because master has failed''),
    (''test_failed'', 1228, ''Test failed''),
    (''retry_clean_up_datamove_tombstone_added'', 1229, ''Need background datamove cleanup''),
    (''persist_new_audit_metadata_error'', 1230, ''Persist new audit metadata error''),
    (''cancel_audit_storage_failed'', 1231, ''Failed to cancel an audit''),
    (''audit_storage_cancelled'', 1232, ''Audit has been cancelled''),
    (''location_metadata_corruption'', 1233, ''Found location metadata corruption''),
    (''audit_storage_task_outdated'', 1234, ''Audit task is scheduled by an outdated DD''),
    (''transaction_throttled_hot_shard'', 1235, ''Transaction throttled due to hot shard'')]"

definition error_definitions_3 :: "error_def list" where
  "error_definitions_3 = [
    (''storage_replica_comparison_error'', 1236, ''Storage replicas not consistent''),
    (''unreachable_storage_replica'', 1237, ''Storage replica cannot be reached''),
    (''bulkload_task_failed'', 1238, ''Bulk loading task failed''),
    (''bulkload_task_outdated'', 1239, ''Bulk loading task outdated''),
    (''range_lock_failed'', 1241, ''Lock range failed''),
    (''transaction_rejected_range_locked'', 1242, ''Transaction rejected due to range lock''),
    (''bulkdump_task_failed'', 1243, ''Bulk dumping task failed''),
    (''bulkdump_task_outdated'', 1244, ''Bulk dumping task outdated''),
    (''bulkload_fileset_invalid_filepath'', 1245, ''Bulkload fileset provides invalid filepath''),
    (''bulkload_manifest_decode_error'', 1246, ''Bulkload manifest string is failed to decode''),
    (''range_lock_reject'', 1247, ''Range lock is rejected''),
    (''range_unlock_reject'', 1248, ''Range unlock is rejected''),
    (''bulkload_dataset_not_cover_required_range'', 1249, ''Bulkload dataset does not cover the required range''),
    (''bulkload_invalid_configuration'', 1250, ''BulkLoad requires cluster configuration with both shard_encode_location_metadata=1 and enable_read_lock_on_range=1''),
    (''transaction_grv_queue_rejected'', 1251, ''GRV request rejected because estimated queue wait exceeds transaction limit''),
    (''finish_move_keys_too_many_retries'', 1252, ''finishMoveKeys exceeded retry limit''),
    (''start_move_keys_too_many_retries'', 1253, ''startMoveKeys exceeded retry limit''),
    (''cdc_proxy_failed'', 1254, ''Cluster recovery terminating because a CDCProxy failed''),
    (''cdc_tlog_peek_reply_too_large'', 1255, ''TLog CDC peek reply exceeds configured byte limit''),
    (''platform_error'', 1500, ''Platform error''),
    (''large_alloc_failed'', 1501, ''Large block allocation failed''),
    (''performance_counter_error'', 1502, ''QueryPerformanceCounter error''),
    (''bad_allocator'', 1503, ''Null allocator was used to allocate memory''),
    (''io_error'', 1510, ''Disk i/o operation failed''),
    (''file_not_found'', 1511, ''File not found''),
    (''bind_failed'', 1512, ''Unable to bind to network''),
    (''file_not_readable'', 1513, ''File could not be read''),
    (''file_not_writable'', 1514, ''File could not be written''),
    (''no_cluster_file_found'', 1515, ''No cluster file found in current directory or default location''),
    (''file_too_large'', 1516, ''File too large to be read''),
    (''non_sequential_op'', 1517, ''Non sequential file operation not allowed''),
    (''http_bad_response'', 1518, ''HTTP response was badly formed''),
    (''http_not_accepted'', 1519, ''HTTP request not accepted''),
    (''checksum_failed'', 1520, ''A data checksum failed''),
    (''io_timeout'', 1521, ''A disk IO operation failed to complete in a timely manner''),
    (''file_corrupt'', 1522, ''A structurally corrupt data file was detected''),
    (''http_request_failed'', 1523, ''HTTP response code not received or indicated failure''),
    (''http_auth_failed'', 1524, ''HTTP request failed due to bad credentials''),
    (''http_bad_request_id'', 1525, ''HTTP response contained an unexpected X-Request-ID header''),
    (''rest_invalid_uri'', 1526, ''Invalid REST URI''),
    (''rest_invalid_rest_client_knob'', 1527, ''Invalid RESTClient knob''),
    (''rest_connectpool_key_not_found'', 1528, ''ConnectKey not found in connection pool''),
    (''lock_file_failure'', 1529, ''Unable to lock the file''),
    (''rest_unsupported_protocol'', 1530, ''Unsupported REST protocol''),
    (''rest_malformed_response'', 1531, ''Malformed REST response''),
    (''rest_max_base_cipher_len'', 1532, ''Max BaseCipher length violation''),
    (''resource_not_found'', 1533, ''Requested resource was not found''),
    (''client_invalid_operation'', 2000, ''Invalid API call''),
    (''commit_read_incomplete'', 2002, ''Commit with incomplete read''),
    (''test_specification_invalid'', 2003, ''Invalid test specification''),
    (''key_outside_legal_range'', 2004, ''Key outside legal range''),
    (''inverted_range'', 2005, ''Range begin key larger than end key''),
    (''invalid_option_value'', 2006, ''Option set with an invalid value''),
    (''invalid_option'', 2007, ''Option not valid in this context''),
    (''network_not_setup'', 2008, ''Action not possible before the network is configured'')]"

definition error_definitions_4 :: "error_def list" where
  "error_definitions_4 = [
    (''network_already_setup'', 2009, ''Network can be configured only once''),
    (''read_version_already_set'', 2010, ''Transaction already has a read version set''),
    (''version_invalid'', 2011, ''Version not valid''),
    (''range_limits_invalid'', 2012, ''Range limits not valid''),
    (''invalid_database_name'', 2013, ''Database name must be 'DB'' @ [CHR 0x27]),
    (''attribute_not_found'', 2014, ''Attribute not found''),
    (''future_not_set'', 2015, ''Future not ready''),
    (''future_not_error'', 2016, ''Future not an error''),
    (''used_during_commit'', 2017, ''Operation issued while a commit was outstanding''),
    (''invalid_mutation_type'', 2018, ''Unrecognized atomic mutation type''),
    (''attribute_too_large'', 2019, ''Attribute too large for type int''),
    (''transaction_invalid_version'', 2020, ''Transaction does not have a valid commit version''),
    (''no_commit_version'', 2021, ''Transaction is read-only and therefore does not have a commit version''),
    (''environment_variable_network_option_failed'', 2022, ''Environment variable network option could not be set''),
    (''transaction_read_only'', 2023, ''Attempted to commit a transaction specified as read-only''),
    (''invalid_cache_eviction_policy'', 2024, ''Invalid cache eviction policy, only random and lru are supported''),
    (''network_cannot_be_restarted'', 2025, ''Network can only be started once''),
    (''blocked_from_network_thread'', 2026, ''Detected a deadlock in a callback called from the network thread''),
    (''mapper_bad_index'', 2030, ''The index in K[] or V[] is not a valid number or out of range''),
    (''mapper_no_such_key'', 2031, ''A mapped key is not set in database''),
    (''mapper_bad_range_decriptor'', 2032, ''\"{...}\" must be the last element of the mapper tuple''),
    (''quick_get_key_values_has_more'', 2033, ''One of the mapped range queries is too large''),
    (''quick_get_value_miss'', 2034, ''Found a mapped key that is not served in the same SS''),
    (''quick_get_key_values_miss'', 2035, ''Found a mapped range that is not served in the same SS''),
    (''get_mapped_key_values_has_more'', 2038, ''getMappedRange does not support continuation for now''),
    (''get_mapped_range_reads_your_writes'', 2039, ''getMappedRange tries to read data that were previously written in the transaction''),
    (''checkpoint_not_found'', 2040, ''Checkpoint not found''),
    (''key_not_tuple'', 2041, ''The key cannot be parsed as a tuple''),
    (''value_not_tuple'', 2042, ''The value cannot be parsed as a tuple''),
    (''mapper_not_tuple'', 2043, ''The mapper cannot be parsed as a tuple''),
    (''invalid_checkpoint_format'', 2044, ''Invalid checkpoint format''),
    (''failed_to_create_checkpoint'', 2046, ''Failed to create a checkpoint''),
    (''failed_to_restore_checkpoint'', 2047, ''Failed to restore a checkpoint''),
    (''failed_to_create_checkpoint_shard_metadata'', 2048, ''Failed to dump shard metadata for a checkpoint to a sst file''),
    (''address_parse_error'', 2049, ''Failed to parse address''),
    (''incompatible_protocol_version'', 2100, ''Incompatible protocol version''),
    (''transaction_too_large'', 2101, ''Transaction exceeds byte limit''),
    (''key_too_large'', 2102, ''Key length exceeds limit''),
    (''value_too_large'', 2103, ''Value length exceeds limit''),
    (''connection_string_invalid'', 2104, ''Connection string invalid''),
    (''address_in_use'', 2105, ''Local address in use''),
    (''invalid_local_address'', 2106, ''Invalid local address''),
    (''tls_error'', 2107, ''TLS error''),
    (''unsupported_operation'', 2108, ''Operation is not supported''),
    (''too_many_tags'', 2109, ''Too many tags set on transaction''),
    (''tag_too_long'', 2110, ''Tag set on transaction is too long''),
    (''too_many_tag_throttles'', 2111, ''Too many tag throttles have been created''),
    (''special_keys_cross_module_read'', 2112, ''Special key space range read crosses modules. Refer to the `special_key_space_relaxed' transaction option for more details.''),
    (''special_keys_no_module_found'', 2113, ''Special key space range read does not intersect a module. Refer to the `special_key_space_relaxed' transaction option for more details.''),
    (''special_keys_write_disabled'', 2114, ''Special Key space is not allowed to write by default. Refer to the `special_key_space_enable_writes` transaction option for more details.''),
    (''special_keys_no_write_module_found'', 2115, ''Special key space key or keyrange in set or clear does not intersect a module''),
    (''special_keys_cross_module_clear'', 2116, ''Special key space clear crosses modules''),
    (''special_keys_api_failure'', 2117, ''Api call through special keys failed. For more information, call get - within the same transaction - on special key 0xff0xff/error_message to get a json string of the error message.''),
    (''client_lib_invalid_metadata'', 2118, ''Invalid client library metadata.''),
    (''client_lib_already_exists'', 2119, ''Client library with same identifier already exists on the cluster.'')]"

definition error_definitions_5 :: "error_def list" where
  "error_definitions_5 = [
    (''client_lib_not_found'', 2120, ''Client library for the given identifier not found.''),
    (''client_lib_not_available'', 2121, ''Client library exists, but is not available for download.''),
    (''client_lib_invalid_binary'', 2122, ''Invalid client library binary.''),
    (''no_external_client_provided'', 2123, ''No external client library provided.''),
    (''all_external_clients_failed'', 2124, ''All external clients have failed.''),
    (''incompatible_client'', 2125, ''None of the available clients match the protocol version of the cluster.''),
    (''api_version_unset'', 2200, ''API version is not set''),
    (''api_version_already_set'', 2201, ''API version may be set only once''),
    (''api_version_invalid'', 2202, ''API version not valid''),
    (''api_version_not_supported'', 2203, ''API version not supported''),
    (''api_function_missing'', 2204, ''Failed to load a required FDB API function.''),
    (''exact_mode_without_limits'', 2210, ''EXACT streaming mode requires limits, but none were given''),
    (''invalid_tuple_data_type'', 2250, ''Unrecognized data type in packed tuple''),
    (''invalid_tuple_index'', 2251, ''Tuple does not have element at specified index''),
    (''key_not_in_subspace'', 2252, ''Cannot unpack key that is not in subspace''),
    (''manual_prefixes_not_enabled'', 2253, ''Cannot specify a prefix unless manual prefixes are enabled''),
    (''prefix_in_partition'', 2254, ''Cannot specify a prefix in a partition''),
    (''cannot_open_root_directory'', 2255, ''Root directory cannot be opened''),
    (''directory_already_exists'', 2256, ''Directory already exists''),
    (''directory_does_not_exist'', 2257, ''Directory does not exist''),
    (''parent_directory_does_not_exist'', 2258, ''Directory's parent does not exist''),
    (''mismatched_layer'', 2259, ''Directory has already been created with a different layer string''),
    (''invalid_directory_layer_metadata'', 2260, ''Invalid directory layer metadata''),
    (''cannot_move_directory_between_partitions'', 2261, ''Directory cannot be moved between partitions''),
    (''cannot_use_partition_as_subspace'', 2262, ''Directory partition cannot be used as subspace''),
    (''incompatible_directory_version'', 2263, ''Directory layer was created with an incompatible version''),
    (''directory_prefix_not_empty'', 2264, ''Database has keys stored at the prefix chosen by the automatic prefix allocator''),
    (''directory_prefix_in_use'', 2265, ''Directory layer already has a conflicting prefix''),
    (''invalid_destination_directory'', 2266, ''Target directory is invalid''),
    (''cannot_modify_root_directory'', 2267, ''Root directory cannot be modified''),
    (''invalid_uuid_size'', 2268, ''UUID is not sixteen bytes''),
    (''invalid_versionstamp_size'', 2269, ''Versionstamp is not exactly twelve bytes''),
    (''backup_error'', 2300, ''Backup error''),
    (''restore_error'', 2301, ''Restore error''),
    (''backup_duplicate'', 2311, ''Backup duplicate request''),
    (''backup_unneeded'', 2312, ''Backup unneeded request''),
    (''backup_bad_block_size'', 2313, ''Backup file block size too small''),
    (''backup_invalid_url'', 2314, ''Backup Container URL invalid''),
    (''backup_invalid_info'', 2315, ''Backup Container info invalid''),
    (''backup_cannot_expire'', 2316, ''Cannot expire requested data from backup without violating minimum restorability''),
    (''backup_auth_missing'', 2317, ''Cannot find authentication details (such as a password or secret key) for the specified Backup Container URL''),
    (''backup_auth_unreadable'', 2318, ''Cannot read or parse one or more sources of authentication information for Backup Container URLs''),
    (''backup_does_not_exist'', 2319, ''Backup does not exist''),
    (''backup_not_filterable_with_key_ranges'', 2320, ''Backup before 6.3 cannot be filtered with key ranges''),
    (''backup_not_overlapped_with_keys_filter'', 2321, ''Backup key ranges doesn't overlap with key ranges filter''),
    (''bucket_not_in_url'', 2322, ''bucket is not in the URL for backup''),
    (''restore_invalid_version'', 2361, ''Invalid restore version''),
    (''restore_corrupted_data'', 2362, ''Corrupted backup data''),
    (''restore_missing_data'', 2363, ''Missing backup data''),
    (''restore_duplicate_tag'', 2364, ''Restore duplicate request''),
    (''restore_unknown_tag'', 2365, ''Restore tag does not exist''),
    (''restore_unknown_file_type'', 2366, ''Unknown backup/restore file type''),
    (''restore_unsupported_file_version'', 2367, ''Unsupported backup file version''),
    (''restore_bad_read'', 2368, ''Unexpected number of bytes read''),
    (''restore_corrupted_data_padding'', 2369, ''Backup file has unexpected padding bytes'')]"

definition error_definitions_6 :: "error_def list" where
  "error_definitions_6 = [
    (''restore_destination_not_empty'', 2370, ''Attempted to restore into a non-empty destination database''),
    (''restore_duplicate_uid'', 2371, ''Attempted to restore using a UID that had been used for an aborted restore''),
    (''task_invalid_version'', 2381, ''Invalid task version''),
    (''task_interrupted'', 2382, ''Task execution stopped due to timeout, abort, or completion by another worker''),
    (''invalid_encryption_key_file'', 2383, ''The provided encryption key file has invalid contents''),
    (''blob_restore_missing_logs'', 2384, ''Missing mutation logs''),
    (''blob_restore_corrupted_logs'', 2385, ''Corrupted mutation logs''),
    (''blob_restore_invalid_manifest_url'', 2386, ''Invalid manifest URL''),
    (''blob_restore_corrupted_manifest'', 2387, ''Corrupted manifest''),
    (''blob_restore_missing_manifest'', 2388, ''Missing manifest''),
    (''blob_migrator_replaced'', 2389, ''Blob migrator is replaced''),
    (''restore_bulkload_dataset_incomplete'', 2390, ''BulkDump dataset incomplete. Use --rangefile flag''),
    (''restore_bulkload_failed'', 2391, ''BulkLoad operation failed''),
    (''backup_bulkdump_timeout'', 2392, ''BulkDump operation timed out''),
    (''backup_bulkdump_failed'', 2393, ''BulkDump operation failed''),
    (''key_not_found'', 2400, ''Expected key is missing''),
    (''json_malformed'', 2401, ''JSON string was malformed''),
    (''json_eof_expected'', 2402, ''JSON string did not terminate where expected''),
    (''snap_disable_tlog_pop_failed'', 2500, ''Failed to disable tlog pops''),
    (''snap_storage_failed'', 2501, ''Failed to snapshot storage nodes''),
    (''snap_tlog_failed'', 2502, ''Failed to snapshot TLog nodes''),
    (''snap_coord_failed'', 2503, ''Failed to snapshot coordinator nodes''),
    (''snap_enable_tlog_pop_failed'', 2504, ''Failed to enable tlog pops''),
    (''snap_path_not_whitelisted'', 2505, ''Snapshot create binary path not whitelisted''),
    (''snap_not_fully_recovered_unsupported'', 2506, ''Unsupported when the cluster is not fully recovered''),
    (''snap_log_anti_quorum_unsupported'', 2507, ''Unsupported when log anti quorum is configured''),
    (''snap_with_recovery_unsupported'', 2508, ''Cluster recovery during snapshot operation not supported''),
    (''snap_invalid_uid_string'', 2509, ''The given uid string is not a 32-length hex string''),
    (''encrypt_ops_error'', 2700, ''Encryption operation error''),
    (''encrypt_header_metadata_mismatch'', 2701, ''Encryption header metadata mismatch''),
    (''encrypt_key_not_found'', 2702, ''Expected encryption key is missing''),
    (''encrypt_key_ttl_expired'', 2703, ''Expected encryption key TTL has expired''),
    (''encrypt_header_authtoken_mismatch'', 2704, ''Encryption header authentication token mismatch''),
    (''encrypt_update_cipher'', 2705, ''Attempt to update encryption cipher key''),
    (''encrypt_invalid_id'', 2706, ''Invalid encryption cipher details''),
    (''encrypt_keys_fetch_failed'', 2707, ''Encryption keys fetch from external KMS failed''),
    (''encrypt_invalid_kms_config'', 2708, ''Invalid encryption/kms configuration: discovery-url, validation-token, endpoint etc.''),
    (''encrypt_unsupported'', 2709, ''Encryption not supported''),
    (''encrypt_mode_mismatch'', 2710, ''Encryption mode mismatch with configuration''),
    (''encrypt_key_check_value_mismatch'', 2711, ''Encryption key-check-value mismatch''),
    (''encrypt_max_base_cipher_len'', 2712, ''Max BaseCipher buffer length violation''),
    (''unknown_error'', 4000, ''An unknown error occurred''),
    (''internal_error'', 4100, ''An internal error occurred''),
    (''not_implemented'', 4200, ''Not implemented yet''),
    (''permission_denied'', 6000, ''Client tried to access unauthorized data''),
    (''unauthorized_attempt'', 6001, ''A untrusted client tried to send a message to a private endpoint''),
    (''digital_signature_ops_error'', 6002, ''Digital signature operation error''),
    (''authorization_token_verify_failed'', 6003, ''Failed to verify authorization token''),
    (''pkey_decode_error'', 6004, ''Failed to decode public/private key''),
    (''pkey_encode_error'', 6005, ''Failed to encode public/private key''),
    (''grpc_error'', 7000, ''gRPC Error'')]"

definition error_definitions :: "error_def list" where
  "error_definitions = error_definitions_1 @ error_definitions_2 @ error_definitions_3 @ error_definitions_4 @ error_definitions_5 @ error_definitions_6"

definition codes :: "error_def list \<Rightarrow> int list" where
  "codes ts = map (\<lambda>(name, code, description). code) ts"

text \<open>The codes of each part.\<close>

lemma codes_1:
  "codes error_definitions_1 = [
    0, 1, 1000, 1001, 1002, 1003, 1004, 1005, 1006, 1007, 1008, 1009, 1010, 1011, 1012, 1020, 1021, 1022,
    1025, 1026, 1027, 1028, 1029, 1030, 1031, 1032, 1033, 1034, 1035, 1036, 1037, 1038, 1039, 1040, 1041, 1042,
    1043, 1044, 1048, 1049, 1050, 1051, 1052, 1053, 1054, 1055, 1056, 1058, 1059, 1060, 1062, 1066, 1068, 1069,
    1070]"
  by (simp add: codes_def error_definitions_1_def)

lemma codes_2:
  "codes error_definitions_2 = [
    1071, 1072, 1073, 1074, 1075, 1076, 1078, 1080, 1081, 1082, 1083, 1084, 1085, 1086, 1087, 1100, 1101, 1102,
    1103, 1104, 1105, 1200, 1201, 1202, 1203, 1204, 1205, 1206, 1207, 1208, 1209, 1210, 1211, 1212, 1213, 1214,
    1215, 1216, 1217, 1218, 1219, 1220, 1221, 1222, 1224, 1226, 1227, 1228, 1229, 1230, 1231, 1232, 1233, 1234,
    1235]"
  by (simp add: codes_def error_definitions_2_def)

lemma codes_3:
  "codes error_definitions_3 = [
    1236, 1237, 1238, 1239, 1241, 1242, 1243, 1244, 1245, 1246, 1247, 1248, 1249, 1250, 1251, 1252, 1253, 1254,
    1255, 1500, 1501, 1502, 1503, 1510, 1511, 1512, 1513, 1514, 1515, 1516, 1517, 1518, 1519, 1520, 1521, 1522,
    1523, 1524, 1525, 1526, 1527, 1528, 1529, 1530, 1531, 1532, 1533, 2000, 2002, 2003, 2004, 2005, 2006, 2007,
    2008]"
  by (simp add: codes_def error_definitions_3_def)

lemma codes_4:
  "codes error_definitions_4 = [
    2009, 2010, 2011, 2012, 2013, 2014, 2015, 2016, 2017, 2018, 2019, 2020, 2021, 2022, 2023, 2024, 2025, 2026,
    2030, 2031, 2032, 2033, 2034, 2035, 2038, 2039, 2040, 2041, 2042, 2043, 2044, 2046, 2047, 2048, 2049, 2100,
    2101, 2102, 2103, 2104, 2105, 2106, 2107, 2108, 2109, 2110, 2111, 2112, 2113, 2114, 2115, 2116, 2117, 2118,
    2119]"
  by (simp add: codes_def error_definitions_4_def)

lemma codes_5:
  "codes error_definitions_5 = [
    2120, 2121, 2122, 2123, 2124, 2125, 2200, 2201, 2202, 2203, 2204, 2210, 2250, 2251, 2252, 2253, 2254, 2255,
    2256, 2257, 2258, 2259, 2260, 2261, 2262, 2263, 2264, 2265, 2266, 2267, 2268, 2269, 2300, 2301, 2311, 2312,
    2313, 2314, 2315, 2316, 2317, 2318, 2319, 2320, 2321, 2322, 2361, 2362, 2363, 2364, 2365, 2366, 2367, 2368,
    2369]"
  by (simp add: codes_def error_definitions_5_def)

lemma codes_6:
  "codes error_definitions_6 = [
    2370, 2371, 2381, 2382, 2383, 2384, 2385, 2386, 2387, 2388, 2389, 2390, 2391, 2392, 2393, 2400, 2401, 2402,
    2500, 2501, 2502, 2503, 2504, 2505, 2506, 2507, 2508, 2509, 2700, 2701, 2702, 2703, 2704, 2705, 2706, 2707,
    2708, 2709, 2710, 2711, 2712, 4000, 4100, 4200, 6000, 6001, 6002, 6003, 6004, 6005, 7000]"
  by (simp add: codes_def error_definitions_6_def)

lemmas codes_parts = codes_1 codes_2 codes_3 codes_4 codes_5 codes_6

fun ascending :: "int \<Rightarrow> int list \<Rightarrow> bool" where
  "ascending a [] = True"
| "ascending a (x # xs) \<longleftrightarrow> a < x \<and> ascending x xs"

lemma ascending_bounds: "ascending a xs \<Longrightarrow> \<forall>x\<in>set xs. a < x"
  by (induction xs arbitrary: a) fastforce+

lemma ascending_distinct: "ascending a xs \<Longrightarrow> distinct xs"
  using ascending_bounds by (induction xs arbitrary: a) fastforce+

lemma codes_append [simp]: "codes (xs @ ys) = codes xs @ codes ys"
  by (simp add: codes_def)

lemma codes_ascending: "ascending (-1) (codes error_definitions)"
  by (simp add: error_definitions_def codes_parts)

lemma codes_distinct: "distinct (codes error_definitions)"
  using codes_ascending by (rule ascending_distinct)

lemma codes_range: "x \<in> set (codes error_definitions) \<Longrightarrow> 0 \<le> x \<and> x \<le> 7000"
proof -
  assume x: "x \<in> set (codes error_definitions)"
  have "\<forall>y\<in>set (codes error_definitions). y \<le> 7000"
    by (simp add: error_definitions_def codes_parts)
  moreover have "\<forall>y\<in>set (codes error_definitions). -1 < y"
    by (rule ascending_bounds) (rule codes_ascending)
  ultimately show ?thesis using x by force
qed

end
