(* ===== verification/FlowError.thy ===== *)
theory FlowError
  imports ErrorTable "HOL-Library.Word"
begin

text \<open>
  Errors of Flow, \<^verbatim>\<open>flow/Error.cpp\<close> and \<^verbatim>\<open>flow/include/flow/Error.h\<close>: an error is a 16-bit code with flags, its
  name and description come from the table of all definitions.
\<close>

unbundle bit_operations_syntax

record flow_error =
  error_code :: "16 word"
  flags :: "16 word"

definition invalid_error_code :: "16 word" where
  "invalid_error_code = 0xffff"

definition FLAG_INJECTED_FAULT :: "16 word" where
  "FLAG_INJECTED_FAULT = 1"

definition Error_default :: flow_error where
  "Error_default = \<lparr>error_code = invalid_error_code, flags = 0\<rparr>"

definition error_code_unknown_error :: int where "error_code_unknown_error = 4000"
definition error_code_io_error :: int where "error_code_io_error = 1510"
definition error_code_io_timeout :: int where "error_code_io_timeout = 1521"

definition fromCode :: "int \<Rightarrow> flow_error" where
  "fromCode code = Error_default\<lparr>error_code := word_of_int code\<rparr>"

definition fromUnvalidatedCode :: "int \<Rightarrow> flow_error" where
  "fromUnvalidatedCode code = (if code < 0 \<or> code > 30000 then fromCode error_code_unknown_error else fromCode code)"

text \<open>The constructor: \<open>None\<close> when the process is made to crash; the flag tells whether a system error is traced.\<close>

definition Error_new :: "bool \<Rightarrow> int \<Rightarrow> (flow_error \<times> bool) option" where
  "Error_new g_crashOnError code =
     (let e = \<lparr>error_code = word_of_int code, flags = 0\<rparr> in
      if code \<ge> 3000 \<and> code < 6000 then (if g_crashOnError then None else Some (e, True)) else Some (e, False))"

definition code_of :: "flow_error \<Rightarrow> int" where
  "code_of e = uint (error_code e)"

definition isValid :: "flow_error \<Rightarrow> bool" where
  "isValid e \<longleftrightarrow> error_code e \<noteq> invalid_error_code"

definition isInjectedFault :: "flow_error \<Rightarrow> bool" where
  "isInjectedFault e \<longleftrightarrow> flags e AND FLAG_INJECTED_FAULT \<noteq> 0"

definition isDiskError :: "flow_error \<Rightarrow> bool" where
  "isDiskError e \<longleftrightarrow> code_of e = error_code_io_error \<or> code_of e = error_code_io_timeout"

definition asInjectedFault :: "flow_error \<Rightarrow> flow_error" where
  "asInjectedFault e = e\<lparr>flags := flags e OR FLAG_INJECTED_FAULT\<rparr>"

type_synonym code_table = "int \<rightharpoonup> string \<times> string"

definition addCode :: "int \<Rightarrow> string \<Rightarrow> string \<Rightarrow> code_table \<Rightarrow> code_table" where
  "addCode code name description table = table(code \<mapsto> (name, description))"

definition ErrorCodeTable :: code_table where
  "ErrorCodeTable = foldl (\<lambda>t (name, code, description). addCode code name description t) Map.empty error_definitions"

definition error_name :: "flow_error \<Rightarrow> string" where
  "error_name e = (case ErrorCodeTable (code_of e) of None \<Rightarrow> ''UNKNOWN_ERROR'' | Some (name, _) \<Rightarrow> name)"

definition error_what :: "flow_error \<Rightarrow> string" where
  "error_what e = (case ErrorCodeTable (code_of e) of None \<Rightarrow> ''UNKNOWN_ERROR'' | Some (_, description) \<Rightarrow> description)"

definition transactionRetryableErrors :: "int set" where
  "transactionRetryableErrors = {1020, 1007, 1009, 1042, 1078, 1037, 1051, 1213, 1039, 1021}"

text \<open>An assertion is skipped when the knob names its line, or all lines; the knobs may not be there yet.\<close>

definition isAssertDisabled :: "int option \<Rightarrow> int \<Rightarrow> bool" where
  "isAssertDisabled disable_asserts line =
     (case disable_asserts of None \<Rightarrow> False | Some k \<Rightarrow> k = -1 \<or> k = line)"

datatype 'a checked = Continue 'a | Throw flow_error

definition ASSERT :: "int option \<Rightarrow> int \<Rightarrow> bool \<Rightarrow> 'a \<Rightarrow> 'a checked" where
  "ASSERT disable_asserts line condition k =
     (if \<not> (condition \<or> isAssertDisabled disable_asserts line) then Throw (fromCode 4100) else Continue k)"

subsection \<open>The table\<close>

lemma fold_addCode:
  "foldl (\<lambda>t (name, code, description). addCode code name description t) t xs =
   t ++ map_of (rev (map (\<lambda>(name, code, description). (code, name, description)) xs))"
  by (induction xs arbitrary: t) (auto simp: addCode_def map_add_upd_left split: prod.split)

lemma ErrorCodeTable_lookup:
  assumes "(name, code, description) \<in> set error_definitions"
  shows "ErrorCodeTable code = Some (name, description)"
proof -
  let ?xs = "map (\<lambda>(name, code, description). (code, name, description)) error_definitions"
  have "map fst ?xs = codes error_definitions" by (simp add: codes_def comp_def split_def)
  then have "distinct (map fst (rev ?xs))" using codes_distinct by (simp flip: rev_map)
  moreover have "(code, name, description) \<in> set (rev ?xs)" using assms by force
  ultimately show ?thesis by (simp add: ErrorCodeTable_def fold_addCode map_of_is_SomeI)
qed

lemma ErrorCodeTable_dom: "ErrorCodeTable code = None \<longleftrightarrow> code \<notin> set (codes error_definitions)"
  unfolding ErrorCodeTable_def fold_addCode
  by (simp add: map_of_eq_None_iff image_image codes_def split_def)

lemma in_codes: "(name, code, description) \<in> set error_definitions \<Longrightarrow> code \<in> set (codes error_definitions)"
  by (force simp: codes_def)

lemma code_of_fromCode: "0 \<le> code \<Longrightarrow> code < 65536 \<Longrightarrow> code_of (fromCode code) = code"
  by (simp add: code_of_def fromCode_def uint_word_of_int take_bit_eq_mod)

text \<open>Every error defined in the table keeps its code in 16 bits, is valid, survives validation unchanged, and
  its name and description are the ones it was defined with: no definition hides another.\<close>

theorem error_definitions_faithful:
  assumes "(name, code, description) \<in> set error_definitions"
  shows "code_of (fromCode code) = code \<and> isValid (fromCode code) \<and> fromUnvalidatedCode code = fromCode code \<and>
     error_name (fromCode code) = name \<and> error_what (fromCode code) = description"
proof -
  have r: "0 \<le> code" "code \<le> 7000" using codes_range [OF in_codes [OF assms]] by auto
  have c: "code_of (fromCode code) = code" using r by (intro code_of_fromCode) auto
  have "isValid (fromCode code)"
  proof -
    have "uint (error_code (fromCode code)) \<noteq> uint invalid_error_code"
      using c r unfolding code_of_def by (simp add: invalid_error_code_def)
    then show ?thesis by (auto simp: isValid_def)
  qed
  then show ?thesis
    using c r ErrorCodeTable_lookup [OF assms] by (simp add: fromUnvalidatedCode_def error_name_def error_what_def)
qed

theorem error_definitions_faithful_witness:
  "error_name (fromCode 1004) = ''timed_out'' \<and> error_what (fromCode 1004) = ''Operation timed out'' \<and> isValid (fromCode 1004)"
proof -
  have "(''timed_out'', 1004, ''Operation timed out'') \<in> set error_definitions_1"
    by (simp add: error_definitions_1_def)
  then have "(''timed_out'', 1004, ''Operation timed out'') \<in> set error_definitions" by (simp add: error_definitions_def)
  from error_definitions_faithful [OF this] show ?thesis by simp
qed

text \<open>C38. A code from outside becomes an error whose code is between 0 and 30000, whatever the code was: it is kept
  when it lies in that range and replaced by \<open>unknown_error\<close> when it does not.  A code that is not in the table is
  named \<open>UNKNOWN_ERROR\<close>.\<close>

theorem fromUnvalidatedCode_range:
  "code_of (fromUnvalidatedCode code) = (if 0 \<le> code \<and> code \<le> 30000 then code else error_code_unknown_error) \<and>
   isValid (fromUnvalidatedCode code) \<and>
   (0 \<le> code \<and> code \<le> 30000 \<and> code \<notin> set (codes error_definitions) \<longrightarrow>
      error_name (fromUnvalidatedCode code) = ''UNKNOWN_ERROR'' \<and> error_what (fromUnvalidatedCode code) = ''UNKNOWN_ERROR'')"
proof -
  have c: "code_of (fromUnvalidatedCode code) = (if 0 \<le> code \<and> code \<le> 30000 then code else error_code_unknown_error)"
    by (auto simp: fromUnvalidatedCode_def code_of_fromCode error_code_unknown_error_def)
  then have "uint (error_code (fromUnvalidatedCode code)) \<noteq> uint invalid_error_code"
    by (auto simp: code_of_def invalid_error_code_def error_code_unknown_error_def split: if_splits)
  then have "isValid (fromUnvalidatedCode code)" by (auto simp: isValid_def)
  then show ?thesis using c ErrorCodeTable_dom [of code] by (auto simp: error_name_def error_what_def)
qed

theorem fromUnvalidatedCode_range_witness:
  "code_of (fromUnvalidatedCode (-5)) = 4000 \<and> error_name (fromUnvalidatedCode 7001) = ''UNKNOWN_ERROR''"
proof -
  have "7001 \<notin> set (codes error_definitions)" using codes_range [of 7001] by auto
  then show ?thesis
    using fromUnvalidatedCode_range [of "-5"] fromUnvalidatedCode_range [of 7001] by (simp add: error_code_unknown_error_def)
qed

text \<open>Marking an error as an injected fault changes neither its code nor its name; a failed assertion throws
  \<open>internal_error\<close> unless the knob disables its line, and one that holds always continues.\<close>

theorem injected_fault_and_assert:
  "isInjectedFault (asInjectedFault e) \<and> code_of (asInjectedFault e) = code_of e \<and>
   error_name (asInjectedFault e) = error_name e \<and> isDiskError (asInjectedFault e) = isDiskError e \<and>
   ASSERT knob line True k = Continue k \<and>
   ASSERT None line False k = Throw (fromCode 4100) \<and> ASSERT (Some (-1)) line False k = Continue k"
proof -
  have nonzero: "x \<noteq> 0" if "bit x 0" for x :: "16 word" using that by auto
  have "bit (flags e OR FLAG_INJECTED_FAULT) 0" "bit FLAG_INJECTED_FAULT 0"
    by (simp_all add: FLAG_INJECTED_FAULT_def bit_or_iff)
  then have "bit ((flags e OR FLAG_INJECTED_FAULT) AND FLAG_INJECTED_FAULT) 0" by (simp add: bit_and_iff)
  then have "(flags e OR FLAG_INJECTED_FAULT) AND FLAG_INJECTED_FAULT \<noteq> 0" by (rule nonzero)
  then show ?thesis
    by (simp add: isInjectedFault_def asInjectedFault_def code_of_def error_name_def isDiskError_def ASSERT_def isAssertDisabled_def)
qed

end
