(* ===== verification/TaskPriority.thy ===== *)
theory TaskPriority
  imports Prelude FlowError
begin

text \<open>
  The priorities of tasks, \<^verbatim>\<open>flow/include/flow/TaskPriority.h\<close>: an enumeration whose underlying type is the 32-bit
  \<^verbatim>\<open>int\<close>, and the helpers that compute with its values.
\<close>

type_synonym task_priority = "32 word"

text \<open>The enumerators in the order of the source.\<close>

definition TaskPriority_values :: "(string \<times> int) list" where
  "TaskPriority_values =
    [(''Max'', 1000000), (''RunLoop'', 30000), (''ASIOReactor'', 20001), (''RunCycleFunction'', 20000),
     (''FlushTrace'', 10500), (''WriteSocket'', 10000), (''PollEIO'', 9900), (''DiskIOComplete'', 9150),
     (''LoadBalancedEndpoint'', 9000), (''ReadSocket'', 9000), (''AcceptSocket'', 8950), (''Handshake'', 8900),
     (''CoordinationReply'', 8810), (''Coordination'', 8800), (''FailureMonitor'', 8700),
     (''ResolutionMetrics'', 8700), (''Worker'', 8660), (''ClusterControllerWorker'', 8656),
     (''ClusterControllerRecruit'', 8654), (''ClusterControllerRegister'', 8652), (''ClusterController'', 8650),
     (''MasterTLogRejoin'', 8646), (''ProxyStorageRejoin'', 8645), (''TLogQueuingMetrics'', 8620),
     (''TLogPop'', 8610), (''TLogPeekReply'', 8600), (''TLogPeek'', 8590), (''TLogCommitReply'', 8580),
     (''TLogCommit'', 8570), (''ReportLiveCommittedVersion'', 8567), (''ProxyGetRawCommittedVersion'', 8565),
     (''ProxyMasterVersionReply'', 8560), (''ProxyCommitYield2'', 8557), (''ProxyTLogCommitReply'', 8555),
     (''ProxyCommitYield1'', 8550), (''ProxyResolverReply'', 8547), (''ProxyCommit'', 8545),
     (''ProxyCommitBatcher'', 8540), (''TLogConfirmRunningReply'', 8530), (''TLogConfirmRunning'', 8520),
     (''ProxyGRVTimer'', 8510), (''GetConsistentReadVersion'', 8500), (''GetLiveCommittedVersionReply'', 8490),
     (''GetLiveCommittedVersion'', 8480), (''GetTLogPrevCommitVersion'', 8400),
     (''UpdateRecoveryTransactionVersion'', 8470), (''DefaultPromiseEndpoint'', 8000),
     (''DefaultOnMainThread'', 7500), (''DefaultDelay'', 7010), (''DefaultYield'', 7000), (''DiskRead'', 5010),
     (''DefaultEndpoint'', 5000), (''UnknownEndpoint'', 4000), (''MoveKeys'', 3550),
     (''DataDistributionLaunch'', 3530), (''Ratekeeper'', 3510), (''DataDistribution'', 3502),
     (''DataDistributionLow'', 3501), (''DataDistributionVeryLow'', 3500), (''BlobManager'', 3490),
     (''DiskWrite'', 3010), (''UpdateStorage'', 3000), (''CompactCache'', 2900),
     (''TLogSpilledPeekReply'', 2800), (''BlobWorkerUpdateFDB'', 2710), (''BlobWorkerUpdateStorage'', 2700),
     (''FetchKeys'', 2500), (''RestoreApplierWriteDB'', 2310), (''RestoreApplierReceiveMutations'', 2300),
     (''RestoreLoaderFinishVersionBatch'', 2220), (''RestoreLoaderSendMutations'', 2210),
     (''RestoreLoaderLoadFiles'', 2200), (''LowPriorityRead'', 2100), (''Low'', 2000), (''Min'', 1000),
     (''Zero'', 0)]"

definition TaskPriority_named :: "string \<Rightarrow> task_priority option" where
  "TaskPriority_named n = map_option word_of_int (map_of TaskPriority_values n)"

text \<open>\<open>static_cast<TaskPriority>(static_cast<uint64_t>(p) + 1)\<close> and its kin: the value is sign-extended to 64 bits and
  the low 32 bits of the result are kept.\<close>

definition incrementPriority :: "task_priority \<Rightarrow> task_priority" where
  "incrementPriority p = ucast ((scast p :: u64) + 1)"

definition decrementPriority :: "task_priority \<Rightarrow> task_priority" where
  "decrementPriority p = ucast ((scast p :: u64) - 1)"

definition incrementPriorityIfEven :: "task_priority \<Rightarrow> task_priority" where
  "incrementPriorityIfEven p = ucast ((scast p :: u64) OR 1)"

definition getTaskPriorityFromInt :: "int option \<Rightarrow> int \<Rightarrow> task_priority checked" where
  "getTaskPriorityFromInt disable_asserts p = ASSERT disable_asserts 121 (p \<ge> 1000 \<and> p \<le> 1000000) (word_of_int p)"

subsection \<open>The values\<close>

text \<open>What the run loop relies on: a priority is a small number that is not negative.\<close>

definition priority_ok :: "task_priority \<Rightarrow> bool" where
  "priority_ok p = (0 \<le> sint p \<and> sint p \<le> 1000000)"

lemma TaskPriority_range: "(n, k) \<in> set TaskPriority_values \<Longrightarrow> 0 \<le> k \<and> k \<le> 1000000"
proof -
  have "\<forall>p \<in> set TaskPriority_values. 0 \<le> snd p \<and> snd p \<le> 1000000" by (simp add: TaskPriority_values_def)
  then show "(n, k) \<in> set TaskPriority_values \<Longrightarrow> 0 \<le> k \<and> k \<le> 1000000" by auto
qed

lemma sint_word_of_int_small: "- (2 ^ 31) \<le> k \<Longrightarrow> k < 2 ^ 31 \<Longrightarrow> sint (word_of_int k :: 32 word) = k"
  by (simp add: int_word_sint)

lemma named_priority_ok: "TaskPriority_named n = Some p \<Longrightarrow> priority_ok p"
  using TaskPriority_range
  by (fastforce simp: TaskPriority_named_def priority_ok_def sint_word_of_int_small dest!: map_of_SomeD)

lemma low_word: "(ucast (word_of_int x :: u64) :: 32 word) = word_of_int x"
  by transfer simp

lemma even_scast: "even (scast p :: u64) \<longleftrightarrow> even (sint (p :: 32 word))"
proof -
  have "bit (scast p :: u64) 0 \<longleftrightarrow> bit p 0" "bit (sint p) 0 \<longleftrightarrow> bit p 0" by (simp_all add: bit_simps del: bit_0)
  then show ?thesis unfolding bit_0 by auto
qed

lemma priority_steps:
  "incrementPriority p = word_of_int (sint p + 1)" "decrementPriority p = word_of_int (sint p - 1)"
  "incrementPriorityIfEven p = word_of_int (sint p + of_bool (even (sint p)))"
proof -
  have "(scast p :: u64) + 1 = word_of_int (sint p + 1)" "(scast p :: u64) - 1 = word_of_int (sint p - 1)"
    by (simp_all only: scast_eq of_int_add of_int_diff of_int_1)
  moreover have "(scast p :: u64) OR 1 = word_of_int (sint p + of_bool (even (sint p)))"
    unfolding or_one_eq even_scast by (simp only: scast_eq of_int_add of_int_of_bool)
  ultimately show "incrementPriority p = word_of_int (sint p + 1)" "decrementPriority p = word_of_int (sint p - 1)"
    "incrementPriorityIfEven p = word_of_int (sint p + of_bool (even (sint p)))"
    unfolding incrementPriority_def decrementPriority_def incrementPriorityIfEven_def by (simp_all only: low_word)
qed

text \<open>The named priorities lie between 0 and 1000000, the helpers that step from one priority to the next do so
  without wrapping around, and an integer becomes a priority exactly when it lies between \<open>Min\<close> and \<open>Max\<close> (unless the
  assertion is disabled).\<close>

theorem task_priorities:
  assumes "priority_ok p" and "- (2 ^ 31) \<le> k" and "k < 2 ^ 31"
  shows "(\<forall>n q. TaskPriority_named n = Some q \<longrightarrow> priority_ok q) \<and>
    sint (incrementPriority p) = sint p + 1 \<and> sint (decrementPriority p) = sint p - 1 \<and>
    sint (incrementPriorityIfEven p) = (if even (sint p) then sint p + 1 else sint p) \<and>
    (case getTaskPriorityFromInt None k of
       Continue q \<Rightarrow> 1000 \<le> k \<and> k \<le> 1000000 \<and> sint q = k \<and> priority_ok q
     | Throw e \<Rightarrow> k < 1000 \<or> 1000000 < k)"
proof -
  have p: "0 \<le> sint p" "sint p \<le> 1000000" using assms(1) by (simp_all add: priority_ok_def)
  have "sint (incrementPriority p) = sint p + 1" "sint (decrementPriority p) = sint p - 1"
    "sint (incrementPriorityIfEven p) = sint p + of_bool (even (sint p))"
    unfolding priority_steps by (insert p, (rule sint_word_of_int_small; auto)+)
  then show ?thesis
    using assms(2,3) named_priority_ok
    by (auto simp: sint_word_of_int_small priority_ok_def getTaskPriorityFromInt_def ASSERT_def isAssertDisabled_def)
qed

theorem task_priorities_witness:
  "sint (incrementPriority 7000) = 7001"
  using task_priorities [of 7000 0] by (simp add: priority_ok_def)

end
