(* ===== verification/BinaryFloat.thy ===== *)
theory BinaryFloat
  imports Complex_Main "HOL-Library.Log_Nat"
begin

text \<open>
  The arithmetic of \<^verbatim>\<open>float\<close> and \<^verbatim>\<open>double\<close> that the run loop and its locks use: every operation gives the exact
  result rounded to the nearest number with 24 or 53 significant bits, ties to the even one, as IEEE 754 asks.
  Numbers are rationals.  The range of the exponents is not bounded: the quantities rounded here are counts below
  \<open>2 ^ 31\<close>, their quotients, and times in seconds, which are far from the limits of the formats.
\<close>

text \<open>The largest \<open>k\<close> with \<open>2 ^ k \<le> |x|\<close>.\<close>

definition binary_exponent :: "rat \<Rightarrow> int" where
  "binary_exponent x =
     (let (n, d) = quotient_of \<bar>x\<bar>;
          k = int (floorlog 2 (nat n)) - int (floorlog 2 (nat d))
      in if 2 powi k \<le> \<bar>x\<bar> then k else k - 1)"

definition round_even :: "rat \<Rightarrow> int" where
  "round_even x =
     (let f = \<lfloor>x\<rfloor>; r = x - of_int f in
      if r < 1 / 2 then f else if 1 / 2 < r then f + 1 else if even f then f else f + 1)"

definition round_to :: "nat \<Rightarrow> rat \<Rightarrow> rat" where
  "round_to p x =
     (if x = 0 then 0
      else let e = binary_exponent x - int p + 1 in of_int (round_even (x * 2 powi (- e))) * 2 powi e)"

abbreviation to_float :: "rat \<Rightarrow> rat" where "to_float \<equiv> round_to 24"
abbreviation to_double :: "rat \<Rightarrow> rat" where "to_double \<equiv> round_to 53"

text \<open>The position of a positive number between two powers of two.\<close>

lemma floorlog_rat:
  assumes "0 < n"
  shows "(2::rat) powi (int (floorlog 2 (nat n)) - 1) \<le> of_int n" and "of_int n < (2::rat) powi int (floorlog 2 (nat n))"
proof -
  let ?a = "floorlog 2 (nat n)"
  have na: "2 ^ (?a - 1) \<le> nat n" "nat n < 2 ^ ?a" using floorlog_bounds [of "nat n" 2] assms by auto
  have a: "0 < ?a" using assms by (auto simp: floorlog_eq_zero_iff intro!: gr0I)
  have "(2::rat) ^ (?a - 1) \<le> of_nat (nat n)" "of_nat (nat n) < (2::rat) ^ ?a"
    using na by (metis of_nat_le_iff of_nat_numeral of_nat_power, metis of_nat_less_iff of_nat_numeral of_nat_power)
  moreover have "int ?a - 1 = int (?a - 1)" using a by simp
  moreover have "of_nat (nat n) = (of_int n :: rat)" using assms by (simp add: of_nat_nat)
  ultimately show "(2::rat) powi (int ?a - 1) \<le> of_int n" and "of_int n < (2::rat) powi int ?a"
    by (simp_all only: power_int_of_nat)
qed

lemma binary_exponent_bounds:
  assumes "x \<noteq> 0"
  shows "2 powi (binary_exponent x) \<le> \<bar>x\<bar>" and "\<bar>x\<bar> < 2 powi (binary_exponent x + 1)"
proof -
  obtain n d where q: "quotient_of \<bar>x\<bar> = (n, d)" by fastforce
  have d: "0 < d" and xq: "\<bar>x\<bar> = of_int n / of_int d" using q quotient_of_denom_pos quotient_of_div by auto
  have "0 < \<bar>x\<bar>" using assms by simp
  then have n: "0 < n" using xq d by (simp add: zero_less_divide_iff)
  let ?a = "int (floorlog 2 (nat n))" and ?b = "int (floorlog 2 (nat d))"
  note fn = floorlog_rat [OF n] and fd = floorlog_rat [OF d]
  have low: "2 powi (?a - ?b - 1) \<le> \<bar>x\<bar>"
  proof -
    have "2 powi (?a - 1) / 2 powi ?b \<le> \<bar>x\<bar>"
      unfolding xq using fn(1) fd(2) d n by (intro frac_le) auto
    moreover have "(2::rat) powi (?a - ?b - 1) = 2 powi (?a - 1) / 2 powi ?b" by (simp add: power_int_diff)
    ultimately show ?thesis by simp
  qed
  have high: "\<bar>x\<bar> < 2 powi (?a - ?b + 1)"
  proof -
    have "\<bar>x\<bar> < 2 powi ?a / 2 powi (?b - 1)"
      unfolding xq using fn fd d n by (intro frac_less) auto
    moreover have "(2::rat) powi (?a - ?b + 1) = 2 powi ?a / 2 powi (?b - 1)" by (simp add: power_int_diff power_int_add)
    ultimately show ?thesis by simp
  qed
  show "2 powi (binary_exponent x) \<le> \<bar>x\<bar>" and "\<bar>x\<bar> < 2 powi (binary_exponent x + 1)"
    using low high by (auto simp: binary_exponent_def q Let_def)
qed

lemma round_even_near: "\<bar>of_int (round_even x) - x\<bar> \<le> 1 / 2"
proof -
  have "of_int \<lfloor>x\<rfloor> \<le> x" "x < of_int \<lfloor>x\<rfloor> + 1" by linarith+
  then show ?thesis by (simp add: round_even_def Let_def abs_le_iff)
qed

text \<open>The relative error of one rounding.\<close>

theorem round_to_error:
  assumes "0 < p"
  shows "\<bar>round_to p x - x\<bar> \<le> \<bar>x\<bar> / 2 ^ p"
proof (cases "x = 0")
  case False
  define e where "e = binary_exponent x - int p + 1"
  have pos: "(0::rat) < 2 powi e" by simp
  have "round_to p x = of_int (round_even (x * 2 powi (- e))) * 2 powi e"
    using False by (simp add: round_to_def e_def Let_def)
  then have "round_to p x - x = (of_int (round_even (x * 2 powi (- e))) - x * 2 powi (- e)) * 2 powi e"
    by (simp add: algebra_simps power_int_minus)
  then have "\<bar>round_to p x - x\<bar> = \<bar>of_int (round_even (x * 2 powi (- e))) - x * 2 powi (- e)\<bar> * 2 powi e"
    using pos by (simp add: abs_mult)
  also have "\<dots> \<le> 1 / 2 * 2 powi e" by (rule mult_right_mono [OF round_even_near]) simp
  also have "\<dots> = 2 powi (binary_exponent x) / 2 ^ p"
    by (simp add: e_def power_int_add power_int_diff)
  also have "\<dots> \<le> \<bar>x\<bar> / 2 ^ p" using binary_exponent_bounds(1) [OF False] by (simp add: divide_right_mono)
  finally show ?thesis .
qed (simp add: round_to_def)

lemma round_to_lower: "0 < p \<Longrightarrow> 0 \<le> x \<Longrightarrow> x * (1 - 1 / 2 ^ p) \<le> round_to p x"
  using round_to_error [of p x] by (simp add: abs_le_iff algebra_simps)

lemma round_to_upper: "0 < p \<Longrightarrow> 0 \<le> x \<Longrightarrow> round_to p x \<le> x * (1 + 1 / 2 ^ p)"
  using round_to_error [of p x] by (simp add: abs_le_iff algebra_simps)

lemma round_to_pos:
  assumes "0 < p" "0 < x" shows "0 < round_to p x"
proof -
  have "(1::rat) < 2 ^ p" using assms(1) by simp
  then have "0 < x * (1 - 1 / 2 ^ p)" using assms(2) by (intro mult_pos_pos) auto
  then show ?thesis using round_to_lower [OF assms(1), of x] assms(2) by linarith
qed

lemma round_to_nonneg: "0 < p \<Longrightarrow> 0 \<le> x \<Longrightarrow> 0 \<le> round_to p x"
  using round_to_pos [of p x] by (cases "x = 0") (auto simp: round_to_def)

end
