(* ===== verification/TaskQueue.thy ===== *)
theory TaskQueue
  imports TaskPriority BinaryFloat "HOL-Library.Multiset"
begin

text \<open>
  The queue of tasks of the run loop, \<^verbatim>\<open>flow/include/flow/TaskQueue.h\<close>: tasks that are ready, tasks that wait for a
  point in time and tasks handed over by other threads.

  A \<^verbatim>\<open>std::priority_queue\<close> is the list of its elements with a choice of an element that no other is above; which
  one of several such elements comes first is not fixed by the C++ standard, and nothing below depends on it.  The
  calls of the queue between threads are atomic here; \<open>ThreadSafeQueue_fifo\<close> and \<open>ThreadSafeQueue_no_lost_wakeup\<close> are
  what they promise when the threads interleave.
\<close>

subsection \<open>The standard library's priority queue\<close>

fun pq_top :: "('a \<Rightarrow> 'a \<Rightarrow> bool) \<Rightarrow> 'a list \<Rightarrow> 'a option" where
  "pq_top lt [] = None"
| "pq_top lt (x # xs) = (case pq_top lt xs of None \<Rightarrow> Some x | Some y \<Rightarrow> if lt x y then Some y else Some x)"

definition pq_push :: "'a \<Rightarrow> 'a list \<Rightarrow> 'a list" where
  "pq_push x xs = xs @ [x]"

definition pq_pop :: "('a \<Rightarrow> 'a \<Rightarrow> bool) \<Rightarrow> 'a list \<Rightarrow> 'a list" where
  "pq_pop lt xs = (case pq_top lt xs of None \<Rightarrow> [] | Some x \<Rightarrow> remove1 x xs)"

subsection \<open>The queue between threads, one call at a time\<close>

datatype 'x handover = Item 'x | SleepMark

definition handover_push :: "'x \<Rightarrow> 'x handover list \<Rightarrow> 'x handover list \<times> bool" where
  "handover_push x q = (q @ [Item x], q \<noteq> [] \<and> last q = SleepMark)"

fun handover_pop :: "'x handover list \<Rightarrow> 'x option \<times> 'x handover list" where
  "handover_pop [] = (None, [])"
| "handover_pop (Item x # q) = (Some x, q)"
| "handover_pop (SleepMark # q) = handover_pop q"

definition handover_canSleep :: "'x handover list \<Rightarrow> 'x handover list \<times> bool" where
  "handover_canSleep q = (if SleepMark \<in> set q \<or> q \<noteq> [] then (q, False) else ([SleepMark], True))"

subsection \<open>The state\<close>

text \<open>A task is a pointer; \<open>None\<close> is the null pointer.\<close>

record 't ordered_task =
  priority :: u64
  taskID :: task_priority
  task :: "'t option"

record 't delayed_task = "'t ordered_task" +
  at_time :: rat

definition ordered_lt :: "'t ordered_task \<Rightarrow> 't ordered_task \<Rightarrow> bool" where
  "ordered_lt a b = (priority a <s priority b)"

definition delayed_lt :: "'t delayed_task \<Rightarrow> 't delayed_task \<Rightarrow> bool" where
  "delayed_lt a b = (at_time a > at_time b)"

record 't task_queue =
  tasksIssued :: u64
  ready :: "'t ordered_task list"
  threadReady :: "(task_priority \<times> 't option) handover list"
  timers :: "'t delayed_task list"
  countTimers :: int
  countCantSleep :: int
  countWontSleep :: int

definition TaskQueue_new :: "'t task_queue" where
  "TaskQueue_new = \<lparr>tasksIssued = 0, ready = [], threadReady = [], timers = [], countTimers = 0, countCantSleep = 0, countWontSleep = 0\<rparr>"

subsection \<open>Operations\<close>

text \<open>\<open>(int64_t(taskId) << 32) - (++tasksIssued)\<close>: the difference is taken in \<open>uint64_t\<close> and read as \<open>int64_t\<close>.\<close>

definition getFIFOPriority :: "task_priority \<Rightarrow> 't task_queue \<Rightarrow> u64 \<times> 't task_queue" where
  "getFIFOPriority taskId q =
     (let issued = tasksIssued q + 1 in (push_bit 32 (scast taskId) - issued, q\<lparr>tasksIssued := issued\<rparr>))"

definition addReady :: "task_priority \<Rightarrow> 't option \<Rightarrow> 't task_queue \<Rightarrow> 't task_queue" where
  "addReady taskId t q =
     (let (prio, q) = getFIFOPriority taskId q in
      q\<lparr>ready := pq_push \<lparr>priority = prio, taskID = taskId, task = t\<rparr> (ready q)\<rparr>)"

definition addTimer :: "rat \<Rightarrow> task_priority \<Rightarrow> 't option \<Rightarrow> 't task_queue \<Rightarrow> 't task_queue" where
  "addTimer time taskId t q =
     (let (prio, q) = getFIFOPriority taskId q in
      q\<lparr>timers := pq_push \<lparr>priority = prio, taskID = taskId, task = t, at_time = time\<rparr> (timers q)\<rparr>)"

lemma length_handover_pop: "handover_pop q = (Some x, q') \<Longrightarrow> length q' < length q"
  by (induction q rule: handover_pop.induct) auto

text \<open>The loop ends when the queue between threads is empty or when the assertion throws; the first argument is the
  knob of the assertions.\<close>

function processThreadReady :: "int option \<Rightarrow> 't task_queue \<Rightarrow> 't task_queue \<times> flow_error option" where
  "processThreadReady knob q =
     (case handover_pop (threadReady q) of
        (None, r) \<Rightarrow> (q\<lparr>threadReady := r\<rparr>, None)
      | (Some (taskId, t), r) \<Rightarrow>
          (case ASSERT knob 95 (t \<noteq> None) () of
             Throw e \<Rightarrow> (q\<lparr>threadReady := r\<rparr>, Some e)
           | Continue _ \<Rightarrow> processThreadReady knob (addReady taskId t (q\<lparr>threadReady := r\<rparr>))))"
  by pat_completeness auto
termination
  by (relation "measure (\<lambda>(knob, q). length (threadReady q))")
     (auto simp: addReady_def getFIFOPriority_def Let_def dest: length_handover_pop [OF sym])

definition addReadyThreadSafe ::
  "int option \<Rightarrow> bool \<Rightarrow> task_priority \<Rightarrow> 't option \<Rightarrow> 't task_queue \<Rightarrow> 't task_queue \<times> (flow_error + bool)" where
  "addReadyThreadSafe knob isMainThread taskId t q =
     (if isMainThread then
        (case processThreadReady knob q of
           (q, Some e) \<Rightarrow> (q, Inl e)
         | (q, None) \<Rightarrow> (addReady taskId t q, Inr False))
      else
        (let (r, wake) = handover_push (taskId, t) (threadReady q) in (q\<lparr>threadReady := r\<rparr>, Inr wake)))"

definition canSleep :: "'t task_queue \<Rightarrow> 't task_queue \<times> bool" where
  "canSleep q =
     (if ready q = [] then
        (let (r, b) = handover_canSleep (threadReady q); q = q\<lparr>threadReady := r\<rparr> in
         (if b then q else q\<lparr>countCantSleep := countCantSleep q + 1\<rparr>, b))
      else (q\<lparr>countWontSleep := countWontSleep q + 1\<rparr>, False))"

definition getSleepTime :: "rat \<Rightarrow> 't task_queue \<Rightarrow> rat" where
  "getSleepTime now q = (case pq_top delayed_lt (timers q) of Some t \<Rightarrow> to_double (at_time t - now) | None \<Rightarrow> 0)"

text \<open>\<open>INetwork::TIME_EPS\<close>.\<close>

definition TIME_EPS :: rat where
  "TIME_EPS = to_double (1 / 10 ^ 7)"

lemma pq_top_mem: "pq_top lt xs = Some x \<Longrightarrow> x \<in> set xs"
  by (induction xs arbitrary: x) (auto split: option.splits if_splits)

lemma pq_top_None [simp]: "pq_top lt xs = None \<longleftrightarrow> xs = []"
  by (cases xs) (auto split: option.split)

function processReadyTimers :: "rat \<Rightarrow> 't task_queue \<Rightarrow> 't task_queue" where
  "processReadyTimers now q =
     (case pq_top delayed_lt (timers q) of
        None \<Rightarrow> q
      | Some t \<Rightarrow>
          (if at_time t \<le> to_double (now + TIME_EPS) then
             processReadyTimers now
               (q\<lparr>countTimers := countTimers q + 1, ready := pq_push (ordered_task.truncate t) (ready q),
                  timers := pq_pop delayed_lt (timers q)\<rparr>)
           else q))"
  by pat_completeness auto
termination
  by (relation "measure (\<lambda>(now, q). length (timers q))")
     (auto simp: pq_pop_def length_remove1 dest: pq_top_mem intro: diff_less length_pos_if_in_set)

definition hasReadyTask :: "'t task_queue \<Rightarrow> bool" where
  "hasReadyTask q = (ready q \<noteq> [])"

definition getNumReadyTasks :: "'t task_queue \<Rightarrow> nat" where
  "getNumReadyTasks q = length (ready q)"

definition getReadyTaskID :: "'t task_queue \<Rightarrow> task_priority option" where
  "getReadyTaskID q = map_option taskID (pq_top ordered_lt (ready q))"

definition getReadyTaskPriority :: "'t task_queue \<Rightarrow> u64 option" where
  "getReadyTaskPriority q = map_option priority (pq_top ordered_lt (ready q))"

definition getReadyTask :: "'t task_queue \<Rightarrow> 't option option" where
  "getReadyTask q = map_option task (pq_top ordered_lt (ready q))"

definition popReadyTask :: "'t task_queue \<Rightarrow> 't task_queue" where
  "popReadyTask q = q\<lparr>ready := pq_pop ordered_lt (ready q)\<rparr>"

text \<open>\<open>clear\<close> outside the address sanitizer: the queue between threads is left alone.\<close>

definition tq_clear :: "'t task_queue \<Rightarrow> 't task_queue" where
  "tq_clear q = q\<lparr>ready := [], timers := []\<rparr>"

end
