(* ===== verification/TaskQueue_Correct.thy ===== *)
theory TaskQueue_Correct
  imports TaskQueue
begin

text \<open>
  What the queue of tasks promises.  The specification keeps one list of all tasks in the order in which they were
  added, and runs the first one among the ready tasks of the highest priority.
\<close>

declare processThreadReady.simps [simp del] processReadyTimers.simps [simp del]

subsection \<open>Priority queues\<close>

text \<open>What the comparison of a priority queue must be, and what its users may then rely on.\<close>

locale queue_order =
  fixes lt :: "'a \<Rightarrow> 'a \<Rightarrow> bool"
  assumes lt_irrefl: "\<not> lt x x"
    and lt_trans: "lt x y \<Longrightarrow> lt y z \<Longrightarrow> lt x z"
    and lt_cotrans: "lt x z \<Longrightarrow> lt x y \<or> lt y z"
begin

lemma top_maximal: "pq_top lt xs = Some x \<Longrightarrow> y \<in> set xs \<Longrightarrow> \<not> lt x y"
proof (induction xs arbitrary: x y)
  case (Cons a xs)
  show ?case
  proof (cases "pq_top lt xs")
    case None
    then show ?thesis using Cons.prems lt_irrefl by auto
  next
    case (Some b)
    have max: "\<not> lt b z" if "z \<in> set xs" for z using Cons.IH [OF Some that] .
    show ?thesis
    proof (cases "lt a b")
      case True
      then have "\<not> lt b a" using lt_irrefl lt_trans by blast
      then show ?thesis using Some True max Cons.prems by auto
    next
      case False
      then have "\<not> lt a z" if "z \<in> set xs" for z using lt_cotrans max [OF that] by blast
      then show ?thesis using Some False Cons.prems lt_irrefl by auto
    qed
  qed
qed simp

lemma top_unique:
  assumes "x \<in> set xs" and "\<And>y. y \<in> set xs \<Longrightarrow> y \<noteq> x \<Longrightarrow> lt y x"
  shows "pq_top lt xs = Some x"
proof -
  obtain t where t: "pq_top lt xs = Some t" using assms(1) by (cases "pq_top lt xs") auto
  then show ?thesis using top_maximal [OF t assms(1)] assms(2) pq_top_mem [OF t] by auto
qed

lemma mset_pop: "pq_top lt xs = Some x \<Longrightarrow> mset (pq_pop lt xs) = mset xs - {#x#}"
  by (simp add: pq_pop_def)

end

interpretation ready_order: queue_order ordered_lt
  by unfold_locales (auto simp: ordered_lt_def word_sless_alt)

interpretation timer_order: queue_order delayed_lt
  by unfold_locales (auto simp: delayed_lt_def)

lemma mset_push [simp]: "mset (pq_push x xs) = add_mset x (mset xs)"
  by (simp add: pq_push_def)

subsection \<open>Priorities in order of issue\<close>

definition fifo_priority :: "task_priority \<Rightarrow> nat \<Rightarrow> u64" where
  "fifo_priority p n = push_bit 32 (scast p) - of_nat n"

lemma sint_of_int_64: "- (2 ^ 63) \<le> k \<Longrightarrow> k < 2 ^ 63 \<Longrightarrow> sint (word_of_int k :: u64) = k"
  by (simp add: int_word_sint)

lemma sint_fifo_priority:
  assumes "priority_ok p" and "n < 2 ^ 62"
  shows "sint (fifo_priority p n) = sint p * 2 ^ 32 - int n"
proof -
  have "push_bit 32 (scast p :: u64) = word_of_int (sint p * 2 ^ 32)"
    unfolding push_bit_eq_mult scast_eq by simp
  then have "fifo_priority p n = word_of_int (sint p * 2 ^ 32 - int n)"
    unfolding fifo_priority_def by (simp only: of_int_diff of_int_of_nat_eq)
  moreover have "- (2 ^ 63) \<le> sint p * 2 ^ 32 - int n" "sint p * 2 ^ 32 - int n < 2 ^ 63"
    using assms by (auto simp: priority_ok_def)
  ultimately show ?thesis by (simp only: sint_of_int_64)
qed

lemma fifo_priority_less:
  assumes "priority_ok p" "priority_ok q" "m < 2 ^ 62" "n < 2 ^ 62" "m < n + 2 ^ 32" "n < m + 2 ^ 32"
  shows "fifo_priority p m <s fifo_priority q n \<longleftrightarrow> sint p < sint q \<or> p = q \<and> n < m"
proof -
  have "sint p * 2 ^ 32 - int m < sint q * 2 ^ 32 - int n \<longleftrightarrow> sint p < sint q \<or> sint p = sint q \<and> n < m"
    using assms(5,6) by auto
  then show ?thesis using assms(1-4) by (simp add: word_sless_alt sint_fifo_priority) (metis signed_word_eqI)
qed

subsection \<open>The specification\<close>

text \<open>\<open>due\<close> is \<open>None\<close> when the task is ready.\<close>

record 't entry =
  number :: nat
  prio :: task_priority
  job :: "'t"
  due :: "rat option"

record 't spec_queue =
  added :: nat
  entries :: "'t entry list"
  handed :: "(task_priority \<times> 't) handover list"

definition spec_new :: "'t spec_queue" where
  "spec_new = \<lparr>added = 0, entries = [], handed = []\<rparr>"

definition spec_add :: "rat option \<Rightarrow> task_priority \<times> 't \<Rightarrow> 't spec_queue \<Rightarrow> 't spec_queue" where
  "spec_add d pt a =
     a\<lparr>added := added a + 1, entries := entries a @ [\<lparr>number = added a + 1, prio = fst pt, job = snd pt, due = d\<rparr>]\<rparr>"

definition items :: "'x handover list \<Rightarrow> 'x list" where
  "items q = concat (map (\<lambda>h. case h of Item x \<Rightarrow> [x] | SleepMark \<Rightarrow> []) q)"

definition spec_collect :: "'t spec_queue \<Rightarrow> 't spec_queue" where
  "spec_collect a = fold (spec_add None) (items (handed a)) (a\<lparr>handed := []\<rparr>)"

definition elapse :: "rat \<Rightarrow> 't entry \<Rightarrow> 't entry" where
  "elapse limit e = (case due e of None \<Rightarrow> e | Some d \<Rightarrow> if d \<le> limit then e\<lparr>due := None\<rparr> else e)"

fun spec_next :: "'t entry list \<Rightarrow> 't entry option" where
  "spec_next [] = None"
| "spec_next (e # es) =
     (if due e = None then
        (case spec_next es of None \<Rightarrow> Some e | Some f \<Rightarrow> if sint (prio e) < sint (prio f) then Some f else Some e)
      else spec_next es)"

datatype 't tq_op =
  AddReady task_priority 't
| AddTimer rat task_priority 't
| AddThreadSafe bool task_priority 't
| ProcessThreadReady
| ProcessReadyTimers rat
| RunReady
| CanSleep

datatype 't tq_result = Done | Woken bool | Ran task_priority 't | NoTask | MaySleep bool | Failed

fun spec_step :: "'t tq_op \<Rightarrow> 't spec_queue \<Rightarrow> 't spec_queue \<times> 't tq_result" where
  "spec_step (AddReady p t) a = (spec_add None (p, t) a, Done)"
| "spec_step (AddTimer d p t) a = (spec_add (Some d) (p, t) a, Done)"
| "spec_step (AddThreadSafe isMain p t) a =
     (if isMain then (spec_add None (p, t) (spec_collect a), Woken False)
      else (let (r, wake) = handover_push (p, t) (handed a) in (a\<lparr>handed := r\<rparr>, Woken wake)))"
| "spec_step ProcessThreadReady a = (spec_collect a, Done)"
| "spec_step (ProcessReadyTimers now) a =
     (a\<lparr>entries := map (elapse (to_double (now + TIME_EPS))) (entries a)\<rparr>, Done)"
| "spec_step RunReady a =
     (case spec_next (entries a) of
        None \<Rightarrow> (a, NoTask)
      | Some e \<Rightarrow> (a\<lparr>entries := filter (\<lambda>f. number f \<noteq> number e) (entries a)\<rparr>, Ran (prio e) (job e)))"
| "spec_step CanSleep a =
     (if \<exists>e \<in> set (entries a). due e = None then (a, MaySleep False)
      else (let (r, b) = handover_canSleep (handed a) in (a\<lparr>handed := r\<rparr>, MaySleep b)))"

text \<open>The same operations of the code; to run a task is to take the task at the top and to pop it, as the run loop
  does when \<open>hasReadyTask\<close> holds.\<close>

fun tq_step :: "'t tq_op \<Rightarrow> 't task_queue \<Rightarrow> 't task_queue \<times> 't tq_result" where
  "tq_step (AddReady p t) q = (addReady p (Some t) q, Done)"
| "tq_step (AddTimer d p t) q = (addTimer d p (Some t) q, Done)"
| "tq_step (AddThreadSafe isMain p t) q =
     (case addReadyThreadSafe None isMain p (Some t) q of (q, Inl e) \<Rightarrow> (q, Failed) | (q, Inr b) \<Rightarrow> (q, Woken b))"
| "tq_step ProcessThreadReady q = (case processThreadReady None q of (q, Some e) \<Rightarrow> (q, Failed) | (q, None) \<Rightarrow> (q, Done))"
| "tq_step (ProcessReadyTimers now) q = (processReadyTimers now q, Done)"
| "tq_step RunReady q =
     (if hasReadyTask q then
        (popReadyTask q,
         case (getReadyTaskID q, getReadyTask q) of (Some p, Some (Some t)) \<Rightarrow> Ran p t | _ \<Rightarrow> Failed)
      else (q, NoTask))"
| "tq_step CanSleep q = (let (q, b) = canSleep q in (q, MaySleep b))"

fun run_ops :: "('op \<Rightarrow> 's \<Rightarrow> 's \<times> 'r) \<Rightarrow> 'op list \<Rightarrow> 's \<Rightarrow> 'r list" where
  "run_ops step [] s = []"
| "run_ops step (x # xs) s = (let (s, r) = step x s in r # run_ops step xs s)"

text \<open>The tasks that are waiting were added within \<open>2 ^ 32\<close> additions of each other, and fewer than \<open>2 ^ 62\<close> tasks
  were added in all.\<close>

definition in_window :: "'t spec_queue \<Rightarrow> bool" where
  "in_window a = (added a < 2 ^ 62 \<and> (\<forall>e \<in> set (entries a). added a < number e + 2 ^ 32 \<and> priority_ok (prio e)))"

fun always_in_window :: "'t tq_op list \<Rightarrow> 't spec_queue \<Rightarrow> bool" where
  "always_in_window [] a = in_window a"
| "always_in_window (x # xs) a = (in_window a \<and> always_in_window xs (fst (spec_step x a)))"

subsection \<open>The simulation\<close>

definition ordered_of :: "'t entry \<Rightarrow> 't ordered_task" where
  "ordered_of e = \<lparr>priority = fifo_priority (prio e) (number e), taskID = prio e, task = Some (job e)\<rparr>"

definition delayed_of :: "'t entry \<Rightarrow> 't delayed_task" where
  "delayed_of e =
     \<lparr>priority = fifo_priority (prio e) (number e), taskID = prio e, task = Some (job e), at_time = the (due e)\<rparr>"

definition handed_of :: "(task_priority \<times> 't) handover \<Rightarrow> (task_priority \<times> 't option) handover" where
  "handed_of = map_handover (\<lambda>(p, t). (p, Some t))"

definition ready_entries :: "'t spec_queue \<Rightarrow> 't entry list" where
  "ready_entries a = filter (\<lambda>e. due e = None) (entries a)"

definition timer_entries :: "'t spec_queue \<Rightarrow> 't entry list" where
  "timer_entries a = filter (\<lambda>e. due e \<noteq> None) (entries a)"

definition numbered :: "'t spec_queue \<Rightarrow> bool" where
  "numbered a = (sorted_wrt (\<lambda>e f. number e < number f) (entries a) \<and> (\<forall>e \<in> set (entries a). number e \<le> added a))"

definition simulates :: "'t task_queue \<Rightarrow> 't spec_queue \<Rightarrow> bool" where
  "simulates q a =
     (tasksIssued q = of_nat (added a) \<and> mset (ready q) = mset (map ordered_of (ready_entries a)) \<and>
      mset (timers q) = mset (map delayed_of (timer_entries a)) \<and>
      threadReady q = map handed_of (handed a) \<and> numbered a)"

lemma simulates_new: "simulates TaskQueue_new spec_new"
  by (simp add: simulates_def TaskQueue_new_def spec_new_def ready_entries_def timer_entries_def numbered_def)

lemma numbered_add: "numbered a \<Longrightarrow> numbered (spec_add d pt a)"
  by (auto simp: numbered_def spec_add_def sorted_wrt_append)

lemma simulates_addReady:
  "simulates q a \<Longrightarrow> simulates (addReady p (Some t) q) (spec_add None (p, t) a)"
  using numbered_add [of a None "(p, t)"]
  by (simp add: simulates_def addReady_def getFIFOPriority_def Let_def ready_entries_def timer_entries_def add.commute)
     (simp add: spec_add_def ordered_of_def fifo_priority_def)

lemma simulates_addTimer:
  "simulates q a \<Longrightarrow> simulates (addTimer d p (Some t) q) (spec_add (Some d) (p, t) a)"
  using numbered_add [of a "Some d" "(p, t)"]
  by (simp add: simulates_def addTimer_def getFIFOPriority_def Let_def ready_entries_def timer_entries_def add.commute)
     (simp add: spec_add_def delayed_of_def fifo_priority_def)

lemma handover_pop_map: "handover_pop (map (map_handover f) q) = map_prod (map_option f) (map (map_handover f)) (handover_pop q)"
  by (induction q rule: handover_pop.induct) auto

lemma spec_collect_pop:
  "handover_pop (handed a) = (None, r) \<Longrightarrow> spec_collect a = a\<lparr>handed := []\<rparr> \<and> r = []"
  "handover_pop (handed a) = (Some x, r) \<Longrightarrow> spec_collect a = spec_collect (spec_add None x (a\<lparr>handed := r\<rparr>))"
proof -
  have "handover_pop h = (None, r) \<Longrightarrow> items h = [] \<and> r = []"
    and "handover_pop h = (Some x, r) \<Longrightarrow> items h = x # items r" for h :: "(task_priority \<times> 'a) handover list"
    by (induction h rule: handover_pop.induct) (auto simp: items_def)
  then show "handover_pop (handed a) = (None, r) \<Longrightarrow> spec_collect a = a\<lparr>handed := []\<rparr> \<and> r = []"
    "handover_pop (handed a) = (Some x, r) \<Longrightarrow> spec_collect a = spec_collect (spec_add None x (a\<lparr>handed := r\<rparr>))"
    by (cases a; auto simp: spec_collect_def spec_add_def)+
qed

lemma simulates_collect:
  "simulates q a \<Longrightarrow> \<exists>q'. processThreadReady None q = (q', None) \<and> simulates q' (spec_collect a)"
proof (induction "length (handed a)" arbitrary: q a rule: less_induct)
  case less
  have th: "handover_pop (threadReady q) = map_prod (map_option (\<lambda>(p, t). (p, Some t))) (map handed_of) (handover_pop (handed a))"
    using less.prems by (simp add: simulates_def handed_of_def handover_pop_map)
  obtain x r where pop: "handover_pop (handed a) = (x, r)" by fastforce
  show ?case
  proof (cases x)
    case None
    then show ?thesis
      using less.prems th pop spec_collect_pop(1) [of a r]
      by (auto simp: processThreadReady.simps [of None q] simulates_def ready_entries_def timer_entries_def numbered_def)
  next
    case (Some pt)
    obtain p t where pt: "pt = (p, t)" by fastforce
    let ?q = "q\<lparr>threadReady := map handed_of r\<rparr>" and ?a = "a\<lparr>handed := r\<rparr>"
    have "simulates ?q ?a"
      using less.prems by (simp add: simulates_def ready_entries_def timer_entries_def numbered_def)
    then have "simulates (addReady p (Some t) ?q) (spec_add None (p, t) ?a)" by (rule simulates_addReady)
    moreover have "length (handed (spec_add None (p, t) ?a)) < length (handed a)"
      using length_handover_pop [of "handed a"] pop Some by (simp add: spec_add_def)
    ultimately have "\<exists>q'. processThreadReady None (addReady p (Some t) ?q) = (q', None) \<and> simulates q' (spec_collect (spec_add None (p, t) ?a))"
      using less.hyps by blast
    then show ?thesis
      using th pop Some pt spec_collect_pop(2) [of a pt r]
      by (simp add: processThreadReady.simps [of None q] ASSERT_def isAssertDisabled_def)
  qed
qed

subsection \<open>Timers\<close>

definition due_by :: "rat \<Rightarrow> 't delayed_task \<Rightarrow> bool" where
  "due_by now t = (at_time t \<le> to_double (now + TIME_EPS))"

lemma processReadyTimers_ok:
  "mset (ready (processReadyTimers now q)) =
      mset (ready q) + image_mset ordered_task.truncate (filter_mset (due_by now) (mset (timers q))) \<and>
   mset (timers (processReadyTimers now q)) = filter_mset (\<lambda>t. \<not> due_by now t) (mset (timers q)) \<and>
   tasksIssued (processReadyTimers now q) = tasksIssued q \<and>
   threadReady (processReadyTimers now q) = threadReady q \<and>
   countTimers (processReadyTimers now q) = countTimers q + int (size (filter_mset (due_by now) (mset (timers q))))"
proof (induction now q rule: processReadyTimers.induct)
  case (1 now q)
  note unfold = processReadyTimers.simps [of now q]
  show ?case
  proof (cases "pq_top delayed_lt (timers q)")
    case None
    then show ?thesis by (simp add: unfold)
  next
    case (Some t)
    show ?thesis
    proof (cases "due_by now t")
      case False
      then have "\<not> due_by now u" if "u \<in> set (timers q)" for u
        using timer_order.top_maximal [OF Some that] by (auto simp: delayed_lt_def due_by_def)
      then have "filter (due_by now) (timers q) = []" "filter (\<lambda>t. \<not> due_by now t) (timers q) = timers q"
        by (simp_all add: filter_empty_conv)
      then have none: "filter_mset (due_by now) (mset (timers q)) = {#}"
        and all: "filter_mset (\<lambda>t. \<not> due_by now t) (mset (timers q)) = mset (timers q)"
        by (simp_all flip: mset_filter)
      show ?thesis unfolding none all using Some False by (simp add: unfold due_by_def)
    next
      case True
      let ?q = "q\<lparr>countTimers := countTimers q + 1, ready := pq_push (ordered_task.truncate t) (ready q), timers := pq_pop delayed_lt (timers q)\<rparr>"
      have "mset (timers q) = add_mset t (mset (timers ?q))"
        using timer_order.mset_pop [OF Some] pq_top_mem [OF Some] by simp
      then show ?thesis using 1 [OF Some] True Some by (simp add: unfold due_by_def)
    qed
  qed
qed

lemma elapse_fields [simp]:
  "number (elapse l e) = number e" "prio (elapse l e) = prio e" "job (elapse l e) = job e" "ordered_of (elapse l e) = ordered_of e"
  by (auto simp: elapse_def ordered_of_def split: option.split)

lemma truncate_delayed_of: "ordered_task.truncate (delayed_of e) = ordered_of e"
  by (simp add: delayed_of_def ordered_of_def ordered_task.defs)

lemma simulates_timers:
  assumes "simulates q a"
  shows "simulates (processReadyTimers now q) (a\<lparr>entries := map (elapse (to_double (now + TIME_EPS))) (entries a)\<rparr>)"
proof -
  let ?l = "to_double (now + TIME_EPS)"
  have ready: "mset (map ordered_of (filter (\<lambda>e. due e = None) (map (elapse ?l) es))) =
      mset (map ordered_of (filter (\<lambda>e. due e = None) es)) +
      image_mset ordered_task.truncate (filter_mset (due_by now) (mset (map delayed_of (filter (\<lambda>e. due e \<noteq> None) es))))"
    for es :: "'a entry list"
    by (induction es) (auto simp: elapse_def due_by_def truncate_delayed_of delayed_of_def ordered_of_def ordered_task.defs)
  have timers: "mset (map delayed_of (filter (\<lambda>e. due e \<noteq> None) (map (elapse ?l) es))) =
      filter_mset (\<lambda>t. \<not> due_by now t) (mset (map delayed_of (filter (\<lambda>e. due e \<noteq> None) es)))"
    for es :: "'a entry list"
    by (induction es) (auto simp: elapse_def due_by_def delayed_of_def)
  have "numbered (a\<lparr>entries := map (elapse ?l) (entries a)\<rparr>)"
    using assms by (auto simp: simulates_def numbered_def sorted_wrt_map)
  then show ?thesis
    using assms processReadyTimers_ok [of now q] ready [of "entries a"] timers [of "entries a"]
    by (simp add: simulates_def ready_entries_def timer_entries_def)
qed

subsection \<open>Running a task\<close>

lemma spec_next_None: "spec_next es = None \<longleftrightarrow> (\<forall>e \<in> set es. due e \<noteq> None)"
  by (induction es) (auto split: option.split)

lemma spec_next_first:
  assumes "spec_next es = Some e" and "sorted_wrt (\<lambda>e f. number e < number f) es"
  shows "e \<in> set es \<and> due e = None \<and>
    (\<forall>f \<in> set es. due f = None \<and> f \<noteq> e \<longrightarrow> sint (prio f) < sint (prio e) \<or> prio f = prio e \<and> number e < number f)"
  using assms
proof (induction es arbitrary: e)
  case (Cons x es)
  show ?case
  proof (cases "spec_next es")
    case None
    then have "e = x \<and> due x = None" using Cons.prems(1) by (auto split: if_splits)
    then show ?thesis using None by (auto simp: spec_next_None)
  next
    case (Some y)
    then have y: "y \<in> set es" "due y = None"
      "\<And>f. f \<in> set es \<Longrightarrow> due f = None \<Longrightarrow> f \<noteq> y \<Longrightarrow> sint (prio f) < sint (prio y) \<or> prio f = prio y \<and> number y < number f"
      using Cons.IH [OF Some] Cons.prems(2) by auto
    have eq: "sint (prio x) = sint (prio f) \<longleftrightarrow> prio x = prio f" for f :: "'a entry" by (metis signed_word_eqI)
    show ?thesis
    proof (cases "due x = None \<and> \<not> sint (prio x) < sint (prio y)")
      case True
      then have "e = x" using Cons.prems(1) Some by simp
      moreover have "sint (prio f) < sint (prio x) \<or> prio f = prio x \<and> number x < number f"
        if "f \<in> set es" "due f = None" for f
      proof -
        have "sint (prio f) \<le> sint (prio x)" using y(3) [OF that] True by (cases "f = y") auto
        moreover have "number x < number f" using Cons.prems(2) that(1) by simp
        ultimately show ?thesis using eq [of f] by (auto simp: order_le_less)
      qed
      ultimately show ?thesis using True by auto
    next
      case False
      then have "e = y" using Cons.prems(1) Some by (auto split: if_splits)
      then show ?thesis using y False by auto
    qed
  qed
qed simp

lemma sorted_remove1:
  assumes "sorted_wrt (\<lambda>e f. number e < number f) es" and "e \<in> set es"
  shows "filter (\<lambda>f. number f \<noteq> number e) es = remove1 e es"
  using assms
proof (induction es)
  case (Cons x es)
  show ?case
  proof (cases "x = e")
    case True
    then have "filter (\<lambda>f. number f \<noteq> number e) es = es" using Cons.prems by (auto intro!: filter_True)
    then show ?thesis using True by simp
  next
    case False
    then have "number x < number e" using Cons.prems by auto
    then show ?thesis using False Cons by auto
  qed
qed simp

lemma top_simulates:
  assumes "simulates q a" and "in_window a" and "spec_next (entries a) = Some e"
  shows "pq_top ordered_lt (ready q) = Some (ordered_of e)"
proof -
  have sorted: "sorted_wrt (\<lambda>e f. number e < number f) (entries a)"
    and set: "set (ready q) = ordered_of ` {f \<in> set (entries a). due f = None}"
    and num: "\<And>f. f \<in> set (entries a) \<Longrightarrow> number f \<le> added a"
    using assms(1) mset_eq_setD [of "ready q" "map ordered_of (ready_entries a)"]
    by (auto simp: simulates_def numbered_def ready_entries_def)
  note first = spec_next_first [OF assms(3) sorted]
  show ?thesis
  proof (rule ready_order.top_unique)
    show "ordered_of e \<in> set (ready q)" using first set by auto
  next
    fix y assume "y \<in> set (ready q)" "y \<noteq> ordered_of e"
    then obtain f where f: "y = ordered_of f" "f \<in> set (entries a)" "due f = None" "f \<noteq> e" using set by auto
    have "added a < 2 ^ 62" "added a < number e + 2 ^ 32" "added a < number f + 2 ^ 32" "priority_ok (prio e)" "priority_ok (prio f)"
      using assms(2) first f by (auto simp: in_window_def)
    then show "ordered_lt y (ordered_of e)"
      using first f fifo_priority_less [of "prio f" "prio e" "number f" "number e"] num [of e] num [of f]
      by (auto simp: ordered_lt_def ordered_of_def)
  qed
qed

lemma simulates_pop:
  assumes "simulates q a" and "in_window a" and "spec_next (entries a) = Some e"
  shows "simulates (popReadyTask q) (a\<lparr>entries := filter (\<lambda>f. number f \<noteq> number e) (entries a)\<rparr>)"
proof -
  have sorted: "sorted_wrt (\<lambda>e f. number e < number f) (entries a)" using assms(1) by (simp add: simulates_def numbered_def)
  have e: "e \<in> set (entries a)" "due e = None" using spec_next_first [OF assms(3) sorted] by auto
  have ready: "mset (filter (\<lambda>e. due e = None) (remove1 e (entries a))) = mset (ready_entries a) - {#e#}"
    and timers: "mset (filter (\<lambda>e. due e \<noteq> None) (remove1 e (entries a))) = mset (timer_entries a)"
    using e by (simp_all add: ready_entries_def timer_entries_def filter_diff_mset)
  have "e \<in># mset (ready_entries a)" using e by (simp add: ready_entries_def)
  then have "image_mset ordered_of (mset (ready_entries a) - {#e#}) = image_mset ordered_of (mset (ready_entries a)) - {#ordered_of e#}"
    by (simp add: image_mset_Diff)
  moreover have "numbered (a\<lparr>entries := filter (\<lambda>f. number f \<noteq> number e) (entries a)\<rparr>)"
    using assms(1) by (auto simp: simulates_def numbered_def sorted_wrt_filter)
  ultimately show ?thesis
    using assms(1) ready timers ready_order.mset_pop [OF top_simulates [OF assms]]
    by (simp add: simulates_def popReadyTask_def sorted_remove1 [OF sorted e(1)] ready_entries_def timer_entries_def)
qed

subsection \<open>All operations\<close>

lemma ready_empty:
  assumes "simulates q a" shows "ready q = [] \<longleftrightarrow> (\<forall>e \<in> set (entries a). due e \<noteq> None)"
proof -
  have "set (ready q) = set (map ordered_of (ready_entries a))"
    using assms by (intro mset_eq_setD) (simp add: simulates_def)
  then have "set (ready q) = {} \<longleftrightarrow> set (ready_entries a) = {}" by simp
  then show ?thesis by (auto simp: ready_entries_def filter_empty_conv)
qed

lemma last_map_mark: "q \<noteq> [] \<Longrightarrow> last (map handed_of q) = SleepMark \<longleftrightarrow> last q = SleepMark"
  by (cases "last q") (simp_all add: last_map handed_of_def)

lemma handover_mapped:
  "handover_push (p, Some t) (map handed_of h) = map_prod (map handed_of) id (handover_push (p, t) h)"
  "handover_canSleep (map handed_of h) = map_prod (map handed_of) id (handover_canSleep h)"
  using last_map_mark [of h]
  by (auto simp: handover_push_def handover_canSleep_def) (auto simp: handed_of_def)

lemma simulates_handed: "simulates q a \<Longrightarrow> simulates (q\<lparr>threadReady := map handed_of h\<rparr>) (a\<lparr>handed := h\<rparr>)"
  by (simp add: simulates_def ready_entries_def timer_entries_def numbered_def)

lemma simulates_counts [simp]:
  "simulates (q\<lparr>countCantSleep := c\<rparr>) a = simulates q a" "simulates (q\<lparr>countWontSleep := c\<rparr>) a = simulates q a"
  by (simp_all add: simulates_def)

lemma step_simulates:
  assumes "simulates q a" and "in_window a"
  shows "simulates (fst (tq_step x q)) (fst (spec_step x a)) \<and> snd (tq_step x q) = snd (spec_step x a)"
proof (cases x)
  case (AddReady p t)
  then show ?thesis using simulates_addReady [OF assms(1)] by simp
next
  case (AddTimer d p t)
  then show ?thesis using simulates_addTimer [OF assms(1)] by simp
next
  case (AddThreadSafe isMain p t)
  show ?thesis
  proof (cases isMain)
    case True
    obtain q' where "processThreadReady None q = (q', None)" "simulates q' (spec_collect a)"
      using simulates_collect [OF assms(1)] by auto
    then show ?thesis using AddThreadSafe True simulates_addReady by (simp add: addReadyThreadSafe_def)
  next
    case False
    obtain h w where h: "handover_push (p, t) (handed a) = (h, w)" by fastforce
    then have "handover_push (p, Some t) (threadReady q) = (map handed_of h, w)"
      using assms(1) by (simp add: simulates_def handover_mapped)
    then show ?thesis using AddThreadSafe False h simulates_handed [OF assms(1), of h] by (simp add: addReadyThreadSafe_def)
  qed
next
  case ProcessThreadReady
  then show ?thesis using simulates_collect [OF assms(1)] by auto
next
  case (ProcessReadyTimers now)
  then show ?thesis using simulates_timers [OF assms(1)] by simp
next
  case RunReady
  show ?thesis
  proof (cases "spec_next (entries a)")
    case None
    then have "ready q = []" using ready_empty [OF assms(1)] spec_next_None by blast
    then show ?thesis using RunReady None assms(1) by (simp add: hasReadyTask_def)
  next
    case (Some e)
    note top = top_simulates [OF assms Some]
    then have "ready q \<noteq> []" by auto
    then show ?thesis
      using RunReady Some top simulates_pop [OF assms Some]
      by (simp add: hasReadyTask_def getReadyTaskID_def getReadyTask_def ordered_of_def)
  qed
next
  case CanSleep
  obtain h b where h: "handover_canSleep (handed a) = (h, b)" by fastforce
  then have "handover_canSleep (threadReady q) = (map handed_of h, b)"
    using assms(1) by (simp add: simulates_def handover_mapped)
  then show ?thesis
    using CanSleep h assms(1) simulates_handed [OF assms(1), of h] ready_empty [OF assms(1)]
    by (auto simp: canSleep_def Let_def)
qed

lemma run_simulates:
  "simulates q a \<Longrightarrow> always_in_window ops a \<Longrightarrow> run_ops tq_step ops q = run_ops spec_step ops a"
proof (induction ops arbitrary: q a)
  case (Cons x ops)
  obtain q' r where q: "tq_step x q = (q', r)" by fastforce
  obtain a' r' where a: "spec_step x a = (a', r')" by fastforce
  have "simulates q' a'" "r = r'" using step_simulates [of q a x] Cons.prems q a by auto
  then show ?case using Cons q a by simp
qed simp

text \<open>C5. The queue of tasks refines its specification: for every sequence of operations, every task that is run is the
  one that was added first among the ready tasks of the highest priority, timers become ready exactly when their time
  has come, tasks from other threads are taken over in order, and no assertion fails.  The tasks waiting at one time
  are taken to have been added within \<open>2 ^ 32\<close> additions of each other.\<close>

theorem TaskQueue_refines_spec:
  assumes "always_in_window ops spec_new"
  shows "run_ops tq_step ops TaskQueue_new = run_ops spec_step ops spec_new"
  by (rule run_simulates [OF simulates_new assms])

theorem TaskQueue_refines_spec_witness:
  "run_ops tq_step [AddReady 7000 (1::nat), AddTimer 5 9000 2, AddThreadSafe False 7000 3, AddReady 7000 4, ProcessThreadReady,
     RunReady, ProcessReadyTimers 6, RunReady, RunReady, RunReady, RunReady] TaskQueue_new =
   [Done, Done, Woken False, Done, Done, Ran 7000 1, Done, Ran 9000 2, Ran 7000 4, Ran 7000 3, NoTask]"
proof -
  let ?ops = "[AddReady 7000 (1::nat), AddTimer 5 9000 2, AddThreadSafe False 7000 3, AddReady 7000 4, ProcessThreadReady,
     RunReady, ProcessReadyTimers 6, RunReady, RunReady, RunReady, RunReady]"
  have "0 \<le> TIME_EPS" unfolding TIME_EPS_def by (rule round_to_nonneg) simp_all
  then have "5 \<le> to_double (6 + TIME_EPS)" using round_to_lower [of 53 "6 + TIME_EPS"] by simp
  note due = this
  have "always_in_window ?ops spec_new"
    using due by (simp add: spec_new_def spec_add_def handover_push_def spec_collect_def items_def in_window_def priority_ok_def elapse_def)
  from TaskQueue_refines_spec [OF this] show ?thesis
    using due by (simp add: spec_new_def spec_add_def handover_push_def spec_collect_def items_def elapse_def)
qed

text \<open>C28. Tasks do not starve: whatever their priorities, a task is ahead of every task that is added \<open>1000001 * 2 ^ 32\<close>
  additions later.\<close>

theorem TaskQueue_no_starvation:
  assumes "priority_ok p" and "priority_ok p'" and "n + 1000001 * 2 ^ 32 \<le> n'" and "n' < 2 ^ 62"
    and "tasksIssued q + 1 = of_nat n" and "tasksIssued q' + 1 = of_nat n'"
  shows "fst (getFIFOPriority p' q') <s fst (getFIFOPriority p q)"
proof -
  have "fst (getFIFOPriority p' q') = fifo_priority p' n'" "fst (getFIFOPriority p q) = fifo_priority p n"
    using assms(5,6) by (simp_all add: getFIFOPriority_def fifo_priority_def Let_def)
  moreover have "sint p' * 2 ^ 32 - int n' < sint p * 2 ^ 32 - int n" using assms(1-3) by (auto simp: priority_ok_def)
  ultimately show ?thesis using assms by (simp add: word_sless_alt sint_fifo_priority)
qed

theorem TaskQueue_no_starvation_witness:
  "fst (getFIFOPriority 1000000 (TaskQueue_new\<lparr>tasksIssued := 4611686018427387900\<rparr>)) <s fst (getFIFOPriority 0 (TaskQueue_new :: nat task_queue))"
proof -
  have "priority_ok 0" "priority_ok 1000000" by (simp_all add: priority_ok_def)
  from TaskQueue_no_starvation [OF this, of 1 4611686018427387901 TaskQueue_new "TaskQueue_new\<lparr>tasksIssued := 4611686018427387900\<rparr>"]
  show ?thesis by (simp add: TaskQueue_new_def)
qed

text \<open>The comment of \<open>getFIFOPriority\<close> promises a unique value; a task and a task of the next priority added \<open>2 ^ 32\<close>
  tasks later get the same one.\<close>

lemma getFIFOPriority_not_unique:
  "fst (getFIFOPriority 7000 (TaskQueue_new\<lparr>tasksIssued := 10\<rparr>)) =
   fst (getFIFOPriority 7001 (TaskQueue_new\<lparr>tasksIssued := 10 + 2 ^ 32\<rparr>))"
  by (simp add: getFIFOPriority_def push_bit_eq_mult)

text \<open>C27. Timers: exactly the timers that are due become ready, each as the task it was; and the time to sleep is the
  time to the earliest timer, rounded.\<close>

theorem TaskQueue_timers:
  "mset (ready (processReadyTimers now q)) =
     mset (ready q) + image_mset ordered_task.truncate (filter_mset (\<lambda>t. at_time t \<le> to_double (now + TIME_EPS)) (mset (timers q))) \<and>
   mset (timers (processReadyTimers now q)) = filter_mset (\<lambda>t. \<not> at_time t \<le> to_double (now + TIME_EPS)) (mset (timers q)) \<and>
   getSleepTime now q = (if timers q = [] then 0 else to_double (Min (at_time ` set (timers q)) - now))"
proof -
  have "getSleepTime now q = to_double (Min (at_time ` set (timers q)) - now)" if "timers q \<noteq> []"
  proof -
    have "pq_top delayed_lt (timers q) \<noteq> None" using that by simp
    then obtain t where t: "pq_top delayed_lt (timers q) = Some t" by blast
    then have "at_time t \<le> at_time u" if "u \<in> set (timers q)" for u
      using timer_order.top_maximal [OF t that] by (simp add: delayed_lt_def)
    then have "Min (at_time ` set (timers q)) = at_time t" using pq_top_mem [OF t] by (intro Min_eqI) auto
    then show ?thesis using t by (simp add: getSleepTime_def)
  qed
  then show ?thesis using processReadyTimers_ok [of now q] by (auto simp: getSleepTime_def due_by_def [abs_def])
qed

end
