(* ===== verification/PriorityMultiLock.thy ===== *)
theory PriorityMultiLock
  imports BinaryFloat
begin

text \<open>
  The lock with priorities of \<^verbatim>\<open>flow/include/flow/PriorityMultiLock.h\<close>: a limited number of holders, and waiters that
  are served by the relative weights of their priorities.

  The code runs on one thread, and control passes to other code at the calls and callbacks: a caller of \<open>lock\<close>, the
  release of a lock, \<open>halt\<close> and \<open>kill\<close>, and the waiter that \<open>lockPromise.send\<close> resumes inside the launch loop of the
  runner, which may do all of the former before the loop goes on.  A step below is one such call, or the runner from
  one callback to the next.

  Locks and waiters are numbered in the order of the calls of \<open>lock\<close>; \<open>held\<close> holds the release handlers, each with
  the number of its lock and its priority.  Two fields are records for the proofs: \<open>reentered\<close>, a lock was given without
  waiting while the runner was in a callback, and \<open>failed\<close>, the waiters whose promise was destroyed unsent, which get
  \<open>broken_promise\<close>.

  The counters and the weights are \<open>int\<close>s of 32 bits, read as integers.  An addition that the code does not keep in the
  range by itself, that of a weight to \<open>totalPendingWeights\<close> and that of one to \<open>waiting\<close>, is guarded: \<open>None\<close> is the
  undefined behaviour of a signed overflow.  That every other result is in the range is proved with the books of the lock.
  The queues of waiters are lists: memory for them is taken to be available, and no queue to reach the maximal size of a
  deque.
\<close>

definition c_int :: "int \<Rightarrow> bool" where
  "c_int n = (- (2 ^ 31) \<le> n \<and> n < 2 ^ 31)"

record pml_priority =
  pqueue :: "nat list"
  runners :: int
  weight :: int

text \<open>Where the runner is: at \<open>co_await onTrigger\<close>, inside \<open>lockPromise.send\<close> (with the priority, the number of the
  lock and whether it was released already), at the end of the loop's body, or done.\<close>

datatype runner_pc = Awaiting | InCallback nat nat bool | EndOfBody nat | Finished

record pml =
  concurrency :: int
  available :: int
  waiting :: int
  totalPendingWeights :: int
  priorities :: "pml_priority list"
  waitingPriorities :: "nat list"
  broken :: bool
  killed :: bool
  runner :: runner_pc
  iter :: "nat option"
  held :: "(nat \<times> nat) list"
  next_lock :: nat
  reentered :: bool
  failed :: "nat list"

definition PriorityMultiLock_new :: "int \<Rightarrow> int list \<Rightarrow> pml" where
  "PriorityMultiLock_new c weightsByPriority =
     \<lparr>concurrency = c, available = c, waiting = 0, totalPendingWeights = 0,
      priorities = map (\<lambda>w. \<lparr>pqueue = [], runners = 0, weight = w\<rparr>) weightsByPriority,
      waitingPriorities = [], broken = False, killed = False, runner = Awaiting, iter = None,
      held = [], next_lock = 0, reentered = False, failed = []\<rparr>"

text \<open>\<open>ceil((float)weight / totalPendingWeights * concurrency)\<close>: the integers are converted to \<open>float\<close>, and each
  operation rounds.  \<open>None\<close>: the conversion to \<open>int\<close> is undefined, since the quotient is infinite or not a number or the
  result is out of the range of \<open>int\<close>.\<close>

definition currentCapacity :: "int \<Rightarrow> pml \<Rightarrow> int option" where
  "currentCapacity w s =
     (if totalPendingWeights s = 0 then None
      else
        let k = \<lceil>to_float (to_float (to_float (of_int w) / to_float (of_int (totalPendingWeights s))) * to_float (of_int (concurrency s)))\<rceil> in
        if c_int k then Some k else None)"

definition update_priority :: "nat \<Rightarrow> (pml_priority \<Rightarrow> pml_priority) \<Rightarrow> pml \<Rightarrow> pml" where
  "update_priority i f s = s\<lparr>priorities := (priorities s)[i := f (priorities s ! i)]\<rparr>"

definition addRunner :: "nat \<Rightarrow> nat \<Rightarrow> pml \<Rightarrow> pml" where
  "addRunner l i s =
     (let s = update_priority i (\<lambda>p. p\<lparr>runners := runners p + 1\<rparr>) s in
      s\<lparr>available := available s - 1, held := (l, i) # held s\<rparr>)"

subsection \<open>lock\<close>

datatype lock_result = LockNow nat | LockLater nat | BrokenPromise | NoResult

definition in_callback :: "pml \<Rightarrow> bool" where
  "in_callback s = (case runner s of InCallback _ _ _ \<Rightarrow> True | _ \<Rightarrow> False)"

definition lock_wait :: "nat \<Rightarrow> pml \<Rightarrow> (pml \<times> lock_result) option" where
  "lock_wait i s =
     (let l = next_lock s; s = update_priority i (\<lambda>p. p\<lparr>pqueue := pqueue p @ [l]\<rparr>) s in
      if c_int (waiting s + 1) then Some (s\<lparr>waiting := waiting s + 1, next_lock := l + 1\<rparr>, LockLater l) else None)"

definition lock_nowait :: "nat \<Rightarrow> pml \<Rightarrow> pml \<times> lock_result" where
  "lock_nowait i s =
     (let l = next_lock s; s = addRunner l i s in
      (s\<lparr>next_lock := l + 1, reentered := reentered s \<or> in_callback s\<rparr>, LockNow l))"

text \<open>\<open>None\<close> when the priority is out of range, an addition overflows or the capacity is undefined.\<close>

definition lock :: "nat \<Rightarrow> pml \<Rightarrow> (pml \<times> lock_result) option" where
  "lock i s =
     (if killed s then Some (s, BrokenPromise)
      else if i \<ge> length (priorities s) then None
      else
        let p = priorities s ! i in
        if pqueue p = [] then
          if \<not> c_int (totalPendingWeights s + weight p) then None
          else
            let s = s\<lparr>totalPendingWeights := totalPendingWeights s + weight p\<rparr> in
            if available s > 0 then
              (case currentCapacity (weight p) s of
                 None \<Rightarrow> None
               | Some c \<Rightarrow>
                   if runners p < c then
                     Some (lock_nowait i (s\<lparr>totalPendingWeights := totalPendingWeights s - weight p\<rparr>))
                   else lock_wait i (s\<lparr>waitingPriorities := waitingPriorities s @ [i]\<rparr>))
            else lock_wait i (s\<lparr>waitingPriorities := waitingPriorities s @ [i]\<rparr>)
        else lock_wait i s)"

subsection \<open>The launch loop\<close>

definition next_in :: "nat \<Rightarrow> nat list \<Rightarrow> nat option" where
  "next_in i xs = (case dropWhile (\<lambda>x. x \<noteq> i) xs of _ # y # _ \<Rightarrow> Some y | _ \<Rightarrow> None)"

definition eligible :: "pml \<Rightarrow> nat \<Rightarrow> bool" where
  "eligible s i =
     (let p = priorities s ! i in
      pqueue p \<noteq> [] \<and> (case currentCapacity (weight p) s of Some c \<Rightarrow> runners p < c | None \<Rightarrow> False))"

text \<open>The search for the next priority with waiters and capacity, which reads and does not write the state: after two
  rounds it is back where it was.  \<open>None\<close>: it goes on for ever, or there is no first element to look at.\<close>

fun scan :: "nat \<Rightarrow> pml \<Rightarrow> nat option \<Rightarrow> nat option" where
  "scan 0 s p = None"
| "scan (Suc n) s p =
     (case (case p of None \<Rightarrow> (case waitingPriorities s of [] \<Rightarrow> None | x # _ \<Rightarrow> Some x) | Some i \<Rightarrow> Some i) of
        None \<Rightarrow> None
      | Some i \<Rightarrow> if eligible s i then Some i else scan n s (next_in i (waitingPriorities s)))"

text \<open>From the choice of a priority to the call of \<open>lockPromise.send\<close>.\<close>

definition take_waiter :: "nat \<Rightarrow> pml \<Rightarrow> pml" where
  "take_waiter i s =
     (let l = hd (pqueue (priorities s ! i));
          s = update_priority i (\<lambda>p. p\<lparr>pqueue := tl (pqueue p)\<rparr>) s;
          p = priorities s ! i;
          s = (if pqueue p = [] then
                 s\<lparr>iter := next_in i (waitingPriorities s), waitingPriorities := remove1 i (waitingPriorities s),
                   totalPendingWeights := totalPendingWeights s - weight p\<rparr>
               else s\<lparr>iter := Some i\<rparr>)
      in s\<lparr>waiting := waiting s - 1, runner := InCallback i l False\<rparr>)"

text \<open>The head of the launch loop.\<close>

definition launch :: "pml \<Rightarrow> pml option" where
  "launch s =
     (if available s > 0 \<and> waiting s > 0 then
        (case scan (2 * length (waitingPriorities s) + 2) s (iter s) of
           None \<Rightarrow> None
         | Some i \<Rightarrow> Some (take_waiter i s))
      else Some (s\<lparr>runner := Awaiting\<rparr>))"

text \<open>After \<open>lockPromise.send\<close> has returned.\<close>

definition resume :: "pml \<Rightarrow> pml option" where
  "resume s =
     (case runner s of
        InCallback i l released \<Rightarrow>
          if broken s then Some (s\<lparr>runner := Finished\<rparr>)
          else if released then Some (s\<lparr>runner := EndOfBody l\<rparr>)
          else Some ((addRunner l i s)\<lparr>runner := EndOfBody l\<rparr>)
      | _ \<Rightarrow> None)"

subsection \<open>Release\<close>

definition releaseRunner :: "nat \<Rightarrow> nat \<Rightarrow> pml \<Rightarrow> pml option" where
  "releaseRunner l i s =
     (let s = s\<lparr>available := available s + 1, held := remove1 (l, i) (held s)\<rparr>;
          s = update_priority i (\<lambda>p. p\<lparr>runners := runners p - 1\<rparr>) s
      in if waiting s > 0 \<and> runner s = Awaiting then launch s else Some s)"

text \<open>The lock \<open>l\<close> is released or its last copy is dropped: before the runner has registered a handler for it, or
  after.\<close>

definition release :: "nat \<Rightarrow> pml \<Rightarrow> pml option" where
  "release l s =
     (case runner s of
        InCallback i k released \<Rightarrow>
          if k = l then (if released then None else Some (s\<lparr>runner := InCallback i k True\<rparr>))
          else (case find (\<lambda>h. fst h = l) (held s) of None \<Rightarrow> None | Some (l, i) \<Rightarrow> releaseRunner l i s)
      | _ \<Rightarrow> (case find (\<lambda>h. fst h = l) (held s) of None \<Rightarrow> None | Some (l, i) \<Rightarrow> releaseRunner l i s))"

subsection \<open>halt and kill\<close>

definition halt :: "pml \<Rightarrow> pml" where
  "halt s =
     s\<lparr>broken := True, runner := (if in_callback s then runner s else Finished),
       available := available s - concurrency s, concurrency := 0, waitingPriorities := []\<rparr>"

text \<open>Clearing a queue destroys the promises of its waiters.  What they do when they get \<open>broken_promise\<close> is a step after
  this one: \<open>killed\<close> is set before, so that a call of \<open>lock\<close> throws, and the release of a lock does not touch the queues.\<close>

definition kill :: "pml \<Rightarrow> pml" where
  "kill s =
     (if killed s then s
      else let s = halt (s\<lparr>killed := True\<rparr>) in
           s\<lparr>failed := failed s @ concat (map pqueue (priorities s)), priorities := map (\<lambda>p. p\<lparr>pqueue := []\<rparr>) (priorities s)\<rparr>)"

subsection \<open>Counts\<close>

definition maxPriority :: "pml \<Rightarrow> int" where
  "maxPriority s = int (length (priorities s)) - 1"

definition getRunnersCount :: "pml \<Rightarrow> int" where
  "getRunnersCount s = concurrency s - available s"

definition getWaitersCount :: "pml \<Rightarrow> int" where
  "getWaitersCount s = waiting s"

text \<open>\<open>None\<close> when the assertion on the priority fails.\<close>

definition getWaitersCount_at :: "nat \<Rightarrow> pml \<Rightarrow> nat option" where
  "getWaitersCount_at i s = (if i < length (priorities s) then Some (length (pqueue (priorities s ! i))) else None)"

definition getRunnersCount_at :: "nat \<Rightarrow> pml \<Rightarrow> int option" where
  "getRunnersCount_at i s = (if i < length (priorities s) then Some (runners (priorities s ! i)) else None)"

subsection \<open>The system\<close>

text \<open>The code around the lock runs while the runner waits, is in a callback or is done.  At the end of the loop's body
  the runner's own copy of the lock goes, which releases the lock if it is the last one.\<close>

datatype pml_event = Lock nat | Release nat | Halt | Kill | Resume | LoopEnd bool

definition outside :: "pml \<Rightarrow> bool" where
  "outside s = (case runner s of EndOfBody _ \<Rightarrow> False | _ \<Rightarrow> True)"

fun pml_step :: "pml_event \<Rightarrow> pml \<Rightarrow> (pml \<times> lock_result) option" where
  "pml_step (Lock i) s = (if outside s then lock i s else None)"
| "pml_step (Release l) s = (if outside s then map_option (\<lambda>s. (s, NoResult)) (release l s) else None)"
| "pml_step Halt s = (if outside s then Some (halt s, NoResult) else None)"
| "pml_step Kill s = (if outside s then Some (kill s, NoResult) else None)"
| "pml_step Resume s = map_option (\<lambda>s. (s, NoResult)) (resume s)"
| "pml_step (LoopEnd dropped) s =
     (case runner s of
        EndOfBody l \<Rightarrow>
          (case (if dropped then release l s else Some s) of
             None \<Rightarrow> None
           | Some s \<Rightarrow> map_option (\<lambda>s. (s, NoResult)) (launch s))
      | _ \<Rightarrow> None)"

inductive pml_reachable :: "int \<Rightarrow> int list \<Rightarrow> pml \<Rightarrow> bool" for c ws where
  new: "pml_reachable c ws (PriorityMultiLock_new c ws)"
| step: "pml_reachable c ws s \<Longrightarrow> pml_step e s = Some (s', r) \<Longrightarrow> pml_reachable c ws s'"

end
