(* ===== verification/PriorityMultiLock_Correct.thy ===== *)
theory PriorityMultiLock_Correct
  imports PriorityMultiLock
begin

text \<open>
  The lock with priorities keeps its books in every state, gives at most one lock more than it should, never leaves a
  slot free while somebody waits, and its search for a priority ends, in spite of the rounding of \<open>float\<close>.
\<close>

subsection \<open>Capacities\<close>

text \<open>Up to this concurrency the rounding errors of the capacities add up to less than one slot.\<close>

definition concurrency_limit :: int where
  "concurrency_limit = 3000000"

text \<open>The five roundings of \<open>currentCapacity\<close> lose at most five units in the last place.\<close>

lemma rounded_share:
  fixes f :: "rat \<Rightarrow> rat"
  assumes "0 \<le> u" "u < 1" "0 < w" "0 < t" "0 \<le> c"
    and low: "\<And>x. 0 \<le> x \<Longrightarrow> x * (1 - u) \<le> f x" and high: "\<And>x. 0 \<le> x \<Longrightarrow> f x \<le> x * (1 + u)"
    and nonneg: "\<And>x. 0 \<le> x \<Longrightarrow> 0 \<le> f x" and pos: "\<And>x. 0 < x \<Longrightarrow> 0 < f x"
  shows "w / t * c * ((1 - u) ^ 4 / (1 + u)) \<le> f (f (f w / f t) * f c)"
proof -
  have ft: "0 < f t" "f t \<le> t * (1 + u)" using pos high assms(4) by auto
  have q0: "0 \<le> f w / f t" using nonneg [of w] ft assms(3) by simp
  have "w * (1 - u) / (t * (1 + u)) \<le> f w / f t"
    using low [of w] nonneg [of w] ft assms(1-4) by (intro frac_le) auto
  then have "w * (1 - u) / (t * (1 + u)) * (1 - u) \<le> f w / f t * (1 - u)" using assms(2) by (intro mult_right_mono) auto
  also have "\<dots> \<le> f (f w / f t)" by (rule low [OF q0])
  finally have q: "w * (1 - u) / (t * (1 + u)) * (1 - u) \<le> f (f w / f t)" .
  have "w * (1 - u) / (t * (1 + u)) * (1 - u) * (c * (1 - u)) \<le> f (f w / f t) * f c"
    using q low [OF assms(5)] assms(1-5) nonneg [OF q0] by (intro mult_mono) auto
  then have "w * (1 - u) / (t * (1 + u)) * (1 - u) * (c * (1 - u)) * (1 - u) \<le> f (f w / f t) * f c * (1 - u)"
    using assms(2) by (intro mult_right_mono) auto
  also have "\<dots> \<le> f (f (f w / f t) * f c)" using nonneg [OF q0] nonneg [OF assms(5)] by (intro low) simp
  finally have "w * (1 - u) / (t * (1 + u)) * (1 - u) * (c * (1 - u)) * (1 - u) \<le> f (f (f w / f t) * f c)" .
  moreover have "w * (1 - u) / (t * (1 + u)) * (1 - u) * (c * (1 - u)) * (1 - u) = w / t * c * ((1 - u) ^ 4 / (1 + u))"
    by (simp add: power4_eq_xxxx)
  ultimately show ?thesis by (simp only:)
qed

lemma capacity_lower:
  assumes "0 < w" and "0 < totalPendingWeights s" and "0 \<le> concurrency s" and "currentCapacity w s = Some k"
  shows "of_int w / of_int (totalPendingWeights s) * of_int (concurrency s) * (1 - 5 / 2 ^ 24) \<le> (of_int k :: rat)"
proof -
  let ?t = "of_int (totalPendingWeights s) :: rat" and ?c = "of_int (concurrency s) :: rat" and ?w = "of_int w :: rat"
  let ?u = "1 / 2 ^ 24 :: rat"
  have "?w / ?t * ?c * (1 - 5 / 2 ^ 24) \<le> ?w / ?t * ?c * ((1 - ?u) ^ 4 / (1 + ?u))"
    using assms(1-3) by (intro mult_left_mono) (auto simp: field_simps power4_eq_xxxx)
  also have "\<dots> \<le> to_float (to_float (to_float ?w / to_float ?t) * to_float ?c)"
  proof (rule rounded_share)
    show "x * (1 - ?u) \<le> to_float x" "to_float x \<le> x * (1 + ?u)" "0 \<le> to_float x" if "0 \<le> x" for x
      using that round_to_lower [of 24 x] round_to_upper [of 24 x] round_to_nonneg [of 24 x] by auto
    show "0 < to_float x" if "0 < x" for x using that round_to_pos [of 24 x] by simp
  qed (use assms in auto)
  also have "\<dots> \<le> of_int k" using assms(2,4) by (auto simp: currentCapacity_def Let_def split: if_splits)
  finally show ?thesis .
qed

text \<open>Nor do they gain much: a capacity is far from the limits of \<open>int\<close>.\<close>

lemma rounded_share_upper:
  fixes f :: "rat \<Rightarrow> rat"
  assumes "0 < w" "w \<le> t" "0 \<le> c"
    and low: "\<And>x. 0 \<le> x \<Longrightarrow> x / 2 \<le> f x" and high: "\<And>x. 0 \<le> x \<Longrightarrow> f x \<le> 2 * x"
    and nonneg: "\<And>x. 0 \<le> x \<Longrightarrow> 0 \<le> f x"
  shows "0 \<le> f (f (f w / f t) * f c)" "f (f (f w / f t) * f c) \<le> 32 * c"
proof -
  have t: "0 < f t" "t / 2 \<le> f t" using low [of t] assms(1,2) by auto
  have q0: "0 \<le> f w / f t" using nonneg [of w] t assms(1) by simp
  have "f w / f t \<le> (2 * w) / (t / 2)" using high [of w] nonneg [of w] t assms(1,2) by (intro frac_le) auto
  also have "\<dots> \<le> 4" using assms(1,2) by (simp add: field_simps)
  finally have "f (f w / f t) \<le> 8" using high [OF q0] by simp
  then have "f (f w / f t) * f c \<le> 8 * (2 * c)"
    using high [OF assms(3)] nonneg [OF q0] nonneg [OF assms(3)] by (intro mult_mono) auto
  moreover have "0 \<le> f (f w / f t) * f c" using nonneg [OF q0] nonneg [OF assms(3)] by simp
  ultimately have m: "f (f w / f t) * f c \<le> 8 * (2 * c)" "0 \<le> f (f w / f t) * f c" by blast+
  show "0 \<le> f (f (f w / f t) * f c)" "f (f (f w / f t) * f c) \<le> 32 * c" using high [OF m(2)] nonneg [OF m(2)] m(1) by auto
qed

lemma capacity_defined:
  assumes "0 < w" and "w \<le> totalPendingWeights s" and "0 \<le> concurrency s" and "concurrency s \<le> concurrency_limit"
  shows "\<exists>k. currentCapacity w s = Some k"
proof -
  let ?x = "to_float (to_float (to_float (of_int w) / to_float (of_int (totalPendingWeights s))) * to_float (of_int (concurrency s)))"
  have f: "x / 2 \<le> to_float x" "to_float x \<le> 2 * x" "0 \<le> to_float x" if "0 \<le> x" for x
  proof -
    have "x / 2 \<le> x * (1 - 1 / 2 ^ 24)" "x * (1 + 1 / 2 ^ 24) \<le> 2 * x" using that by simp_all
    then show "x / 2 \<le> to_float x" "to_float x \<le> 2 * x" "0 \<le> to_float x"
      using round_to_lower [of 24 x] round_to_upper [of 24 x] round_to_nonneg [of 24 x] that by linarith+
  qed
  have "0 \<le> ?x" "?x \<le> 32 * of_int (concurrency s)"
    using rounded_share_upper [of "of_int w" "of_int (totalPendingWeights s)" "of_int (concurrency s)" to_float] f assms(1-3) by auto
  moreover have "of_int (concurrency s) \<le> (3000000 :: rat)" using assms(4) by (simp add: concurrency_limit_def)
  ultimately have "0 \<le> \<lceil>?x\<rceil>" "\<lceil>?x\<rceil> \<le> 96000000" by (simp_all add: ceiling_le_iff)
  then show ?thesis using assms(1,2) by (simp add: currentCapacity_def Let_def c_int_def)
qed

lemma no_slot_lost:
  fixes c k :: int
  assumes "0 \<le> c" and "c \<le> concurrency_limit" and "of_int c * (1 - 5 / 2 ^ 24) \<le> (of_int k :: rat)"
  shows "c \<le> k"
proof -
  have "of_int c \<le> (3000000 :: rat)" using assms(2) by (simp add: concurrency_limit_def)
  then have "of_int c - 1 < of_int c * (1 - 5 / 2 ^ 24 :: rat)" by (simp add: algebra_simps)
  then have "of_int (c - 1) < (of_int k :: rat)" using assms(3) by simp
  then show ?thesis by simp
qed

text \<open>A priority that is the only one with waiters may use all slots.\<close>

lemma capacity_alone:
  assumes "0 < w" and "totalPendingWeights s = w" and "0 \<le> concurrency s" and "concurrency s \<le> concurrency_limit"
    and "currentCapacity w s = Some k"
  shows "concurrency s \<le> k"
proof (rule no_slot_lost [OF assms(3,4)])
  have "of_int w / of_int w * of_int (concurrency s) * (1 - 5 / 2 ^ 24) \<le> (of_int k :: rat)"
    using capacity_lower [OF assms(1) _ assms(3,5)] assms(1) unfolding assms(2) by blast
  then show "of_int (concurrency s) * (1 - 5 / 2 ^ 24) \<le> (of_int k :: rat)" using assms(1) by simp
qed

text \<open>The capacities of the priorities with waiters add up to all slots.\<close>

lemma capacities_cover:
  assumes "finite I" and "\<And>i. i \<in> I \<Longrightarrow> 0 < w i" and "totalPendingWeights s = sum w I" and "I \<noteq> {}"
    and "0 \<le> concurrency s" and "concurrency s \<le> concurrency_limit"
    and "\<And>i. i \<in> I \<Longrightarrow> currentCapacity (w i) s = Some (k i)"
  shows "concurrency s \<le> sum k I"
proof (rule no_slot_lost [OF assms(5,6)])
  let ?t = "of_int (totalPendingWeights s) :: rat"
  have t: "0 < totalPendingWeights s" using assms(1-4) by (simp add: sum_pos)
  have "of_int (concurrency s) * (1 - 5 / 2 ^ 24) = (\<Sum>i\<in>I. of_int (w i) / ?t * of_int (concurrency s) * (1 - 5 / 2 ^ 24))"
  proof -
    have "(\<Sum>i\<in>I. of_int (w i) / ?t * of_int (concurrency s) * (1 - 5 / 2 ^ 24)) = (\<Sum>i\<in>I. of_int (w i)) / ?t * of_int (concurrency s) * (1 - 5 / 2 ^ 24)"
      by (simp only: sum_divide_distrib sum_distrib_right)
    also have "(\<Sum>i\<in>I. of_int (w i)) = ?t" using assms(3) by simp
    finally show ?thesis using t by simp
  qed
  also have "\<dots> \<le> (\<Sum>i\<in>I. of_int (k i))"
    using capacity_lower [OF assms(2) t assms(5) assms(7)] by (intro sum_mono) auto
  finally show "of_int (concurrency s) * (1 - 5 / 2 ^ 24) \<le> (of_int (sum k I) :: rat)" by simp
qed

subsection \<open>The books\<close>

definition total :: "(pml_priority \<Rightarrow> int) \<Rightarrow> pml \<Rightarrow> int" where
  "total f s = (\<Sum>i<length (priorities s). f (priorities s ! i))"

definition pending_weight :: "pml_priority \<Rightarrow> int" where
  "pending_weight p = (if pqueue p = [] then 0 else weight p)"

definition queue_length :: "pml_priority \<Rightarrow> int" where
  "queue_length p = int (length (pqueue p))"

text \<open>The number of runners of each priority is the number of its release handlers, and holds with the free slots make
  up the concurrency.\<close>

definition slots_ok :: "int list \<Rightarrow> pml \<Rightarrow> bool" where
  "slots_ok ws s =
     (map weight (priorities s) = ws \<and>
      (\<forall>i < length (priorities s). runners (priorities s ! i) = int (length (filter (\<lambda>h. snd h = i) (held s)))) \<and>
      (\<forall>h \<in> set (held s). snd h < length (priorities s)) \<and>
      available s + total runners s = concurrency s)"

text \<open>The counters of the waiters and of the pending weights are those of the queues; \<open>kill\<close> empties the queues, whose
  waiters fail, and leaves the counters as they are.\<close>

definition waiters_ok :: "pml \<Rightarrow> bool" where
  "waiters_ok s =
     ((if killed s then (\<forall>i < length (priorities s). pqueue (priorities s ! i) = []) \<and> 0 \<le> waiting s \<and> 0 \<le> totalPendingWeights s
       else waiting s = total queue_length s \<and> totalPendingWeights s = total pending_weight s \<and> failed s = []) \<and>
      waiting s < 2 ^ 31 \<and> totalPendingWeights s < 2 ^ 31 \<and>
      (\<forall>i < length (priorities s). sorted_wrt (<) (pqueue (priorities s ! i)) \<and> (\<forall>l \<in> set (pqueue (priorities s ! i)). l < next_lock s)))"

text \<open>While the lock is not halted: the list of the priorities with waiters, the iterator of the runner, and the limit
  on the holders.  One slot is spoken for while the runner is in a callback.\<close>

definition live_ok :: "int \<Rightarrow> pml \<Rightarrow> bool" where
  "live_ok c s =
     (distinct (waitingPriorities s) \<and>
      (\<forall>i. i \<in> set (waitingPriorities s) \<longleftrightarrow> i < length (priorities s) \<and> pqueue (priorities s ! i) \<noteq> []) \<and>
      (\<forall>i. iter s = Some i \<longrightarrow> i \<in> set (waitingPriorities s)) \<and>
      concurrency s = c \<and>
      (if in_callback s then 1 else 0) \<le> available s + (if reentered s then 1 else 0))"

text \<open>After it is halted: no more locks are held than before.\<close>

definition holders_ok :: "int \<Rightarrow> pml \<Rightarrow> bool" where
  "holders_ok c s = (total runners s \<le> c + (if reentered s then 1 else 0))"

definition runner_ok :: "pml \<Rightarrow> bool" where
  "runner_ok s =
     (case runner s of
        Awaiting \<Rightarrow> \<not> broken s \<and> (available s \<le> 0 \<or> waiting s = 0)
      | InCallback i l released \<Rightarrow>
          i < length (priorities s) \<and> l < next_lock s \<and> (\<forall>k \<in> set (pqueue (priorities s ! i)). l < k)
      | EndOfBody l \<Rightarrow> \<not> broken s
      | Finished \<Rightarrow> broken s)"

definition pml_inv :: "int \<Rightarrow> int list \<Rightarrow> pml \<Rightarrow> bool" where
  "pml_inv c ws s =
     (slots_ok ws s \<and> waiters_ok s \<and> (if broken s then concurrency s = 0 \<and> holders_ok c s else live_ok c s) \<and>
      (killed s \<longrightarrow> broken s) \<and> runner_ok s)"

lemmas pml_inv_defs = pml_inv_def slots_ok_def waiters_ok_def live_ok_def holders_ok_def runner_ok_def

lemma sum_update:
  assumes "i < length xs"
  shows "(\<Sum>j<length xs. f (xs[i := x] ! j)) = (\<Sum>j<length xs. f (xs ! j)) - f (xs ! i) + (f x :: int)"
proof -
  have i: "i \<in> {..<length xs}" using assms by simp
  have "(\<Sum>j<length xs. f (xs[i := x] ! j)) = f (xs[i := x] ! i) + (\<Sum>j\<in>{..<length xs} - {i}. f (xs[i := x] ! j))"
    by (rule sum.remove [OF _ i]) simp
  also have "(\<Sum>j\<in>{..<length xs} - {i}. f (xs[i := x] ! j)) = (\<Sum>j\<in>{..<length xs} - {i}. f (xs ! j))"
    by (intro sum.cong) auto
  also have "\<dots> = (\<Sum>j<length xs. f (xs ! j)) - f (xs ! i)" using sum.remove [OF _ i, of "\<lambda>j. f (xs ! j)"] by simp
  finally show ?thesis using assms by simp
qed

lemma total_update:
  "i < length (priorities s) \<Longrightarrow>
     total f (update_priority i g s) = total f s - f (priorities s ! i) + f (g (priorities s ! i))"
  by (simp add: total_def update_priority_def sum_update)

lemma update_priority_simps [simp]:
  "length (priorities (update_priority i g s)) = length (priorities s)"
  "available (update_priority i g s) = available s" "waiting (update_priority i g s) = waiting s"
  "concurrency (update_priority i g s) = concurrency s" "totalPendingWeights (update_priority i g s) = totalPendingWeights s"
  "waitingPriorities (update_priority i g s) = waitingPriorities s" "broken (update_priority i g s) = broken s"
  "killed (update_priority i g s) = killed s" "runner (update_priority i g s) = runner s" "iter (update_priority i g s) = iter s"
  "held (update_priority i g s) = held s" "next_lock (update_priority i g s) = next_lock s"
  "reentered (update_priority i g s) = reentered s" "failed (update_priority i g s) = failed s" "in_callback (update_priority i g s) = in_callback s"
  by (simp_all add: update_priority_def in_callback_def)

lemma nth_update_priority:
  "j < length (priorities s) \<Longrightarrow> priorities (update_priority i g s) ! j = (if j = i then g (priorities s ! i) else priorities s ! j)"
  by (simp add: update_priority_def nth_list_update)

lemma total_cong: "priorities s = priorities s' \<Longrightarrow> total f s = total f s'"
  by (simp add: total_def)

lemma total_nonneg: "(\<And>i. i < length (priorities s) \<Longrightarrow> 0 \<le> f (priorities s ! i)) \<Longrightarrow> 0 \<le> total f s"
  by (auto simp: total_def intro: sum_nonneg)

lemma runners_nonneg: "slots_ok ws s \<Longrightarrow> i < length (priorities s) \<Longrightarrow> 0 \<le> runners (priorities s ! i)"
  by (simp add: slots_ok_def)

lemma weight_pos: "slots_ok ws s \<Longrightarrow> \<forall>w \<in> set ws. 0 < w \<Longrightarrow> i < length (priorities s) \<Longrightarrow> 0 < weight (priorities s ! i)"
  by (auto simp: slots_ok_def)

lemma pending_nonneg: "slots_ok ws s \<Longrightarrow> \<forall>w \<in> set ws. 0 < w \<Longrightarrow> 0 \<le> total pending_weight s"
  by (rule total_nonneg) (auto simp: pending_weight_def dest: weight_pos intro: less_imp_le)

lemma queue_nonneg: "0 \<le> total queue_length s"
  by (rule total_nonneg) (simp add: queue_length_def)

lemma new_inv: "0 \<le> c \<Longrightarrow> pml_inv c ws (PriorityMultiLock_new c ws)"
  by (auto simp: pml_inv_defs PriorityMultiLock_new_def total_def queue_length_def pending_weight_def in_callback_def o_def)

subsection \<open>Giving and taking back a slot\<close>

lemma weights_update:
  "weight (g (priorities s ! i)) = weight (priorities s ! i) \<Longrightarrow>
     map weight (priorities (update_priority i g s)) = map weight (priorities s)"
  by (simp add: update_priority_def map_update) (metis list_update_id map_update)

lemma addRunner_simps [simp]:
  "length (priorities (addRunner l i s)) = length (priorities s)" "waiting (addRunner l i s) = waiting s"
  "concurrency (addRunner l i s) = concurrency s" "totalPendingWeights (addRunner l i s) = totalPendingWeights s"
  "waitingPriorities (addRunner l i s) = waitingPriorities s" "broken (addRunner l i s) = broken s"
  "killed (addRunner l i s) = killed s" "runner (addRunner l i s) = runner s" "iter (addRunner l i s) = iter s"
  "failed (addRunner l i s) = failed s" "next_lock (addRunner l i s) = next_lock s" "reentered (addRunner l i s) = reentered s"
  "available (addRunner l i s) = available s - 1" "in_callback (addRunner l i s) = in_callback s"
  by (simp_all add: addRunner_def Let_def in_callback_def)

lemma pqueue_addRunner [simp]:
  "j < length (priorities s) \<Longrightarrow> pqueue (priorities (addRunner l i s) ! j) = pqueue (priorities s ! j)"
  by (simp add: addRunner_def Let_def nth_update_priority)

lemma slots_addRunner:
  assumes "slots_ok ws s" and "i < length (priorities s)"
  shows "slots_ok ws (addRunner l i s)"
proof -
  have "total runners (addRunner l i s) = total runners s + 1"
    using total_update [OF assms(2), of runners] by (simp add: addRunner_def Let_def total_def)
  moreover have "map weight (priorities (addRunner l i s)) = ws"
    using assms(1) weights_update by (simp add: addRunner_def Let_def slots_ok_def)
  ultimately show ?thesis
    using assms by (auto simp: slots_ok_def) (auto simp: addRunner_def Let_def nth_update_priority)
qed

lemma totals_addRunner:
  assumes "i < length (priorities s)"
  shows "total queue_length (addRunner l i s) = total queue_length s" "total pending_weight (addRunner l i s) = total pending_weight s"
  using total_update [OF assms, of queue_length] total_update [OF assms, of pending_weight]
  by (simp_all add: addRunner_def Let_def total_def queue_length_def pending_weight_def)

lemma waiters_addRunner: "waiters_ok s \<Longrightarrow> i < length (priorities s) \<Longrightarrow> waiters_ok (addRunner l i s)"
  by (auto simp: waiters_ok_def totals_addRunner)

definition release_slot :: "nat \<Rightarrow> nat \<Rightarrow> pml \<Rightarrow> pml" where
  "release_slot l i s =
     update_priority i (\<lambda>p. p\<lparr>runners := runners p - 1\<rparr>) (s\<lparr>available := available s + 1, held := remove1 (l, i) (held s)\<rparr>)"

lemma release_slot_simps [simp]:
  "length (priorities (release_slot l i s)) = length (priorities s)" "waiting (release_slot l i s) = waiting s"
  "concurrency (release_slot l i s) = concurrency s" "totalPendingWeights (release_slot l i s) = totalPendingWeights s"
  "waitingPriorities (release_slot l i s) = waitingPriorities s" "broken (release_slot l i s) = broken s"
  "killed (release_slot l i s) = killed s" "runner (release_slot l i s) = runner s" "iter (release_slot l i s) = iter s"
  "failed (release_slot l i s) = failed s" "next_lock (release_slot l i s) = next_lock s" "reentered (release_slot l i s) = reentered s"
  "available (release_slot l i s) = available s + 1" "in_callback (release_slot l i s) = in_callback s"
  by (simp_all add: release_slot_def in_callback_def)

lemma pqueue_release_slot [simp]:
  "j < length (priorities s) \<Longrightarrow> pqueue (priorities (release_slot l i s) ! j) = pqueue (priorities s ! j)"
  by (simp add: release_slot_def nth_update_priority)

lemma length_filter_remove1:
  "x \<in> set xs \<Longrightarrow> int (length (filter P (remove1 x xs))) = int (length (filter P xs)) - (if P x then 1 else 0)"
  by (induction xs) auto

lemma slots_release_slot:
  assumes "slots_ok ws s" and "(l, i) \<in> set (held s)"
  shows "slots_ok ws (release_slot l i s)"
proof -
  let ?s = "s\<lparr>available := available s + 1, held := remove1 (l, i) (held s)\<rparr>"
  have i: "i < length (priorities s)" using assms by (auto simp: slots_ok_def)
  then have "total runners (release_slot l i s) = total runners s - 1"
    using total_update [of i ?s runners] by (simp add: release_slot_def total_def)
  moreover have "map weight (priorities (release_slot l i s)) = ws"
    using assms(1) weights_update [of _ ?s i] by (simp add: release_slot_def slots_ok_def)
  moreover have "\<forall>h \<in> set (remove1 (l, i) (held s)). snd h < length (priorities s)"
    using assms(1) set_remove1_subset by (fastforce simp: slots_ok_def)
  ultimately show ?thesis
    using assms i by (simp add: slots_ok_def) (simp add: release_slot_def nth_update_priority length_filter_remove1)
qed

lemma waiters_release_slot:
  assumes "waiters_ok s" "i < length (priorities s)" shows "waiters_ok (release_slot l i s)"
proof -
  let ?s = "s\<lparr>available := available s + 1, held := remove1 (l, i) (held s)\<rparr>"
  have "total queue_length (release_slot l i s) = total queue_length s" "total pending_weight (release_slot l i s) = total pending_weight s"
    using assms(2) total_update [of i ?s queue_length] total_update [of i ?s pending_weight]
    by (simp_all add: release_slot_def total_def queue_length_def pending_weight_def)
  then show ?thesis using assms(1) by (auto simp: waiters_ok_def)
qed

subsection \<open>The search for a priority\<close>

definition first_of :: "nat list \<Rightarrow> nat option" where
  "first_of zs = (case zs of [] \<Rightarrow> None | x # _ \<Rightarrow> Some x)"

lemma next_in_suffix: "x \<notin> set ys \<Longrightarrow> next_in x (ys @ x # zs) = first_of zs"
proof -
  assume "x \<notin> set ys"
  then have "dropWhile (\<lambda>z. z \<noteq> x) (ys @ x # zs) = x # zs" by (induction ys) auto
  then show ?thesis by (simp add: next_in_def first_of_def split: list.split)
qed

lemma scan_suffix:
  "distinct (waitingPriorities s) \<Longrightarrow> waitingPriorities s = ys @ zs \<Longrightarrow>
   scan (length zs + m) s (first_of zs) = (case find (eligible s) zs of Some j \<Rightarrow> Some j | None \<Rightarrow> scan m s None)"
proof (induction zs arbitrary: ys)
  case (Cons x zs)
  then have "next_in x (waitingPriorities s) = first_of zs" by (simp add: next_in_suffix)
  then show ?case using Cons.IH [of "ys @ [x]"] Cons.prems by (simp add: first_of_def)
qed (simp add: first_of_def)

lemma scan_start: "waitingPriorities s \<noteq> [] \<Longrightarrow> scan n s None = scan n s (first_of (waitingPriorities s))"
  by (cases n) (auto simp: first_of_def split: list.split)

lemma scan_finds:
  assumes "distinct (waitingPriorities s)" and "\<And>i. iter s = Some i \<Longrightarrow> i \<in> set (waitingPriorities s)"
    and "\<exists>i \<in> set (waitingPriorities s). eligible s i"
  shows "\<exists>i \<in> set (waitingPriorities s). scan (2 * length (waitingPriorities s) + 2) s (iter s) = Some i \<and> eligible s i"
proof -
  let ?w = "waitingPriorities s"
  obtain ys zs where z: "?w = ys @ zs" "iter s = first_of zs"
  proof (cases "iter s")
    case None
    then show ?thesis using that [of ?w "[]"] by (simp add: first_of_def)
  next
    case (Some i)
    then obtain ys zs where "?w = ys @ i # zs" using assms(2) split_list by metis
    then show ?thesis using that [of ys "i # zs"] Some by (simp add: first_of_def)
  qed
  have found: "\<exists>j \<in> set xs. find (eligible s) xs = Some j \<and> eligible s j" if "\<exists>i \<in> set xs. eligible s i" for xs
    using that by (induction xs) auto
  have w: "scan (length ?w + r) s None = (case find (eligible s) ?w of Some j \<Rightarrow> Some j | None \<Rightarrow> scan r s None)" for r
    using scan_suffix [OF assms(1), of "[]" ?w r] scan_start [of s] assms(3) by (metis append_Nil bex_empty list.set(1))
  let ?r = "2 + length ys"
  have "2 * length ?w + 2 = length zs + (length ?w + ?r)" using z(1) by simp
  then have eq: "scan (2 * length ?w + 2) s (iter s) = (case find (eligible s) zs of Some j \<Rightarrow> Some j | None \<Rightarrow> scan (length ?w + ?r) s None)"
    using scan_suffix [OF assms(1) z(1), of "length ?w + ?r"] z(2) by (simp only:)
  show ?thesis
  proof (cases "find (eligible s) zs")
    case None
    obtain j where j: "j \<in> set ?w" "find (eligible s) ?w = Some j" "eligible s j" using found [OF assms(3)] by blast
    have "scan (2 * length ?w + 2) s (iter s) = Some j" by (simp only: eq None w j(2) option.case)
    then show ?thesis using j by blast
  next
    case (Some j)
    then have "j \<in> set ?w" "eligible s j" using z(1) by (auto simp: find_Some_iff)
    moreover have "scan (2 * length ?w + 2) s (iter s) = Some j" by (simp only: eq Some option.case)
    ultimately show ?thesis by blast
  qed
qed

text \<open>The search is only made when it can succeed.\<close>

lemma some_eligible:
  assumes "slots_ok ws s" "waiters_ok s" "live_ok c s" "\<not> killed s" "\<forall>w \<in> set ws. 0 < w" "c \<le> concurrency_limit"
    and "0 < available s" "0 < waiting s"
  shows "\<exists>i \<in> set (waitingPriorities s). eligible s i"
proof (rule ccontr)
  assume none: "\<not> ?thesis"
  let ?I = "set (waitingPriorities s)" and ?n = "length (priorities s)" and ?p = "\<lambda>i. priorities s ! i"
  have I: "i \<in> ?I \<longleftrightarrow> i < ?n \<and> pqueue (?p i) \<noteq> []" for i using assms(3) by (simp add: live_ok_def)
  have w: "0 < weight (?p i)" if "i \<in> ?I" for i using that I [of i] weight_pos [OF assms(1,5)] by simp
  have "total pending_weight s = (\<Sum>i\<in>?I. weight (?p i))"
    unfolding total_def by (rule sum.mono_neutral_cong_right) (auto simp: I pending_weight_def)
  then have T: "totalPendingWeights s = (\<Sum>i\<in>?I. weight (?p i))" using assms(2,4) by (simp add: waiters_ok_def)
  have "?I \<noteq> {}"
  proof
    assume "?I = {}"
    then have "queue_length (?p i) = 0" if "i < ?n" for i using that I [of i] by (simp add: queue_length_def)
    then have "total queue_length s = 0" by (simp add: total_def)
    then show False using assms(2,4,8) by (simp add: waiters_ok_def)
  qed
  have nn: "0 \<le> runners (?p i)" if "i < ?n" for i using runners_nonneg [OF assms(1) that] .
  have "concurrency s = available s + total runners s" using assms(1) by (simp add: slots_ok_def)
  moreover have "0 \<le> total runners s" using nn by (rule total_nonneg)
  ultimately have c: "0 \<le> concurrency s" "total runners s < concurrency s" using assms(7) by auto
  have cap: "currentCapacity (weight (?p i)) s = Some (the (currentCapacity (weight (?p i)) s))" if "i \<in> ?I" for i
  proof -
    have "weight (?p i) \<le> totalPendingWeights s" unfolding T using that w by (intro member_le_sum) (auto intro: less_imp_le)
    then show ?thesis using capacity_defined [OF w [OF that] _ c(1)] assms(3,6) by (auto simp: live_ok_def)
  qed
  have "concurrency s \<le> (\<Sum>i\<in>?I. the (currentCapacity (weight (?p i)) s))"
    using w T \<open>?I \<noteq> {}\<close> c(1) assms(3,6) cap by (intro capacities_cover) (auto simp: live_ok_def)
  also have "\<dots> \<le> (\<Sum>i\<in>?I. runners (?p i))"
  proof (rule sum_mono)
    fix i assume "i \<in> ?I"
    then show "the (currentCapacity (weight (?p i)) s) \<le> runners (?p i)"
      using none I [of i] cap [of i] by (fastforce simp: eligible_def Let_def split: option.splits)
  qed
  also have "\<dots> \<le> total runners s" unfolding total_def using I nn by (intro sum_mono2) auto
  finally show False using c(2) by simp
qed

subsection \<open>The launch loop\<close>

lemma next_in_mem:
  assumes "distinct xs" "next_in i xs = Some j" shows "j \<in> set xs \<and> j \<noteq> i"
proof (cases "i \<in> set xs")
  case True
  then obtain ys zs where "xs = ys @ i # zs" by (meson split_list)
  then show ?thesis using assms by (auto simp: next_in_suffix first_of_def split: list.splits)
next
  case False
  then have none: "dropWhile (\<lambda>x. x \<noteq> i) xs = []" by auto
  show ?thesis using assms(2) unfolding next_in_def none by simp
qed

lemma slots_cong:
  "priorities s' = priorities s \<Longrightarrow> held s' = held s \<Longrightarrow> available s' = available s \<Longrightarrow> concurrency s' = concurrency s \<Longrightarrow>
   slots_ok ws s' = slots_ok ws s"
  by (simp add: slots_ok_def total_def)

lemma take_waiter_simps [simp]:
  "length (priorities (take_waiter i s)) = length (priorities s)" "available (take_waiter i s) = available s"
  "concurrency (take_waiter i s) = concurrency s" "waiting (take_waiter i s) = waiting s - 1" "held (take_waiter i s) = held s"
  "broken (take_waiter i s) = broken s" "killed (take_waiter i s) = killed s" "next_lock (take_waiter i s) = next_lock s"
  "reentered (take_waiter i s) = reentered s" "failed (take_waiter i s) = failed s" "runner (take_waiter i s) = InCallback i (hd (pqueue (priorities s ! i))) False"
  by (simp_all add: take_waiter_def Let_def)

lemma priorities_take_waiter: "priorities (take_waiter i s) = priorities (update_priority i (\<lambda>p. p\<lparr>pqueue := tl (pqueue p)\<rparr>) s)"
  by (simp add: take_waiter_def Let_def)

lemma slots_take_waiter:
  assumes "slots_ok ws s" "i < length (priorities s)" shows "slots_ok ws (take_waiter i s)"
proof -
  have "total runners (take_waiter i s) = total runners s"
    using total_update [OF assms(2), of runners] by (simp add: total_def priorities_take_waiter)
  moreover have "map weight (priorities (take_waiter i s)) = ws"
    using assms(1) weights_update by (simp add: priorities_take_waiter slots_ok_def)
  ultimately show ?thesis using assms by (simp add: slots_ok_def) (simp add: priorities_take_waiter nth_update_priority)
qed

lemma waiters_take_waiter:
  assumes "waiters_ok s" "i < length (priorities s)" "pqueue (priorities s ! i) \<noteq> []" "0 < weight (priorities s ! i)"
  shows "waiters_ok (take_waiter i s)"
proof -
  have "total queue_length (take_waiter i s) = total queue_length s - 1"
    using total_update [OF assms(2), of queue_length] assms(3)
    by (cases "pqueue (priorities s ! i)") (simp_all add: total_def priorities_take_waiter queue_length_def)
  moreover have "totalPendingWeights (take_waiter i s) = total pending_weight (take_waiter i s) - total pending_weight s + totalPendingWeights s"
    using total_update [OF assms(2), of pending_weight] assms(2,3)
    by (simp add: total_def priorities_take_waiter pending_weight_def) (auto simp: take_waiter_def Let_def nth_update_priority)
  moreover have "totalPendingWeights (take_waiter i s) \<le> totalPendingWeights s" "\<not> killed s"
    using assms by (auto simp: take_waiter_def Let_def nth_update_priority waiters_ok_def split: if_splits)
  moreover have "sorted_wrt (<) (pqueue (priorities (take_waiter i s) ! j)) \<and>
      (\<forall>l \<in> set (pqueue (priorities (take_waiter i s) ! j)). l < next_lock s)" if "j < length (priorities s)" for j
    using that assms(1)
    by (cases "pqueue (priorities s ! j)") (auto simp: priorities_take_waiter nth_update_priority waiters_ok_def)
  ultimately show ?thesis using assms(1) by (simp add: waiters_ok_def)
qed

lemma live_take_waiter:
  assumes "live_ok c s" "\<not> in_callback s" "0 < available s" "i \<in> set (waitingPriorities s)"
  shows "live_ok c (take_waiter i s)"
proof -
  let ?q = "tl (pqueue (priorities s ! i))"
  have I: "i < length (priorities s)" "pqueue (priorities s ! i) \<noteq> []" "distinct (waitingPriorities s)"
    using assms by (auto simp: live_ok_def)
  have all: "j \<in> set (waitingPriorities s) \<longleftrightarrow> j < length (priorities s) \<and> pqueue (priorities s ! j) \<noteq> []" for j
    using assms(1) by (simp add: live_ok_def)
  have w: "waitingPriorities (take_waiter i s) = (if ?q = [] then remove1 i (waitingPriorities s) else waitingPriorities s)"
    and it: "iter (take_waiter i s) = (if ?q = [] then next_in i (waitingPriorities s) else Some i)"
    using I(1) by (simp_all add: take_waiter_def Let_def nth_update_priority)
  have "j \<in> set (waitingPriorities (take_waiter i s)) \<longleftrightarrow> j < length (priorities s) \<and> pqueue (priorities (take_waiter i s) ! j) \<noteq> []" for j
  proof (cases "j = i")
    case True
    then show ?thesis using I assms(4) unfolding w by (simp add: priorities_take_waiter nth_update_priority)
  next
    case False
    then have "j \<in> set (waitingPriorities (take_waiter i s)) \<longleftrightarrow> j \<in> set (waitingPriorities s)"
      using I(3) unfolding w by simp
    also have "\<dots> \<longleftrightarrow> j < length (priorities s) \<and> pqueue (priorities (take_waiter i s) ! j) \<noteq> []"
      using False all [of j] by (auto simp: priorities_take_waiter nth_update_priority)
    finally show ?thesis .
  qed
  moreover have "j \<in> set (waitingPriorities (take_waiter i s))" if "iter (take_waiter i s) = Some j" for j
    using that next_in_mem [OF I(3), of i j] I(3) assms(4) unfolding w it by (auto split: if_splits)
  ultimately show ?thesis
    using assms I(3) unfolding live_ok_def w by (auto simp: in_callback_def)
qed

lemma launch_inv:
  assumes "slots_ok ws s" "waiters_ok s" "live_ok c s" "\<not> broken s" "\<not> killed s" "\<not> in_callback s"
    and "\<forall>w \<in> set ws. 0 < w" "c \<le> concurrency_limit"
  shows "\<exists>s'. launch s = Some s' \<and> pml_inv c ws s'"
proof (cases "available s > 0 \<and> waiting s > 0")
  case True
  then obtain i where i: "i \<in> set (waitingPriorities s)" "scan (2 * length (waitingPriorities s) + 2) s (iter s) = Some i"
    using scan_finds [OF _ _ some_eligible [OF assms(1,2,3,5,7,8)]] assms(3) by (auto simp: live_ok_def simp del: scan.simps)
  have b: "i < length (priorities s)" "pqueue (priorities s ! i) \<noteq> []" using i(1) assms(3) by (auto simp: live_ok_def)
  have "hd (pqueue (priorities s ! i)) < next_lock s \<and> (\<forall>k \<in> set (tl (pqueue (priorities s ! i))). hd (pqueue (priorities s ! i)) < k)"
    using assms(2) b by (cases "pqueue (priorities s ! i)") (auto simp: waiters_ok_def)
  then have "runner_ok (take_waiter i s)"
    using b(1) by (simp add: runner_ok_def) (simp add: priorities_take_waiter nth_update_priority)
  then have "pml_inv c ws (take_waiter i s)"
    using slots_take_waiter [OF assms(1) b(1)] waiters_take_waiter [OF assms(2) b weight_pos [OF assms(1,7) b(1)]]
      live_take_waiter [OF assms(3,6) _ i(1)] True assms(4,5)
    by (simp add: pml_inv_def)
  then show ?thesis using True i(2) by (simp add: launch_def del: scan.simps)
next
  case False
  let ?s = "s\<lparr>runner := Awaiting\<rparr>"
  have "0 \<le> waiting s"
    using assms(2,5) queue_nonneg [of s] by (simp add: waiters_ok_def)
  then have "pml_inv c ws ?s"
    using assms False by (auto simp: pml_inv_defs total_def in_callback_def)
  then show ?thesis using False by (auto simp: launch_def)
qed

subsection \<open>lock keeps the books\<close>

text \<open>A caller of \<open>lock\<close> that has to wait; the priority joins the list when it had no waiters.\<close>

definition announced :: "nat \<Rightarrow> pml \<Rightarrow> pml" where
  "announced i s =
     (if pqueue (priorities s ! i) = [] then
        s\<lparr>totalPendingWeights := totalPendingWeights s + weight (priorities s ! i), waitingPriorities := waitingPriorities s @ [i]\<rparr>
      else s)"

lemma announced_simps [simp]:
  "priorities (announced i s) = priorities s" "available (announced i s) = available s" "concurrency (announced i s) = concurrency s"
  "waiting (announced i s) = waiting s" "held (announced i s) = held s" "broken (announced i s) = broken s"
  "killed (announced i s) = killed s" "next_lock (announced i s) = next_lock s" "reentered (announced i s) = reentered s"
  "failed (announced i s) = failed s" "runner (announced i s) = runner s" "iter (announced i s) = iter s" "in_callback (announced i s) = in_callback s"
  by (simp_all add: announced_def in_callback_def)

lemma lock_wait_inv:
  assumes "pml_inv c ws s" and "i < length (priorities s)" and "\<not> killed s" and "runner s = Awaiting \<Longrightarrow> available s \<le> 0"
    and "c_int (totalPendingWeights (announced i s))" and "lock_wait i (announced i s) = Some (t, r)"
  shows "pml_inv c ws t"
proof -
  let ?f = "\<lambda>p. p\<lparr>pqueue := pqueue p @ [next_lock s]\<rparr>"
  have w: "waiting s + 1 < 2 ^ 31" and t_def: "t = update_priority i ?f (announced i s)\<lparr>waiting := waiting s + 1, next_lock := next_lock s + 1\<rparr>"
    using assms(6) by (auto simp: lock_wait_def Let_def c_int_def split: if_splits)
  have ps: "priorities t = priorities (update_priority i ?f s)" by (simp add: t_def update_priority_def)
  have n: "length (priorities t) = length (priorities s)" by (simp add: ps)
  have nth: "priorities t ! j = (if j = i then ?f (priorities s ! i) else priorities s ! j)" if "j < length (priorities s)" for j
    using that by (simp add: ps nth_update_priority)
  have fields: "available t = available s" "concurrency t = concurrency s" "held t = held s" "broken t = broken s"
    "killed t = killed s" "reentered t = reentered s" "runner t = runner s" "iter t = iter s" "waiting t = waiting s + 1"
    "next_lock t = next_lock s + 1" "in_callback t = in_callback s" "waitingPriorities t = waitingPriorities (announced i s)"
    "totalPendingWeights t = totalPendingWeights (announced i s)" "failed t = failed s"
    by (simp_all add: t_def in_callback_def)
  have rt: "total runners t = total runners s" using total_update [OF assms(2), of runners ?f] by (simp add: total_def ps)
  have "slots_ok ws t"
  proof -
    note rt
    moreover have "map weight (priorities t) = ws" using assms(1) weights_update [of ?f s i] by (simp add: ps pml_inv_defs)
    ultimately show ?thesis using assms(1) nth by (auto simp: pml_inv_defs fields n)
  qed
  moreover have "waiters_ok t"
  proof -
    have "total queue_length t = total queue_length s + 1"
      using total_update [OF assms(2), of queue_length ?f] by (simp add: total_def ps queue_length_def)
    moreover have "total pending_weight t = total pending_weight s + (if pqueue (priorities s ! i) = [] then weight (priorities s ! i) else 0)"
      using total_update [OF assms(2), of pending_weight ?f] by (simp add: total_def ps pending_weight_def)
    moreover have "sorted_wrt (<) (pqueue (priorities t ! j)) \<and> (\<forall>l \<in> set (pqueue (priorities t ! j)). l < next_lock s + 1)"
      if "j < length (priorities s)" for j
      using that assms(1,2) nth [OF that] by (auto simp: pml_inv_defs sorted_wrt_append less_SucI)
    ultimately show ?thesis using assms(1,3,5) w by (simp add: pml_inv_def waiters_ok_def c_int_def fields n) (simp add: announced_def)
  qed
  moreover have "live_ok c t" if "\<not> broken s"
  proof -
    have live: "live_ok c s" using assms(1) that by (simp add: pml_inv_def)
    then have w: "distinct (waitingPriorities s)"
      "\<And>j. j \<in> set (waitingPriorities s) \<longleftrightarrow> j < length (priorities s) \<and> pqueue (priorities s ! j) \<noteq> []"
      by (simp_all add: live_ok_def)
    have "j \<in> set (waitingPriorities t) \<longleftrightarrow> j < length (priorities s) \<and> pqueue (priorities t ! j) \<noteq> []" for j
      using w(2) [of j] w(2) [of i] assms(2) nth [of j] by (cases "j = i") (auto simp: fields announced_def)
    moreover have "distinct (waitingPriorities t)" using w by (simp add: fields announced_def)
    moreover have "set (waitingPriorities s) \<subseteq> set (waitingPriorities t)" by (auto simp: fields announced_def)
    ultimately show ?thesis using live by (auto simp: live_ok_def fields n)
  qed
  moreover have "runner_ok t"
  proof -
    have "x \<in> set (pqueue (priorities s ! j)) \<or> x = next_lock s" if "j < length (priorities s)" "x \<in> set (pqueue (priorities t ! j))" for j x
      using that nth [OF that(1)] by (auto split: if_splits)
    then show ?thesis using assms(1,4) by (fastforce simp: pml_inv_def runner_ok_def fields n split: runner_pc.splits)
  qed
  moreover have "holders_ok c t = holders_ok c s" by (simp add: holders_ok_def rt fields)
  ultimately show ?thesis using assms(1) by (simp add: pml_inv_def fields)
qed

lemma waiters_next: "waiters_ok s \<Longrightarrow> waiters_ok (s\<lparr>next_lock := next_lock s + 1, reentered := b\<rparr>)"
  by (auto simp: waiters_ok_def total_def intro: less_SucI)

lemma lock_nowait_inv:
  assumes "pml_inv c ws s" and "i < length (priorities s)" and "0 < available s" and "\<not> broken s"
  shows "pml_inv c ws (fst (lock_nowait i s))"
proof -
  let ?s = "fst (lock_nowait i s)"
  have ps: "priorities ?s = priorities (addRunner (next_lock s) i s)" by (simp add: lock_nowait_def Let_def)
  have sl: "slots_ok ws ?s" 
    using slots_addRunner [OF _ assms(2), of ws "next_lock s"] assms(1) slots_cong [of ?s "addRunner (next_lock s) i s" ws]
    by (simp add: pml_inv_def lock_nowait_def Let_def)
  have wa: "waiters_ok ?s"
    using waiters_next [OF waiters_addRunner [OF _ assms(2), of "next_lock s"]] assms(1)
    by (simp add: pml_inv_def lock_nowait_def Let_def)
  have li: "live_ok c ?s"
    using assms by (auto simp: pml_inv_defs lock_nowait_def Let_def in_callback_def split: runner_pc.splits)
  have ru: "runner_ok ?s"
    using assms by (auto simp: pml_inv_defs lock_nowait_def Let_def split: runner_pc.splits)
  show ?thesis using sl wa li ru assms(1,4) by (simp add: pml_inv_def lock_nowait_def Let_def)
qed

lemma broken_not_available:
  assumes "pml_inv c ws s" "broken s" shows "available s \<le> 0"
proof -
  have "0 \<le> total runners s" using assms(1) by (intro total_nonneg runners_nonneg) (auto simp: pml_inv_def)
  then show ?thesis using assms by (simp add: pml_inv_def slots_ok_def)
qed

lemma idle_capacity:
  assumes "pml_inv c ws s" "i < length (priorities s)" "\<forall>w \<in> set ws. 0 < w" "c \<le> concurrency_limit"
    and "runner s = Awaiting" "0 < available s"
    and "currentCapacity (weight (priorities s ! i)) (s\<lparr>totalPendingWeights := totalPendingWeights s + weight (priorities s ! i)\<rparr>) = Some k"
  shows "runners (priorities s ! i) < k"
proof -
  let ?p = "\<lambda>j. priorities s ! j"
  have ok: "slots_ok ws s" "waiters_ok s" "live_ok c s" "\<not> killed s" "waiting s = 0"
    using assms by (auto simp: pml_inv_def runner_ok_def)
  have w: "0 < weight (?p i)" by (rule weight_pos [OF ok(1) assms(3,2)])
  have "(\<Sum>j<length (priorities s). queue_length (?p j)) = 0" using ok by (simp add: waiters_ok_def total_def)
  then have "\<forall>j \<in> {..<length (priorities s)}. queue_length (?p j) = 0"
    by (subst (asm) sum_nonneg_eq_0_iff) (auto simp: queue_length_def)
  then have "total pending_weight s = 0" by (simp add: total_def pending_weight_def queue_length_def)
  then have T: "totalPendingWeights s = 0" using ok by (simp add: waiters_ok_def)
  have nn: "0 \<le> runners (?p j)" if "j < length (priorities s)" for j using runners_nonneg [OF ok(1) that] .
  have "runners (?p i) \<le> total runners s" unfolding total_def using assms(2) nn by (intro member_le_sum) auto
  then have r: "runners (?p i) < concurrency s" using ok(1) assms(6) by (simp add: slots_ok_def)
  have "concurrency s \<le> concurrency_limit" using ok(3) assms(4) by (simp add: live_ok_def)
  then have "concurrency s \<le> k"
    using capacity_alone [OF w, of "s\<lparr>totalPendingWeights := totalPendingWeights s + weight (?p i)\<rparr>" k] assms(7) r nn [OF assms(2)] T by simp
  then show ?thesis using r by simp
qed

lemma lock_inv:
  assumes "pml_inv c ws s" "\<forall>w \<in> set ws. 0 < w" "c \<le> concurrency_limit" "lock i s = Some (s', r)"
  shows "pml_inv c ws s'"
proof (cases "killed s")
  case True
  then show ?thesis using assms by (simp add: lock_def)
next
  case False
  let ?p = "priorities s ! i" let ?s = "s\<lparr>totalPendingWeights := totalPendingWeights s + weight ?p\<rparr>"
  have i: "i < length (priorities s)" using assms(4) False by (auto simp: lock_def split: if_splits)
  have idle: "available s \<le> 0" if "runner s = Awaiting" "pqueue ?p \<noteq> []"
  proof -
    have "queue_length ?p \<le> total queue_length s" unfolding total_def using i by (intro member_le_sum) (auto simp: queue_length_def)
    then have "waiting s \<noteq> 0" using that(2) assms(1) False by (auto simp: pml_inv_def waiters_ok_def queue_length_def)
    then show ?thesis using that(1) assms(1) by (simp add: pml_inv_def runner_ok_def)
  qed
  consider (now) "pqueue ?p = []" "0 < available s" "s' = fst (lock_nowait i s)"
    | (wait) "lock_wait i (announced i s) = Some (s', r)" "c_int (totalPendingWeights (announced i s))" "runner s = Awaiting \<Longrightarrow> available s \<le> 0"
  proof (cases "pqueue ?p = [] \<and> available s > 0")
    case True
    then obtain k where k: "currentCapacity (weight ?p) ?s = Some k" and fits: "c_int (totalPendingWeights s + weight ?p)"
      using assms(4) False i by (auto simp: lock_def Let_def split: option.splits if_splits)
    show ?thesis
    proof (cases "runners ?p < k")
      case True
      then show ?thesis using that(1) k fits \<open>pqueue ?p = [] \<and> _\<close> assms(4) \<open>\<not> killed s\<close> i by (simp add: lock_def Let_def)
    next
      case False
      then show ?thesis
        using that(2) k fits \<open>pqueue ?p = [] \<and> _\<close> assms(4) \<open>\<not> killed s\<close> i idle_capacity [OF assms(1) i assms(2,3) _ _ k]
        by (auto simp: lock_def Let_def announced_def)
    qed
  next
    case False
    have "c_int (totalPendingWeights s)" if "pqueue ?p \<noteq> []"
      using assms(1,2) \<open>\<not> killed s\<close> pending_nonneg [of ws s] by (simp add: pml_inv_def waiters_ok_def c_int_def)
    with False show ?thesis
      using that(2) assms(4) \<open>\<not> killed s\<close> i idle by (auto simp: lock_def Let_def announced_def split: if_splits)
  qed
  then show ?thesis
  proof cases
    case now
    then have "\<not> broken s" using broken_not_available [OF assms(1)] by auto
    then show ?thesis using now lock_nowait_inv [OF assms(1) i] by simp
  next
    case wait
    then show ?thesis using lock_wait_inv [OF assms(1) i False] by blast
  qed
qed

subsection \<open>The other steps\<close>

lemma releaseRunner_inv:
  assumes "pml_inv c ws s" "\<forall>w \<in> set ws. 0 < w" "c \<le> concurrency_limit" "(l, i) \<in> set (held s)"
  shows "\<exists>s'. releaseRunner l i s = Some s' \<and> pml_inv c ws s'"
proof -
  have i: "i < length (priorities s)" using assms(1,4) by (auto simp: pml_inv_defs)
  have sl: "slots_ok ws (release_slot l i s)" "waiters_ok (release_slot l i s)"
    using assms(1,4) i slots_release_slot waiters_release_slot by (auto simp: pml_inv_def)
  have live: "live_ok c (release_slot l i s)" if "\<not> broken s"
    using that assms(1) by (auto simp: pml_inv_def live_ok_def)
  have "total runners (release_slot l i s) = total runners s - 1"
    using sl(1) assms(1) by (simp add: pml_inv_def slots_ok_def)
  then have hold: "holders_ok c (release_slot l i s)" if "broken s" using that assms(1) by (simp add: pml_inv_def holders_ok_def)
  have eq: "releaseRunner l i s =
      (if waiting s > 0 \<and> runner s = Awaiting then launch (release_slot l i s) else Some (release_slot l i s))"
    by (simp add: releaseRunner_def release_slot_def Let_def)
  show ?thesis
  proof (cases "waiting s > 0 \<and> runner s = Awaiting")
    case True
    then have "\<not> broken s" "\<not> killed s" "\<not> in_callback s"
      using assms(1) by (auto simp: pml_inv_def runner_ok_def in_callback_def)
    then show ?thesis using launch_inv [OF sl live _ _ _ assms(2,3)] True eq by simp
  next
    case False
    have "0 \<le> waiting s" if "\<not> killed s"
      using that assms(1) queue_nonneg [of s] by (simp add: pml_inv_def waiters_ok_def)
    then have "runner_ok (release_slot l i s)"
      using assms(1) False by (auto simp: pml_inv_def runner_ok_def split: runner_pc.splits)
    then show ?thesis using eq False sl live hold assms(1) by (simp add: pml_inv_def)
  qed
qed

lemma release_inv:
  assumes "pml_inv c ws s" "\<forall>w \<in> set ws. 0 < w" "c \<le> concurrency_limit" "release l s = Some s'"
  shows "pml_inv c ws s'"
proof -
  have handler: "pml_inv c ws s'"
    if given: "(case find (\<lambda>h. fst h = l) (held s) of None \<Rightarrow> None | Some (l, i) \<Rightarrow> releaseRunner l i s) = Some s'"
  proof -
    obtain k i where f: "find (\<lambda>h. fst h = l) (held s) = Some (k, i)" using given by (auto split: option.splits)
    then have "(k, i) \<in> set (held s)" by (auto simp: find_Some_iff in_set_conv_nth)
    then show ?thesis using releaseRunner_inv [OF assms(1-3), of k i] given f by auto
  qed
  show ?thesis
  proof (cases "\<exists>i released. runner s = InCallback i l released")
    case True
    then obtain i where "runner s = InCallback i l False" "s' = s\<lparr>runner := InCallback i l True\<rparr>"
      using assms(4) by (auto simp: release_def split: if_splits)
    then show ?thesis using assms(1) by (auto simp: pml_inv_defs total_def in_callback_def)
  next
    case False
    then show ?thesis using assms(4) handler by (auto simp: release_def split: runner_pc.splits)
  qed
qed

lemma live_holders: "slots_ok ws s \<Longrightarrow> live_ok c s \<Longrightarrow> holders_ok c s"
  by (auto simp: slots_ok_def live_ok_def holders_ok_def split: if_splits)

lemma halt_simps [simp]:
  "priorities (halt s) = priorities s" "held (halt s) = held s" "waiting (halt s) = waiting s" "killed (halt s) = killed s"
  "totalPendingWeights (halt s) = totalPendingWeights s" "next_lock (halt s) = next_lock s" "reentered (halt s) = reentered s"
  "failed (halt s) = failed s" "concurrency (halt s) = 0" "available (halt s) = available s - concurrency s" "broken (halt s)"
  "runner (halt s) = (if in_callback s then runner s else Finished)" "in_callback (halt s) = in_callback s"
  by (simp_all add: halt_def in_callback_def)

lemma halt_inv:
  assumes "pml_inv c ws s" shows "pml_inv c ws (halt s)"
proof -
  have "holders_ok c s" using assms live_holders by (auto simp: pml_inv_def split: if_splits)
  then have "holders_ok c (halt s)" by (simp add: holders_ok_def total_def)
  moreover have "total runners (halt s) = total runners s" by (rule total_cong) simp
  then have "slots_ok ws (halt s)" using assms by (simp add: pml_inv_def slots_ok_def)
  moreover have "waiters_ok (halt s)" using assms by (simp add: pml_inv_def waiters_ok_def total_def)
  moreover have "runner_ok (halt s)"
    using assms by (cases "runner s") (simp_all add: pml_inv_def runner_ok_def in_callback_def)
  ultimately show ?thesis by (simp add: pml_inv_def)
qed

lemma kill_inv:
  assumes "pml_inv c ws s" "\<forall>w \<in> set ws. 0 < w" shows "pml_inv c ws (kill s)"
proof (cases "killed s")
  case False
  have inv: "pml_inv c ws (halt s)" by (rule halt_inv [OF assms(1)])
  let ?s = "kill s"
  have ps: "priorities ?s = map (\<lambda>p. p\<lparr>pqueue := []\<rparr>) (priorities (halt s))" "available ?s = available (halt s)"
    "held ?s = held (halt s)" "concurrency ?s = concurrency (halt s)" "broken ?s" "killed ?s" "runner ?s = runner (halt s)" "reentered ?s = reentered (halt s)"
    "waiting ?s = waiting s" "totalPendingWeights ?s = totalPendingWeights s" "next_lock ?s = next_lock (halt s)"
    using False by (simp_all add: kill_def halt_def Let_def in_callback_def)
  have "total runners ?s = total runners (halt s)" by (simp add: total_def ps)
  then have "slots_ok ws ?s" using inv by (simp add: pml_inv_def slots_ok_def ps o_def)
  moreover have "waiters_ok ?s"
    using assms False queue_nonneg [of s] pending_nonneg [of ws s] by (simp add: pml_inv_def waiters_ok_def ps)
  moreover have "broken (halt s)" by (simp add: halt_def)
  then have "runner_ok ?s" using inv by (cases "runner (halt s)") (simp_all add: pml_inv_def runner_ok_def ps)
  ultimately show ?thesis
    using inv \<open>total runners ?s = total runners (halt s)\<close> \<open>broken (halt s)\<close> by (simp add: pml_inv_def holders_ok_def ps)
qed (simp add: kill_def assms)

lemma runner_update [simp]:
  "slots_ok ws (s\<lparr>runner := r\<rparr>) = slots_ok ws s" "waiters_ok (s\<lparr>runner := r\<rparr>) = waiters_ok s"
  "holders_ok c (s\<lparr>runner := r\<rparr>) = holders_ok c s"
  by (simp_all add: slots_ok_def waiters_ok_def holders_ok_def total_def)

lemma live_runner_update: "live_ok c s \<Longrightarrow> live_ok c (s\<lparr>runner := EndOfBody l\<rparr>)"
  by (auto simp: live_ok_def in_callback_def split: if_splits)

lemma resume_inv:
  assumes "pml_inv c ws s" "resume s = Some s'" shows "pml_inv c ws s'"
proof -
  obtain i l released where r: "runner s = InCallback i l released" using assms(2) by (auto simp: resume_def split: runner_pc.splits)
  have i: "i < length (priorities s)" using r assms(1) by (simp add: pml_inv_def runner_ok_def)
  show ?thesis
  proof (cases "broken s \<or> released")
    case True
    then have "s' = s\<lparr>runner := if broken s then Finished else EndOfBody l\<rparr>" using r assms(2) by (auto simp: resume_def)
    then show ?thesis using assms(1) live_runner_update [of c s l] by (simp add: pml_inv_def) (simp add: runner_ok_def)
  next
    case False
    then have "s' = (addRunner l i s)\<lparr>runner := EndOfBody l\<rparr>" using r assms(2) by (simp add: resume_def)
    moreover have "slots_ok ws (addRunner l i s)" "waiters_ok (addRunner l i s)" "live_ok c s" "in_callback s"
      using slots_addRunner [OF _ i] waiters_addRunner [OF _ i] assms(1) False r by (auto simp: pml_inv_def in_callback_def)
    moreover have "live_ok c ((addRunner l i s)\<lparr>runner := EndOfBody l\<rparr>)"
      using \<open>live_ok c s\<close> \<open>in_callback s\<close> by (auto simp: live_ok_def in_callback_def)
    ultimately show ?thesis using False assms(1) by (simp add: pml_inv_def runner_ok_def)
  qed
qed

lemma step_inv:
  assumes "pml_inv c ws s" "\<forall>w \<in> set ws. 0 < w" "c \<le> concurrency_limit" "pml_step e s = Some (s', r)"
  shows "pml_inv c ws s'"
proof (cases e)
  case (Lock i)
  then show ?thesis using assms lock_inv by (auto split: if_splits)
next
  case (Release l)
  then show ?thesis using assms release_inv by (auto split: if_splits)
next
  case Halt
  then show ?thesis using assms halt_inv by (auto split: if_splits)
next
  case Kill
  then show ?thesis using assms kill_inv by (auto split: if_splits)
next
  case Resume
  then show ?thesis using assms resume_inv by auto
next
  case (LoopEnd dropped)
  then obtain l s1 where l: "runner s = EndOfBody l" "(if dropped then release l s else Some s) = Some s1" "launch s1 = Some s'"
    using assms(4) by (auto split: runner_pc.splits option.splits)
  have inv: "pml_inv c ws s1" using l(2) assms(1-3) release_inv by (auto split: if_splits)
  have "runner s1 = EndOfBody l"
    using l(1,2) by (auto simp: release_def releaseRunner_def Let_def split: if_splits option.splits)
  then have "\<not> broken s1" "\<not> killed s1" "\<not> in_callback s1" using inv by (auto simp: pml_inv_def runner_ok_def in_callback_def)
  then show ?thesis using launch_inv [of ws s1 c] inv assms(2,3) l(3) by (auto simp: pml_inv_def)
qed

lemma reachable_pml_inv:
  "pml_reachable c ws s \<Longrightarrow> 0 \<le> c \<Longrightarrow> c \<le> concurrency_limit \<Longrightarrow> \<forall>w \<in> set ws. 0 < w \<Longrightarrow> pml_inv c ws s"
  by (induction rule: pml_reachable.induct) (auto simp: new_inv intro: step_inv)

subsection \<open>Properties\<close>

text \<open>What the weights and the concurrency must be like.\<close>

definition pml_config :: "int \<Rightarrow> int list \<Rightarrow> bool" where
  "pml_config c ws = (0 \<le> c \<and> c \<le> concurrency_limit \<and> (\<forall>w \<in> set ws. 0 < w))"

fun pml_run :: "pml_event list \<Rightarrow> pml \<Rightarrow> pml option" where
  "pml_run [] s = Some s"
| "pml_run (e # es) s = (case pml_step e s of None \<Rightarrow> None | Some (s, r) \<Rightarrow> pml_run es s)"

lemma run_reachable: "pml_reachable c ws s \<Longrightarrow> pml_run es s = Some s' \<Longrightarrow> pml_reachable c ws s'"
  by (induction es arbitrary: s) (auto split: option.splits intro: pml_reachable.step)

text \<open>All counters are in the range of \<open>int\<close>.\<close>

definition ints_fit :: "pml \<Rightarrow> bool" where
  "ints_fit s =
     (c_int (concurrency s) \<and> c_int (available s) \<and> c_int (waiting s) \<and> c_int (totalPendingWeights s) \<and>
      (\<forall>p \<in> set (priorities s). c_int (runners p)))"

lemma held_by_priority:
  "\<forall>h \<in> set xs. snd h < (n :: nat) \<Longrightarrow> (\<Sum>i<n. int (length (filter (\<lambda>h. snd h = i) xs))) = int (length xs)"
proof (induction xs)
  case (Cons h xs)
  have "int (length (filter (\<lambda>k. snd k = i) (h # xs))) = int (length (filter (\<lambda>k. snd k = i) xs)) + (if i = snd h then 1 else 0)" for i
    by auto
  moreover have "(\<Sum>i<n. if i = snd h then 1 else 0) = (1 :: int)" using Cons.prems by simp
  ultimately show ?case using Cons by (simp add: sum.distrib)
qed simp

lemma holders_total: "slots_ok ws s \<Longrightarrow> total runners s = int (length (held s))"
  using held_by_priority [of "held s" "length (priorities s)"] by (simp add: slots_ok_def total_def)

lemma inv_holders: "pml_inv c ws s \<Longrightarrow> holders_ok c s"
  by (auto simp: pml_inv_def intro: live_holders split: if_splits)

lemma inv_ints_fit:
  assumes "pml_inv c ws s" "0 \<le> c" "c \<le> concurrency_limit" "\<forall>w \<in> set ws. 0 < w"
  shows "ints_fit s"
proof -
  have sl: "slots_ok ws s" and wa: "waiters_ok s" using assms(1) by (simp_all add: pml_inv_def)
  have nn: "0 \<le> runners (priorities s ! i)" if "i < length (priorities s)" for i using runners_nonneg [OF sl that] .
  have t: "0 \<le> total runners s" "total runners s \<le> 3000001"
    using inv_holders [OF assms(1)] assms(3) total_nonneg [of s runners, OF nn] by (auto simp: holders_ok_def concurrency_limit_def split: if_splits)
  have c: "0 \<le> concurrency s" "concurrency s \<le> 3000000" "available s = concurrency s - total runners s"
    using assms(1-3) sl by (auto simp: pml_inv_def live_ok_def slots_ok_def concurrency_limit_def split: if_splits)
  have "runners (priorities s ! i) \<le> total runners s" if "i < length (priorities s)" for i
    unfolding total_def using that nn by (intro member_le_sum) auto
  then have "\<forall>p \<in> set (priorities s). c_int (runners p)" using nn t by (force simp: in_set_conv_nth c_int_def)
  moreover have "c_int (waiting s)" "c_int (totalPendingWeights s)"
    using wa queue_nonneg [of s] pending_nonneg [OF sl assms(4)] by (auto simp: waiters_ok_def c_int_def split: if_splits)
  ultimately show ?thesis using c t by (simp add: ints_fit_def) (simp add: c_int_def)
qed

text \<open>C6. The books are right in every state that calls, callbacks and releases can lead to, up to the first signed
  overflow (which C19 rules out for the weights):
  the slots in use are the locks that are held, in all and for each priority, also after \<open>halt\<close> and \<open>kill\<close>; there are at
  most as many holders as the concurrency the lock was made with, or one more when a waiter that was being resumed has
  called \<open>lock\<close> and got it at once; all counters are in the range of \<open>int\<close>; and, until \<open>kill\<close>, the counters of waiters and
  of pending weights are those of the queues.  After \<open>kill\<close> the queues are empty, and these two counters are not reset:
  nothing is said of their values then.\<close>

theorem PriorityMultiLock_books:
  assumes "pml_reachable c ws s" and "pml_config c ws"
  shows "getRunnersCount s = int (length (held s)) \<and>
    getRunnersCount s = (\<Sum>i<length (priorities s). runners (priorities s ! i)) \<and>
    (\<forall>i < length (priorities s). getRunnersCount_at i s = Some (int (length (filter (\<lambda>h. snd h = i) (held s))))) \<and>
    getRunnersCount s \<le> c + (if reentered s then 1 else 0) \<and>
    ints_fit s \<and>
    (if killed s then \<forall>i < length (priorities s). getWaitersCount_at i s = Some 0
     else getWaitersCount s = (\<Sum>i<length (priorities s). int (length (pqueue (priorities s ! i)))) \<and>
       totalPendingWeights s = (\<Sum>i<length (priorities s). if pqueue (priorities s ! i) = [] then 0 else weight (priorities s ! i)))"
proof -
  have inv: "pml_inv c ws s" using reachable_pml_inv assms by (auto simp: pml_config_def)
  then have sl: "slots_ok ws s" and wa: "waiters_ok s" by (simp_all add: pml_inv_def)
  have n: "getRunnersCount s = total runners s" using sl by (simp add: slots_ok_def getRunnersCount_def)
  have "\<forall>i < length (priorities s). getRunnersCount_at i s = Some (int (length (filter (\<lambda>h. snd h = i) (held s))))"
    using sl by (simp add: slots_ok_def getRunnersCount_at_def)
  moreover have "ints_fit s" using inv_ints_fit [OF inv] assms(2) by (simp add: pml_config_def)
  moreover have "getRunnersCount s \<le> c + (if reentered s then 1 else 0)" using inv_holders [OF inv] unfolding n holders_ok_def .
  moreover have "if killed s then \<forall>i < length (priorities s). getWaitersCount_at i s = Some 0
     else getWaitersCount s = (\<Sum>i<length (priorities s). int (length (pqueue (priorities s ! i)))) \<and>
       totalPendingWeights s = (\<Sum>i<length (priorities s). if pqueue (priorities s ! i) = [] then 0 else weight (priorities s ! i))"
    using wa by (simp add: waiters_ok_def total_def queue_length_def pending_weight_def getWaitersCount_def getWaitersCount_at_def)
  ultimately show ?thesis using holders_total [OF sl] unfolding n total_def by blast
qed

theorem PriorityMultiLock_books_witness:
  "\<exists>s. pml_run [Lock 0, Lock 1, Lock 1, Halt, Release 0] (PriorityMultiLock_new 2 [1, 3]) = Some s \<and>
     getRunnersCount s \<le> 2 \<and> ints_fit s \<and> getWaitersCount s = (\<Sum>i<length (priorities s). int (length (pqueue (priorities s ! i))))"
proof -
  let ?r = "pml_run [Lock 0, Lock 1, Lock 1, Halt, Release 0] (PriorityMultiLock_new 2 [1, 3])"
  have "?r \<noteq> None \<and> \<not> killed (the ?r) \<and> \<not> reentered (the ?r)" by code_simp
  then obtain s where s: "?r = Some s" "\<not> killed s" "\<not> reentered s" by auto
  have "pml_config 2 [1, 3]" by (simp add: pml_config_def concurrency_limit_def)
  from PriorityMultiLock_books [OF run_reachable [OF pml_reachable.new s(1)] this] show ?thesis using s by auto
qed

text \<open>The limit is exceeded: with a concurrency of one, the waiter that is resumed by the release of the first lock calls
  \<open>lock\<close> again before the runner has taken the slot for it, and two locks are held at once.\<close>

lemma PriorityMultiLock_overrun:
  "map_option getRunnersCount (pml_run [Lock 0, Lock 0, Release 0, Lock 0, Resume] (PriorityMultiLock_new 1 [1])) = Some 2"
  by code_simp

text \<open>A priority of weight zero makes the capacity undefined.\<close>

lemma PriorityMultiLock_zero_weight: "pml_run [Lock 0] (PriorityMultiLock_new 1 [0]) = None"
  by code_simp

text \<open>Nothing keeps the sum of the weights in the range of \<open>int\<close>: with two priorities of weight \<open>2\<^sup>3\<^sup>0\<close> the first
  waiters of both make the addition overflow.  Where it wraps, the total is negative, no priority has any capacity, and
  the search for one, at the next release, goes on for ever.\<close>

lemma PriorityMultiLock_weight_overflow:
  "pml_run [Lock 0, Lock 1] (PriorityMultiLock_new 1 [1, 2 ^ 30, 2 ^ 30]) \<noteq> None \<and>
   pml_run [Lock 0, Lock 1, Lock 2] (PriorityMultiLock_new 1 [1, 2 ^ 30, 2 ^ 30]) = None"
  by code_simp

lemma capacity_negative_total:
  assumes "0 < w" "totalPendingWeights s < 0" "0 \<le> concurrency s" "currentCapacity w s = Some k"
  shows "k \<le> 0"
proof -
  have neg: "to_float x \<le> 0" if "x \<le> 0" for x
    using that round_to_error [of 24 x] by (simp add: abs_le_iff)
  have "to_float (of_int w) / to_float (of_int (totalPendingWeights s)) \<le> 0"
    using neg [of "of_int (totalPendingWeights s)"] round_to_nonneg [of 24 "of_int w"] assms(1,2)
    by (intro divide_nonneg_nonpos) auto
  then have "to_float (to_float (of_int w) / to_float (of_int (totalPendingWeights s))) * to_float (of_int (concurrency s)) \<le> 0"
    using neg round_to_nonneg [of 24 "of_int (concurrency s)"] assms(3) by (intro mult_nonpos_nonneg) auto
  then show ?thesis using neg assms(2,4) by (auto simp: currentCapacity_def Let_def ceiling_le_iff split: if_splits)
qed

lemma scan_none:
  "\<forall>i \<in> set (waitingPriorities s). \<not> eligible s i \<Longrightarrow> distinct (waitingPriorities s) \<Longrightarrow>
   \<forall>i. p = Some i \<longrightarrow> i \<in> set (waitingPriorities s) \<Longrightarrow> scan n s p = None"
proof (induction n arbitrary: p)
  case (Suc n)
  have "scan n s (next_in i (waitingPriorities s)) = None" for i using Suc.IH Suc.prems(1,2) next_in_mem [OF Suc.prems(2)] by blast
  then show ?case by (simp split: option.splits list.splits) (use Suc.prems in auto)
qed simp

lemma PriorityMultiLock_wrapped_total:
  assumes "live_ok c s" "slots_ok ws s" "\<forall>w \<in> set ws. 0 < w" "0 \<le> c" and "0 < available s" "0 < waiting s" "totalPendingWeights s < 0"
  shows "launch s = None"
proof -
  have "\<not> eligible s i" if "i \<in> set (waitingPriorities s)" for i
  proof -
    have i: "i < length (priorities s)" using that assms(1) by (simp add: live_ok_def)
    have "k \<le> runners (priorities s ! i)" if "currentCapacity (weight (priorities s ! i)) s = Some k" for k
      using capacity_negative_total [OF weight_pos [OF assms(2,3) i] assms(7) _ that] runners_nonneg [OF assms(2) i] assms(1,4)
      by (simp add: live_ok_def)
    then show ?thesis by (auto simp: eligible_def Let_def split: option.splits)
  qed
  then have "scan (2 * length (waitingPriorities s) + 2) s (iter s) = None"
    using assms(1) by (intro scan_none) (auto simp: live_ok_def)
  then show ?thesis using assms(5,6) by (simp add: launch_def del: scan.simps)
qed

text \<open>\<open>kill\<close> empties the queues and does not reset the count of the waiters.\<close>

lemma PriorityMultiLock_kill_count:
  "map_option (\<lambda>s. (getWaitersCount s, getWaitersCount_at 0 s)) (pml_run [Lock 0, Lock 0, Kill] (PriorityMultiLock_new 1 [1])) =
   Some (1, Some 0)"
  by code_simp

text \<open>C20. No slot stays free while somebody waits: whenever the runner is back at its \<open>co_await\<close>, there is no waiter or no
  free slot.\<close>

theorem PriorityMultiLock_work_conserving:
  assumes "pml_reachable c ws s" and "pml_config c ws" and "runner s = Awaiting"
  shows "getWaitersCount s = 0 \<or> c \<le> getRunnersCount s"
proof -
  have "pml_inv c ws s" using reachable_pml_inv assms by (auto simp: pml_config_def)
  then show ?thesis using assms(3) by (auto simp: pml_inv_def runner_ok_def live_ok_def getWaitersCount_def getRunnersCount_def)
qed

theorem PriorityMultiLock_work_conserving_witness:
  "\<exists>s. pml_run [Lock 0, Lock 0, Lock 0] (PriorityMultiLock_new 2 [5]) = Some s \<and> (getWaitersCount s = 0 \<or> 2 \<le> getRunnersCount s)"
proof -
  let ?r = "pml_run [Lock 0, Lock 0, Lock 0] (PriorityMultiLock_new 2 [5])"
  have "?r \<noteq> None \<and> runner (the ?r) = Awaiting" by code_simp
  then obtain s where s: "?r = Some s" "runner s = Awaiting" by auto
  have "pml_config 2 [5]" by (simp add: pml_config_def concurrency_limit_def)
  from PriorityMultiLock_work_conserving [OF run_reachable [OF pml_reachable.new s(1)] this s(2)] show ?thesis using s by auto
qed

lemma total_weight: "slots_ok ws s \<Longrightarrow> total weight s = sum_list ws"
  by (auto simp: slots_ok_def total_def sum_list_sum_nth atLeast0LessThan)

lemma lock_defined:
  assumes "pml_inv c ws s" "\<forall>w \<in> set ws. 0 < w" "c \<le> concurrency_limit" "sum_list ws < 2 ^ 31"
    and "i < length (priorities s)" "waiting s + 1 < 2 ^ 31"
  shows "\<exists>s' r. lock i s = Some (s', r)"
proof (cases "killed s")
  case False
  let ?p = "priorities s ! i" let ?s = "s\<lparr>totalPendingWeights := totalPendingWeights s + weight ?p\<rparr>"
  have sl: "slots_ok ws s" and wa: "waiters_ok s" using assms(1) by (simp_all add: pml_inv_def)
  have nn: "0 \<le> totalPendingWeights s" "0 \<le> waiting s"
    using wa False pending_nonneg [OF sl assms(2)] queue_nonneg [of s] by (simp_all add: waiters_ok_def)
  have w: "0 < weight ?p" by (rule weight_pos [OF sl assms(2,5)])
  have wait: "\<exists>s' r. lock_wait i t = Some (s', r)" if "waiting t = waiting s" for t
    using that nn assms(6) by (simp add: lock_wait_def Let_def c_int_def)
  have fits: "c_int (totalPendingWeights s + weight ?p)" if "pqueue ?p = []"
  proof -
    let ?t = "update_priority i (\<lambda>p. p\<lparr>pqueue := [0]\<rparr>) s"
    have "totalPendingWeights s + weight ?p = total pending_weight ?t"
      using that wa False total_update [OF assms(5), of pending_weight] by (simp add: waiters_ok_def pending_weight_def)
    also have "\<dots> \<le> total weight ?t"
      unfolding total_def using weight_pos [OF sl assms(2)]
      by (intro sum_mono) (auto simp: pending_weight_def nth_update_priority intro: less_imp_le)
    also have "\<dots> = sum_list ws" using total_update [OF assms(5), of weight] total_weight [OF sl] by simp
    finally show ?thesis using assms(4) nn(1) w by (simp add: c_int_def)
  qed
  have cap: "\<exists>k. currentCapacity (weight ?p) ?s = Some k" if "0 < available s"
  proof -
    have "\<not> broken s" using that broken_not_available [OF assms(1)] by auto
    then have "concurrency s = c" using assms(1) by (simp add: pml_inv_def live_ok_def)
    moreover have "0 \<le> concurrency s" using that sl total_nonneg [of s runners, OF runners_nonneg [OF sl]] by (simp add: slots_ok_def)
    ultimately show ?thesis using capacity_defined [OF w, of ?s] nn(1) assms(3) by simp
  qed
  show ?thesis using False assms(5) fits cap by (auto simp: lock_def Let_def wait split: option.splits if_splits)
qed (simp add: lock_def)

text \<open>C19. When the sum of the weights is in the range of \<open>int\<close>, nothing hangs or overflows.  The search for a priority with
  waiters and capacity, which loops until it finds one, ends whenever it is started, at the release of a lock as well as
  at the end of the loop's body; the rounding of the capacities to \<open>float\<close> does not lose the last slot.  And every call
  of \<open>lock\<close> returns or throws, as long as there are fewer than \<open>2\<^sup>3\<^sup>1 - 1\<close> waiters: no addition overflows, and every
  capacity it reads is defined and in the range of \<open>int\<close>.\<close>

theorem PriorityMultiLock_search_ends:
  assumes "pml_reachable c ws s" and "pml_config c ws" and "sum_list ws < 2 ^ 31"
  shows "(\<forall>l i. (l, i) \<in> set (held s) \<longrightarrow> releaseRunner l i s \<noteq> None) \<and>
    (\<forall>l. runner s = EndOfBody l \<longrightarrow> launch s \<noteq> None) \<and> (in_callback s \<longrightarrow> resume s \<noteq> None) \<and>
    (\<forall>i < length (priorities s). getWaitersCount s < 2 ^ 31 - 1 \<longrightarrow> lock i s \<noteq> None)"
proof -
  have c: "c \<le> concurrency_limit" "\<forall>w \<in> set ws. 0 < w" using assms(2) by (auto simp: pml_config_def)
  have inv: "pml_inv c ws s" using reachable_pml_inv assms by (auto simp: pml_config_def)
  have "launch s \<noteq> None" if "runner s = EndOfBody l" for l
    using that inv launch_inv [of ws s c] c by (auto simp: pml_inv_def runner_ok_def in_callback_def)
  moreover have "releaseRunner l i s \<noteq> None" if "(l, i) \<in> set (held s)" for l i
    using releaseRunner_inv [OF inv c(2,1) that] by auto
  moreover have "resume s \<noteq> None" if "in_callback s" using that by (auto simp: in_callback_def resume_def split: runner_pc.splits)
  moreover have "lock i s \<noteq> None" if "i < length (priorities s)" "getWaitersCount s < 2 ^ 31 - 1" for i
    using lock_defined [OF inv c(2,1) assms(3) that(1)] that(2) by (auto simp: getWaitersCount_def)
  ultimately show ?thesis by blast
qed

theorem PriorityMultiLock_search_ends_witness:
  "\<exists>s. pml_run [Lock 0, Lock 1, Lock 1, Lock 0] (PriorityMultiLock_new 2 [1, 3]) = Some s \<and>
     releaseRunner 0 0 s \<noteq> None \<and> lock 1 s \<noteq> None"
proof -
  let ?r = "pml_run [Lock 0, Lock 1, Lock 1, Lock 0] (PriorityMultiLock_new 2 [1, 3])"
  have "?r \<noteq> None \<and> (0, 0) \<in> set (held (the ?r)) \<and> length (priorities (the ?r)) = 2 \<and> getWaitersCount (the ?r) = 2" by code_simp
  then obtain s where s: "?r = Some s" "(0, 0) \<in> set (held s)" "length (priorities s) = 2" "getWaitersCount s = 2" by auto
  have "pml_config 2 [1, 3]" by (simp add: pml_config_def concurrency_limit_def)
  from PriorityMultiLock_search_ends [OF run_reachable [OF pml_reachable.new s(1)] this] show ?thesis using s by auto
qed

text \<open>C21. Within a priority the waiters are served in the order in which they called \<open>lock\<close>: the waiter that is being
  resumed came before all that still wait.\<close>

theorem PriorityMultiLock_fifo:
  assumes "pml_reachable c ws s" and "pml_config c ws" and "runner s = InCallback i l released"
  shows "sorted_wrt (<) (l # pqueue (priorities s ! i))"
proof -
  have "pml_inv c ws s" using reachable_pml_inv assms by (auto simp: pml_config_def)
  then show ?thesis using assms(3) by (auto simp: pml_inv_def runner_ok_def waiters_ok_def)
qed

theorem PriorityMultiLock_fifo_witness:
  "\<exists>s. pml_run [Lock 0, Lock 0, Lock 0, Lock 0, Release 0] (PriorityMultiLock_new 1 [2]) = Some s \<and> sorted_wrt (<) (1 # pqueue (priorities s ! 0))"
proof -
  let ?r = "pml_run [Lock 0, Lock 0, Lock 0, Lock 0, Release 0] (PriorityMultiLock_new 1 [2])"
  have "?r \<noteq> None \<and> runner (the ?r) = InCallback 0 1 False" by code_simp
  then obtain s where s: "?r = Some s" "runner s = InCallback 0 1 False" by auto
  have "pml_config 1 [2]" by (simp add: pml_config_def concurrency_limit_def)
  from PriorityMultiLock_fifo [OF run_reachable [OF pml_reachable.new s(1)] this s(2)] show ?thesis using s by auto
qed

text \<open>The flags follow the events: \<open>broken\<close> is set by \<open>halt\<close> and \<open>kill\<close>, \<open>killed\<close> by \<open>kill\<close>, and nothing else changes them.\<close>

lemma launch_flags: "launch s = Some s' \<Longrightarrow> broken s' = broken s \<and> killed s' = killed s"
  by (auto simp: launch_def simp del: scan.simps split: if_splits option.splits)

lemma release_flags: "release l s = Some s' \<Longrightarrow> broken s' = broken s \<and> killed s' = killed s"
  by (auto simp: release_def releaseRunner_def Let_def dest!: launch_flags split: if_splits option.splits runner_pc.splits)

lemma lock_flags: "lock i s = Some (s', r) \<Longrightarrow> broken s' = broken s \<and> killed s' = killed s"
  by (auto simp: lock_def lock_wait_def lock_nowait_def Let_def split: if_splits option.splits)

lemma step_flags:
  assumes "pml_step e s = Some (s', r)" "killed s \<longrightarrow> broken s"
  shows "killed s' = (killed s \<or> e = Kill) \<and> broken s' = (broken s \<or> e = Halt \<or> e = Kill)"
proof (cases e)
  case Resume
  then show ?thesis using assms(1) by (auto simp: resume_def split: runner_pc.splits if_splits)
next
  case (LoopEnd dropped)
  then show ?thesis
    using assms(1) by (auto dest!: launch_flags release_flags split: runner_pc.splits option.splits if_splits)
qed (use assms in \<open>auto simp: kill_def Let_def dest!: lock_flags release_flags split: if_splits\<close>)

lemma run_flags:
  "pml_run es s = Some s' \<Longrightarrow> killed s \<longrightarrow> broken s \<Longrightarrow>
   killed s' = (killed s \<or> Kill \<in> set es) \<and> broken s' = (broken s \<or> Halt \<in> set es \<or> Kill \<in> set es)"
proof (induction es arbitrary: s)
  case (Cons e es)
  then obtain t r where t: "pml_step e s = Some (t, r)" "pml_run es t = Some s'" by (auto split: option.splits)
  have "killed t \<longrightarrow> broken t" using step_flags [OF t(1) Cons.prems(2)] Cons.prems(2) by auto
  then show ?case using Cons.IH [OF t(2)] step_flags [OF t(1) Cons.prems(2)] by auto
qed simp

text \<open>The steps of a halted lock.\<close>

lemma lock_halted:
  assumes "pml_inv c ws s" "broken s" "\<not> killed s" "lock i s = Some (s', r)"
  shows "\<exists>l. r = LockLater l \<and> l \<in> set (pqueue (priorities s' ! i)) \<and> held s' = held s \<and> runner s' = runner s \<and> failed s' = failed s \<and>
    (\<forall>j < length (priorities s). \<exists>ls. pqueue (priorities s' ! j) = pqueue (priorities s ! j) @ ls)"
  using assms(3,4) broken_not_available [OF assms(1,2)]
  by (auto simp: lock_def lock_wait_def Let_def update_priority_def nth_list_update split: if_splits)

lemma release_halted:
  assumes "runner s \<noteq> Awaiting" "release l s = Some s'"
  shows "set (held s') \<subseteq> set (held s) \<and> failed s' = failed s \<and>
    (\<forall>i l b. runner s' = InCallback i l b \<longrightarrow> (\<exists>b. runner s = InCallback i l b)) \<and>
    (\<forall>j < length (priorities s). pqueue (priorities s' ! j) = pqueue (priorities s ! j))"
proof -
  have handler: ?thesis if "releaseRunner k i s = Some s'" for k i
    using that assms(1) set_remove1_subset [of "(k, i)" "held s"] by (auto simp: releaseRunner_def Let_def nth_update_priority)
  show ?thesis
  proof (cases "\<exists>i released. runner s = InCallback i l released")
    case True
    then show ?thesis using assms(2) by (auto simp: release_def split: if_splits)
  next
    case False
    then obtain k i where "releaseRunner k i s = Some s'"
      using assms(2) by (auto simp: release_def split: runner_pc.splits option.splits if_splits)
    then show ?thesis by (rule handler)
  qed
qed

text \<open>C22. What \<open>halt\<close> and \<open>kill\<close> promise.  After a \<open>Halt\<close> or a \<open>Kill\<close> in the history no step gives a lock, to a caller or to
  a waiter: no \<open>lock\<close> succeeds at once, no lock becomes held, and the runner resumes no further waiter.  After a \<open>Kill\<close>
  every call of \<open>lock\<close> throws \<open>broken_promise\<close>, whatever its priority, and nobody waits.  Without one a call of \<open>lock\<close>
  waits, and the waiters stay as they are and see no error, until a \<open>Kill\<close> makes exactly those that wait fail with
  \<open>broken_promise\<close>.\<close>

theorem PriorityMultiLock_halted:
  assumes "pml_config c ws" and "pml_run es (PriorityMultiLock_new c ws) = Some s" and "Halt \<in> set es \<or> Kill \<in> set es"
    and "pml_step e s = Some (s', r)"
  shows "(\<forall>l. r \<noteq> LockNow l) \<and> set (held s') \<subseteq> set (held s) \<and>
    (\<forall>i l b. runner s' = InCallback i l b \<longrightarrow> (\<exists>b. runner s = InCallback i l b)) \<and>
    (Kill \<in> set es \<longrightarrow> (\<forall>i. lock i s = Some (s, BrokenPromise))) \<and>
    (Kill \<in> set (es @ [e]) \<longrightarrow> (\<forall>j < length (priorities s'). pqueue (priorities s' ! j) = [])) \<and>
    (Kill \<notin> set es \<longrightarrow>
       (if e = Kill then failed s' = concat (map pqueue (priorities s))
        else (\<forall>i. e = Lock i \<longrightarrow> (\<exists>l. r = LockLater l \<and> l \<in> set (pqueue (priorities s' ! i)))) \<and> failed s' = [] \<and>
          (\<forall>j < length (priorities s). \<exists>ls. pqueue (priorities s' ! j) = pqueue (priorities s ! j) @ ls)))"
proof -
  have c: "0 \<le> c" "c \<le> concurrency_limit" "\<forall>w \<in> set ws. 0 < w" using assms(1) by (auto simp: pml_config_def)
  have inv: "pml_inv c ws s" by (rule reachable_pml_inv [OF run_reachable [OF pml_reachable.new assms(2)] c])
  have inv': "pml_inv c ws s'" by (rule step_inv [OF inv c(3,2) assms(4)])
  have k: "killed s = (Kill \<in> set es)" and b: "broken s"
    using run_flags [OF assms(2)] assms(3) by (auto simp: PriorityMultiLock_new_def)
  have k': "killed s' = (Kill \<in> set (es @ [e]))" using step_flags [OF assms(4)] k b by auto
  have wa: "waiters_ok s" "waiters_ok s'" using inv inv' by (simp_all add: pml_inv_def)
  have no: "runner s \<noteq> Awaiting" "\<forall>l. runner s \<noteq> EndOfBody l" using inv b by (auto simp: pml_inv_def runner_ok_def)
  have throws: "lock i s = Some (s, BrokenPromise)" if "Kill \<in> set es" for i using that k by (simp add: lock_def)
  have empty: "\<forall>j < length (priorities s'). pqueue (priorities s' ! j) = []" if "Kill \<in> set (es @ [e])"
    using that k' wa(2) by (simp add: waiters_ok_def)
  have fail: "failed s = []" if "Kill \<notin> set es" using that k wa(1) by (simp add: waiters_ok_def)
  show ?thesis
  proof (cases e)
    case (Lock i)
    then have "lock i s = Some (s', r)" using assms(4) by (simp split: if_splits)
    then show ?thesis using Lock k throws empty fail lock_halted [OF inv b, of i s' r] by (cases "killed s") (auto, metis)
  next
    case (Release l)
    then have "release l s = Some s'" "r = NoResult" using assms(4) by (auto split: if_splits)
    then show ?thesis using Release throws empty fail release_halted [OF no(1), of l s'] by auto
  next
    case (LoopEnd dropped)
    then show ?thesis using assms(4) no(2) by (auto split: runner_pc.splits)
  next
    case Resume
    then have "s' = s\<lparr>runner := Finished\<rparr>" "r = NoResult" using assms(4) b by (auto simp: resume_def split: runner_pc.splits)
    then show ?thesis using Resume throws empty fail by auto
  next
    case Halt
    then have "s' = halt s" "r = NoResult" using assms(4) by (auto split: if_splits)
    then show ?thesis using Halt throws empty fail by auto
  next
    case Kill
    then have "s' = kill s" "r = NoResult" using assms(4) by (auto split: if_splits)
    then show ?thesis using Kill throws empty fail k by (auto simp: kill_def Let_def split: if_splits)
  qed
qed

theorem PriorityMultiLock_halted_witness:
  "\<exists>s s'. pml_run [Lock 0, Lock 0, Kill] (PriorityMultiLock_new 1 [1]) = Some s \<and> lock 0 s = Some (s, BrokenPromise) \<and>
     pml_run [Lock 0, Lock 0, Halt] (PriorityMultiLock_new 1 [1]) = Some s' \<and> failed (kill s') = [1]"
proof -
  let ?k = "pml_run [Lock 0, Lock 0, Kill] (PriorityMultiLock_new 1 [1])" and ?h = "pml_run [Lock 0, Lock 0, Halt] (PriorityMultiLock_new 1 [1])"
  have "?k \<noteq> None \<and> pml_step (Release 0) (the ?k) \<noteq> None" by code_simp
  then obtain s t r where s: "?k = Some s" "pml_step (Release 0) s = Some (t, r)" by (metis not_None_eq option.sel surj_pair)
  have "?h \<noteq> None \<and> concat (map pqueue (priorities (the ?h))) = [1] \<and> outside (the ?h)" by code_simp
  then obtain s' where h: "?h = Some s'" "concat (map pqueue (priorities s')) = [1]" "outside s'" by (metis not_None_eq option.sel)
  have h3: "pml_step Kill s' = Some (kill s', NoResult)" using h(3) by simp
  have c: "pml_config 1 [1]" by (simp add: pml_config_def concurrency_limit_def)
  show ?thesis using PriorityMultiLock_halted [OF c s(1) _ s(2)] PriorityMultiLock_halted [OF c h(1) _ h3] s(1) h(1,2)
    by (simp del: pml_run.simps)
qed

end
