(* ===== verification/CompressedInt.thy ===== *)
theory CompressedInt
  imports Prelude "HOL-Library.List_Lexorder"
begin

text \<open>
  The signed variable-length integers of \<^verbatim>\<open>flow/include/flow/CompressedInt.h\<close>, whose encodings sort like the integers:
  a sign bit, the length in unary, the bits of the value, all inverted for negative values.  \<open>IntType\<close> is a word of any
  width that is a whole number of bytes, read as signed.

  The archive is the list of bytes still to be read, and \<open>None\<close> means that it is exhausted.
\<close>

subsection \<open>Writing\<close>

lemma drop_bit_decreases:
  assumes "v \<noteq> 0" "0 < k" shows "unat (drop_bit k (v :: 'a::len word)) < unat v"
proof -
  have "unat (drop_bit k v) = unat v div 2 ^ k" unfolding unat_drop_bit_eq by (rule drop_bit_eq_div)
  moreover have "0 < unat v" using assms(1) by (simp add: unat_gt_0)
  moreover have "1 < (2::nat) ^ k" using assms(2) by (intro one_less_power) simp_all
  ultimately show ?thesis by simp
qed

text \<open>\<open>while (v)\<close>: the bytes of the value from the lowest, each put in front; \<open>v\<close> is not negative, so that the shift of
  a signed value is a logical one.\<close>

function value_bytes :: "'a::len word \<Rightarrow> bytes \<Rightarrow> bytes" where
  "value_bytes v buf = (if v = 0 then buf else value_bytes (drop_bit 8 v) (ucast v # buf))"
  by pat_completeness auto

termination
  by (relation "measure (\<lambda>(v, buf). unat v)") (auto intro: drop_bit_decreases)

declare value_bytes.simps [simp del]

lemma bit_unat: "bit (b :: 'a::len word) k \<longleftrightarrow> odd (unat b div 2 ^ k)"
  by (simp flip: bit_iff_odd add: bit_unsigned_iff)

lemma top_bit: "(b :: u8) AND 0x80 = 0 \<longleftrightarrow> unat b < 128"
proof -
  have "b AND 2 ^ 7 = 0 \<longleftrightarrow> \<not> bit b 7" by (rule and_exp_eq_0_iff_not_bit)
  moreover have "odd (unat b div 128) \<longleftrightarrow> 128 \<le> unat b"
  proof (cases "unat b < 128")
    case False
    then have "unat b div 128 = 1" using unsigned_less [of b, where 'a = nat] by (intro div_nat_eqI) auto
    then show ?thesis using False by simp
  qed simp
  ultimately show ?thesis by (simp add: bit_unat not_le)
qed

lemma unat_double: "unat (b :: u8) < 128 \<Longrightarrow> unat (b * 2) = 2 * unat b"
  by (simp add: unat_word_ariths)

text \<open>\<open>while (!(b & 0x80))\<close>: the leading zero bits of a byte that is not zero.\<close>

function leading_zeros :: "u8 \<Rightarrow> nat" where
  "leading_zeros b = (if b AND 0x80 \<noteq> 0 \<or> b = 0 then 0 else leading_zeros (push_bit 1 b) + 1)"
  by pat_completeness auto

termination
proof (relation "measure (\<lambda>b. 256 - unat b)")
  fix b :: u8 assume "\<not> (b AND 0x80 \<noteq> 0 \<or> b = 0)"
  then have "unat b < 128" "0 < unat b" by (simp_all add: top_bit unat_gt_0)
  then show "(push_bit 1 b, b) \<in> measure (\<lambda>b. 256 - unat b)" by (simp add: unat_double)
qed simp

declare leading_zeros.simps [simp del]

text \<open>The loop that sets the sign bit and the unary length, from the bit \<open>b\<close> of the first byte of the list on.\<close>

fun set_header :: "nat \<Rightarrow> u8 \<Rightarrow> bytes \<Rightarrow> bytes" where
  "set_header 0 b buf = buf"
| "set_header (Suc hb) b [] = []"
| "set_header (Suc hb) b (x # buf) =
     (if b = 0 then
        (case buf of [] \<Rightarrow> [x] | y # ys \<Rightarrow> x # set_header hb (drop_bit 1 0x80) ((y OR 0x80) # ys))
      else set_header hb (drop_bit 1 b) ((x OR b) # buf))"

text \<open>The highest value byte is at the head of the list; when the encoding is longer, zero bytes are put in front of it.\<close>

definition compressed_write :: "'a::len word \<Rightarrow> bytes" where
  "compressed_write value =
     (let neg = (value <s 0);
          v = (if neg then NOT value else value);
          buf = value_bytes v [];
          bitlen = 8 * length buf - (case buf of [] \<Rightarrow> 0 | b # _ \<Rightarrow> leading_zeros b);
          encodedLen = bitlen div 7 + 1;
          out = replicate (encodedLen - length buf) 0 @ drop (length buf - encodedLen) buf;
          out = set_header encodedLen 0x80 out
      in if neg then map (\<lambda>b. NOT b) out else out)"

subsection \<open>Reading\<close>

text \<open>The scan of the unary length, which clears the bits it has seen.\<close>

definition sign_adjusted :: "bool \<Rightarrow> u8 \<Rightarrow> u8" where
  "sign_adjusted positive b = (if positive then b else NOT b)"

function scan_length :: "bool \<Rightarrow> u8 \<Rightarrow> u8 \<Rightarrow> int \<Rightarrow> bytes \<Rightarrow> (u8 \<times> int \<times> bytes) option" where
  "scan_length positive b hb bytesToRead ar =
     (if hb = 0 then
        (case ar of
           [] \<Rightarrow> None
         | x # ar \<Rightarrow>
             (let b = sign_adjusted positive x; hb = 0x80; bytesToRead = bytesToRead - 1 in
              if b AND hb = 0 then Some (b, bytesToRead, ar)
              else scan_length positive (b AND NOT hb) (drop_bit 1 hb) (bytesToRead + 1) ar))
      else if b AND hb = 0 then Some (b, bytesToRead, ar)
      else scan_length positive (b AND NOT hb) (drop_bit 1 hb) (bytesToRead + 1) ar)"
  by pat_completeness auto

termination
  by (relation "measures [\<lambda>(positive, b, hb, n, ar). length ar, \<lambda>(positive, b, hb, n, ar). unat hb]")
     (auto intro: drop_bit_decreases)

declare scan_length.simps [simp del]

text \<open>\<open>while (bytesToRead-- != 0)\<close>\<close>

fun read_value :: "bool \<Rightarrow> int \<Rightarrow> 'a::len word \<Rightarrow> bytes \<Rightarrow> ('a word \<times> bytes) option" where
  "read_value positive n v [] = (if n = 0 then Some (v, []) else None)"
| "read_value positive n v (x # ar) =
     (if n = 0 then Some (v, x # ar)
      else read_value positive (n - 1) (push_bit 8 v OR ucast (sign_adjusted positive x)) ar)"

definition compressed_read :: "bytes \<Rightarrow> ('a::len word \<times> bytes) option" where
  "compressed_read ar =
     (case ar of
        [] \<Rightarrow> None
      | x # ar \<Rightarrow>
          (let positive = (x AND 0x80 \<noteq> 0); b = sign_adjusted positive x AND 0x7f in
           case scan_length positive b 0x40 0 ar of
             None \<Rightarrow> None
           | Some (b, bytesToRead, ar) \<Rightarrow>
               (case read_value positive bytesToRead (ucast b) ar of
                  None \<Rightarrow> None
                | Some (value, ar) \<Rightarrow> Some (if positive then value else NOT value, ar))))"

end
