(* ===== verification/CompressedInt_Correct.thy ===== *)
theory CompressedInt_Correct
  imports CompressedInt
begin

text \<open>
  Reading gives back what was written, and the encodings sort like the integers.  A list of bytes is the number it
  denotes, most significant byte first; the header is a number added to the value.
\<close>

fun be_nat :: "bytes \<Rightarrow> nat" where
  "be_nat [] = 0"
| "be_nat (x # xs) = unat x * 2 ^ (8 * length xs) + be_nat xs"

lemma be_nat_less: "be_nat xs < 2 ^ (8 * length xs)"
proof (induction xs)
  case (Cons x xs)
  have "unat x * 2 ^ (8 * length xs) + be_nat xs < (unat x + 1) * 2 ^ (8 * length xs)" using Cons by simp
  also have "\<dots> \<le> 2 ^ 8 * 2 ^ (8 * length xs)" using unsigned_less [of x, where 'a = nat] by (intro mult_right_mono) auto
  finally show ?case by (simp add: power_add)
qed simp

lemma be_nat_append: "be_nat (xs @ ys) = be_nat xs * 2 ^ (8 * length ys) + be_nat ys"
  by (induction xs) (auto simp: power_add algebra_simps)

lemma be_nat_zeros [simp]: "be_nat (replicate n 0 @ xs) = be_nat xs"
  by (induction n) auto

text \<open>A bit of the first byte is a bit of the number.\<close>

lemma bit_head:
  "j < 8 \<Longrightarrow> bit x j \<longleftrightarrow> odd (be_nat (x # xs) div 2 ^ (8 * length xs + j))"
proof -
  have "be_nat (x # xs) div 2 ^ (8 * length xs + j) = be_nat (x # xs) div 2 ^ (8 * length xs) div 2 ^ j"
    by (simp add: power_add div_mult2_eq)
  also have "be_nat (x # xs) div 2 ^ (8 * length xs) = unat x" using be_nat_less [of xs] by simp
  finally show ?thesis by (simp add: bit_unat)
qed

lemma mod_half: "n mod 2 ^ Suc k < 2 ^ k \<longleftrightarrow> even ((n::nat) div 2 ^ k)"
proof -
  have eq: "n mod 2 ^ Suc k = 2 ^ k * (n div 2 ^ k mod 2) + n mod 2 ^ k"
    using mod_mult2_eq [of n "2 ^ k" 2] by (simp add: mult.commute)
  show ?thesis
  proof (cases "even (n div 2 ^ k)")
    case True
    then have "n div 2 ^ k mod 2 = 0" by presburger
    then have "n mod 2 ^ Suc k = n mod 2 ^ k" using eq by simp
    then show ?thesis using True by (simp only: mod_less_divisor zero_less_power zero_less_numeral)
  next
    case False
    then have "n div 2 ^ k mod 2 = 1" by presburger
    then have "n mod 2 ^ Suc k = 2 ^ k + n mod 2 ^ k" using eq by simp
    then show ?thesis using False by (simp only:) simp
  qed
qed

lemma unat_set_bit:
  assumes "\<not> bit x j" "j < 8" shows "unat ((x :: u8) OR 2 ^ j) = unat x + 2 ^ j"
proof -
  have "\<not> bit (unat x) j" using assms by (simp add: bit_unsigned_iff)
  then have "unat x AND 2 ^ j = 0" by (simp add: and_exp_eq_0_iff_not_bit)
  then have "unat x + 2 ^ j = unat x OR 2 ^ j" by (rule disjunctive_add_eq_or)
  moreover have "unat (2 ^ j :: u8) = 2 ^ j"
  proof -
    have "(2::nat) ^ j < 2 ^ 8" using assms(2) by (intro power_strict_increasing) auto
    then have "unat (of_nat (2 ^ j) :: u8) = 2 ^ j" unfolding unat_of_nat by simp
    then show ?thesis by simp
  qed
  ultimately show ?thesis by (simp add: unsigned_or_eq)
qed

lemma unat_clear_bit:
  assumes "bit x j" "j < 8" shows "unat ((x :: u8) AND NOT (2 ^ j)) + 2 ^ j = unat x"
proof -
  have "\<not> bit (x AND NOT (2 ^ j)) j" using assms by (simp add: bit_simps)
  moreover have "(x AND NOT (2 ^ j)) OR 2 ^ j = x" using assms by (intro bit_word_eqI) (auto simp: bit_simps)
  ultimately show ?thesis using unat_set_bit [of "x AND NOT (2 ^ j)" j] assms(2) by simp
qed

subsection \<open>The header\<close>

text \<open>The bit under test when \<open>k\<close> bits are left of the current byte.\<close>

definition header_bit :: "nat \<Rightarrow> u8" where
  "header_bit k = (if k = 0 then 0 else 2 ^ (k - 1))"

lemma header_bit_steps:
  assumes "k < 8" shows "drop_bit 1 (header_bit (Suc k)) = header_bit k" "header_bit (Suc k) \<noteq> 0"
proof -
  have "\<forall>k < 8. drop_bit 1 (header_bit (Suc k)) = header_bit k \<and> header_bit (Suc k) \<noteq> 0" by code_simp
  then show "drop_bit 1 (header_bit (Suc k)) = header_bit k" "header_bit (Suc k) \<noteq> 0" using assms by blast+
qed

lemma header_bit_8 [simp]: "header_bit 8 = 0x80" and header_bit_0 [simp]: "header_bit 0 = 0"
  by (simp_all add: header_bit_def)

lemma mod_power_mono: "(a::nat) mod 2 ^ p \<le> a mod 2 ^ Suc p"
proof -
  have "a mod 2 ^ Suc p mod 2 ^ p = a mod 2 ^ p" by (rule mod_mod_cancel) simp
  then show ?thesis by (metis mod_less_eq_dividend)
qed

text \<open>The first of the bits left is zero when the number they form is small, and one when it is big.\<close>

lemma first_bit:
  "k < 8 \<Longrightarrow> bit x k \<longleftrightarrow> \<not> be_nat (x # xs) mod 2 ^ (8 * length xs + Suc k) < 2 ^ (8 * length xs + k)"
  using mod_half [of "be_nat (x # xs)" "8 * length xs + k"] bit_head [of k x xs] by simp

lemma set_header_ok:
  assumes "k \<le> 8" "n \<le> 8 * length xs + k" "be_nat (x # xs) mod 2 ^ (8 * length xs + k) < 2 ^ (8 * length xs + k - n)"
  shows "be_nat (set_header n (header_bit k) (x # xs)) + 2 ^ (8 * length xs + k - n) = be_nat (x # xs) + 2 ^ (8 * length xs + k) \<and>
    length (set_header n (header_bit k) (x # xs)) = Suc (length xs)"
  using assms
proof (induction n arbitrary: k x xs)
  case (Suc n)
  have inside: "be_nat (set_header (Suc n) (header_bit (Suc k)) (x # xs)) + 2 ^ (8 * length xs + k - n) = be_nat (x # xs) + 2 ^ (8 * length xs + Suc k) \<and>
      length (set_header (Suc n) (header_bit (Suc k)) (x # xs)) = Suc (length xs)"
    if k: "k < 8" and n: "n \<le> 8 * length xs + k" and small: "be_nat (x # xs) mod 2 ^ (8 * length xs + Suc k) < 2 ^ (8 * length xs + k - n)" for k x xs
  proof -
    let ?p = "8 * length xs + k"
    have "(2::nat) ^ (?p - n) \<le> 2 ^ ?p" by (intro power_increasing) auto
    then have "\<not> bit x k" using first_bit [OF k, of x xs] less_le_trans [OF small] by blast
    then have "unat (x OR 2 ^ k) = unat x + 2 ^ k" by (rule unat_set_bit [OF _ k])
    then have new: "be_nat ((x OR 2 ^ k) # xs) = be_nat (x # xs) + 2 ^ ?p" by (simp add: power_add algebra_simps)
    have "be_nat ((x OR 2 ^ k) # xs) mod 2 ^ ?p = be_nat (x # xs) mod 2 ^ ?p" unfolding new by simp
    also have "\<dots> \<le> be_nat (x # xs) mod 2 ^ Suc ?p" by (rule mod_power_mono)
    also have "\<dots> < 2 ^ (?p - n)" using small by simp
    finally have "be_nat (set_header n (header_bit k) ((x OR 2 ^ k) # xs)) + 2 ^ (?p - n) = be_nat ((x OR 2 ^ k) # xs) + 2 ^ ?p \<and>
        length (set_header n (header_bit k) ((x OR 2 ^ k) # xs)) = Suc (length xs)"
      using k n by (intro Suc.IH) auto
    moreover have "set_header (Suc n) (header_bit (Suc k)) (x # xs) = set_header n (header_bit k) ((x OR 2 ^ k) # xs)"
      using header_bit_steps [OF k] by simp (simp add: header_bit_def)
    ultimately show ?thesis using new by (simp del: be_nat.simps)
  qed
  show ?case
  proof (cases k)
    case 0
    then obtain y ys where xs: "xs = y # ys" using Suc.prems(2) by (cases xs) auto
    have "be_nat (x # xs) mod 2 ^ (8 * length xs) = be_nat xs" using be_nat_less [of xs] by simp
    then have "be_nat (y # ys) < 2 ^ (8 * length ys + 7 - n)" using Suc.prems(3) 0 xs by (simp add: add.commute del: be_nat.simps)
    moreover have "be_nat (y # ys) mod 2 ^ (8 * length ys + Suc 7) = be_nat (y # ys)"
      using be_nat_less [of "y # ys"] by (simp add: add.commute)
    ultimately have "be_nat (set_header (Suc n) (header_bit (Suc 7)) (y # ys)) + 2 ^ (8 * length ys + 7 - n) = be_nat (y # ys) + 2 ^ (8 * length ys + Suc 7) \<and>
        length (set_header (Suc n) (header_bit (Suc 7)) (y # ys)) = Suc (length ys)"
      using Suc.prems(2) 0 xs by (intro inside) auto
    then have L: "be_nat (set_header (Suc n) 0x80 (y # ys)) + 2 ^ (8 * length xs - Suc n) = be_nat xs + 2 ^ (8 * length xs)"
      "length (set_header (Suc n) 0x80 (y # ys)) = length xs"
      unfolding xs by (simp_all add: add.commute del: set_header.simps be_nat.simps)
    have "set_header (Suc n) (header_bit k) (x # xs) = x # set_header (Suc n) 0x80 (y # ys)" using 0 xs by simp
    then show ?thesis using L 0 by (simp del: set_header.simps)
  next
    case (Suc j)
    then show ?thesis using inside [where k = j and x = x and xs = xs] Suc.prems by simp
  qed
qed simp

subsection \<open>Reading the header\<close>

lemma sign_adjusted_twice [simp]: "sign_adjusted pos (sign_adjusted pos x) = x"
  by (simp add: sign_adjusted_def)

lemma scan_length_next:
  "scan_length pos b 0 c (x # ar) = scan_length pos (sign_adjusted pos x) 0x80 (c - 1) ar"
  by (simp add: scan_length.simps [of pos b 0] scan_length.simps [of pos "sign_adjusted pos x"])

lemma scan_length_test:
  assumes "k < 8"
  shows "scan_length pos b (header_bit (Suc k)) c ar =
    (if bit b k then scan_length pos (b AND NOT (2 ^ k)) (header_bit k) (c + 1) ar else Some (b, c, ar))"
proof -
  have h: "header_bit (Suc k) = 2 ^ k" by (simp add: header_bit_def)
  have "b AND 2 ^ k = 0 \<longleftrightarrow> \<not> bit b k" by (rule and_exp_eq_0_iff_not_bit)
  then show ?thesis
    using header_bit_steps [OF assms] unfolding scan_length.simps [of pos b "header_bit (Suc k)"] by (simp add: h)
qed

lemma scan_length_ok:
  assumes "k < 8" "n \<le> 8 * length xs + k" "v < 2 ^ (8 * length xs + k - n)"
    and "be_nat (b # xs) + 2 ^ (8 * length xs + Suc k - n) = 2 ^ (8 * length xs + Suc k) + v"
  shows "\<exists>b' ys. scan_length pos b (header_bit (Suc k)) c (map (sign_adjusted pos) xs @ ar) =
      Some (b', c + int n - (int (length xs) - int (length ys)), map (sign_adjusted pos) ys @ ar) \<and> be_nat (b' # ys) = v"
  using assms
proof (induction n arbitrary: k b c xs)
  case 0
  then have "be_nat (b # xs) = v" "v < 2 ^ (8 * length xs + k)" by (simp_all del: be_nat.simps)
  moreover from this have "\<not> bit b k"
    using first_bit [OF 0(1), of b xs] le_less_trans [OF mod_less_eq_dividend [of v]] by (simp del: be_nat.simps)
  ultimately show ?case using scan_length_test [OF 0(1)] by (simp del: be_nat.simps) blast
next
  case (Suc n)
  let ?p = "8 * length xs + k"
  have n: "Suc n \<le> ?p" using Suc.prems(2) .
  have eq: "be_nat (b # xs) + 2 ^ (?p - n) = 2 ^ Suc ?p + v" using Suc.prems(4) by (simp del: be_nat.simps)
  have half: "(2::nat) ^ (?p - n) = 2 * 2 ^ (?p - Suc n)" using n by (metis Suc_diff_le diff_Suc_Suc power_Suc)
  have le: "(2::nat) ^ (?p - n) \<le> 2 ^ ?p" by (intro power_increasing) auto
  have big: "2 ^ ?p \<le> be_nat (b # xs)" "be_nat (b # xs) < 2 ^ Suc ?p"
    using eq le half Suc.prems(3) by (simp_all del: be_nat.simps)
  then have bit: "bit b k" using first_bit [OF Suc.prems(1), of b xs] by (simp del: be_nat.simps)
  let ?b = "b AND NOT (2 ^ k)"
  have "unat ?b + 2 ^ k = unat b" by (rule unat_clear_bit [OF bit Suc.prems(1)])
  moreover have "be_nat (?b # xs) + 2 ^ ?p = (unat ?b + 2 ^ k) * 2 ^ (8 * length xs) + be_nat xs"
    by (simp add: power_add algebra_simps)
  ultimately have "be_nat (?b # xs) + 2 ^ ?p = be_nat (b # xs)" by (simp only: be_nat.simps)
  then have eq': "be_nat (?b # xs) + 2 ^ (?p - n) = 2 ^ ?p + v" using eq by (simp del: be_nat.simps)
  have test: "scan_length pos b (header_bit (Suc k)) c ar' = scan_length pos ?b (header_bit k) (c + 1) ar'" for ar'
    using scan_length_test [OF Suc.prems(1)] bit by simp
  have count: "c + 1 + int n - d = c + int (Suc n) - d" for d by simp
  show ?case
  proof (cases k)
    case (Suc j)
    have "\<exists>b' ys. scan_length pos ?b (header_bit (Suc j)) (c + 1) (map (sign_adjusted pos) xs @ ar) =
      Some (b', c + 1 + int n - (int (length xs) - int (length ys)), map (sign_adjusted pos) ys @ ar) \<and> be_nat (b' # ys) = v"
      using Suc Suc.prems eq' by (intro Suc.IH) (simp_all del: be_nat.simps)
    then show ?thesis unfolding test Suc [symmetric] by (simp only: count)
  next
    case 0
    then obtain y ys where xs: "xs = y # ys" using n by (cases xs) auto
    have "be_nat (?b # xs) < 2 ^ (8 * length xs)"
      using eq' 0 half Suc.prems(3) by (simp del: be_nat.simps)
    then have "unat ?b * 2 ^ (8 * length xs) < 1 * 2 ^ (8 * length xs)"
      using le_less_trans [OF le_add1] unfolding be_nat.simps mult_1 by blast
    then have "unat ?b = 0" unfolding mult_less_cancel2 by simp
    then have "be_nat (y # ys) + 2 ^ (8 * length ys + Suc 7 - n) = 2 ^ (8 * length ys + Suc 7) + v"
      using eq' 0 xs by (simp add: add.commute)
    then have "\<exists>b' zs. scan_length pos y (header_bit (Suc 7)) c (map (sign_adjusted pos) ys @ ar) =
      Some (b', c + int n - (int (length ys) - int (length zs)), map (sign_adjusted pos) zs @ ar) \<and> be_nat (b' # zs) = v"
      using n 0 xs Suc.prems(3) by (intro Suc.IH) (simp_all add: add.commute del: be_nat.simps)
    then obtain b' zs where "scan_length pos y 0x80 c (map (sign_adjusted pos) ys @ ar) =
      Some (b', c + int n - (int (length ys) - int (length zs)), map (sign_adjusted pos) zs @ ar)" "be_nat (b' # zs) = v"
      by (auto simp del: be_nat.simps)
    then show ?thesis unfolding test using 0 xs by (intro exI [of _ b'] exI [of _ zs]) (simp add: scan_length_next del: be_nat.simps)
  qed
qed

lemma word_shift_in: "(of_nat (n * 256 + unat (b :: u8)) :: 'a::len word) = push_bit 8 (of_nat n) OR ucast b"
  unfolding shift_in_or [symmetric] unfolding shift_in_def push_bit_eq_mult by simp

lemma read_value_ok:
  "read_value pos (int (length xs)) (of_nat n) (map (sign_adjusted pos) xs @ ar) =
     Some (of_nat (n * 2 ^ (8 * length xs) + be_nat xs) :: 'a::len word, ar)"
proof (induction xs arbitrary: n)
  case Nil
  then show ?case by (cases ar) simp_all
next
  case (Cons x xs)
  then show ?case using Cons [of "n * 256 + unat x"] by (simp add: word_shift_in [symmetric] power_add algebra_simps)
qed

subsection \<open>The value bytes and the length\<close>

lemma value_bytes_zero [simp]: "value_bytes 0 buf = buf"
  by (simp add: value_bytes.simps)

lemma unat_high: "unat (drop_bit 8 v) = unat v div 256" and unat_low: "unat (ucast v :: u8) = unat v mod 256"
  for v :: "'a::len word"
  using drop_bit_eq_div [of 8 "unat v"] by (simp_all add: unat_drop_bit_eq unsigned_ucast_eq take_bit_eq_mod)

lemma be_nat_value_bytes: "be_nat (value_bytes v buf) = unat v * 2 ^ (8 * length buf) + be_nat buf"
proof (induction v buf rule: value_bytes.induct)
  case (1 v buf)
  show ?case
  proof (cases "v = 0")
    case False
    define q r where "q = unat v div 256" and "r = unat v mod 256"
    have v: "unat v = q * 256 + r" by (simp add: q_def r_def)
    have "be_nat (value_bytes v buf) = be_nat (value_bytes (drop_bit 8 v) (ucast v # buf))"
      using False by (simp add: value_bytes.simps [of v])
    also have "\<dots> = unat (drop_bit 8 v) * 2 ^ (8 * length (ucast v # buf :: bytes)) + be_nat (ucast v # buf)" by (rule 1 [OF False])
    also have "\<dots> = (q * 256 + r) * 2 ^ (8 * length buf) + be_nat buf"
      unfolding unat_high q_def [symmetric] be_nat.simps unat_low r_def [symmetric] by (simp add: power_add algebra_simps)
    finally show ?thesis unfolding v .
  qed simp
qed

lemma value_bytes_head: "v \<noteq> 0 \<Longrightarrow> \<exists>b bs. value_bytes v buf = b # bs \<and> b \<noteq> 0"
proof (induction v buf rule: value_bytes.induct)
  case (1 v buf)
  have "unat v \<noteq> 0" using "1.prems" by (simp add: unat_eq_0)
  show ?case
  proof (cases "drop_bit 8 v = 0")
    case True
    then have "unat v div 256 = 0" using unat_high [of v] by simp
    then have "unat v mod 256 = unat v" by (simp add: div_eq_0_iff)
    then have "unat (ucast v :: u8) \<noteq> 0" using \<open>unat v \<noteq> 0\<close> unfolding unat_low by simp
    then have "(ucast v :: u8) \<noteq> 0" by (metis unsigned_0)
    then show ?thesis using True "1.prems" by (simp add: value_bytes.simps [of v])
  next
    case False
    then show ?thesis using 1 by (simp add: value_bytes.simps [of v])
  qed
qed

lemma leading_zeros_ok: "b \<noteq> 0 \<Longrightarrow> leading_zeros b < 8 \<and> 2 ^ (7 - leading_zeros b) \<le> unat b \<and> unat b < 2 ^ (8 - leading_zeros b)"
proof (induction b rule: leading_zeros.induct)
  case (1 b)
  show ?case
  proof (cases "unat b < 128")
    case False
    then show ?thesis using unsigned_less [of b, where 'a = nat] by (simp add: leading_zeros.simps [of b] top_bit)
  next
    case True
    have u: "0 < unat b" using 1(2) by (simp add: unat_gt_0)
    define z where "z = leading_zeros (push_bit 1 b)"
    have "unat (push_bit 1 b) \<noteq> 0" using True u by (simp add: unat_double)
    then have "push_bit 1 b \<noteq> 0" by (metis unsigned_0)
    then have z: "z < 8" "2 ^ (7 - z) \<le> 2 * unat b" "2 * unat b < 2 ^ (8 - z)"
      unfolding z_def using 1 True by (simp_all add: top_bit unat_double)
    have "leading_zeros b = Suc z"
      using True 1(2) unfolding z_def by (simp add: leading_zeros.simps [of b] top_bit)
    moreover have "z \<noteq> 7" using z(3) u by auto
    then have "(2::nat) ^ (7 - z) = 2 * 2 ^ (6 - z)" "(2::nat) ^ (8 - z) = 2 * 2 ^ (7 - z)"
      using z(1) by (simp_all flip: power_Suc add: Suc_diff_le)
    ultimately show ?thesis using z \<open>z \<noteq> 7\<close> by simp
  qed
qed

text \<open>The number of bits of a value, as the code computes it.\<close>

definition bit_length :: "bytes \<Rightarrow> nat" where
  "bit_length buf = 8 * length buf - (case buf of [] \<Rightarrow> 0 | b # _ \<Rightarrow> leading_zeros b)"

lemma bit_length_ok:
  assumes "v \<noteq> 0"
  shows "2 ^ (bit_length (value_bytes v []) - 1) \<le> unat v \<and> unat v < 2 ^ bit_length (value_bytes v []) \<and>
    8 * (length (value_bytes v []) - 1) < bit_length (value_bytes v [])"
proof -
  obtain b bs where b: "value_bytes v [] = b # bs" "b \<noteq> 0" using value_bytes_head [OF assms] by blast
  define d where "d = 7 - leading_zeros b"
  let ?m = "8 * length bs"
  have z: "leading_zeros b < 8" "2 ^ d \<le> unat b" "unat b < 2 ^ Suc d"
  proof -
    have "leading_zeros b < 8" "8 - leading_zeros b = Suc d" using leading_zeros_ok [OF b(2)] by (auto simp: d_def)
    then show "leading_zeros b < 8" "2 ^ d \<le> unat b" "unat b < 2 ^ Suc d"
      using leading_zeros_ok [OF b(2)] by (auto simp: d_def)
  qed
  have v: "unat v = unat b * 2 ^ ?m + be_nat bs" using be_nat_value_bytes [of v "[]"] b(1) by simp
  have len: "bit_length (value_bytes v []) = Suc d + ?m" using b(1) z(1) by (simp add: bit_length_def d_def)
  have "(2::nat) ^ (d + ?m) \<le> unat b * 2 ^ ?m" using z(2) by (simp add: power_add)
  then have low: "2 ^ (d + ?m) \<le> unat v" using v by simp
  have "unat v < (unat b + 1) * 2 ^ ?m" using v be_nat_less [of bs] by simp
  moreover have "(unat b + 1) * 2 ^ ?m \<le> 2 ^ Suc d * 2 ^ ?m" using z(3) by (intro mult_right_mono) simp_all
  ultimately have "unat v < 2 ^ Suc d * 2 ^ ?m" by (rule less_le_trans)
  then have "unat v < 2 ^ (Suc d + ?m)" by (simp only: power_add)
  then show ?thesis using low len unfolding b(1) by simp
qed

subsection \<open>The encoding of a magnitude\<close>

definition encoded_length :: "'a::len word \<Rightarrow> nat" where
  "encoded_length v = bit_length (value_bytes v []) div 7 + 1"

definition encoded :: "'a::len word \<Rightarrow> bytes" where
  "encoded v =
     (let buf = value_bytes v [] in
      set_header (encoded_length v) 0x80
        (replicate (encoded_length v - length buf) 0 @ drop (length buf - encoded_length v) buf))"

lemma write_encoded:
  "compressed_write x = map (sign_adjusted (\<not> x <s 0)) (encoded (if x <s 0 then NOT x else x))"
proof -
  have "map (sign_adjusted True) xs = xs" "map (sign_adjusted False) xs = map (\<lambda>b. NOT b) xs" for xs
    by (simp_all add: sign_adjusted_def map_idI)
  then show ?thesis by (simp add: compressed_write_def encoded_def encoded_length_def bit_length_def Let_def)
qed

lemma encoded_length_ok:
  "length (value_bytes v []) \<le> encoded_length v \<and> unat v < 2 ^ (7 * encoded_length v - 1)"
proof (cases "v = 0")
  case False
  let ?b = "bit_length (value_bytes v [])"
  have b: "unat v < 2 ^ ?b" "8 * (length (value_bytes v []) - 1) < ?b" using bit_length_ok [OF False] by auto
  have "?b \<le> 7 * encoded_length v - 1" by (simp add: encoded_length_def)
  then have "(2::nat) ^ ?b \<le> 2 ^ (7 * encoded_length v - 1)" by (intro power_increasing) auto
  then have "unat v < 2 ^ (7 * encoded_length v - 1)" by (rule less_le_trans [OF b(1)])
  moreover have "length (value_bytes v []) \<le> encoded_length v" using b(2) by (auto simp: encoded_length_def)
  ultimately show ?thesis by simp
qed (simp add: encoded_length_def)

theorem encoded_number:
  "length (encoded v) = encoded_length v \<and> be_nat (encoded v) + 2 ^ (7 * encoded_length v) = 2 ^ (8 * encoded_length v) + unat v"
proof -
  let ?e = "encoded_length v" and ?buf = "value_bytes v []"
  define out where "out = replicate (?e - length ?buf) 0 @ ?buf"
  have e: "0 < ?e" by (simp add: encoded_length_def)
  have out: "length out = ?e" "be_nat out = unat v" using encoded_length_ok [of v] be_nat_value_bytes [of v "[]"] by (auto simp: out_def)
  have enc: "encoded v = set_header ?e 0x80 out" using encoded_length_ok [of v] by (simp add: encoded_def out_def Let_def)
  obtain x xs where xs: "out = x # xs" using out(1) e by (cases out) auto
  then have m: "?e = Suc (length xs)" using out(1) by simp
  have small: "unat v < 2 ^ (7 * ?e)" using encoded_length_ok [of v] by (rule less_le_trans [OF conjunct2]) (intro power_increasing, auto)
  have "(2::nat) ^ (7 * ?e) \<le> 2 ^ (8 * ?e)" by (intro power_increasing) auto
  then have "be_nat (x # xs) mod 2 ^ (8 * length xs + 8) < 2 ^ (8 * length xs + 8 - ?e)"
    using small out(2) xs m by (simp del: be_nat.simps add: le_less_trans [OF mod_less_eq_dividend])
  then have "be_nat (set_header ?e (header_bit 8) (x # xs)) + 2 ^ (8 * length xs + 8 - ?e) = be_nat (x # xs) + 2 ^ (8 * length xs + 8) \<and>
      length (set_header ?e (header_bit 8) (x # xs)) = Suc (length xs)"
    using m by (intro set_header_ok) auto
  then show ?thesis unfolding enc xs using out(2) xs m by (simp del: be_nat.simps set_header.simps add: add.commute)
qed

subsection \<open>Round trip\<close>

lemma encoded_head:
  obtains x xs where "encoded v = x # xs" "encoded_length v = Suc (length xs)" "128 \<le> unat x"
proof -
  have l: "length (encoded v) = encoded_length v" and n: "be_nat (encoded v) + 2 ^ (7 * encoded_length v) = 2 ^ (8 * encoded_length v) + unat v"
    using encoded_number [of v] by auto
  obtain x xs where x: "encoded v = x # xs" using l by (cases "encoded v") (auto simp: encoded_length_def)
  let ?m = "8 * length xs"
  have e: "encoded_length v = Suc (length xs)" using l x by simp
  have "(2::nat) ^ (7 * encoded_length v) \<le> 2 ^ (?m + 7)" using e by (intro power_increasing) auto
  moreover have "(2::nat) ^ (8 * encoded_length v) = 2 * 2 ^ (?m + 7)" using e by (simp add: power_add)
  ultimately have "128 * 2 ^ ?m \<le> be_nat (x # xs)" using n x by (simp add: power_add)
  then have "128 * 2 ^ ?m \<le> unat x * 2 ^ ?m + be_nat xs" by simp
  then have "128 * 2 ^ ?m < (unat x + 1) * 2 ^ ?m" unfolding add_mult_distrib using be_nat_less [of xs] by linarith
  then have "128 \<le> unat x" unfolding mult_less_cancel2 by simp
  then show ?thesis using that x e by blast
qed

lemma sign_bit_adjusted:
  assumes "128 \<le> unat x" shows "(sign_adjusted pos x AND 0x80 \<noteq> 0) = pos"
proof -
  have "bit x 7" using assms top_bit [of x] and_exp_eq_0_iff_not_bit [of x 7] by auto
  then have "bit (sign_adjusted pos x) 7 \<longleftrightarrow> pos" by (simp add: sign_adjusted_def bit_not_iff)
  then show ?thesis using and_exp_eq_0_iff_not_bit [of "sign_adjusted pos x" 7] by simp
qed

lemma read_encoded:
  fixes v :: "'a::len word"
  shows "compressed_read (map (sign_adjusted pos) (encoded v) @ ar) = Some (if pos then v else NOT v, ar)"
proof -
  obtain x xs where x: "encoded v = x # xs" "encoded_length v = Suc (length xs)" "128 \<le> unat x" by (rule encoded_head)
  let ?b = "x AND 0x7f" and ?m = "8 * length xs"
  have "bit x 7" using x(3) top_bit [of x] and_exp_eq_0_iff_not_bit [of x 7] by auto
  then have "unat (x AND NOT (2 ^ 7)) + 2 ^ 7 = unat x" by (rule unat_clear_bit) simp
  moreover have "NOT (2 ^ 7) = (0x7f :: u8)" by code_simp
  ultimately have b: "unat ?b + 128 = unat x" by (simp only:) simp
  have num: "be_nat (x # xs) + 2 ^ (7 * Suc (length xs)) = 2 ^ (8 * Suc (length xs)) + unat v"
    using encoded_number [of v] unfolding x by blast
  have "be_nat (?b # xs) + 128 * 2 ^ ?m = be_nat (x # xs)" using b by (simp flip: b add: algebra_simps)
  then have "be_nat (?b # xs) + 2 ^ (?m + Suc 6 - length xs) = 2 ^ (?m + Suc 6) + unat v"
    using num by (simp add: power_add)
  moreover have "unat v < 2 ^ (?m + 6 - length xs)" using encoded_length_ok [of v] x(2) by (simp add: algebra_simps)
  ultimately have "\<exists>b' ys. scan_length pos ?b (header_bit (Suc 6)) 0 (map (sign_adjusted pos) xs @ ar) =
      Some (b', 0 + int (length xs) - (int (length xs) - int (length ys)), map (sign_adjusted pos) ys @ ar) \<and> be_nat (b' # ys) = unat v"
    by (intro scan_length_ok) auto
  then obtain b' ys where s: "scan_length pos ?b 0x40 0 (map (sign_adjusted pos) xs @ ar) = Some (b', int (length ys), map (sign_adjusted pos) ys @ ar)"
    and v: "be_nat (b' # ys) = unat v" by (auto simp: header_bit_def simp del: be_nat.simps)
  have "read_value pos (int (length ys)) (of_nat (unat b')) (map (sign_adjusted pos) ys @ ar) = Some (of_nat (be_nat (b' # ys)) :: 'a word, ar)"
    unfolding read_value_ok be_nat.simps ..
  then have r: "read_value pos (int (length ys)) (ucast b') (map (sign_adjusted pos) ys @ ar) = Some (v, ar)"
    unfolding v by simp
  show ?thesis using s r by (simp add: compressed_read_def x(1) sign_bit_adjusted [OF x(3)] Let_def)
qed

text \<open>C26. Reading gives back the integer that was written, of whatever width, and leaves the bytes behind it.\<close>

theorem CompressedInt_roundtrip:
  "compressed_read (compressed_write x @ ar) = Some (x, ar)"
  unfolding write_encoded read_encoded by simp

subsection \<open>Order\<close>

text \<open>Two lists differ at a position that both have; the order does not depend on what follows.\<close>

definition before :: "bytes \<Rightarrow> bytes \<Rightarrow> bool" where
  "before xs ys = (\<exists>n. n \<le> length xs \<and> n \<le> length ys \<and> be_nat (take n xs) < be_nat (take n ys))"

lemma same_length_less: "length xs = length ys \<Longrightarrow> be_nat xs < be_nat ys \<Longrightarrow> xs < ys"
proof (induction xs ys rule: list_induct2)
  case (Cons x xs y ys)
  show ?case
  proof (cases "unat x" "unat y" rule: linorder_cases)
    case equal
    then have "x = y" by (rule unsigned_word_eqI)
    then show ?thesis using Cons by simp
  next
    case greater
    have "(unat y + 1) * 2 ^ (8 * length xs) \<le> unat x * 2 ^ (8 * length xs)" using greater by (intro mult_right_mono) auto
    then have False using Cons.prems Cons.hyps be_nat_less [of ys] by (simp add: add_mult_distrib)
    then show ?thesis ..
  qed (simp add: word_less_nat_alt)
qed simp

lemma append_less: "length xs = length ys \<Longrightarrow> xs < ys \<Longrightarrow> xs @ us < ys @ vs"
  for xs ys :: bytes
  by (induction xs ys rule: list_induct2) auto

lemma before_less: "before xs ys \<Longrightarrow> xs < ys"
proof -
  assume "before xs ys"
  then obtain n where n: "n \<le> length xs" "n \<le> length ys" "be_nat (take n xs) < be_nat (take n ys)" by (auto simp: before_def)
  then have "take n xs < take n ys" by (intro same_length_less) auto
  then have "take n xs @ drop n xs < take n ys @ drop n ys" using n by (intro append_less) auto
  then show ?thesis by simp
qed

lemma be_nat_complement: "be_nat (map (\<lambda>b. NOT b) xs) + be_nat xs + 1 = 2 ^ (8 * length xs)"
proof (induction xs)
  case (Cons x xs)
  have "unat (NOT x) AND unat x = unat (NOT x AND x)" "unat (NOT x) OR unat x = unat (NOT x OR x)"
    unfolding unsigned_and_eq unsigned_or_eq by (rule refl)+
  moreover have "NOT x AND x = 0" "NOT x OR x = - 1" by (simp_all add: bit_eq_iff bit_simps)
  ultimately have "unat (NOT x) + unat x = unat (- 1 :: u8)" by (metis disjunctive_add_eq_or unsigned_0)
  then have "unat (NOT x) + unat x + 1 = 256" by (simp add: unsigned_minus_1_eq_mask mask_eq_exp_minus_1)
  then have "(unat (NOT x) + unat x + 1) * 2 ^ (8 * length xs) = 2 ^ (8 * length (x # xs))" by (simp add: power_add)
  then show ?case using Cons by (simp add: algebra_simps)
qed simp

lemma before_complement: "before xs ys \<Longrightarrow> before (map (\<lambda>b. NOT b) ys) (map (\<lambda>b. NOT b) xs)"
proof -
  assume "before xs ys"
  then obtain n where n: "n \<le> length xs" "n \<le> length ys" "be_nat (take n xs) < be_nat (take n ys)" by (auto simp: before_def)
  then show ?thesis
    using be_nat_complement [of "take n xs"] be_nat_complement [of "take n ys"] unfolding before_def
    by (intro exI [of _ n]) (auto simp: take_map)
qed

lemma be_nat_take: "n \<le> length xs \<Longrightarrow> be_nat (take n xs) = be_nat xs div 2 ^ (8 * (length xs - n))"
proof -
  assume "n \<le> length xs"
  have "be_nat (take n xs @ drop n xs) = be_nat (take n xs) * 2 ^ (8 * length (drop n xs)) + be_nat (drop n xs)" by (rule be_nat_append)
  then have "be_nat xs = be_nat (take n xs) * 2 ^ (8 * (length xs - n)) + be_nat (drop n xs)" by simp
  then show ?thesis using be_nat_less [of "drop n xs"] by simp
qed

lemma encoded_length_mono: "unat v \<le> unat w \<Longrightarrow> encoded_length v \<le> encoded_length w"
proof (cases "v = 0")
  case True
  then show ?thesis by (simp add: encoded_length_def bit_length_def)
next
  case False
  assume le: "unat v \<le> unat w"
  then have w: "w \<noteq> 0" using False by (metis unsigned_0 le_zero_eq unsigned_eq_0_iff)
  let ?l = "\<lambda>v. bit_length (value_bytes v [])"
  have "2 ^ (?l v - 1) < (2::nat) ^ ?l w" using bit_length_ok [OF False] bit_length_ok [OF w] le by linarith
  then have "?l v - 1 < ?l w" by simp
  then show ?thesis by (auto simp: encoded_length_def intro: div_le_mono)
qed

lemma encoded_before:
  fixes v w :: "'a::len word"
  assumes "unat v < unat w" shows "before (encoded v) (encoded w)"
proof -
  let ?a = "encoded_length v" and ?b = "encoded_length w"
  have ab: "?a \<le> ?b" using assms by (intro encoded_length_mono) simp
  have v: "length (encoded v) = ?a" "be_nat (encoded v) + 2 ^ (7 * ?a) = 2 ^ (8 * ?a) + unat v" and
    w: "length (encoded w) = ?b" "be_nat (encoded w) + 2 ^ (7 * ?b) = 2 ^ (8 * ?b) + unat w" using encoded_number by blast+
  have "be_nat (encoded v) < be_nat (take ?a (encoded w))"
  proof (cases "?a = ?b")
    case True
    then show ?thesis using v w assms by simp
  next
    case False
    have a0: "0 < ?a" by (simp add: encoded_length_def)
    let ?t = "(2::nat) ^ (8 * ?a) - 2 ^ (7 * ?a - 1)"
    have half: "(2::nat) ^ (7 * ?a) = 2 * 2 ^ (7 * ?a - 1)" using a0 by (simp flip: power_Suc)
    have "(2::nat) ^ (7 * ?a) \<le> 2 ^ (8 * ?a)" by (intro power_increasing) auto
    then have "be_nat (encoded v) < ?t" using v(2) half encoded_length_ok [of v] by linarith
    also have "?t \<le> be_nat (encoded w) div 2 ^ (8 * (?b - ?a))"
    proof -
      have "?t * 2 ^ (8 * (?b - ?a)) = 2 ^ (8 * ?a + 8 * (?b - ?a)) - 2 ^ (7 * ?a - 1 + 8 * (?b - ?a))"
        by (simp add: power_add diff_mult_distrib)
      also have "8 * ?a + 8 * (?b - ?a) = 8 * ?b" using ab by simp
      also have "(2::nat) ^ (8 * ?b) - 2 ^ (7 * ?a - 1 + 8 * (?b - ?a)) \<le> 2 ^ (8 * ?b) - 2 ^ (7 * ?b)"
        using ab False a0 by (intro diff_le_mono2 power_increasing) auto
      also have "\<dots> \<le> be_nat (encoded w)" using w(2) by linarith
      finally show ?thesis by (simp add: less_eq_div_iff_mult_less_eq)
    qed
    also have "\<dots> = be_nat (take ?a (encoded w))" using ab w(1) by (simp add: be_nat_take)
    finally show ?thesis .
  qed
  then show ?thesis unfolding before_def using ab v(1) w(1) by (intro exI [of _ ?a]) simp
qed

lemma nonneg_sint: "0 \<le> sint (x :: 'a::len word) \<Longrightarrow> int (unat x) = sint x"
proof -
  assume "0 \<le> sint x"
  moreover have "sint x < 2 ^ LENGTH('a)"
  proof (rule less_le_trans [OF sint_lt])
    show "(2::int) ^ (LENGTH('a) - 1) \<le> 2 ^ LENGTH('a)" by (intro power_increasing) auto
  qed
  ultimately have "uint x = sint x" unfolding uint_sint by (simp add: take_bit_int_eq_self)
  then show ?thesis by simp
qed

lemma sint_complement: "sint (NOT x) = - 1 - sint (x :: 'a::len word)"
proof -
  have "- (2 ^ (LENGTH('a) - 1)) \<le> - 1 - sint x" "- 1 - sint x < 2 ^ (LENGTH('a) - 1)"
    using sint_lt [of x] sint_ge [of x] by auto
  then have "signed_take_bit (LENGTH('a) - 1) (- 1 - sint x) = - 1 - sint x" by (simp add: signed_take_bit_int_eq_self)
  moreover have "NOT x = word_of_int (- 1 - sint x)" by (simp add: not_eq_complement)
  moreover have "sint (word_of_int k :: 'a word) = signed_take_bit (LENGTH('a) - 1) k" for k by transfer simp
  ultimately show ?thesis by (simp only:)
qed

text \<open>C25. The encodings sort like the integers: the encoding of the smaller one comes first in the order of byte strings,
  whatever the lengths.\<close>

theorem CompressedInt_order:
  fixes x y :: "'a::len word"
  assumes "x <s y" shows "compressed_write x < compressed_write y"
proof (rule before_less)
  have lt: "sint x < sint y" using assms by (simp add: word_sless_alt)
  have sign: "z <s 0 \<longleftrightarrow> sint z < 0" for z :: "'a word" by (simp add: word_sless_alt)
  have adjusted: "map (sign_adjusted True) zs = zs" "map (sign_adjusted False) zs = map (\<lambda>b. NOT b) zs" for zs
    by (simp_all add: sign_adjusted_def map_idI)
  note enc = write_encoded sign
  consider (pos) "0 \<le> sint x" | (neg) "sint y < 0" | (mixed) "sint x < 0" "0 \<le> sint y" using lt by linarith
  then show "before (compressed_write x) (compressed_write y)"
  proof cases
    case pos
    then have "unat x < unat y" using lt nonneg_sint [of x] nonneg_sint [of y] by linarith
    then show ?thesis using pos lt encoded_before [of x y] by (simp add: enc adjusted)
  next
    case neg
    then have "unat (NOT y) < unat (NOT x)"
      using lt nonneg_sint [of "NOT x"] nonneg_sint [of "NOT y"] sint_complement [of x] sint_complement [of y] by linarith
    then show ?thesis using neg lt before_complement [OF encoded_before] by (simp add: enc adjusted)
  next
    case mixed
    obtain u us where u: "encoded (NOT x) = u # us" "128 \<le> unat u" by (rule encoded_head)
    obtain w ws where w: "encoded y = w # ws" "128 \<le> unat w" by (rule encoded_head)
    have "unat (NOT u) + unat u + 1 = 256" using be_nat_complement [of "[u]"] by simp
    then have "unat (NOT u) < unat w" using u(2) w(2) by linarith
    then show ?thesis using mixed by (simp add: enc adjusted u w before_def) (auto simp: sign_adjusted_def intro!: exI [of _ 1])
  qed
qed

theorem CompressedInt_order_witness: "compressed_write (- 300 :: 64 word) < compressed_write (5 :: 64 word)"
  by (rule CompressedInt_order) (simp add: word_sless_alt)

text \<open>The buffer of \<open>2 * sizeof(IntType)\<close> bytes is large enough for every encoding.\<close>

lemma CompressedInt_fits:
  fixes x :: "'a::len word"
  assumes "LENGTH('a) = 8 * n" shows "length (compressed_write x) \<le> 2 * n"
proof -
  define v where "v = (if x <s 0 then NOT x else x)"
  have n: "0 < n" using assms len_gt_0 [where 'a = 'a] by (cases n) auto
  have "0 \<le> sint v" using sint_complement [of x] by (simp add: v_def word_sless_alt)
  then have "int (unat v) < 2 ^ (8 * n - 1)" using nonneg_sint [of v] sint_lt [of v] assms by simp
  then have small: "unat v < 2 ^ (8 * n - 1)" by (metis of_nat_less_iff of_nat_numeral of_nat_power)
  have "bit_length (value_bytes v []) \<le> 8 * n - 1"
  proof (cases "v = 0")
    case False
    then have "(2::nat) ^ (bit_length (value_bytes v []) - 1) < 2 ^ (8 * n - 1)"
      using bit_length_ok [OF False] small by linarith
    then have "bit_length (value_bytes v []) - 1 < 8 * n - 1" by simp
    then show ?thesis by simp
  qed (simp add: bit_length_def)
  then have "encoded_length v \<le> 2 * n" using n by (simp add: encoded_length_def) 
  then show ?thesis using encoded_number [of v] by (simp add: write_encoded v_def)
qed

end
