(* ===== verification/RoomStore.thy ===== *)
theory RoomStore
  imports Prelude
begin

text \<open>
  The rooms of the fanout core: \<^verbatim>\<open>fanout-core/Fanoutcore/SlotMap.lean\<close>, \<^verbatim>\<open>FanoutCore.lean\<close> and the room functions of
  \<^verbatim>\<open>Ffi.lean\<close>, which the server calls through the foreign function interface.  A room holds the connections that are
  subscribed to it; rooms live in a slot map, whose identifiers carry a generation.
\<close>

subsection \<open>Slot maps\<close>

record slot_id =
  slot_index :: u32
  slot_generation :: u32

record 'a slot_map =
  slots :: "(u32 \<times> 'a option) list"
  freeList :: "u32 list"

definition SlotMap_empty :: "nat \<Rightarrow> 'a slot_map" where
  "SlotMap_empty capacity = \<lparr>slots = replicate capacity (0, None), freeList = map of_nat (rev [0..<capacity])\<rparr>"

definition SlotMap_find :: "'a slot_map \<Rightarrow> slot_id \<Rightarrow> 'a option" where
  "SlotMap_find m i =
     (let idx = unat (slot_index i) in
      if idx < length (slots m) then (let (g, v) = slots m ! idx in if g = slot_generation i then v else None) else None)"

definition SlotMap_alloc :: "'a slot_map \<Rightarrow> 'a \<Rightarrow> ('a slot_map \<times> slot_id) option" where
  "SlotMap_alloc m v =
     (if freeList m = [] then None
      else let idx = last (freeList m); idxN = unat idx in
           if idxN < length (slots m) then
             let gen = fst (slots m ! idxN) + 1 in
             Some (m\<lparr>slots := (slots m)[idxN := (gen, Some v)], freeList := butlast (freeList m)\<rparr>,
                   \<lparr>slot_index = idx, slot_generation = gen\<rparr>)
           else None)"

definition SlotMap_free :: "'a slot_map \<Rightarrow> slot_id \<Rightarrow> 'a slot_map" where
  "SlotMap_free m i =
     (let idx = unat (slot_index i) in
      if idx < length (slots m) then
        (let (g, v) = slots m ! idx in
         if g = slot_generation i \<and> v \<noteq> None
         then m\<lparr>slots := (slots m)[idx := (g, None)], freeList := freeList m @ [slot_index i]\<rparr> else m)
      else m)"

definition SlotMap_update :: "'a slot_map \<Rightarrow> slot_id \<Rightarrow> 'a \<Rightarrow> 'a slot_map" where
  "SlotMap_update m i v =
     (let idx = unat (slot_index i) in
      if idx < length (slots m) then
        (let (g, cur) = slots m ! idx in
         if g = slot_generation i \<and> cur \<noteq> None then m\<lparr>slots := (slots m)[idx := (g, Some v)]\<rparr> else m)
      else m)"

definition SlotMap_liveEntries :: "'a slot_map \<Rightarrow> (slot_id \<times> 'a) list" where
  "SlotMap_liveEntries m =
     concat (map (\<lambda>idx. case slots m ! idx of
                    (g, Some v) \<Rightarrow> [(\<lparr>slot_index = of_nat idx, slot_generation = g\<rparr>, v)]
                  | (g, None) \<Rightarrow> []) [0..<length (slots m)])"

text \<open>The identifier as one scalar.\<close>

definition Id_pack :: "slot_id \<Rightarrow> u64" where
  "Id_pack i = push_bit 32 (ucast (slot_index i)) OR ucast (slot_generation i)"

definition Id_unpack :: "u64 \<Rightarrow> slot_id" where
  "Id_unpack v = \<lparr>slot_index = ucast (drop_bit 32 v), slot_generation = ucast (v AND 0xFFFFFFFF)\<rparr>"

definition SENTINEL :: u64 where
  "SENTINEL = 0xFFFFFFFFFFFFFFFF"

subsection \<open>Rooms\<close>

type_synonym conn = u64

record room = subscribers :: "conn list"

definition Room_empty :: room where
  "Room_empty = \<lparr>subscribers = []\<rparr>"

definition Room_sub :: "room \<Rightarrow> conn \<Rightarrow> room" where
  "Room_sub r c = (if c \<in> set (subscribers r) then r else r\<lparr>subscribers := subscribers r @ [c]\<rparr>)"

definition Room_unsub :: "room \<Rightarrow> conn \<Rightarrow> room" where
  "Room_unsub r c = r\<lparr>subscribers := filter (\<lambda>x. x \<noteq> c) (subscribers r)\<rparr>"

definition Room_targets :: "room \<Rightarrow> conn \<Rightarrow> conn list" where
  "Room_targets r publisher = filter (\<lambda>x. x \<noteq> publisher) (subscribers r)"

subsection \<open>The exported functions on rooms\<close>

definition fanout_alloc_room :: "room slot_map \<Rightarrow> room slot_map \<times> u64" where
  "fanout_alloc_room rooms =
     (case SlotMap_alloc rooms Room_empty of None \<Rightarrow> (rooms, SENTINEL) | Some (rooms', i) \<Rightarrow> (rooms', Id_pack i))"

definition fanout_free_room :: "u64 \<Rightarrow> room slot_map \<Rightarrow> room slot_map" where
  "fanout_free_room roomId rooms = SlotMap_free rooms (Id_unpack roomId)"

definition fanout_sub :: "u64 \<Rightarrow> conn \<Rightarrow> room slot_map \<Rightarrow> room slot_map" where
  "fanout_sub roomId c rooms =
     (case SlotMap_find rooms (Id_unpack roomId) of
        None \<Rightarrow> rooms
      | Some r \<Rightarrow> SlotMap_update rooms (Id_unpack roomId) (Room_sub r c))"

definition fanout_unsub :: "u64 \<Rightarrow> conn \<Rightarrow> room slot_map \<Rightarrow> room slot_map" where
  "fanout_unsub roomId c rooms =
     (case SlotMap_find rooms (Id_unpack roomId) of
        None \<Rightarrow> rooms
      | Some r \<Rightarrow> SlotMap_update rooms (Id_unpack roomId) (Room_unsub r c))"

definition fanout_pub_targets :: "u64 \<Rightarrow> conn \<Rightarrow> room slot_map \<Rightarrow> conn list" where
  "fanout_pub_targets roomId publisher rooms =
     (case SlotMap_find rooms (Id_unpack roomId) of None \<Rightarrow> [] | Some r \<Rightarrow> Room_targets r publisher)"

subsection \<open>Identifiers\<close>

lemma pack_unpack [simp]: "Id_unpack (Id_pack i) = i"
proof -
  have "ucast (drop_bit 32 (Id_pack i)) = slot_index i"
    by (rule bit_word_eqI) (auto simp: Id_pack_def bit_simps dest: bit_imp_le_length)
  moreover have "ucast (Id_pack i AND 0xFFFFFFFF) = slot_generation i"
  proof -
    have mask: "(0xFFFFFFFF :: u64) = mask 32" by (simp add: mask_eq_exp_minus_1)
    show ?thesis unfolding mask by (rule bit_word_eqI) (auto simp: Id_pack_def bit_simps dest: bit_imp_le_length)
  qed
  ultimately show ?thesis by (simp add: Id_unpack_def)
qed

lemma unpack_pack [simp]: "Id_pack (Id_unpack v) = v"
proof -
  have mask: "(0xFFFFFFFF :: u64) = mask 32" by (simp add: mask_eq_exp_minus_1)
  show ?thesis unfolding Id_pack_def Id_unpack_def mask
    by (rule bit_word_eqI) (auto simp: bit_simps)
qed

lemma pack_inject [simp]: "Id_pack i = Id_pack j \<longleftrightarrow> i = j"
  by (metis pack_unpack)

lemma unpack_inject [simp]: "Id_unpack v = Id_unpack w \<longleftrightarrow> v = w"
  by (metis unpack_pack)

subsection \<open>What a store of identified values promises\<close>

text \<open>The interface the server relies on: which identifiers are live, and that an operation on one leaves the others
  alone.\<close>

locale id_store =
  fixes ok :: "'m \<Rightarrow> bool" and find :: "'m \<Rightarrow> 'i \<Rightarrow> 'a option" and alloc :: "'m \<Rightarrow> 'a \<Rightarrow> ('m \<times> 'i) option"
    and upd :: "'m \<Rightarrow> 'i \<Rightarrow> 'a \<Rightarrow> 'm" and free :: "'m \<Rightarrow> 'i \<Rightarrow> 'm"
  assumes ok_alloc: "ok m \<Longrightarrow> alloc m v = Some (m', i) \<Longrightarrow> ok m'"
    and ok_upd: "ok m \<Longrightarrow> ok (upd m i v)"
    and ok_free: "ok m \<Longrightarrow> ok (free m i)"
    and find_alloc: "ok m \<Longrightarrow> alloc m v = Some (m', i) \<Longrightarrow> find m' j = (if j = i then Some v else find m j)"
    and fresh_alloc: "ok m \<Longrightarrow> alloc m v = Some (m', i) \<Longrightarrow> find m i = None"
    and find_upd: "find (upd m i v) j = (if j = i \<and> find m i \<noteq> None then Some v else find m j)"
    and find_free: "find (free m i) j = (if j = i then None else find m j)"
begin

text \<open>A freed identifier stays dead whatever is allocated after it, as long as it is not handed out again.\<close>

lemma freed_stays_dead:
  "ok m \<Longrightarrow> alloc (free m i) v = Some (m', j) \<Longrightarrow> j \<noteq> i \<Longrightarrow> find m' i = None"
  using find_alloc [OF ok_free] find_free by fastforce

lemma modify_twice: "find m i \<noteq> None \<Longrightarrow> find (upd (upd m i v) i w) j = find (upd m i w) j"
  by (simp add: find_upd)

end

text \<open>The slots on the free list are empty, and each is there once.\<close>

definition slot_map_ok :: "'a slot_map \<Rightarrow> bool" where
  "slot_map_ok m =
     (length (slots m) < 2 ^ 32 \<and> distinct (freeList m) \<and>
      (\<forall>i \<in> set (freeList m). unat i < length (slots m) \<and> snd (slots m ! unat i) = None))"

lemma unat_u32_inject [simp]: "unat (i :: u32) = unat j \<longleftrightarrow> i = j"
  by (auto intro: unsigned_word_eqI)

lemma slot_id_eq: "i = j \<longleftrightarrow> slot_index i = slot_index j \<and> slot_generation i = slot_generation j" for i j :: slot_id
  by (cases i; cases j) simp

lemma alloc_cases:
  assumes "slot_map_ok m" and "SlotMap_alloc m v = Some (m', i)"
  obtains rest idx where "freeList m = rest @ [idx]" "unat idx < length (slots m)" "snd (slots m ! unat idx) = None"
    "i = \<lparr>slot_index = idx, slot_generation = fst (slots m ! unat idx) + 1\<rparr>"
    "m' = m\<lparr>slots := (slots m)[unat idx := (fst (slots m ! unat idx) + 1, Some v)], freeList := rest\<rparr>"
proof -
  obtain rest idx where f: "freeList m = rest @ [idx]"
    using assms(2) by (cases "freeList m" rule: rev_exhaust) (auto simp: SlotMap_alloc_def)
  then have "unat idx < length (slots m)" "snd (slots m ! unat idx) = None" using assms(1) by (auto simp: slot_map_ok_def)
  then show ?thesis using that [OF f] assms(2) f by (auto simp: SlotMap_alloc_def Let_def)
qed

lemma find_slot:
  "SlotMap_find m j = (if unat (slot_index j) < length (slots m) \<and> fst (slots m ! unat (slot_index j)) = slot_generation j
     then snd (slots m ! unat (slot_index j)) else None)"
  by (simp add: SlotMap_find_def Let_def split_beta)

lemma update_slot:
  "SlotMap_update m j v =
     (if SlotMap_find m j \<noteq> None then m\<lparr>slots := (slots m)[unat (slot_index j) := (slot_generation j, Some v)]\<rparr> else m)"
  by (auto simp: SlotMap_update_def find_slot Let_def split_beta)

lemma free_slot:
  "SlotMap_free m j =
     (if SlotMap_find m j \<noteq> None
      then m\<lparr>slots := (slots m)[unat (slot_index j) := (slot_generation j, None)], freeList := freeList m @ [slot_index j]\<rparr> else m)"
  by (auto simp: SlotMap_free_def find_slot Let_def split_beta)

lemma ok_alloc_slot:
  assumes "slot_map_ok m" "SlotMap_alloc m v = Some (m', i)" shows "slot_map_ok m'"
  by (rule alloc_cases [OF assms]) (use assms(1) in \<open>auto simp: slot_map_ok_def nth_list_update\<close>)

lemma ok_update_slot:
  assumes "slot_map_ok m" shows "slot_map_ok (SlotMap_update m i v)"
proof (cases "SlotMap_find m i")
  case (Some w)
  then have "slot_index i \<notin> set (freeList m)" "unat (slot_index i) < length (slots m)"
    using assms by (auto simp: find_slot slot_map_ok_def split: if_splits)
  then show ?thesis using assms Some by (auto simp: update_slot slot_map_ok_def nth_list_update)
qed (simp add: update_slot assms)

lemma ok_free_slot:
  assumes "slot_map_ok m" shows "slot_map_ok (SlotMap_free m i)"
proof (cases "SlotMap_find m i")
  case (Some w)
  then have "slot_index i \<notin> set (freeList m)" "unat (slot_index i) < length (slots m)"
    using assms by (auto simp: find_slot slot_map_ok_def split: if_splits)
  then show ?thesis using assms Some by (auto simp: free_slot slot_map_ok_def nth_list_update)
qed (simp add: free_slot assms)

interpretation slot_store: id_store slot_map_ok SlotMap_find SlotMap_alloc SlotMap_update SlotMap_free
proof unfold_locales
  fix m m' :: "'a slot_map" and v i j
  assume ok: "slot_map_ok m" and a: "SlotMap_alloc m v = Some (m', i)"
  from ok a show "SlotMap_find m' j = (if j = i then Some v else SlotMap_find m j)"
    by (elim alloc_cases) (auto simp: find_slot nth_list_update slot_id_eq split: if_splits)
  from ok a show "SlotMap_find m i = None" by (elim alloc_cases) (auto simp: find_slot)
next
  fix m :: "'a slot_map" and i v j
  show "SlotMap_find (SlotMap_update m i v) j = (if j = i \<and> SlotMap_find m i \<noteq> None then Some v else SlotMap_find m j)"
    by (cases "SlotMap_find m i") (auto simp: update_slot find_slot nth_list_update slot_id_eq split: if_splits)
  show "SlotMap_find (SlotMap_free m i) j = (if j = i then None else SlotMap_find m j)"
    by (cases "SlotMap_find m i") (auto simp: free_slot find_slot nth_list_update slot_id_eq split: if_splits)
qed (auto intro: ok_alloc_slot ok_update_slot ok_free_slot)

lemma empty_slot_map_ok:
  assumes "n < 2 ^ 32" shows "slot_map_ok (SlotMap_empty n)"
proof -
  have small: "unat (of_nat k :: u32) = k" if "k < n" for k using that assms by (simp add: unat_of_nat)
  then have "inj_on (of_nat :: nat \<Rightarrow> u32) {0..<n}" by (metis (no_types, lifting) atLeastLessThan_iff inj_onI)
  then show ?thesis using assms small by (auto simp: slot_map_ok_def SlotMap_empty_def distinct_map)
qed

end
