(* ===== verification/FanoutServer.thy ===== *)
theory FanoutServer
  imports RoomStore
begin

text \<open>
  The fanout server, \<^verbatim>\<open>examples/picoquic_fanout_server.actor.cpp\<close>: the text protocol of its streams, the tables of topics,
  delivery streams and stream states, and the callback that QUIC drives.

  A connection is the address of its object.  \<open>sent\<close> records the calls of \<open>picoquic_add_to_stream\<close> in order.  The zone
  dispatch and the sketch history of the Lean cores and \<open>picoquic_get_rtt\<close> are parameters: functions of the record
  \<open>cores\<close>, on states of their own.  The measured round trip of a connection does not change during a callback, and may be
  another one at the next: the reachable states are those of any measurements.  Memory allocation is taken not to fail.
\<close>

type_synonym stream_id = u64

record ('z, 'k) cores =
  entity_move_v :: "conn \<Rightarrow> u64 \<Rightarrow> u64 \<Rightarrow> u64 \<Rightarrow> u64 \<Rightarrow> u64 \<Rightarrow> u64 \<Rightarrow> u64 \<Rightarrow> 'z \<Rightarrow> 'z"
  entity_remove :: "conn \<Rightarrow> 'z \<Rightarrow> 'z"
  zone_targets :: "conn \<Rightarrow> u64 \<Rightarrow> u64 \<Rightarrow> u64 \<Rightarrow> 'z \<Rightarrow> conn list option"
  sketch_apply_packet :: "u64 \<Rightarrow> bytes \<Rightarrow> 'k \<Rightarrow> 'k \<times> bool"
  sketch_history :: "u64 \<Rightarrow> 'k \<Rightarrow> bytes list"
  get_rtt :: "conn \<Rightarrow> u64"

definition kEntityPacketSize :: nat where "kEntityPacketSize = 100"
definition kSimTickMicros :: u64 where "kSimTickMicros = 50000"
definition kMaxSketchFrame :: nat where "kMaxSketchFrame = 2 ^ 20"

text \<open>\<open>-v\<close> on \<open>int64_t\<close>; for the least value the negation is undefined in C++, and here it wraps.\<close>

definition absMagnitude :: "u64 \<Rightarrow> u64" where
  "absMagnitude v = (if v <s 0 then - v else v)"

definition rttToTicks :: "('z, 'k) cores \<Rightarrow> conn \<Rightarrow> u64" where
  "rttToTicks K cnx = (get_rtt K cnx + kSimTickMicros - 1) div kSimTickMicros"

subsection \<open>Numbers in the header\<close>

definition is_digit :: "u8 \<Rightarrow> bool" where
  "is_digit b = (48 \<le> b \<and> b \<le> 57)"

definition digits_value :: "bytes \<Rightarrow> int" where
  "digits_value ds = foldl (\<lambda>a d. a * 10 + (uint d - 48)) 0 ds"

text \<open>\<open>std::from_chars\<close> for \<open>int64_t\<close> in base ten: an optional minus sign and at least one digit; \<open>None\<close> when there is
  no number or it is out of range.\<close>

definition from_chars :: "bytes \<Rightarrow> (u64 \<times> bytes) option" where
  "from_chars s =
     (let neg = (s \<noteq> [] \<and> hd s = 45);
          body = (if neg then tl s else s);
          ds = takeWhile is_digit body;
          v = (if neg then - digits_value ds else digits_value ds)
      in if ds = [] \<or> v < - (2 ^ 63) \<or> v \<ge> 2 ^ 63 then None
         else Some (word_of_int v, dropWhile is_digit body))"

text \<open>The fields are references: those before the first error have been written.  \<open>n\<close> is the number of fields that
  remain to be read, \<open>fs\<close> their old values.\<close>

fun parse_fields :: "bytes \<Rightarrow> u64 list \<Rightarrow> bool \<times> u64 list" where
  "parse_fields p [] = (True, [])"
| "parse_fields p (f # fs) =
     (case from_chars p of
        None \<Rightarrow> (False, f # fs)
      | Some (v, rest) \<Rightarrow>
          if fs = [] then (rest = [], [v])
          else if rest = [] \<or> hd rest \<noteq> 32 then (False, v # fs)
          else (let (ok, fs) = parse_fields (tl rest) fs in (ok, v # fs)))"

definition parseZpbFields :: "bytes \<Rightarrow> u64 list \<Rightarrow> bool \<times> u64 list" where
  "parseZpbFields rest xs = parse_fields rest xs"

subsection \<open>State\<close>

text \<open>\<open>position\<close> holds \<open>x\<close>, \<open>y\<close>, \<open>z\<close>, \<open>vx\<close>, \<open>vy\<close>, \<open>vz\<close>.\<close>

record stream_state =
  buf :: bytes
  headerParsed :: bool
  isPub :: bool
  isSketch :: bool
  isZonePub :: bool
  topic :: bytes
  roomId :: u64
  position :: "u64 list"

definition StreamState_new :: stream_state where
  "StreamState_new = \<lparr>buf = [], headerParsed = False, isPub = False, isSketch = False, isZonePub = False, topic = [],
     roomId = 0, position = replicate 6 0\<rparr>"

record ('z, 'k) bridge =
  topicToRoom :: "bytes \<rightharpoonup> u64"
  delivery :: "conn \<rightharpoonup> conn \<times> stream_id"
  streams :: "conn \<rightharpoonup> (stream_id \<rightharpoonup> stream_state)"
  rooms :: "room slot_map"
  zones :: 'z
  sketches :: 'k
  sent :: "(conn \<times> stream_id \<times> bytes) list"

definition add_to_stream :: "conn \<Rightarrow> stream_id \<Rightarrow> bytes \<Rightarrow> ('z, 'k) bridge \<Rightarrow> ('z, 'k) bridge" where
  "add_to_stream cnx sid data s = s\<lparr>sent := sent s @ [(cnx, sid, data)]\<rparr>"

subsection \<open>Handlers\<close>

definition getOrCreateRoom :: "bytes \<Rightarrow> ('z, 'k) bridge \<Rightarrow> ('z, 'k) bridge \<times> u64" where
  "getOrCreateRoom t s =
     (case topicToRoom s t of
        Some r \<Rightarrow> (s, r)
      | None \<Rightarrow>
          (let (rs, r) = fanout_alloc_room (rooms s); s = s\<lparr>rooms := rs\<rparr> in
           (if r \<noteq> SENTINEL then s\<lparr>topicToRoom := (topicToRoom s)(t \<mapsto> r)\<rparr> else s, r)))"

definition handleSub :: "conn \<Rightarrow> stream_id \<Rightarrow> bytes \<Rightarrow> ('z, 'k) bridge \<Rightarrow> ('z, 'k) bridge" where
  "handleSub cnx sid t s =
     (let (s, r) = getOrCreateRoom t s in
      if r = SENTINEL then s
      else s\<lparr>delivery := (delivery s)(cnx \<mapsto> (cnx, sid)), rooms := fanout_sub r cnx (rooms s)\<rparr>)"

definition len_prefix :: "bytes \<Rightarrow> bytes" where
  "len_prefix p = (let n = of_nat (length p) :: u64 in [ucast n, ucast (drop_bit 8 n), ucast (drop_bit 16 n), ucast (drop_bit 24 n)])"

fun replay :: "conn \<Rightarrow> stream_id \<Rightarrow> bytes list \<Rightarrow> ('z, 'k) bridge \<Rightarrow> ('z, 'k) bridge" where
  "replay cnx sid [] s = s"
| "replay cnx sid (p # ps) s = replay cnx sid ps (add_to_stream cnx sid p (add_to_stream cnx sid (len_prefix p) s))"

definition handleSketchSub ::
  "('z, 'k) cores \<Rightarrow> conn \<Rightarrow> stream_id \<Rightarrow> stream_state \<Rightarrow> ('z, 'k) bridge \<Rightarrow> ('z, 'k) bridge \<times> stream_state" where
  "handleSketchSub K cnx sid st s =
     (let (s, r) = getOrCreateRoom (topic st) s in
      if r = SENTINEL then (s, st)
      else let s = s\<lparr>delivery := (delivery s)(cnx \<mapsto> (cnx, sid)), rooms := fanout_sub r cnx (rooms s)\<rparr> in
           (replay cnx sid (sketch_history K r (sketches s)) s, st\<lparr>roomId := r\<rparr>))"

text \<open>The loop over the targets, with the writes that each one gets.\<close>

fun relay :: "bytes list \<Rightarrow> conn list \<Rightarrow> ('z, 'k) bridge \<Rightarrow> ('z, 'k) bridge" where
  "relay ws [] s = s"
| "relay ws (c # cs) s =
     relay ws cs
       (case delivery s c of None \<Rightarrow> s | Some (cnx, sid) \<Rightarrow> fold (\<lambda>w. add_to_stream cnx sid w) ws s)"

definition handleSketchFrame ::
  "('z, 'k) cores \<Rightarrow> conn \<Rightarrow> stream_state \<Rightarrow> bytes \<Rightarrow> ('z, 'k) bridge \<Rightarrow> ('z, 'k) bridge" where
  "handleSketchFrame K cnx st frame s =
     (let (k, accepted) = sketch_apply_packet K (roomId st) frame (sketches s); s = s\<lparr>sketches := k\<rparr> in
      if \<not> accepted then s
      else relay [len_prefix frame, frame] (fanout_pub_targets (roomId st) cnx (rooms s)) s)"

definition handlePub :: "conn \<Rightarrow> bytes \<Rightarrow> bytes \<Rightarrow> ('z, 'k) bridge \<Rightarrow> ('z, 'k) bridge" where
  "handlePub cnx t payload s =
     (let (s, r) = getOrCreateRoom t s in
      if r = SENTINEL then s else relay [payload] (fanout_pub_targets r cnx (rooms s)) s)"

definition handleZoneSub :: "conn \<Rightarrow> stream_id \<Rightarrow> ('z, 'k) bridge \<Rightarrow> ('z, 'k) bridge" where
  "handleZoneSub cnx sid s = s\<lparr>delivery := (delivery s)(cnx \<mapsto> (cnx, sid))\<rparr>"

definition handleZonePub :: "('z, 'k) cores \<Rightarrow> conn \<Rightarrow> u64 list \<Rightarrow> bytes \<Rightarrow> ('z, 'k) bridge \<Rightarrow> ('z, 'k) bridge" where
  "handleZonePub K cnx pos payload s =
     (let x = pos ! 0; y = pos ! 1; z = pos ! 2;
          s = s\<lparr>zones := entity_move_v K cnx x y z (absMagnitude (pos ! 3)) (absMagnitude (pos ! 4)) (absMagnitude (pos ! 5))
                           (rttToTicks K cnx) (zones s)\<rparr>
      in case zone_targets K cnx x y z (zones s) of None \<Rightarrow> s | Some cs \<Rightarrow> relay [payload] cs s)"

definition cleanupStream ::
  "('z, 'k) cores \<Rightarrow> conn \<Rightarrow> stream_id \<Rightarrow> stream_state \<Rightarrow> ('z, 'k) bridge \<Rightarrow> ('z, 'k) bridge" where
  "cleanupStream K cnx sid st s =
     (let s = (if delivery s cnx = Some (cnx, sid) then s\<lparr>delivery := (delivery s)(cnx := None)\<rparr> else s) in
      if isZonePub st then s\<lparr>zones := entity_remove K cnx (zones s)\<rparr>
      else if headerParsed st \<and> \<not> isPub st then
        (case topicToRoom s (topic st) of None \<Rightarrow> s | Some r \<Rightarrow> s\<lparr>rooms := fanout_unsub r cnx (rooms s)\<rparr>)
      else s)"

subsection \<open>The parser loop\<close>

definition find_byte :: "u8 \<Rightarrow> bytes \<Rightarrow> nat option" where
  "find_byte b xs = (if b \<in> set xs then Some (length (takeWhile (\<lambda>x. x \<noteq> b) xs)) else None)"

definition verb_SUB :: bytes where "verb_SUB = [83, 85, 66]"
definition verb_PUB :: bytes where "verb_PUB = [80, 85, 66]"
definition verb_SKB :: bytes where "verb_SKB = [83, 75, 66]"
definition verb_ZPB :: bytes where "verb_ZPB = [90, 80, 66]"

text \<open>How an iteration of the loop ends: it goes round again, it returns to wait for bytes and has changed nothing, or it
  returns after a header line that it took out of the buffer and could not use.\<close>

datatype pump_outcome = Continue | Return | Malformed

type_synonym ('z, 'k) pumped = "pump_outcome \<times> stream_state \<times> ('z, 'k) bridge"

definition header_line ::
  "('z, 'k) cores \<Rightarrow> conn \<Rightarrow> stream_id \<Rightarrow> bytes \<Rightarrow> stream_state \<Rightarrow> ('z, 'k) bridge \<Rightarrow> ('z, 'k) pumped" where
  "header_line K cnx sid header st s =
     (case find_byte 32 header of
        None \<Rightarrow> (Malformed, st, s)
      | Some sp \<Rightarrow>
          (let verb = take sp header; st = st\<lparr>topic := drop (sp + 1) header, headerParsed := True\<rparr> in
           if verb = verb_SUB then (Continue, st\<lparr>isPub := False\<rparr>, handleSub cnx sid (topic st) s)
           else if verb = verb_PUB then (Continue, st\<lparr>isPub := True\<rparr>, s)
           else if verb = verb_SKB then
             (let (s, st) = handleSketchSub K cnx sid (st\<lparr>isSketch := True\<rparr>) s in (Continue, st, s))
           else if verb = verb_ZPB then
             (let (ok, xs) = parseZpbFields (topic st) (position st); st = st\<lparr>position := xs\<rparr> in
              if \<not> ok then (Malformed, st, s)
              else (Continue, st\<lparr>isZonePub := True\<rparr>, handleZoneSub cnx sid s))
           else (Malformed, st, s)))"

definition header_step ::
  "('z, 'k) cores \<Rightarrow> conn \<Rightarrow> stream_id \<Rightarrow> stream_state \<Rightarrow> ('z, 'k) bridge \<Rightarrow> ('z, 'k) pumped" where
  "header_step K cnx sid st s =
     (case find_byte 10 (buf st) of
        None \<Rightarrow> (Return, st, s)
      | Some nl \<Rightarrow> header_line K cnx sid (take nl (buf st)) (st\<lparr>buf := drop (nl + 1) (buf st)\<rparr>) s)"

definition frame_length :: "bytes \<Rightarrow> u64" where
  "frame_length b = ucast (b ! 0) OR push_bit 8 (ucast (b ! 1)) OR push_bit 16 (ucast (b ! 2)) OR push_bit 24 (ucast (b ! 3))"

definition sketch_step ::
  "('z, 'k) cores \<Rightarrow> conn \<Rightarrow> stream_id \<Rightarrow> stream_state \<Rightarrow> ('z, 'k) bridge \<Rightarrow> ('z, 'k) pumped" where
  "sketch_step K cnx sid st s =
     (if length (buf st) < 4 then (Return, st, s)
      else let n = unat (frame_length (buf st)) in
           if n > kMaxSketchFrame then (Return, st, s)
           else if length (buf st) < 4 + n then (Return, st, s)
           else (Continue, st\<lparr>buf := drop (4 + n) (buf st)\<rparr>, handleSketchFrame K cnx st (take n (drop 4 (buf st))) s))"

definition pump_step ::
  "('z, 'k) cores \<Rightarrow> conn \<Rightarrow> stream_id \<Rightarrow> stream_state \<Rightarrow> ('z, 'k) bridge \<Rightarrow> ('z, 'k) pumped" where
  "pump_step K cnx sid st s =
     (if \<not> headerParsed st then header_step K cnx sid st s
      else if isSketch st then sketch_step K cnx sid st s
      else if isPub st then
        (if length (buf st) < kEntityPacketSize then (Return, st, s)
         else (Continue, st\<lparr>buf := drop kEntityPacketSize (buf st), headerParsed := False\<rparr>,
               handlePub cnx (topic st) (take kEntityPacketSize (buf st)) s))
      else if isZonePub st then
        (if length (buf st) < kEntityPacketSize then (Return, st, s)
         else (Continue, st\<lparr>buf := drop kEntityPacketSize (buf st), headerParsed := False\<rparr>,
               handleZonePub K cnx (position st) (take kEntityPacketSize (buf st)) s))
      else (Return, st, s))"

text \<open>Every iteration that goes round again has taken bytes out of the buffer.\<close>

lemma handleSketchSub_stream [simp]:
  "handleSketchSub K cnx sid st s = (s', st') \<Longrightarrow> buf st' = buf st"
  by (auto simp: handleSketchSub_def Let_def split: prod.splits if_splits)

lemma find_byte_Some: "find_byte b xs = Some n \<Longrightarrow> n < length xs"
  by (induction xs arbitrary: n) (auto simp: find_byte_def split: if_splits)

lemma header_line_buf: "header_line K cnx sid h st s = (r, st', s') \<Longrightarrow> buf st' = buf st \<and> r \<noteq> Return"
  by (auto simp: header_line_def Let_def dest: handleSketchSub_stream split: if_splits option.splits prod.splits)

lemma pump_step_consumes:
  "pump_step K cnx sid st s = (Continue, st', s') \<Longrightarrow> length (buf st') < length (buf st)"
  by (auto simp: pump_step_def header_step_def sketch_step_def Let_def kEntityPacketSize_def dest!: find_byte_Some header_line_buf
      split: if_splits option.splits)

function pumpStream ::
  "('z, 'k) cores \<Rightarrow> conn \<Rightarrow> stream_id \<Rightarrow> stream_state \<Rightarrow> ('z, 'k) bridge \<Rightarrow> ('z, 'k) pumped" where
  "pumpStream K cnx sid st s =
     (case pump_step K cnx sid st s of
        (Continue, st', s') \<Rightarrow> pumpStream K cnx sid st' s'
      | r \<Rightarrow> r)"
  by auto
termination
  by (relation "measure (\<lambda>(K, cnx, sid, st, s). length (buf st))") (auto dest: pump_step_consumes sym)

declare pumpStream.simps [simp del]

subsection \<open>The callback\<close>

text \<open>The map of streams has no order of its own: a close says in which order it visits them.\<close>

datatype event =
  Stream_data conn stream_id bytes
| Stream_fin conn stream_id bytes
| Stream_reset conn stream_id
| Close conn "stream_id list"
| Other_event conn

definition stream_at :: "conn \<Rightarrow> stream_id \<Rightarrow> ('z, 'k) bridge \<Rightarrow> stream_state option" where
  "stream_at cnx sid s = (case streams s cnx of None \<Rightarrow> None | Some m \<Rightarrow> m sid)"

definition set_stream :: "conn \<Rightarrow> stream_id \<Rightarrow> stream_state option \<Rightarrow> ('z, 'k) bridge \<Rightarrow> ('z, 'k) bridge" where
  "set_stream cnx sid v s =
     s\<lparr>streams := (streams s)(cnx \<mapsto> (case streams s cnx of None \<Rightarrow> Map.empty | Some m \<Rightarrow> m)(sid := v))\<rparr>"

definition receive ::
  "('z, 'k) cores \<Rightarrow> conn \<Rightarrow> stream_id \<Rightarrow> bytes \<Rightarrow> ('z, 'k) bridge \<Rightarrow> ('z, 'k) pumped" where
  "receive K cnx sid data s =
     (let st = (case stream_at cnx sid s of None \<Rightarrow> StreamState_new | Some st \<Rightarrow> st);
          (r, st, s) = pumpStream K cnx sid (st\<lparr>buf := buf st @ data\<rparr>) s
      in (r, st, set_stream cnx sid (Some st) s))"

fun fanoutStreamCallback :: "('z, 'k) cores \<Rightarrow> event \<Rightarrow> ('z, 'k) bridge \<Rightarrow> ('z, 'k) bridge" where
  "fanoutStreamCallback K (Stream_data cnx sid data) s = snd (snd (receive K cnx sid data s))"
| "fanoutStreamCallback K (Stream_fin cnx sid data) s =
     (let (_, st, s) = receive K cnx sid data s in set_stream cnx sid None (cleanupStream K cnx sid st s))"
| "fanoutStreamCallback K (Stream_reset cnx sid) s =
     (case stream_at cnx sid s of
        None \<Rightarrow> s
      | Some st \<Rightarrow> set_stream cnx sid None (cleanupStream K cnx sid st s))"
| "fanoutStreamCallback K (Close cnx order) s =
     (case streams s cnx of
        None \<Rightarrow> s
      | Some m \<Rightarrow>
          (let s = fold (\<lambda>sid. cleanupStream K cnx sid (the (m sid))) order s in
           s\<lparr>streams := (streams s)(cnx := None)\<rparr>))"
| "fanoutStreamCallback K (Other_event cnx) s = s"

definition BridgeState_new :: "nat \<Rightarrow> 'z \<Rightarrow> 'k \<Rightarrow> ('z, 'k) bridge" where
  "BridgeState_new capacity z k = \<lparr>topicToRoom = Map.empty, delivery = Map.empty, streams = Map.empty,
     rooms = SlotMap_empty capacity, zones = z, sketches = k, sent = []\<rparr>"

text \<open>A close visits every stream of the connection once.\<close>

fun legal_event :: "event \<Rightarrow> ('z, 'k) bridge \<Rightarrow> bool" where
  "legal_event (Close cnx order) s =
     (distinct order \<and> (\<forall>sid. sid \<in> set order \<longleftrightarrow> stream_at cnx sid s \<noteq> None))"
| "legal_event _ s = True"

text \<open>The states that callbacks lead to, with a round trip time for each connection that is measured anew at each callback.\<close>

inductive fanout_reachable :: "('z, 'k) cores \<Rightarrow> ('z, 'k) bridge \<Rightarrow> bool" for K where
  start: "capacity < 2 ^ 32 \<Longrightarrow> fanout_reachable K (BridgeState_new capacity z k)"
| event: "fanout_reachable K s \<Longrightarrow> legal_event e s \<Longrightarrow> fanout_reachable K (fanoutStreamCallback (K\<lparr>get_rtt := rtt\<rparr>) e s)"

end
