(* ===== verification/FanoutServer_Correct.thy ===== *)
theory FanoutServer_Correct
  imports FanoutServer
begin

text \<open>
  Correctness of the fanout server: how its parser depends on the way the bytes of a stream arrive, where it writes, and
  who receives a publication.
\<close>

subsection \<open>The parser and the arrival of bytes\<close>

lemma find_byte_append: "find_byte b xs = Some n \<Longrightarrow> find_byte b (xs @ ys) = Some n"
  by (auto simp: find_byte_def split: if_splits)

lemma handleSketchFrame_buf [simp]: "handleSketchFrame K cnx (st\<lparr>buf := b\<rparr>) frame s = handleSketchFrame K cnx st frame s"
  by (simp add: handleSketchFrame_def Let_def split_beta)

lemma frame_length_append: "4 \<le> length b \<Longrightarrow> frame_length (b @ x) = frame_length b"
  by (auto simp: frame_length_def nth_append)

lemma handleSketchSub_buf:
  "handleSketchSub K cnx sid (st\<lparr>buf := b\<rparr>) s = (fst (handleSketchSub K cnx sid st s), (snd (handleSketchSub K cnx sid st s))\<lparr>buf := b\<rparr>)"
  by (cases "getOrCreateRoom (topic st) s") (simp add: handleSketchSub_def Let_def)

text \<open>The bytes after the line play no part in what a line does.\<close>

lemma header_line_frame:
  "header_line K cnx sid h (st\<lparr>buf := b\<rparr>) s =
     (case header_line K cnx sid h st s of (r, st', s') \<Rightarrow> (r, st'\<lparr>buf := b\<rparr>, s'))"
proof (cases "find_byte 32 h")
  case (Some sp)
  let ?st = "st\<lparr>topic := drop (Suc sp) h, headerParsed := True, isSketch := True\<rparr>"
  show ?thesis using handleSketchSub_buf [of K cnx sid b ?st s]
    by (cases st; cases "handleSketchSub K cnx sid ?st s"; cases "parseZpbFields (drop (Suc sp) h) (position st)")
      (simp add: header_line_def Some Let_def)
qed (simp add: header_line_def)

lemma header_step_append:
  assumes "header_step K cnx sid st s = (r, st', s')" and "r \<noteq> Return"
  shows "header_step K cnx sid (st\<lparr>buf := buf st @ x\<rparr>) s = (r, st'\<lparr>buf := buf st' @ x\<rparr>, s')"
proof -
  from assms obtain nl where nl: "find_byte 10 (buf st) = Some nl"
    by (auto simp: header_step_def split: option.splits)
  then have "header_line K cnx sid (take nl (buf st)) (st\<lparr>buf := drop (Suc nl) (buf st)\<rparr>) s = (r, st', s')"
    using assms(1) by (simp add: header_step_def)
  then show ?thesis using nl find_byte_Some [OF nl] find_byte_append [OF nl, of x] header_line_buf
      header_line_frame [of K cnx sid "take nl (buf st)" "drop (Suc nl) (buf st) @ x" "st\<lparr>buf := drop (Suc nl) (buf st)\<rparr>" s]
    by (fastforce simp: header_step_def)
qed

lemma sketch_step_append:
  assumes "sketch_step K cnx sid st s = (r, st', s')" and "r \<noteq> Return"
  shows "sketch_step K cnx sid (st\<lparr>buf := buf st @ x\<rparr>) s = (r, st'\<lparr>buf := buf st' @ x\<rparr>, s')"
  using assms by (auto simp: sketch_step_def Let_def frame_length_append not_less split: if_splits)

text \<open>An iteration that did not return for want of bytes does the same when more of them have arrived.\<close>

lemma pump_step_append:
  assumes "pump_step K cnx sid st s = (r, st', s')" and "r \<noteq> Return"
  shows "pump_step K cnx sid (st\<lparr>buf := buf st @ x\<rparr>) s = (r, st'\<lparr>buf := buf st' @ x\<rparr>, s')"
  using assms header_step_append [of K cnx sid st s r st' s' x] sketch_step_append [of K cnx sid st s r st' s' x]
  by (auto simp: pump_step_def split: if_splits)

lemma pump_step_Return: "pump_step K cnx sid st s = (Return, st', s') \<Longrightarrow> st' = st \<and> s' = s"
  by (auto simp: pump_step_def header_step_def sketch_step_def Let_def dest: header_line_buf split: if_splits option.splits)

lemma pump_not_Continue: "fst (pumpStream K cnx sid st s) \<noteq> Continue"
  by (induction K cnx sid st s rule: pumpStream.induct)
    (subst pumpStream.simps, auto split: prod.splits pump_outcome.splits)

lemma pump_append_Return:
  "pumpStream K cnx sid st s = (Return, st1, s1) \<Longrightarrow>
     pumpStream K cnx sid (st\<lparr>buf := buf st @ x\<rparr>) s = pumpStream K cnx sid (st1\<lparr>buf := buf st1 @ x\<rparr>) s1"
proof (induction K cnx sid st s rule: pumpStream.induct)
  case (1 K cnx sid st s)
  obtain r st' s' where step: "pump_step K cnx sid st s = (r, st', s')" by (metis prod_cases3)
  show ?case
  proof (cases r)
    case Continue
    then show ?thesis using 1 step pump_step_append [OF step, of x]
      by (simp add: pumpStream.simps [of K cnx sid st s] pumpStream.simps [of K cnx sid "st\<lparr>buf := buf st @ x\<rparr>"])
  next
    case Return
    then show ?thesis using 1(2) step pump_step_Return [of K cnx sid st s st' s'] by (auto simp: pumpStream.simps [of K cnx sid st s])
  next
    case Malformed
    then show ?thesis using 1(2) step by (simp add: pumpStream.simps [of K cnx sid st s])
  qed
qed

lemma pump_append_Malformed:
  "pumpStream K cnx sid st s = (Malformed, st1, s1) \<Longrightarrow>
     pumpStream K cnx sid (st\<lparr>buf := buf st @ x\<rparr>) s = (Malformed, st1\<lparr>buf := buf st1 @ x\<rparr>, s1)"
proof (induction K cnx sid st s rule: pumpStream.induct)
  case (1 K cnx sid st s)
  obtain r st' s' where step: "pump_step K cnx sid st s = (r, st', s')" by (metis prod_cases3)
  show ?case
  proof (cases "r = Return")
    case True
    then show ?thesis using 1(2) step by (simp add: pumpStream.simps [of K cnx sid st s])
  next
    case False
    then show ?thesis using 1 step pump_step_append [OF step, of x]
      by (cases r) (simp_all add: pumpStream.simps [of K cnx sid st s] pumpStream.simps [of K cnx sid "st\<lparr>buf := buf st @ x\<rparr>"])
  qed
qed

subsection \<open>What the handlers change\<close>

definition relay_writes :: "bytes list \<Rightarrow> conn list \<Rightarrow> (conn \<rightharpoonup> conn \<times> stream_id) \<Rightarrow> (conn \<times> stream_id \<times> bytes) list" where
  "relay_writes ws cs d = concat (map (\<lambda>c. case d c of None \<Rightarrow> [] | Some (x, i) \<Rightarrow> map (\<lambda>w. (x, i, w)) ws) cs)"

lemma add_all: "fold (\<lambda>w. add_to_stream x i w) ws s = s\<lparr>sent := sent s @ map (\<lambda>w. (x, i, w)) ws\<rparr>"
  by (induction ws arbitrary: s) (simp_all add: add_to_stream_def)

lemma relay_eq: "relay ws cs s = s\<lparr>sent := sent s @ relay_writes ws cs (delivery s)\<rparr>"
  by (induction cs arbitrary: s) (auto simp: relay_writes_def add_all split: option.split prod.split)

lemma replay_eq:
  "replay cnx sid ps s = s\<lparr>sent := sent s @ concat (map (\<lambda>p. [(cnx, sid, len_prefix p), (cnx, sid, p)]) ps)\<rparr>"
  by (induction ps arbitrary: s) (simp_all add: add_to_stream_def)

lemma getOrCreateRoom_streams:
  "getOrCreateRoom t (s\<lparr>streams := m\<rparr>) = ((fst (getOrCreateRoom t s))\<lparr>streams := m\<rparr>, snd (getOrCreateRoom t s))"
  by (cases s; cases "fanout_alloc_room (rooms s)") (simp add: getOrCreateRoom_def Let_def split: option.split)

lemma handleSub_streams: "handleSub cnx sid t (s\<lparr>streams := m\<rparr>) = (handleSub cnx sid t s)\<lparr>streams := m\<rparr>"
  using getOrCreateRoom_streams [of t m s] by (cases "getOrCreateRoom t s") (simp add: handleSub_def Let_def)

lemma handleSketchSub_streams:
  "handleSketchSub K cnx sid st (s\<lparr>streams := m\<rparr>) =
     ((fst (handleSketchSub K cnx sid st s))\<lparr>streams := m\<rparr>, snd (handleSketchSub K cnx sid st s))"
  using getOrCreateRoom_streams [of "topic st" m s]
  by (cases "getOrCreateRoom (topic st) s") (simp add: handleSketchSub_def Let_def replay_eq)

lemma handlePub_streams: "handlePub cnx t p (s\<lparr>streams := m\<rparr>) = (handlePub cnx t p s)\<lparr>streams := m\<rparr>"
  using getOrCreateRoom_streams [of t m s] by (cases "getOrCreateRoom t s") (simp add: handlePub_def Let_def relay_eq)

lemma handleZonePub_streams: "handleZonePub K cnx xs p (s\<lparr>streams := m\<rparr>) = (handleZonePub K cnx xs p s)\<lparr>streams := m\<rparr>"
  by (simp add: handleZonePub_def Let_def relay_eq split: option.split)

lemma handleSketchFrame_streams:
  "handleSketchFrame K cnx st p (s\<lparr>streams := m\<rparr>) = (handleSketchFrame K cnx st p s)\<lparr>streams := m\<rparr>"
  by (simp add: handleSketchFrame_def Let_def relay_eq split: prod.split)

lemma header_line_streams:
  "header_line K cnx sid h st (s\<lparr>streams := m\<rparr>) = (case header_line K cnx sid h st s of (r, st', s') \<Rightarrow> (r, st', s'\<lparr>streams := m\<rparr>))"
  by (auto simp: header_line_def Let_def handleSub_streams handleSketchSub_streams handleZoneSub_def split_beta split: option.split)

lemma pump_step_streams:
  "pump_step K cnx sid st (s\<lparr>streams := m\<rparr>) = (case pump_step K cnx sid st s of (r, st', s') \<Rightarrow> (r, st', s'\<lparr>streams := m\<rparr>))"
  by (auto simp: pump_step_def header_step_def sketch_step_def Let_def header_line_streams handlePub_streams
      handleZonePub_streams handleSketchFrame_streams split: option.split)

text \<open>The table of streams plays no part in the parser.\<close>

lemma pump_streams:
  "pumpStream K cnx sid st (s\<lparr>streams := m\<rparr>) = (case pumpStream K cnx sid st s of (r, st', s') \<Rightarrow> (r, st', s'\<lparr>streams := m\<rparr>))"
proof (induction K cnx sid st s rule: pumpStream.induct)
  case (1 K cnx sid st s)
  obtain r st' s' where "pump_step K cnx sid st s = (r, st', s')" by (metis prod_cases3)
  with 1 show ?case
    by (cases r) (simp_all add: pumpStream.simps [of K cnx sid st s] pumpStream.simps [of K cnx sid st "s\<lparr>streams := m\<rparr>"] pump_step_streams)
qed

lemma pump_keeps_streams: "pumpStream K cnx sid st s = (r, st', s') \<Longrightarrow> streams s' = streams s"
  using pump_streams [of K cnx sid st "streams s" s] by simp (metis bridge.select_convs(3) bridge.surjective bridge.update_convs(3))

subsection \<open>Arrival in pieces\<close>

lemma stream_at_set [simp]:
  "stream_at c i (set_stream cnx sid v s) = (if c = cnx \<and> i = sid then v else stream_at c i s)"
  by (auto simp: stream_at_def set_stream_def split: option.split)

lemma set_stream_twice [simp]: "set_stream cnx sid v (set_stream cnx sid w s) = set_stream cnx sid v s"
  by (simp add: set_stream_def)

definition stream_or_new :: "conn \<Rightarrow> stream_id \<Rightarrow> ('z, 'k) bridge \<Rightarrow> stream_state" where
  "stream_or_new cnx sid s = (case stream_at cnx sid s of None \<Rightarrow> StreamState_new | Some st \<Rightarrow> st)"

lemma receive_eq:
  "receive K cnx sid data s =
     (case pumpStream K cnx sid ((stream_or_new cnx sid s)\<lparr>buf := buf (stream_or_new cnx sid s) @ data\<rparr>) s of
        (r, st, s) \<Rightarrow> (r, st, set_stream cnx sid (Some st) s))"
  by (simp add: receive_def stream_or_new_def Let_def)

lemma stream_or_new_set [simp]: "stream_or_new cnx sid (set_stream cnx sid (Some st) s) = st"
  by (simp add: stream_or_new_def)

lemma receive_not_Continue: "fst (receive K cnx sid d s) \<noteq> Continue"
  using pump_not_Continue [of K cnx sid "(stream_or_new cnx sid s)\<lparr>buf := buf (stream_or_new cnx sid s) @ d\<rparr>" s]
  by (simp add: receive_eq split_beta)

lemma receive_append_Return:
  fixes s :: "('z, 'k) bridge"
  assumes "receive K cnx sid d s = (Return, st1, s1)"
  shows "receive K cnx sid (d @ e) s = receive K cnx sid e s1"
proof -
  let ?st = "stream_or_new cnx sid s"
  obtain s0 where pump: "pumpStream K cnx sid (?st\<lparr>buf := buf ?st @ d\<rparr>) s = (Return, st1, s0)"
    and s1: "s1 = set_stream cnx sid (Some st1) s0" using assms by (auto simp: receive_eq split: prod.splits)
  have "pumpStream K cnx sid (?st\<lparr>buf := buf ?st @ d @ e\<rparr>) s = pumpStream K cnx sid (st1\<lparr>buf := buf st1 @ e\<rparr>) s0"
    using pump_append_Return [OF pump, of e] by simp
  moreover have "pumpStream K cnx sid st s1 =
      (case pumpStream K cnx sid st s0 of (r, st', s') \<Rightarrow> (r, st', s'\<lparr>streams := streams s1\<rparr>))" for st
    unfolding s1 set_stream_def by (subst pump_streams) simp
  moreover have "set_stream cnx sid v (s'\<lparr>streams := streams s1\<rparr>) = set_stream cnx sid v s'" if "streams s' = streams s0"
    for s' :: "('z, 'k) bridge" and v
    using that by (simp add: s1 set_stream_def)
  ultimately show ?thesis using pump_keeps_streams [of K cnx sid "st1\<lparr>buf := buf st1 @ e\<rparr>" s0]
    by (auto simp: receive_eq s1 split: prod.splits)
qed

lemma receive_append_Malformed:
  "fst (receive K cnx sid d s) = Malformed \<Longrightarrow> fst (receive K cnx sid (d @ e) s) = Malformed"
  using pump_append_Malformed [of K cnx sid "(stream_or_new cnx sid s)\<lparr>buf := buf (stream_or_new cnx sid s) @ d\<rparr>" s _ _ e]
  by (auto simp: receive_eq split: prod.splits)

lemma receive_split:
  assumes "fst (receive K cnx sid (d @ e) s) = Return"
  shows "receive K cnx sid (d @ e) s = receive K cnx sid e (snd (snd (receive K cnx sid d s)))"
proof -
  have "fst (receive K cnx sid d s) = Return"
    using assms receive_append_Malformed [of K cnx sid d s e] receive_not_Continue [of K cnx sid d s]
    by (cases "fst (receive K cnx sid d s)") simp_all
  then show ?thesis by (metis prod.collapse receive_append_Return)
qed

lemma receive_pieces:
  "fst (receive K cnx sid (concat ds @ e) s) = Return \<Longrightarrow>
     receive K cnx sid e (fold (\<lambda>d. fanoutStreamCallback K (Stream_data cnx sid d)) ds s) = receive K cnx sid (concat ds @ e) s"
proof (induction ds arbitrary: s)
  case (Cons d ds)
  then have "receive K cnx sid (concat (d # ds) @ e) s = receive K cnx sid (concat ds @ e) (snd (snd (receive K cnx sid d s)))"
    using receive_split [of K cnx sid d "concat ds @ e" s] by simp
  with Cons show ?case by simp
qed simp

text \<open>C10.  The server does not depend on how QUIC cuts the bytes of a stream into callbacks: as long as the bytes hold no
  malformed header line, any sequence of data callbacks leaves the same state, with the same writes in the same order, as
  one callback with all the bytes, also when the last one carries the end of the stream.  The callbacks that are compared
  take place at the same round trip time of the connection, which only \<open>ZPB\<close> reads.\<close>

theorem fanout_pieces:
  assumes "fst (receive K cnx sid (concat ds @ e) s) = Return"
  shows "fold (fanoutStreamCallback K) (map (Stream_data cnx sid) (ds @ [e])) s = fanoutStreamCallback K (Stream_data cnx sid (concat ds @ e)) s
    \<and> fold (fanoutStreamCallback K) (map (Stream_data cnx sid) ds @ [Stream_fin cnx sid e]) s =
        fanoutStreamCallback K (Stream_fin cnx sid (concat ds @ e)) s"
  using receive_pieces [OF assms] by (simp add: fold_map comp_def)

subsection \<open>Where the server writes\<close>

text \<open>What a handler may do for the stream \<open>sid\<close> of \<open>cnx\<close>: take over the delivery of \<open>cnx\<close>, and write to that stream or to
  delivery streams.\<close>

definition serves :: "conn \<Rightarrow> stream_id \<Rightarrow> ('z, 'k) bridge \<Rightarrow> ('z, 'k) bridge \<Rightarrow> bool" where
  "serves cnx sid s s' =
     ((delivery s' = delivery s \<or> delivery s' = (delivery s)(cnx \<mapsto> (cnx, sid))) \<and>
      (\<exists>ws. sent s' = sent s @ ws \<and> (\<forall>(c, i, p) \<in> set ws. (c, i) = (cnx, sid) \<or> (c, i) \<in> ran (delivery s))))"

lemma serves_refl: "serves cnx sid s s"
  by (simp add: serves_def)

lemma serves_trans:
  assumes "serves cnx sid s s1" and "serves cnx sid s1 s2" shows "serves cnx sid s s2"
proof -
  have "ran (delivery s1) \<subseteq> insert (cnx, sid) (ran (delivery s))"
    using assms(1) by (auto simp: serves_def ran_def split: if_splits)
  then show ?thesis using assms by (fastforce simp: serves_def)
qed

lemma relay_writes_targets: "(c, i, p) \<in> set (relay_writes ws cs d) \<Longrightarrow> (c, i) \<in> ran d"
  by (auto simp: relay_writes_def ran_def split: option.splits)

lemma serves_relay: "serves cnx sid s (relay ws cs s)"
  by (auto simp: serves_def relay_eq dest: relay_writes_targets)

lemma serves_same: "delivery s' = delivery s \<Longrightarrow> sent s' = sent s \<Longrightarrow> serves cnx sid s s'"
  by (simp add: serves_def)

lemma getOrCreateRoom_same:
  "getOrCreateRoom t s = (s', r) \<Longrightarrow> delivery s' = delivery s \<and> sent s' = sent s \<and> streams s' = streams s"
  by (auto simp: getOrCreateRoom_def Let_def split: option.splits prod.splits if_splits)

lemma serves_handleSub: "serves cnx sid s (handleSub cnx sid t s)"
  using getOrCreateRoom_same [of t s] by (cases "getOrCreateRoom t s") (simp add: handleSub_def serves_def)

lemma serves_handleSketchSub: "serves cnx sid s (fst (handleSketchSub K cnx sid st s))"
  using getOrCreateRoom_same [of "topic st" s]
  by (cases "getOrCreateRoom (topic st) s") (auto simp: handleSketchSub_def serves_def replay_eq Let_def)

lemma serves_handlePub: "serves cnx sid s (handlePub cnx t p s)"
proof (cases "getOrCreateRoom t s")
  case (Pair s1 r)
  then have "serves cnx sid s s1" using getOrCreateRoom_same [OF Pair] by (simp add: serves_same)
  then show ?thesis using Pair by (auto simp: handlePub_def intro: serves_trans [OF _ serves_relay])
qed

lemma serves_handleZonePub: "serves cnx sid s (handleZonePub K cnx xs p s)"
  by (auto simp: handleZonePub_def Let_def intro: serves_trans [OF serves_same serves_relay] serves_same split: option.split)

lemma serves_handleSketchFrame: "serves cnx sid s (handleSketchFrame K cnx st p s)"
  by (auto simp: handleSketchFrame_def Let_def intro: serves_trans [OF serves_same serves_relay] serves_same split: prod.split)

lemmas serves_handlers = serves_refl serves_handleSub serves_handleSketchSub serves_handlePub serves_handleZonePub
  serves_handleSketchFrame

lemma serves_header_line: "serves cnx sid s (snd (snd (header_line K cnx sid h st s)))"
  by (auto simp: header_line_def Let_def split_beta handleZoneSub_def serves_def [of cnx sid s "s\<lparr>delivery := _\<rparr>"]
      intro: serves_handlers split: option.split)

lemma serves_step: "serves cnx sid s (snd (snd (pump_step K cnx sid st s)))"
  by (auto simp: pump_step_def header_step_def sketch_step_def Let_def intro: serves_handlers serves_header_line split: option.split)

lemma serves_pump: "serves cnx sid s (snd (snd (pumpStream K cnx sid st s)))"
proof (induction K cnx sid st s rule: pumpStream.induct)
  case (1 K cnx sid st s)
  obtain r st' s' where step: "pump_step K cnx sid st s = (r, st', s')" by (metis prod_cases3)
  with serves_step [of cnx sid s K st] have "serves cnx sid s s'" by simp
  with 1 [OF step [symmetric]] step show ?case
    by (cases r) (auto simp: pumpStream.simps [of K cnx sid st s] intro: serves_trans)
qed

text \<open>Every delivery stream is an open stream of its own connection.\<close>

definition delivery_ok :: "('z, 'k) bridge \<Rightarrow> bool" where
  "delivery_ok s = (\<forall>c v. delivery s c = Some v \<longrightarrow> fst v = c \<and> stream_at c (snd v) s \<noteq> None)"

lemma receive_serves:
  assumes "receive K cnx sid d s = (r, st, s')"
  obtains s1 where "serves cnx sid s s1" "streams s1 = streams s" "s' = set_stream cnx sid (Some st) s1"
proof -
  let ?st = "stream_or_new cnx sid s"
  obtain s1 where p: "pumpStream K cnx sid (?st\<lparr>buf := buf ?st @ d\<rparr>) s = (r, st, s1)" and "s' = set_stream cnx sid (Some st) s1"
    using assms by (auto simp: receive_eq split: prod.splits)
  then show ?thesis using that [of s1] pump_keeps_streams [OF p] serves_pump [of cnx sid s K "?st\<lparr>buf := buf ?st @ d\<rparr>"] by simp
qed

lemma set_stream_same [simp]:
  "delivery (set_stream c i v s) = delivery s" "sent (set_stream c i v s) = sent s" "rooms (set_stream c i v s) = rooms s"
  "topicToRoom (set_stream c i v s) = topicToRoom s"
  by (simp_all add: set_stream_def)

lemma cleanup_same [simp]:
  "sent (cleanupStream K cnx sid st s) = sent s" "streams (cleanupStream K cnx sid st s) = streams s"
  "topicToRoom (cleanupStream K cnx sid st s) = topicToRoom s"
  by (auto simp: cleanupStream_def Let_def split: option.split)

lemma cleanup_delivery:
  "delivery (cleanupStream K cnx sid st s) =
     (if delivery s cnx = Some (cnx, sid) then (delivery s)(cnx := None) else delivery s)"
  by (auto simp: cleanupStream_def Let_def split: option.split)

lemma stream_at_cong: "streams s' = streams s \<Longrightarrow> stream_at c i s' = stream_at c i s"
  by (simp add: stream_at_def)

lemma stream_at_cleanup [simp]: "stream_at c i (cleanupStream K cnx sid st s) = stream_at c i s"
  by (rule stream_at_cong) simp

lemma cleanup_all_same [simp]:
  "sent (fold (\<lambda>sid. cleanupStream K cnx sid (f sid)) order s) = sent s"
  "streams (fold (\<lambda>sid. cleanupStream K cnx sid (f sid)) order s) = streams s"
  "topicToRoom (fold (\<lambda>sid. cleanupStream K cnx sid (f sid)) order s) = topicToRoom s"
  by (induction order arbitrary: s) simp_all

lemma cleanup_all_delivery:
  "delivery (fold (\<lambda>sid. cleanupStream K cnx sid (f sid)) order s) =
     (if \<exists>sid \<in> set order. delivery s cnx = Some (cnx, sid) then (delivery s)(cnx := None) else delivery s)"
  by (induction order arbitrary: s) (auto simp: cleanup_delivery)

lemma delivery_ok_receive:
  assumes "delivery_ok s" and "receive K cnx sid d s = (r, st, s')"
  shows "delivery_ok s' \<and> stream_at cnx sid s' = Some st"
proof -
  obtain s1 where "serves cnx sid s s1" "streams s1 = streams s" "s' = set_stream cnx sid (Some st) s1"
    using assms(2) by (rule receive_serves)
  then show ?thesis using assms(1) stream_at_cong [of s1 s] by (auto simp: delivery_ok_def serves_def split: if_splits)
qed

lemma delivery_ok_cleanup:
  "delivery_ok s \<Longrightarrow> delivery_ok (set_stream cnx sid None (cleanupStream K cnx sid st s))"
  by (auto simp: delivery_ok_def cleanup_delivery split: if_splits)

lemma delivery_ok_event:
  assumes "delivery_ok s" and "legal_event e s" shows "delivery_ok (fanoutStreamCallback K e s)"
proof (cases e)
  case (Stream_data cnx sid d)
  then show ?thesis using delivery_ok_receive [OF assms(1), of K cnx sid d]
    by (cases "receive K cnx sid d s") auto
next
  case (Stream_fin cnx sid d)
  then show ?thesis using delivery_ok_receive [OF assms(1), of K cnx sid d]
    by (cases "receive K cnx sid d s") (auto intro: delivery_ok_cleanup)
next
  case (Close cnx order)
  have "stream_at c i (s\<lparr>streams := (streams s)(cnx := None)\<rparr>) = stream_at c i s" if "c \<noteq> cnx" for c i
    using that by (simp add: stream_at_def)
  then show ?thesis using assms Close
    by (auto simp: delivery_ok_def cleanup_all_delivery stream_at_def split: option.splits if_splits)
qed (use assms(1) delivery_ok_cleanup in \<open>auto split: option.split\<close>)

fun event_stream :: "event \<Rightarrow> (conn \<times> stream_id) option" where
  "event_stream (Stream_data cnx sid d) = Some (cnx, sid)"
| "event_stream (Stream_fin cnx sid d) = Some (cnx, sid)"
| "event_stream _ = None"

lemma event_writes:
  assumes "delivery_ok s"
  shows "\<exists>ws. sent (fanoutStreamCallback K e s) = sent s @ ws \<and>
           (\<forall>(c, i, p) \<in> set ws. event_stream e = Some (c, i) \<or> stream_at c i s \<noteq> None)"
proof -
  have rec: "\<exists>ws. sent s' = sent s @ ws \<and> (\<forall>(c, i, p) \<in> set ws. (c, i) = (cnx, sid) \<or> stream_at c i s \<noteq> None)"
    if r: "receive K cnx sid d s = (r, st, s')" for cnx sid d r st s'
  proof -
    obtain s1 ws where "s' = set_stream cnx sid (Some st) s1" and ws: "sent s1 = sent s @ ws"
      "\<forall>(c, i, p) \<in> set ws. (c, i) = (cnx, sid) \<or> (c, i) \<in> ran (delivery s)"
      by (rule receive_serves [OF r]) (auto simp: serves_def)
    moreover have "stream_at c i s \<noteq> None" if "(c, i) \<in> ran (delivery s)" for c i
      using that assms by (fastforce simp: ran_def delivery_ok_def)
    ultimately show ?thesis by fastforce
  qed
  show ?thesis
  proof (cases e)
    case (Stream_data cnx sid d)
    then show ?thesis using rec [of cnx sid d] by (cases "receive K cnx sid d s") fastforce
  next
    case (Stream_fin cnx sid d)
    then show ?thesis using rec [of cnx sid d] by (cases "receive K cnx sid d s") fastforce
  qed (auto split: option.split)
qed

lemma reachable_delivery: "fanout_reachable K s \<Longrightarrow> delivery_ok s"
proof (induction rule: fanout_reachable.induct)
  case (start capacity z k)
  then show ?case by (simp add: delivery_ok_def BridgeState_new_def)
qed (rule delivery_ok_event)

text \<open>C11.  The server writes only to streams that are open: in every reachable state each connection's delivery stream is an
  open stream of that same connection, and every write of a callback goes to a stream that was open before the callback or
  to the stream the callback is about.  In particular nothing is written to a connection after its close, until a stream
  of it is seen again.\<close>

theorem fanout_writes_to_open_streams:
  assumes "fanout_reachable K s"
  shows "(\<forall>c v. delivery s c = Some v \<longrightarrow> fst v = c \<and> stream_at c (snd v) s \<noteq> None)
    \<and> (\<exists>ws. sent (fanoutStreamCallback K e s) = sent s @ ws \<and>
         (\<forall>(c, i, p) \<in> set ws. event_stream e = Some (c, i) \<or> stream_at c i s \<noteq> None))"
  using reachable_delivery [OF assms] event_writes [of s K e] by (simp add: delivery_ok_def)

subsection \<open>Topics\<close>

text \<open>Every topic has a live room of its own, and no connection is in a room twice.\<close>

definition directory_ok :: "('z, 'k) bridge \<Rightarrow> bool" where
  "directory_ok s =
     (slot_map_ok (rooms s) \<and>
      (\<forall>t r. topicToRoom s t = Some r \<longrightarrow>
         (\<exists>rm. SlotMap_find (rooms s) (Id_unpack r) = Some rm \<and> distinct (subscribers rm))) \<and>
      (\<forall>t t' r. topicToRoom s t = Some r \<longrightarrow> topicToRoom s t' = Some r \<longrightarrow> t = t'))"

definition subscribers_of :: "('z, 'k) bridge \<Rightarrow> bytes \<Rightarrow> conn list" where
  "subscribers_of s t =
     (case topicToRoom s t of None \<Rightarrow> [] | Some r \<Rightarrow>
        (case SlotMap_find (rooms s) (Id_unpack r) of None \<Rightarrow> [] | Some rm \<Rightarrow> subscribers rm))"

lemma directory_cong:
  assumes "rooms s' = rooms s" and "topicToRoom s' = topicToRoom s"
  shows "directory_ok s' = directory_ok s" and "subscribers_of s' = subscribers_of s"
  using assms by (auto simp: directory_ok_def subscribers_of_def fun_eq_iff split: option.split)

lemma live_room:
  assumes "directory_ok s" and "topicToRoom s t = Some r"
  obtains rm where "SlotMap_find (rooms s) (Id_unpack r) = Some rm" "distinct (subscribers rm)" "subscribers_of s t = subscribers rm"
  using assms by (fastforce simp: directory_ok_def subscribers_of_def)

lemma live_not_sentinel:
  assumes "slot_map_ok m" and "SlotMap_find m (Id_unpack r) \<noteq> None" shows "r \<noteq> SENTINEL"
proof
  assume "r = SENTINEL"
  then have "slot_index (Id_unpack r) = 0xFFFFFFFF" by simp code_simp
  then have "unat (slot_index (Id_unpack r)) = 2 ^ 32 - 1" by simp
  then show False using assms by (auto simp: find_slot slot_map_ok_def split: if_splits)
qed

text \<open>Replacing the subscribers of a topic's room.\<close>

lemma update_room:
  assumes ok: "directory_ok s" and r: "topicToRoom s t = Some r" and d: "distinct (subscribers rm)"
  defines "s' \<equiv> s\<lparr>rooms := SlotMap_update (rooms s) (Id_unpack r) rm\<rparr>"
  shows "directory_ok s'" and "subscribers_of s' = (subscribers_of s)(t := subscribers rm)"
proof -
  have live: "SlotMap_find (rooms s) (Id_unpack r) \<noteq> None" using live_room [OF ok r] by auto
  show "directory_ok s'" using ok d r live unfolding directory_ok_def s'_def
    by (auto simp: slot_store.find_upd intro: slot_store.ok_upd)
  have "topicToRoom s t' \<noteq> Some r" if "t' \<noteq> t" for t' using ok r that unfolding directory_ok_def by blast
  then show "subscribers_of s' = (subscribers_of s)(t := subscribers rm)" using r live
    by (auto simp: subscribers_of_def s'_def fun_eq_iff slot_store.find_upd split: option.split)
qed

definition has_room :: "('z, 'k) bridge \<Rightarrow> bytes \<Rightarrow> bool" where
  "has_room s t = (topicToRoom s t \<noteq> None \<or> freeList (rooms s) \<noteq> [])"

lemma alloc_iff: "slot_map_ok m \<Longrightarrow> SlotMap_alloc m v = None \<longleftrightarrow> freeList m = []"
  by (auto simp: SlotMap_alloc_def Let_def slot_map_ok_def)

lemma getOrCreateRoom_directory:
  assumes ok: "directory_ok s" and g: "getOrCreateRoom t s = (s', r)"
  shows "directory_ok s'" and "subscribers_of s' = subscribers_of s" and "r \<noteq> SENTINEL \<longleftrightarrow> has_room s t"
    and "r \<noteq> SENTINEL \<Longrightarrow> topicToRoom s' t = Some r"
proof -
  have "directory_ok s' \<and> subscribers_of s' = subscribers_of s \<and> (r \<noteq> SENTINEL \<longleftrightarrow> has_room s t) \<and>
      (r \<noteq> SENTINEL \<longrightarrow> topicToRoom s' t = Some r)"
  proof (cases "topicToRoom s t")
    case (Some q)
    then have "s' = s" "r = q" using g by (auto simp: getOrCreateRoom_def)
    moreover have "q \<noteq> SENTINEL" using live_room [OF ok Some] live_not_sentinel [of "rooms s" q] ok
      by (metis directory_ok_def option.distinct(1))
    ultimately show ?thesis using Some ok by (simp add: has_room_def)
  next
    case None
    have okm: "slot_map_ok (rooms s)" using ok by (simp add: directory_ok_def)
    show ?thesis
    proof (cases "SlotMap_alloc (rooms s) Room_empty")
      case no: None
      then have "s' = s" "r = SENTINEL" using g None by (auto simp: getOrCreateRoom_def fanout_alloc_room_def)
      then show ?thesis using ok None no alloc_iff [OF okm] by (simp add: has_room_def)
    next
      case (Some mi)
      obtain m i where mi: "mi = (m, i)" by fastforce
      note a = Some [unfolded mi]
      have found: "SlotMap_find m j = (if j = i then Some Room_empty else SlotMap_find (rooms s) j)" for j
        by (rule slot_store.find_alloc [OF okm a])
      have okm': "slot_map_ok m" by (rule slot_store.ok_alloc [OF okm a])
      have r: "Id_pack i \<noteq> SENTINEL" by (rule live_not_sentinel [OF okm']) (simp add: found)
      have new: "topicToRoom s u \<noteq> Some (Id_pack i)" for u
        using ok slot_store.fresh_alloc [OF okm a] unfolding directory_ok_def by (metis option.distinct(1) pack_unpack)
      have s': "s' = s\<lparr>rooms := m, topicToRoom := (topicToRoom s)(t \<mapsto> Id_pack i)\<rparr>" "r = Id_pack i"
        using g None a r by (auto simp: getOrCreateRoom_def fanout_alloc_room_def)
      have "directory_ok s'" using ok okm' new unfolding s' directory_ok_def by (auto simp: found Room_empty_def)
      moreover have "subscribers_of s' u = subscribers_of s u" for u using new [of u] None
        by (auto simp: subscribers_of_def s' found Room_empty_def split: option.split)
      ultimately show ?thesis using r None a alloc_iff [OF okm, of Room_empty] by (auto simp: s' has_room_def)
    qed
  qed
  then show "directory_ok s'" "subscribers_of s' = subscribers_of s" "r \<noteq> SENTINEL \<longleftrightarrow> has_room s t"
    "r \<noteq> SENTINEL \<Longrightarrow> topicToRoom s' t = Some r" by blast+
qed

definition join :: "conn \<Rightarrow> conn list \<Rightarrow> conn list" where
  "join c cs = (if c \<in> set cs then cs else cs @ [c])"

definition leave :: "conn \<Rightarrow> conn list \<Rightarrow> conn list" where
  "leave c cs = filter (\<lambda>x. x \<noteq> c) cs"

lemma Room_subscribers [simp]:
  "subscribers (Room_sub rm c) = join c (subscribers rm)" "subscribers (Room_unsub rm c) = leave c (subscribers rm)"
  by (simp_all add: Room_sub_def Room_unsub_def join_def leave_def)

lemma distinct_members [simp]: "distinct cs \<Longrightarrow> distinct (join c cs)" "distinct cs \<Longrightarrow> distinct (leave c cs)"
  by (auto simp: join_def leave_def)

lemma fanout_sub_directory:
  assumes "directory_ok s" and "topicToRoom s t = Some r"
  shows "directory_ok (s\<lparr>rooms := fanout_sub r c (rooms s)\<rparr>)"
    and "subscribers_of (s\<lparr>rooms := fanout_sub r c (rooms s)\<rparr>) = (subscribers_of s)(t := join c (subscribers_of s t))"
  by (rule live_room [OF assms]; use update_room [OF assms, of "Room_sub _ c"] in \<open>simp add: fanout_sub_def\<close>)+

lemma fanout_unsub_directory:
  assumes "directory_ok s" and "topicToRoom s t = Some r"
  shows "directory_ok (s\<lparr>rooms := fanout_unsub r c (rooms s)\<rparr>)"
    and "subscribers_of (s\<lparr>rooms := fanout_unsub r c (rooms s)\<rparr>) = (subscribers_of s)(t := leave c (subscribers_of s t))"
  by (rule live_room [OF assms]; use update_room [OF assms, of "Room_unsub _ c"] in \<open>simp add: fanout_unsub_def\<close>)+

lemma fanout_pub_targets_directory:
  "directory_ok s \<Longrightarrow> topicToRoom s t = Some r \<Longrightarrow> fanout_pub_targets r c (rooms s) = leave c (subscribers_of s t)"
  by (erule (1) live_room) (simp add: fanout_pub_targets_def Room_targets_def leave_def)

lemma handleSub_directory:
  assumes "directory_ok s"
  shows "directory_ok (handleSub cnx sid t s)"
    and "subscribers_of (handleSub cnx sid t s) = (if has_room s t then (subscribers_of s)(t := join cnx (subscribers_of s t)) else subscribers_of s)"
    and "delivery (handleSub cnx sid t s) = (if has_room s t then (delivery s)(cnx \<mapsto> (cnx, sid)) else delivery s)"
    and "sent (handleSub cnx sid t s) = sent s"
proof -
  obtain s1 r where g: "getOrCreateRoom t s = (s1, r)" by fastforce
  note d = getOrCreateRoom_directory [OF assms g] and same = getOrCreateRoom_same [OF g]
  let ?s = "s1\<lparr>rooms := fanout_sub r cnx (rooms s1)\<rparr>"
  have eq: "handleSub cnx sid t s = (if has_room s t then ?s\<lparr>delivery := (delivery s1)(cnx \<mapsto> (cnx, sid))\<rparr> else s1)"
    using d(3) by (auto simp: handleSub_def g)
  have cong: "directory_ok (?s\<lparr>delivery := x\<rparr>) = directory_ok ?s" "subscribers_of (?s\<lparr>delivery := x\<rparr>) = subscribers_of ?s" for x
    by (rule directory_cong; simp)+
  show "directory_ok (handleSub cnx sid t s)" using d fanout_sub_directory(1) [OF d(1,4)] by (auto simp: eq cong)
  show "subscribers_of (handleSub cnx sid t s) = (if has_room s t then (subscribers_of s)(t := join cnx (subscribers_of s t)) else subscribers_of s)"
    using d fanout_sub_directory(2) [OF d(1,4)] by (auto simp: eq cong)
  show "delivery (handleSub cnx sid t s) = (if has_room s t then (delivery s)(cnx \<mapsto> (cnx, sid)) else delivery s)"
    "sent (handleSub cnx sid t s) = sent s" using same by (simp_all add: eq)
qed

lemma handleSketchSub_directory:
  assumes "directory_ok s" shows "directory_ok (fst (handleSketchSub K cnx sid st s))"
proof -
  have "rooms (fst (handleSketchSub K cnx sid st s)) = rooms (handleSub cnx sid (topic st) s)"
    "topicToRoom (fst (handleSketchSub K cnx sid st s)) = topicToRoom (handleSub cnx sid (topic st) s)"
    by (cases "getOrCreateRoom (topic st) s"; simp add: handleSketchSub_def handleSub_def replay_eq Let_def)+
  then show ?thesis using handleSub_directory(1) [OF assms] directory_cong(1) by blast
qed

lemma handlePub_directory:
  assumes "directory_ok s"
  shows "directory_ok (handlePub cnx t p s)"
    and "subscribers_of (handlePub cnx t p s) = subscribers_of s" and "delivery (handlePub cnx t p s) = delivery s"
    and "sent (handlePub cnx t p s) = sent s @ relay_writes [p] (leave cnx (subscribers_of s t)) (delivery s)"
proof -
  obtain s1 r where g: "getOrCreateRoom t s = (s1, r)" by fastforce
  note d = getOrCreateRoom_directory [OF assms g] and same = getOrCreateRoom_same [OF g]
  have "subscribers_of s t = []" if "\<not> has_room s t" using that by (simp add: has_room_def subscribers_of_def)
  then have eq: "handlePub cnx t p s = s1\<lparr>sent := sent s @ relay_writes [p] (leave cnx (subscribers_of s t)) (delivery s)\<rparr>"
    using d same fanout_pub_targets_directory [OF d(1,4)] by (auto simp: handlePub_def g relay_eq relay_writes_def leave_def)
  have cong: "directory_ok (s1\<lparr>sent := x\<rparr>) = directory_ok s1" "subscribers_of (s1\<lparr>sent := x\<rparr>) = subscribers_of s1" for x
    by (rule directory_cong; simp)+
  show "directory_ok (handlePub cnx t p s)" "subscribers_of (handlePub cnx t p s) = subscribers_of s"
    "delivery (handlePub cnx t p s) = delivery s"
    "sent (handlePub cnx t p s) = sent s @ relay_writes [p] (leave cnx (subscribers_of s t)) (delivery s)"
    using d same by (simp_all add: eq cong)
qed

lemma cleanup_directory:
  assumes "directory_ok s"
  shows "directory_ok (cleanupStream K cnx sid st s)"
    and "subscribers_of (cleanupStream K cnx sid st s) =
      (if headerParsed st \<and> \<not> isPub st \<and> \<not> isZonePub st then (subscribers_of s)(topic st := leave cnx (subscribers_of s (topic st))) else subscribers_of s)"
proof -
  define s1 where "s1 = (if delivery s cnx = Some (cnx, sid) then s\<lparr>delivery := (delivery s)(cnx := None)\<rparr> else s)"
  have s1: "directory_ok s1" "subscribers_of s1 = subscribers_of s"
    using assms directory_cong [of s1 s] by (auto simp: s1_def)
  have eq: "cleanupStream K cnx sid st s =
     (if isZonePub st then s1\<lparr>zones := entity_remove K cnx (zones s1)\<rparr>
      else if headerParsed st \<and> \<not> isPub st then
        (case topicToRoom s1 (topic st) of None \<Rightarrow> s1 | Some r \<Rightarrow> s1\<lparr>rooms := fanout_unsub r cnx (rooms s1)\<rparr>)
      else s1)" unfolding cleanupStream_def s1_def Let_def ..
  have cong: "directory_ok (s1\<lparr>zones := x\<rparr>) = directory_ok s1" "subscribers_of (s1\<lparr>zones := x\<rparr>) = subscribers_of s1" for x
    by (rule directory_cong; simp)+
  have none: "subscribers_of s1 u = []" if "topicToRoom s1 u = None" for u using that by (simp add: subscribers_of_def)
  show "directory_ok (cleanupStream K cnx sid st s)"
    using s1 fanout_unsub_directory(1) [OF s1(1)] by (auto simp: eq cong split: option.split)
  show "subscribers_of (cleanupStream K cnx sid st s) =
      (if headerParsed st \<and> \<not> isPub st \<and> \<not> isZonePub st then (subscribers_of s)(topic st := leave cnx (subscribers_of s (topic st))) else subscribers_of s)"
    using s1 fanout_unsub_directory(2) [OF s1(1), of "topic st"] none [of "topic st"]
    by (auto simp: eq cong leave_def fun_eq_iff split: option.split)
qed

lemma header_line_directory: "directory_ok s \<Longrightarrow> directory_ok (snd (snd (header_line K cnx sid h st s)))"
  using directory_cong(1) [of "handleZoneSub cnx sid s" s] handleSketchSub_directory handleSub_directory(1)
  by (auto simp: header_line_def Let_def split_beta handleZoneSub_def split: option.split)

lemma step_directory:
  assumes "directory_ok s" shows "directory_ok (snd (snd (pump_step K cnx sid st s)))"
proof -
  have "directory_ok (handleZonePub K cnx xs p s)" for xs p
    using directory_cong(1) [of "handleZonePub K cnx xs p s" s] assms
    by (auto simp: handleZonePub_def Let_def relay_eq split: option.splits)
  moreover have "directory_ok (handleSketchFrame K cnx st p s)" for p
    using directory_cong(1) [of "handleSketchFrame K cnx st p s" s] assms
    by (auto simp: handleSketchFrame_def Let_def relay_eq split: prod.splits)
  ultimately show ?thesis using assms header_line_directory [of s] handlePub_directory(1) [of s]
    by (auto simp: pump_step_def header_step_def sketch_step_def Let_def split: option.split)
qed

lemma pump_directory: "directory_ok s \<Longrightarrow> directory_ok (snd (snd (pumpStream K cnx sid st s)))"
proof (induction K cnx sid st s rule: pumpStream.induct)
  case (1 K cnx sid st s)
  obtain r st' s' where step: "pump_step K cnx sid st s = (r, st', s')" by (metis prod_cases3)
  with step_directory [OF 1(2), of K cnx sid st] have "directory_ok s'" by simp
  with 1 step show ?case by (cases r) (simp_all add: pumpStream.simps [of K cnx sid st s])
qed

lemma set_stream_directory [simp]:
  "directory_ok (set_stream c i v s) = directory_ok s" "subscribers_of (set_stream c i v s) = subscribers_of s"
  by (rule directory_cong; simp)+

lemma receive_directory: "directory_ok s \<Longrightarrow> directory_ok (snd (snd (receive K cnx sid d s)))"
  using pump_directory [of s K cnx sid] by (simp add: receive_eq split_beta)

lemma cleanup_all_directory: "directory_ok s \<Longrightarrow> directory_ok (fold (\<lambda>sid. cleanupStream K cnx sid (f sid)) order s)"
  by (induction order arbitrary: s) (auto intro: cleanup_directory)

lemma streams_directory [simp]:
  "directory_ok (s\<lparr>streams := m\<rparr>) = directory_ok s" "subscribers_of (s\<lparr>streams := m\<rparr>) = subscribers_of s"
  by (rule directory_cong; simp)+

lemma event_directory: "directory_ok s \<Longrightarrow> directory_ok (fanoutStreamCallback K e s)"
  using receive_directory [of s K]
  by (cases e) (auto simp: split_beta Let_def intro: cleanup_directory cleanup_all_directory split: option.split)

lemma reachable_directory: "fanout_reachable K s \<Longrightarrow> directory_ok s"
proof (induction rule: fanout_reachable.induct)
  case (start capacity z k)
  then show ?case by (simp add: directory_ok_def BridgeState_new_def empty_slot_map_ok)
qed (rule event_directory)

text \<open>C14.  The directory is well formed in every reachable state: every topic that has a room identifier has one that the
  room store still knows, that differs from the failure mark and that no other topic has, and its room lists no connection
  twice.\<close>

theorem fanout_directory_typed:
  assumes "fanout_reachable K s" and "topicToRoom s t = Some r"
  shows "r \<noteq> SENTINEL \<and> (\<exists>rm. SlotMap_find (rooms s) (Id_unpack r) = Some rm \<and> distinct (subscribers rm))
    \<and> (\<forall>t'. topicToRoom s t' = Some r \<longleftrightarrow> t' = t)"
proof -
  have ok: "directory_ok s" by (rule reachable_directory [OF assms(1)])
  obtain rm where "SlotMap_find (rooms s) (Id_unpack r) = Some rm" "distinct (subscribers rm)"
    by (rule live_room [OF ok assms(2)])
  moreover have "r \<noteq> SENTINEL" by (rule live_not_sentinel [of "rooms s"]) (use ok calculation in \<open>simp_all add: directory_ok_def\<close>)
  ultimately show ?thesis using ok assms(2) unfolding directory_ok_def by blast
qed

subsection \<open>Who receives a publication\<close>

lemma receive_new:
  assumes "stream_at cnx sid s = None"
  shows "receive K cnx sid d s =
    (case pumpStream K cnx sid (StreamState_new\<lparr>buf := d\<rparr>) s of (r, st, s) \<Rightarrow> (r, st, set_stream cnx sid (Some st) s))"
  using assms by (simp add: receive_eq stream_or_new_def StreamState_new_def)

text \<open>A header line at the front of the buffer.\<close>

lemma find_byte_front: "b \<notin> set xs \<Longrightarrow> find_byte b (xs @ b # ys) = Some (length xs)"
  by (induction xs) (auto simp: find_byte_def)

lemma pump_header:
  assumes "\<not> headerParsed st" and "buf st = h @ 10 # rest" and "10 \<notin> set h"
    and "header_line K cnx sid h (st\<lparr>buf := rest\<rparr>) s = (Continue, st', s')"
  shows "pumpStream K cnx sid st s = pumpStream K cnx sid st' s'"
  using assms by (subst pumpStream.simps) (simp add: pump_step_def header_step_def find_byte_front)

definition sub_line :: "bytes \<Rightarrow> bytes" where "sub_line t = verb_SUB @ [32] @ t @ [10]"
definition pub_line :: "bytes \<Rightarrow> bytes" where "pub_line t = verb_PUB @ [32] @ t @ [10]"

lemmas verbs = verb_SUB_def verb_PUB_def verb_SKB_def verb_ZPB_def

lemma find_space:
  "find_byte 32 (verb_SUB @ 32 # t) = Some 3" "find_byte 32 (verb_PUB @ 32 # t) = Some 3" "find_byte 32 (verb_ZPB @ 32 # t) = Some 3"
  by (simp_all add: verbs find_byte_def)

lemma header_SUB:
  "header_line K cnx sid (verb_SUB @ 32 # t) st s = (Continue, st\<lparr>topic := t, headerParsed := True, isPub := False\<rparr>, handleSub cnx sid t s)"
  unfolding header_line_def find_space by (simp add: verbs)

lemma header_PUB:
  "header_line K cnx sid (verb_PUB @ 32 # t) st s = (Continue, st\<lparr>topic := t, headerParsed := True, isPub := True\<rparr>, s)"
  unfolding header_line_def find_space by (simp add: verbs)

lemma header_ZPB:
  assumes "parseZpbFields t (position st) = (True, xs)"
  shows "header_line K cnx sid (verb_ZPB @ 32 # t) st s =
    (Continue, st\<lparr>topic := t, headerParsed := True, position := xs, isZonePub := True\<rparr>, handleZoneSub cnx sid s)"
  unfolding header_line_def find_space by (simp add: verbs assms)

lemma pump_sub:
  assumes "10 \<notin> set t"
  shows "pumpStream K cnx sid (StreamState_new\<lparr>buf := sub_line t\<rparr>) s =
    (Return, StreamState_new\<lparr>topic := t, headerParsed := True\<rparr>, handleSub cnx sid t s)"
proof -
  let ?st = "StreamState_new\<lparr>topic := t, headerParsed := True\<rparr>"
  have "pumpStream K cnx sid (StreamState_new\<lparr>buf := sub_line t\<rparr>) s = pumpStream K cnx sid ?st (handleSub cnx sid t s)"
    by (rule pump_header [of _ "verb_SUB @ 32 # t" "[]"])
      (use assms in \<open>simp_all only: header_SUB, simp_all add: sub_line_def verbs StreamState_new_def\<close>)
  also have "\<dots> = (Return, ?st, handleSub cnx sid t s)"
    by (subst pumpStream.simps) (simp add: pump_step_def StreamState_new_def)
  finally show ?thesis .
qed

lemma pump_payload:
  assumes "headerParsed st" "isPub st" "\<not> isSketch st" "buf st = p @ rest" "length p = kEntityPacketSize"
  shows "pumpStream K cnx sid st s =
    pumpStream K cnx sid (st\<lparr>buf := rest, headerParsed := False\<rparr>) (handlePub cnx (topic st) p s)"
  using assms by (subst pumpStream.simps) (simp add: pump_step_def)

lemma pump_empty: "\<not> headerParsed st \<Longrightarrow> buf st = [] \<Longrightarrow> pumpStream K cnx sid st s = (Return, st, s)"
  by (subst pumpStream.simps) (simp add: pump_step_def header_step_def find_byte_def)

lemma pump_pub:
  assumes "10 \<notin> set t" and "length p = kEntityPacketSize"
  shows "pumpStream K cnx sid (StreamState_new\<lparr>buf := pub_line t @ p\<rparr>) s =
    (Return, StreamState_new\<lparr>topic := t, isPub := True\<rparr>, handlePub cnx t p s)"
proof -
  let ?st = "StreamState_new\<lparr>buf := p, topic := t, headerParsed := True, isPub := True\<rparr>"
  have "pumpStream K cnx sid (StreamState_new\<lparr>buf := pub_line t @ p\<rparr>) s = pumpStream K cnx sid ?st s"
    by (rule pump_header [of _ "verb_PUB @ 32 # t" p])
      (use assms in \<open>simp_all only: header_PUB, simp_all add: pub_line_def verbs StreamState_new_def\<close>)
  also have "\<dots> = pumpStream K cnx sid (?st\<lparr>buf := [], headerParsed := False\<rparr>) (handlePub cnx t p s)"
    using pump_payload [of ?st p "[]" K cnx sid s] assms by (simp add: StreamState_new_def)
  also have "\<dots> = (Return, StreamState_new\<lparr>topic := t, isPub := True\<rparr>, handlePub cnx t p s)"
    by (subst pump_empty) (simp_all add: StreamState_new_def)
  finally show ?thesis .
qed

text \<open>C13.  A subscription does what it says: in every reachable state the line \<open>SUB t\<close> on a new stream adds the connection
  to the subscribers of \<open>t\<close>, once, makes this stream the one it is served on, changes the subscribers of no other topic
  and writes nothing; and when no room is left for a new topic it does nothing at all.  When the stream is reset the
  connection is no longer a subscriber of \<open>t\<close> and has no delivery stream, and the other topics are as they were.\<close>

theorem fanout_subscribe:
  assumes "fanout_reachable K s" and "stream_at cnx sid s = None" and "10 \<notin> set t"
  defines "s1 \<equiv> fanoutStreamCallback K (Stream_data cnx sid (sub_line t)) s"
  defines "s2 \<equiv> fanoutStreamCallback K (Stream_reset cnx sid) s1"
  shows "(if has_room s t
      then subscribers_of s1 = (subscribers_of s)(t := join cnx (subscribers_of s t)) \<and> delivery s1 = (delivery s)(cnx \<mapsto> (cnx, sid))
      else subscribers_of s1 = subscribers_of s \<and> delivery s1 = delivery s)
    \<and> sent s1 = sent s
    \<and> subscribers_of s2 = (subscribers_of s)(t := leave cnx (subscribers_of s t)) \<and> sent s2 = sent s
    \<and> (has_room s t \<longrightarrow> delivery s2 = (delivery s)(cnx := None))"
proof -
  note ok = reachable_directory [OF assms(1)]
  let ?st = "StreamState_new\<lparr>topic := t, headerParsed := True\<rparr>"
  have s1: "s1 = set_stream cnx sid (Some ?st) (handleSub cnx sid t s)"
    using assms(2,3) by (simp add: s1_def receive_new pump_sub)
  then have s2: "s2 = set_stream cnx sid None (cleanupStream K cnx sid ?st s1)" by (simp add: s2_def)
  have ok1: "directory_ok s1" using handleSub_directory(1) [OF ok] by (simp add: s1)
  have "leave cnx (join cnx cs) = leave cnx cs" for cs by (simp add: leave_def join_def)
  then show ?thesis using handleSub_directory(2-4) [OF ok] cleanup_directory(2) [OF ok1, of K cnx sid ?st]
    by (auto simp: s1 s2 cleanup_delivery StreamState_new_def)
qed

subsection \<open>What the events of other connections leave alone\<close>

text \<open>How a connection is served: on which stream, and for which topics.\<close>

definition served :: "conn \<Rightarrow> ('z, 'k) bridge \<Rightarrow> (conn \<times> stream_id) option \<times> bytes set" where
  "served c s = (delivery s c, {t. c \<in> set (subscribers_of s t)})"

lemma served_cong:
  "rooms s' = rooms s \<Longrightarrow> topicToRoom s' = topicToRoom s \<Longrightarrow> delivery s' c = delivery s c \<Longrightarrow> served c s' = served c s"
  using directory_cong(2) [of s' s] by (simp add: served_def)

lemma served_set_stream [simp]: "served c (set_stream cnx sid v s) = served c s"
  by (rule served_cong) simp_all

lemma served_handleSub: "directory_ok s \<Longrightarrow> cnx \<noteq> c \<Longrightarrow> served c (handleSub cnx sid t s) = served c s"
  by (auto simp: served_def handleSub_directory join_def split: if_splits)

lemma served_handleSketchSub:
  assumes "directory_ok s" "cnx \<noteq> c" shows "served c (fst (handleSketchSub K cnx sid st s)) = served c s"
proof -
  have "served c (fst (handleSketchSub K cnx sid st s)) = served c (handleSub cnx sid (topic st) s)"
    by (rule served_cong; cases "getOrCreateRoom (topic st) s"; simp add: handleSketchSub_def handleSub_def replay_eq Let_def)
  then show ?thesis using served_handleSub [OF assms] by simp
qed

lemma served_handlePub: "directory_ok s \<Longrightarrow> served c (handlePub cnx t p s) = served c s"
  by (simp add: served_def handlePub_directory)

lemma served_handleZonePub: "served c (handleZonePub K cnx xs p s) = served c s"
  by (rule served_cong; simp add: handleZonePub_def Let_def relay_eq split: option.split)

lemma served_handleSketchFrame: "served c (handleSketchFrame K cnx st p s) = served c s"
  by (rule served_cong; simp add: handleSketchFrame_def Let_def relay_eq split: prod.split)

lemma served_cleanup:
  assumes "directory_ok s" "cnx \<noteq> c" shows "served c (cleanupStream K cnx sid st s) = served c s"
  using assms by (auto simp: served_def cleanup_directory(2) cleanup_delivery leave_def split: if_splits)

lemma served_header_line:
  assumes "directory_ok s" "cnx \<noteq> c" shows "served c (snd (snd (header_line K cnx sid h st s))) = served c s"
proof -
  have "served c (handleZoneSub cnx sid s) = served c s" using assms(2) by (intro served_cong) (simp_all add: handleZoneSub_def)
  then show ?thesis using served_handleSub [OF assms] served_handleSketchSub [OF assms]
    by (simp add: header_line_def Let_def split_beta split: option.split)
qed

lemma served_step:
  "directory_ok s \<Longrightarrow> cnx \<noteq> c \<Longrightarrow> served c (snd (snd (pump_step K cnx sid st s))) = served c s"
  by (simp add: pump_step_def header_step_def sketch_step_def Let_def served_header_line served_handlePub served_handleZonePub
      served_handleSketchFrame split: option.split)

lemma served_pump: "directory_ok s \<Longrightarrow> cnx \<noteq> c \<Longrightarrow> served c (snd (snd (pumpStream K cnx sid st s))) = served c s"
proof (induction K cnx sid st s rule: pumpStream.induct)
  case (1 K cnx sid st s)
  obtain r st' s' where step: "pump_step K cnx sid st s = (r, st', s')" by (metis prod_cases3)
  have "directory_ok s'" "served c s' = served c s"
    using step_directory [OF 1(2), of K cnx sid st] served_step [OF 1(2,3), of K sid st] step by simp_all
  with 1 step show ?case by (cases r) (simp_all add: pumpStream.simps [of K cnx sid st s])
qed

lemma served_receive: "directory_ok s \<Longrightarrow> cnx \<noteq> c \<Longrightarrow> served c (snd (snd (receive K cnx sid d s))) = served c s"
  using served_pump [of s cnx c K sid] by (simp add: receive_eq split_beta)

lemma served_cleanup_all:
  "directory_ok s \<Longrightarrow> cnx \<noteq> c \<Longrightarrow> served c (fold (\<lambda>sid. cleanupStream K cnx sid (f sid)) order s) = served c s"
  by (induction order arbitrary: s) (simp_all add: cleanup_directory(1) served_cleanup)

fun event_conn :: "event \<Rightarrow> conn" where
  "event_conn (Stream_data cnx sid d) = cnx"
| "event_conn (Stream_fin cnx sid d) = cnx"
| "event_conn (Stream_reset cnx sid) = cnx"
| "event_conn (Close cnx order) = cnx"
| "event_conn (Other_event cnx) = cnx"

lemma served_event:
  assumes "directory_ok s" "event_conn e \<noteq> c" shows "served c (fanoutStreamCallback K e s) = served c s"
proof (cases e)
  case (Close cnx order)
  have "served c (s\<lparr>streams := m\<rparr>) = served c s" for m and s :: "('a, 'b) bridge" by (rule served_cong) simp_all
  then show ?thesis using Close assms served_cleanup_all [OF assms(1)] by (simp add: Let_def split: option.split)
qed (use assms in \<open>simp_all add: split_beta Let_def served_receive receive_directory served_cleanup split: option.split\<close>)

text \<open>Connection \<open>c\<close> has sent \<open>SUB t\<close> on its stream \<open>sid\<close>; since then it has done nothing but publish, each time on a new
  stream which it may end with the payload, and the other connections have done anything.\<close>

inductive subscribed_on :: "('z, 'k) cores \<Rightarrow> conn \<Rightarrow> stream_id \<Rightarrow> bytes \<Rightarrow> ('z, 'k) bridge \<Rightarrow> bool" for K c sid t where
  sub: "fanout_reachable K s \<Longrightarrow> stream_at c sid s = None \<Longrightarrow> 10 \<notin> set t \<Longrightarrow> has_room s t \<Longrightarrow>
    subscribed_on K c sid t (fanoutStreamCallback (K\<lparr>get_rtt := rtt\<rparr>) (Stream_data c sid (sub_line t)) s)"
| other: "subscribed_on K c sid t s \<Longrightarrow> legal_event e s \<Longrightarrow> event_conn e \<noteq> c \<Longrightarrow>
    subscribed_on K c sid t (fanoutStreamCallback (K\<lparr>get_rtt := rtt\<rparr>) e s)"
| own_pub: "subscribed_on K c sid t s \<Longrightarrow> stream_at c i s = None \<Longrightarrow> 10 \<notin> set u \<Longrightarrow> length p = 100 \<Longrightarrow>
    subscribed_on K c sid t (fanoutStreamCallback (K\<lparr>get_rtt := rtt\<rparr>) (Stream_data c i (pub_line u @ p)) s)"
| own_pub_fin: "subscribed_on K c sid t s \<Longrightarrow> stream_at c i s = None \<Longrightarrow> 10 \<notin> set u \<Longrightarrow> length p = 100 \<Longrightarrow>
    subscribed_on K c sid t (fanoutStreamCallback (K\<lparr>get_rtt := rtt\<rparr>) (Stream_fin c i (pub_line u @ p)) s)"

lemma subscribed_on_reachable: "subscribed_on K c sid t s \<Longrightarrow> fanout_reachable K s"
  by (induction rule: subscribed_on.induct) (auto intro: fanout_reachable.event simp del: fanoutStreamCallback.simps)

lemma subscribed_on_served:
  "subscribed_on K c sid t s \<Longrightarrow> directory_ok s \<and> delivery s c = Some (c, sid) \<and> c \<in> set (subscribers_of s t)"
proof (induction rule: subscribed_on.induct)
  case (sub s rtt)
  note ok = reachable_directory [OF sub(1)]
  show ?case using sub event_directory [OF ok] handleSub_directory(1-3) [OF ok, of c sid t]
    by (auto simp: receive_new pump_sub join_def)
next
  case (other s e rtt)
  then show ?case using served_event [of s e c "K\<lparr>get_rtt := rtt\<rparr>"] event_directory by (auto simp: served_def)
next
  case (own_pub s i u p rtt)
  then have "fanoutStreamCallback (K\<lparr>get_rtt := rtt\<rparr>) (Stream_data c i (pub_line u @ p)) s =
      set_stream c i (Some (StreamState_new\<lparr>topic := u, isPub := True\<rparr>)) (handlePub c u p s)"
    by (simp add: receive_new pump_pub kEntityPacketSize_def)
  then show ?case using own_pub.IH by (simp add: handlePub_directory)
next
  case (own_pub_fin s i u p rtt)
  let ?K = "K\<lparr>get_rtt := rtt\<rparr>" and ?st = "StreamState_new\<lparr>topic := u, isPub := True\<rparr>"
  have "stream_at c sid s \<noteq> None"
    using reachable_delivery [OF subscribed_on_reachable [OF own_pub_fin(1)]] own_pub_fin.IH by (auto simp: delivery_ok_def)
  then have "i \<noteq> sid" using own_pub_fin(2) by auto
  moreover have "fanoutStreamCallback ?K (Stream_fin c i (pub_line u @ p)) s =
      set_stream c i None (cleanupStream ?K c i ?st (set_stream c i (Some ?st) (handlePub c u p s)))"
    using own_pub_fin by (simp add: receive_new pump_pub kEntityPacketSize_def)
  ultimately show ?case using own_pub_fin.IH by (simp add: handlePub_directory cleanup_directory cleanup_delivery)
qed

lemma filter_one: "distinct cs \<Longrightarrow> c \<in> set cs \<Longrightarrow> filter (\<lambda>w. fst w = c) (map (\<lambda>c. (c, f c, p)) cs) = [(c, f c, p)]"
proof (induction cs)
  case (Cons d cs)
  have "filter (\<lambda>w. fst w = c) (map (\<lambda>c. (c, f c, p)) cs) = []" if "d = c" using that Cons.prems(1) by (auto simp: filter_empty_conv)
  then show ?case using Cons by auto
qed simp

text \<open>C9.  A publication reaches exactly the subscribers of its topic that have a delivery stream: in every reachable state the
  bytes \<open>PUB t\<close>, newline, payload on a new stream make the server write the payload, unchanged and once, to the delivery
  stream of each other connection that is subscribed to \<open>t\<close> and has one, in the order of subscription, and to nobody else;
  the subscriptions and the delivery streams stay as they are.  The delivery stream of a connection is the one on which it
  sent its last \<open>SUB\<close>, \<open>SKB\<close> or \<open>ZPB\<close>, whatever the topic, and there is none once that stream has ended: the wire protocol's
  promise, that a subscriber receives the payload on the stream of its \<open>SUB\<close>, is kept for a connection that has subscribed
  and has done nothing but publish since, which receives exactly this one copy, on that stream.  (For other connections it
  is not: see the lemmas \<open>second_subscription_moves_delivery\<close> and \<open>zone_publish_moves_delivery\<close>.)\<close>

theorem fanout_publish:
  assumes "fanout_reachable K s" and "stream_at cnx sid s = None" and "10 \<notin> set t" and "length p = 100"
  defines "s1 \<equiv> fanoutStreamCallback K (Stream_data cnx sid (pub_line t @ p)) s"
  shows "sent s1 = sent s @ map (\<lambda>c. (c, snd (the (delivery s c)), p))
                              (filter (\<lambda>c. c \<noteq> cnx \<and> delivery s c \<noteq> None) (subscribers_of s t))
    \<and> distinct (subscribers_of s t) \<and> subscribers_of s1 = subscribers_of s \<and> delivery s1 = delivery s
    \<and> (\<forall>c i. subscribed_on K c i t s \<longrightarrow> c \<noteq> cnx \<longrightarrow>
         filter (\<lambda>w. fst w = c) (drop (length (sent s)) (sent s1)) = [(c, i, p)])"
proof -
  note ok = reachable_directory [OF assms(1)]
  have s1: "s1 = set_stream cnx sid (Some (StreamState_new\<lparr>topic := t, isPub := True\<rparr>)) (handlePub cnx t p s)"
    using assms(2-4) by (simp add: s1_def receive_new pump_pub kEntityPacketSize_def)
  let ?to = "filter (\<lambda>c. c \<noteq> cnx \<and> delivery s c \<noteq> None) (subscribers_of s t)"
  have d: "distinct (subscribers_of s t)"
    by (cases "topicToRoom s t") (simp add: subscribers_of_def, erule live_room [OF ok], simp)
  have "relay_writes [p] (leave cnx cs) (delivery s) =
      map (\<lambda>c. (c, snd (the (delivery s c)), p)) (filter (\<lambda>c. c \<noteq> cnx \<and> delivery s c \<noteq> None) cs)" for cs
    using reachable_delivery [OF assms(1)] by (induction cs) (auto simp: relay_writes_def leave_def delivery_ok_def split: option.split)
  then have out: "sent s1 = sent s @ map (\<lambda>c. (c, snd (the (delivery s c)), p)) ?to"
    using handlePub_directory(4) [OF ok] by (simp add: s1)
  have "filter (\<lambda>w. fst w = c) (drop (length (sent s)) (sent s1)) = [(c, i, p)]" if "subscribed_on K c i t s" "c \<noteq> cnx" for c i
    using subscribed_on_served [OF that(1)] that(2) d filter_one [of ?to c "\<lambda>c. snd (the (delivery s c))" p] by (simp add: out)
  then show ?thesis using out d handlePub_directory(2,3) [OF ok] by (simp add: s1)
qed

text \<open>One zone that holds every connection that has moved, and one list of accepted sketch frames for each room.\<close>

definition one_zone :: "(conn list, u64 \<Rightarrow> bytes list) cores" where
  "one_zone = \<lparr>entity_move_v = (\<lambda>c x y z vx vy vz k cs. List.insert c cs), entity_remove = removeAll,
     zone_targets = (\<lambda>c x y z cs. Some (removeAll c cs)),
     sketch_apply_packet = (\<lambda>r p h. if p \<in> set (h r) then (h, False) else (h(r := h r @ [p]), True)),
     sketch_history = (\<lambda>r h. h r), get_rtt = (\<lambda>c. 30000)\<rparr>"

definition at_start :: "(conn list, u64 \<Rightarrow> bytes list) bridge" where
  "at_start = BridgeState_new 4 [] (\<lambda>r. [])"

definition one_subscriber :: "(conn list, u64 \<Rightarrow> bytes list) bridge" where
  "one_subscriber = fanoutStreamCallback one_zone (Stream_data 5 0 (sub_line [97])) at_start"

lemma reachable_event: "fanout_reachable K s \<Longrightarrow> legal_event e s \<Longrightarrow> fanout_reachable K (fanoutStreamCallback K e s)"
  using fanout_reachable.event [of K s e "get_rtt K"] by simp

lemma reachable_start: "fanout_reachable one_zone at_start"
  unfolding at_start_def by (rule fanout_reachable.start) simp

lemma reachable_one: "fanout_reachable one_zone one_subscriber"
  unfolding one_subscriber_def by (rule reachable_event [OF reachable_start]) simp

lemma one_subscriber_delivery: "delivery one_subscriber 5 = Some (5, 0)"
  by code_simp

lemma fanout_pieces_witness:
  "fold (fanoutStreamCallback one_zone) (map (Stream_data 6 0) ([[83, 85], [66, 32, 97]] @ [[10]])) at_start =
     fanoutStreamCallback one_zone (Stream_data 6 0 [83, 85, 66, 32, 97, 10]) at_start"
proof -
  have "fst (receive one_zone 6 0 (concat [[83, 85], [66, 32, 97]] @ [10]) at_start) = Return" by code_simp
  from fanout_pieces [OF this] show ?thesis by simp
qed

lemma fanout_writes_to_open_streams_witness:
  "stream_at 5 0 one_subscriber \<noteq> None \<and> delivery one_subscriber 5 = Some (5, 0)"
  using fanout_writes_to_open_streams [OF reachable_one, of "Other_event 5"]
  by (metis (no_types, lifting) fst_conv snd_conv one_subscriber_delivery)

lemma fanout_directory_typed_witness:
  "topicToRoom one_subscriber [97] = Some 1 \<and> (\<exists>rm. SlotMap_find (rooms one_subscriber) (Id_unpack 1) = Some rm \<and> distinct (subscribers rm))"
proof -
  have r: "topicToRoom one_subscriber [97] = Some 1" by code_simp
  from fanout_directory_typed [OF reachable_one r] r show ?thesis by blast
qed

lemma fanout_subscribe_witness:
  "subscribers_of (fanoutStreamCallback one_zone (Stream_reset 5 0) (fanoutStreamCallback one_zone (Stream_data 5 0 (sub_line [97])) at_start)) [97] = []"
  using fanout_subscribe [OF reachable_start, of 5 0 "[97]"]
  by (simp add: at_start_def BridgeState_new_def stream_at_def subscribers_of_def leave_def)

lemma one_subscribed: "subscribed_on one_zone 5 0 [97] one_subscriber"
  unfolding one_subscriber_def using subscribed_on.sub [OF reachable_start, of 5 0 "[97]" "get_rtt one_zone"]
  by (simp add: at_start_def BridgeState_new_def stream_at_def has_room_def SlotMap_empty_def)

lemma fanout_publish_witness:
  "let s1 = fanoutStreamCallback one_zone (Stream_data 6 0 (pub_line [97] @ replicate 100 7)) one_subscriber in
   sent s1 = [(5, 0, replicate 100 7)] \<and> filter (\<lambda>w. fst w = 5) (drop (length (sent one_subscriber)) (sent s1)) = [(5, 0, replicate 100 7)]"
proof -
  have "stream_at 6 0 one_subscriber = None" "subscribers_of one_subscriber [97] = [5]" "delivery one_subscriber 5 = Some (5, 0)"
    "sent one_subscriber = []" by code_simp+
  then show ?thesis using fanout_publish [OF reachable_one, of 6 0 "[97]" "replicate 100 7"] one_subscribed
    by (simp add: Let_def del: fanoutStreamCallback.simps)
qed

end
