(* ===== verification/LoadClient.thy ===== *)
theory LoadClient
  imports FanoutServer_Correct "HOL-Library.Signed_Division"
begin

text \<open>
  The load client, \<^verbatim>\<open>examples/fanout_load_client.actor.cpp\<close>: the player's state machine and the bytes it sends, and the
  composition with the fanout server that receives them.  An \<open>int\<close> is an integer of its range; the product in
  \<open>makePayload\<close>, of which only the low byte is used, is taken not to overflow.
\<close>

subsection \<open>The player\<close>

datatype player_state = Connecting | Publishing | Done | Failed

record player_ctx =
  playerId :: int
  ticksRemaining :: int
  pstate :: player_state
  streamId :: stream_id

definition makePayload :: "int \<Rightarrow> int \<Rightarrow> bytes" where
  "makePayload pid tick =
     (let seed = word_of_int ((pid * 1000 + tick) smod 256) :: u8 in
      map (\<lambda>i. word_of_int ((uint seed + int i) mod 256)) [0..<kEntityPacketSize])"

text \<open>\<open>std::to_string\<close>.\<close>

fun digits :: "nat \<Rightarrow> bytes" where
  "digits n = (if n < 10 then [of_nat (48 + n)] else digits (n div 10) @ [of_nat (48 + n mod 10)])"

declare digits.simps [simp del]

definition to_string :: "int \<Rightarrow> bytes" where
  "to_string v = (if v < 0 then 45 # digits (nat (- v)) else digits (nat v))"

definition zpbHeader :: "int \<Rightarrow> int \<Rightarrow> bytes" where
  "zpbHeader pid tick = verb_ZPB @ [32] @ to_string pid @ [32] @ to_string tick @ [32, 48, 32, 48, 32, 48, 32, 48, 10]"

text \<open>The loop: what it writes, in order, and the player it leaves.\<close>

function send_ticks :: "player_ctx \<Rightarrow> bytes list \<times> player_ctx" where
  "send_ticks p =
     (if ticksRemaining p > 0 then
        (let tick = ticksRemaining p; (ws, q) = send_ticks (p\<lparr>ticksRemaining := tick - 1\<rparr>)
         in (zpbHeader (playerId p) tick # makePayload (playerId p) tick # ws, q))
      else ([], p))"
  by auto
termination
  by (relation "measure (\<lambda>p. nat (ticksRemaining p))") auto

declare send_ticks.simps [simp del]

definition sendAllTicks :: "player_ctx \<Rightarrow> bytes list \<times> player_ctx" where
  "sendAllTicks p = (let (ws, q) = send_ticks (p\<lparr>pstate := Publishing\<rparr>) in (ws, q\<lparr>pstate := Done\<rparr>))"

datatype client_event = Almost_ready | Ready | Client_data | Client_fin | Client_close | Application_close | Client_other

definition loadClientStreamCallback :: "client_event \<Rightarrow> player_ctx \<Rightarrow> bytes list \<times> player_ctx" where
  "loadClientStreamCallback e p =
     (if e \<in> {Almost_ready, Ready} then
        (if pstate p = Connecting then sendAllTicks (p\<lparr>streamId := 0\<rparr>) else ([], p))
      else if e \<in> {Client_close, Application_close} then
        ([], if pstate p \<noteq> Done then p\<lparr>pstate := Failed\<rparr> else p)
      else ([], p))"

text \<open>The callbacks of a connection, one after the other.\<close>

fun client_run :: "client_event list \<Rightarrow> player_ctx \<Rightarrow> bytes list \<times> player_ctx" where
  "client_run [] p = ([], p)"
| "client_run (e # es) p =
     (let (ws, p) = loadClientStreamCallback e p; (vs, p) = client_run es p in (ws @ vs, p))"

definition player_new :: "int \<Rightarrow> int \<Rightarrow> player_ctx" where
  "player_new pid ticks = \<lparr>playerId = pid, ticksRemaining = ticks, pstate = Connecting, streamId = 0\<rparr>"

subsection \<open>What the player sends\<close>

definition tick_writes :: "int \<Rightarrow> int \<Rightarrow> bytes list" where
  "tick_writes pid n = concat (map (\<lambda>t. [zpbHeader pid t, makePayload pid t]) (rev [1..n]))"

lemma upto_snoc: "1 \<le> n \<Longrightarrow> [1..n] = [1..n - 1] @ [n]" for n :: int
  by (rule upto_rec2)

lemma send_ticks_eq: "send_ticks p = (tick_writes (playerId p) (ticksRemaining p), p\<lparr>ticksRemaining := min 0 (ticksRemaining p)\<rparr>)"
proof (induction p rule: send_ticks.induct)
  case (1 p)
  show ?case
  proof (cases "ticksRemaining p > 0")
    case True
    then show ?thesis using 1 upto_snoc [of "ticksRemaining p"] by (subst send_ticks.simps) (simp add: tick_writes_def Let_def)
  next
    case False
    then show ?thesis by (subst send_ticks.simps) (simp add: tick_writes_def)
  qed
qed

lemma client_quiet_step:
  "pstate p \<noteq> Connecting \<Longrightarrow>
     loadClientStreamCallback e p = ([], p) \<or> pstate p \<noteq> Done \<and> loadClientStreamCallback e p = ([], p\<lparr>pstate := Failed\<rparr>)"
  by (simp add: loadClientStreamCallback_def)

lemma client_quiet:
  assumes "pstate p \<noteq> Connecting"
  shows "fst (client_run es p) = [] \<and> (if pstate p = Done then snd (client_run es p) = p else pstate (snd (client_run es p)) \<noteq> Done)"
  using assms
proof (induction es arbitrary: p)
  case (Cons e es)
  then show ?case using client_quiet_step [OF Cons(2), of e] by (auto simp: split_beta)
qed simp

definition decisive :: "client_event \<Rightarrow> bool" where
  "decisive e = (e \<in> {Almost_ready, Ready, Client_close, Application_close})"

text \<open>C16.  The player sends all its ticks once or nothing: over any sequence of callbacks the bytes it writes are either
  nothing or, in descending order of the tick, one header and one payload for every tick; they are the ticks exactly when
  the player ends up done, which is when the first event that is a ready or a close is a ready.\<close>

theorem load_client_once:
  "let (ws, q) = client_run es (player_new pid n) in
   (pstate q = Done \<longleftrightarrow> find decisive es \<in> {Some Almost_ready, Some Ready})
   \<and> ws = (if pstate q = Done then tick_writes pid n else [])"
proof (induction es)
  case (Cons e es)
  show ?case
  proof (cases "decisive e")
    case True
    obtain ws p where step: "loadClientStreamCallback e (player_new pid n) = (ws, p)" by fastforce
    have "pstate p \<noteq> Connecting \<and> ws = (if e \<in> {Almost_ready, Ready} then tick_writes pid n else []) \<and>
        (pstate p = Done \<longleftrightarrow> e \<in> {Almost_ready, Ready})"
      using True step by (auto simp: decisive_def loadClientStreamCallback_def sendAllTicks_def send_ticks_eq player_new_def)
    then show ?thesis using True step client_quiet [of p es] by (auto simp: split_beta Let_def)
  next
    case False
    then have "loadClientStreamCallback e (player_new pid n) = ([], player_new pid n)"
      by (simp add: decisive_def loadClientStreamCallback_def)
    then show ?thesis using Cons False by (simp add: split_beta Let_def)
  qed
qed (simp add: player_new_def)

subsection \<open>Numbers that the server reads back\<close>

lemma uint_digit: "k < 10 \<Longrightarrow> uint (48 + word_of_nat k :: u8) = 48 + int k"
  using unsigned_of_nat [where 'a = int and 'b = 8, of "48 + k"] by (simp add: take_bit_eq_mod)

lemma is_digit_digit: "k < 10 \<Longrightarrow> is_digit (48 + word_of_nat k)"
  using uint_digit [of k] by (simp add: is_digit_def word_le_def)

lemma digits_are_digits: "b \<in> set (digits n) \<Longrightarrow> is_digit b"
proof (induction n rule: digits.induct)
  case (1 n)
  then show ?case by (subst (asm) (2) digits.simps) (auto simp: is_digit_digit split: if_splits)
qed

lemma digits_not_Nil: "digits n \<noteq> []"
  by (subst digits.simps) simp

lemma zmult_div_mod: "int (n div 10) * 10 + int (n mod 10) = int n"
  by (metis div_mult_mod_eq of_nat_add of_nat_mult of_nat_numeral)

lemma digits_value_digits: "digits_value (digits n) = int n"
proof (induction n rule: digits.induct)
  case (1 n)
  then show ?case using uint_digit [of n] uint_digit [of "n mod 10"] zmult_div_mod [of n]
    by (subst digits.simps) (auto simp: digits_value_def)
qed

text \<open>What may follow a number: nothing, or a byte that is not a digit.\<close>

definition no_digit :: "bytes \<Rightarrow> bool" where
  "no_digit rest = (rest = [] \<or> \<not> is_digit (hd rest))"

lemma takeWhile_digits:
  assumes "no_digit rest"
  shows "takeWhile is_digit (digits n @ rest) = digits n" and "dropWhile is_digit (digits n @ rest) = rest"
  using assms digits_are_digits by (cases rest; auto simp: no_digit_def takeWhile_append2 dropWhile_append2)+

lemma hd_digits: "hd (digits n @ rest) \<noteq> 45"
  using digits_are_digits [of "hd (digits n)" n] digits_not_Nil [of n] by (auto simp: is_digit_def)

lemma from_chars_to_string:
  assumes "- (2 ^ 63) \<le> v" and "v < 2 ^ 63" and "no_digit rest"
  shows "from_chars (to_string v @ rest) = Some (word_of_int v, rest)"
  using assms digits_not_Nil hd_digits
  by (auto simp: from_chars_def to_string_def Let_def takeWhile_digits digits_value_digits)

fun field_text :: "int list \<Rightarrow> bytes" where
  "field_text [] = []"
| "field_text [v] = to_string v"
| "field_text (v # vs) = to_string v @ 32 # field_text vs"

lemma no_digit_sep: "no_digit []" "no_digit (32 # xs)" "no_digit (10 # xs)"
  by (simp_all add: no_digit_def is_digit_def)

lemma parse_field_text:
  "vs \<noteq> [] \<Longrightarrow> length old = length vs \<Longrightarrow> \<forall>v \<in> set vs. - (2 ^ 63) \<le> v \<and> v < 2 ^ 63 \<Longrightarrow> no_digit rest \<Longrightarrow>
     parse_fields (field_text vs @ rest) old = (rest = [], map word_of_int vs)"
proof (induction vs arbitrary: old rule: field_text.induct)
  case (2 v)
  then show ?case using from_chars_to_string [of v rest] by (cases old) auto
next
  case (3 v w vs)
  then obtain f fs where old: "old = f # fs" "length fs = length (w # vs)" by (cases old) auto
  have "from_chars (to_string v @ 32 # field_text (w # vs) @ rest) = Some (word_of_int v, 32 # field_text (w # vs) @ rest)"
    using 3 by (intro from_chars_to_string) (auto simp: no_digit_sep)
  moreover have "parse_fields (field_text (w # vs) @ rest) fs = (rest = [], map word_of_int (w # vs))"
    using 3 old by (intro 3(1)) auto
  moreover have "fs \<noteq> []" using old(2) by auto
  ultimately show ?case using old(1) by simp
qed simp

text \<open>C15.  The six numbers of a zone header survive the wire: for any six integers of 64 bits, printed in decimal as
  \<open>std::to_string\<close> does and separated by single spaces, the server's parser sets its six fields to exactly these values,
  whatever they held before, and it accepts the text if nothing comes after the sixth number and rejects it otherwise.\<close>

theorem zpb_fields_roundtrip:
  assumes "length vs = 6" and "\<forall>v \<in> set vs. - (2 ^ 63) \<le> v \<and> v < 2 ^ 63" and "length old = 6"
    and "rest = [] \<or> \<not> is_digit (hd rest)"
  shows "parseZpbFields (field_text vs @ rest) old = (rest = [], map word_of_int vs)"
  unfolding parseZpbFields_def using assms by (intro parse_field_text) (auto simp: no_digit_def)

lemma zpb_fields_roundtrip_witness:
  "parseZpbFields (field_text [- (2 ^ 63), 2 ^ 63 - 1, 0, 7, -1, 10] @ [32]) (replicate 6 0) =
     (False, map word_of_int [- (2 ^ 63), 2 ^ 63 - 1, 0, 7, -1, 10])"
  using zpb_fields_roundtrip [of "[- (2 ^ 63), 2 ^ 63 - 1, 0, 7, -1, 10]" "replicate 6 0" "[32]"] by (simp add: is_digit_def)

subsection \<open>The server receives what the player sent\<close>

text \<open>What one tick does to the server: the stream becomes the player's delivery stream, its entity moves, and the payload goes
  to the zone.\<close>

definition serve_tick :: "('z, 'k) cores \<Rightarrow> conn \<Rightarrow> stream_id \<Rightarrow> int \<Rightarrow> int \<Rightarrow> ('z, 'k) bridge \<Rightarrow> ('z, 'k) bridge" where
  "serve_tick K cnx sid pid tick s =
     handleZonePub K cnx (map word_of_int [pid, tick, 0, 0, 0, 0]) (makePayload pid tick) (handleZoneSub cnx sid s)"

lemma length_makePayload [simp]: "length (makePayload pid tick) = kEntityPacketSize"
  by (simp add: makePayload_def Let_def)

lemma zpbHeader_text: "zpbHeader pid tick = (verb_ZPB @ 32 # field_text [pid, tick, 0, 0, 0, 0]) @ [10]"
proof -
  have "to_string 0 = [48]" by (simp add: to_string_def digits.simps)
  then show ?thesis by (simp add: zpbHeader_def)
qed

lemma to_string_newline: "10 \<notin> set (to_string v)"
  using digits_are_digits [of 10] by (auto simp: to_string_def is_digit_def)

lemma pump_tick:
  assumes "\<not> headerParsed st" "\<not> isPub st" "\<not> isSketch st" "length (position st) = 6"
    and "buf st = zpbHeader pid tick @ makePayload pid tick @ rest"
    and "- (2 ^ 63) \<le> pid \<and> pid < 2 ^ 63" "- (2 ^ 63) \<le> tick \<and> tick < 2 ^ 63"
  shows "\<exists>st'. pumpStream K cnx sid st s = pumpStream K cnx sid st' (serve_tick K cnx sid pid tick s) \<and> buf st' = rest
    \<and> \<not> headerParsed st' \<and> \<not> isPub st' \<and> \<not> isSketch st' \<and> length (position st') = 6"
proof -
  let ?t = "field_text [pid, tick, 0, 0, 0, 0]" and ?xs = "map word_of_int [pid, tick, 0, 0, 0, 0] :: u64 list"
  let ?st0 = "st\<lparr>buf := makePayload pid tick @ rest\<rparr>"
  let ?st1 = "?st0\<lparr>topic := ?t, headerParsed := True, position := ?xs, isZonePub := True\<rparr>"
  have "parseZpbFields ?t (position ?st0) = (True, ?xs)"
    using parse_field_text [of "[pid, tick, 0, 0, 0, 0]" "position st" "[]"] assms
    by (simp add: parseZpbFields_def no_digit_sep del: field_text.simps)
  note line = header_ZPB [OF this, of K cnx sid s]
  have "pumpStream K cnx sid st s = pumpStream K cnx sid ?st1 (handleZoneSub cnx sid s)"
    by (rule pump_header [OF _ _ _ line]) (use assms to_string_newline in \<open>auto simp: zpbHeader_text verbs\<close>)
  also have "\<dots> = pumpStream K cnx sid (?st1\<lparr>buf := rest, headerParsed := False\<rparr>) (serve_tick K cnx sid pid tick s)"
    using assms by (subst pumpStream.simps) (simp add: pump_step_def serve_tick_def)
  finally show ?thesis using assms by (intro exI [of _ "?st1\<lparr>buf := rest, headerParsed := False\<rparr>"]) simp
qed

lemma pump_ticks:
  "\<not> headerParsed st \<Longrightarrow> \<not> isPub st \<Longrightarrow> \<not> isSketch st \<Longrightarrow> length (position st) = 6 \<Longrightarrow>
     buf st = concat (concat (map (\<lambda>t. [zpbHeader pid t, makePayload pid t]) ts)) \<Longrightarrow>
     \<forall>t \<in> set (pid # ts). - (2 ^ 63) \<le> t \<and> t < 2 ^ 63 \<Longrightarrow>
     \<exists>st'. pumpStream K cnx sid st s = (Return, st', fold (serve_tick K cnx sid pid) ts s)"
proof (induction ts arbitrary: st s)
  case Nil
  then show ?case by (simp add: pump_empty)
next
  case (Cons t ts)
  obtain st' where "pumpStream K cnx sid st s = pumpStream K cnx sid st' (serve_tick K cnx sid pid t s)"
      "buf st' = concat (concat (map (\<lambda>t. [zpbHeader pid t, makePayload pid t]) ts))"
      "\<not> headerParsed st'" "\<not> isPub st'" "\<not> isSketch st'" "length (position st') = 6"
    using pump_tick [OF Cons(2-5), of pid t "concat (concat (map (\<lambda>t. [zpbHeader pid t, makePayload pid t]) ts))" K cnx sid s]
      Cons(6,7) by auto
  then show ?case using Cons.IH [of st' "serve_tick K cnx sid pid t s"] Cons(7) by simp
qed

text \<open>C12.  Client and server agree: when the server receives on a new stream the bytes that a player with \<open>n\<close> ticks writes
  once it is ready, cut into callbacks in any way, it ends up in the state in which each tick, from \<open>n\<close> down to 1, has moved
  the player's entity to \<open>(playerId, tick, 0)\<close> and sent the tick's payload to the zone, and nothing else has happened.  The
  round trip time of the connection is taken to stay the same over these callbacks.\<close>

theorem load_client_served:
  assumes "loadClientStreamCallback Ready (player_new pid n) = (ws, q)" and "concat ds @ e = concat ws"
    and "- (2 ^ 31) \<le> pid" "pid < 2 ^ 31" "n < 2 ^ 31" and "stream_at cnx sid s = None"
  shows "\<exists>st. fold (fanoutStreamCallback K) (map (Stream_data cnx sid) (ds @ [e])) s =
    set_stream cnx sid (Some st) (fold (serve_tick K cnx sid pid) (rev [1..n]) s)"
proof -
  have ws: "ws = tick_writes pid n" using assms(1)
    by (simp add: loadClientStreamCallback_def sendAllTicks_def send_ticks_eq player_new_def)
  obtain st where pump: "pumpStream K cnx sid (StreamState_new\<lparr>buf := concat ws\<rparr>) s = (Return, st, fold (serve_tick K cnx sid pid) (rev [1..n]) s)"
    using pump_ticks [of "StreamState_new\<lparr>buf := concat ws\<rparr>" pid "rev [1..n]" K cnx sid s] assms(3-5)
    by (auto simp: ws tick_writes_def StreamState_new_def)
  then have "receive K cnx sid (concat ds @ e) s = (Return, st, set_stream cnx sid (Some st) (fold (serve_tick K cnx sid pid) (rev [1..n]) s))"
    using assms(2,6) by (simp add: receive_new)
  with receive_pieces [of K cnx sid ds e s] show ?thesis by (intro exI [of _ st]) (simp add: fold_map comp_def)
qed

lemma load_client_served_witness:
  "\<exists>st. fold (fanoutStreamCallback one_zone)
      (map (Stream_data 6 0) ([zpbHeader 3 2, makePayload 3 2, zpbHeader 3 1] @ [makePayload 3 1])) at_start =
    set_stream 6 0 (Some st) (fold (serve_tick one_zone 6 0 3) [2, 1] at_start)"
proof -
  have up: "[1..2] = [1, 2 :: int]" by (simp add: upto_rec1)
  have "stream_at 6 0 at_start = None" by (simp add: at_start_def BridgeState_new_def stream_at_def)
  moreover have "loadClientStreamCallback Ready (player_new 3 2) = (tick_writes 3 2, \<lparr>playerId = 3, ticksRemaining = 0, pstate = Done, streamId = 0\<rparr>)"
    by (simp add: loadClientStreamCallback_def sendAllTicks_def send_ticks_eq player_new_def)
  moreover have "concat [zpbHeader 3 2, makePayload 3 2, zpbHeader 3 1] @ makePayload 3 1 = concat (tick_writes 3 2)"
    by (simp add: tick_writes_def up)
  ultimately show ?thesis using load_client_served [of 3 2 "tick_writes 3 2" _ "[zpbHeader 3 2, makePayload 3 2, zpbHeader 3 1]" "makePayload 3 1" 6 0 at_start one_zone]
    by (simp add: up)
qed

end
