(* ===== verification/Fanout_Findings.thy ===== *)
theory Fanout_Findings
  imports LoadClient
begin

text \<open>
  Where the fanout server departs from what its comments say, on concrete streams, and how far its buffers grow.
\<close>

definition payload :: bytes where "payload = replicate 100 7"

definition zone_text :: bytes where "zone_text = field_text [1, 2, 3, 0, 0, 0]"

definition zone_line :: bytes where "zone_line = verb_ZPB @ [32] @ zone_text @ [10]"

text \<open>The mark of a PUB stays on the stream: a ZPB header that follows is parsed, but its payload is published to a topic
  whose name is the text of the numbers, and the entity does not move.\<close>

lemma zone_publish_after_publish:
  "let s = fanoutStreamCallback one_zone (Stream_data 6 0 (pub_line [97] @ payload @ zone_line @ payload)) at_start in
   zones s = [] \<and> topicToRoom s zone_text \<noteq> None"
  by code_simp

text \<open>The same payload on a stream of its own moves the entity.\<close>

lemma zone_publish_alone:
  "let s = fanoutStreamCallback one_zone (Stream_data 6 0 (zone_line @ payload)) at_start in
   zones s = [6] \<and> topicToRoom s zone_text = None"
  by code_simp

text \<open>A malformed line does not stop the stream: the bytes behind it wait for the next callback, which parses them.\<close>

lemma malformed_line_goes_on:
  "let s = fanoutStreamCallback one_zone (Stream_data 5 0 ([120, 10] @ sub_line [97])) at_start in
   subscribers_of s [97] = [] \<and> subscribers_of (fanoutStreamCallback one_zone (Stream_data 5 0 []) s) [97] = [5]"
  by code_simp

text \<open>The end of a stream whose verb is unknown takes the connection's subscription away, although another stream made
  it.\<close>

lemma unknown_verb_unsubscribes:
  "let s = fanoutStreamCallback one_zone (Stream_data 5 4 [88, 32, 97, 10]) one_subscriber in
   subscribers_of s [97] = [5] \<and> subscribers_of (fanoutStreamCallback one_zone (Stream_reset 5 4) s) [97] = []"
  by code_simp

text \<open>A subscription made on a stream that has carried a ZPB outlives the connection.\<close>

lemma subscription_outlives_connection:
  "let s = fanoutStreamCallback one_zone (Stream_data 6 0 (zone_line @ payload @ sub_line [97])) at_start;
       s = fanoutStreamCallback one_zone (Close 6 [0]) s
   in subscribers_of s [97] = [6] \<and> streams s 6 = None"
  by code_simp

text \<open>There is one delivery stream for each connection, and every \<open>SUB\<close>, \<open>SKB\<close> and \<open>ZPB\<close> moves it: after a \<open>SUB\<close> to another topic on
  a second stream the publications of the first topic arrive there, and when that stream ends they arrive nowhere, although
  the first stream is open and the connection is still a subscriber.\<close>

definition pub_a :: event where "pub_a = Stream_data 6 0 (pub_line [97] @ payload)"

lemma second_subscription_moves_delivery:
  "let s = fanoutStreamCallback one_zone (Stream_data 5 4 (sub_line [98])) one_subscriber;
       s' = fanoutStreamCallback one_zone (Stream_reset 5 4) s
   in sent (fanoutStreamCallback one_zone pub_a s) = [(5, 4, payload)] \<and>
      subscribers_of s' [97] = [5] \<and> stream_at 5 0 s' \<noteq> None \<and> sent (fanoutStreamCallback one_zone pub_a s') = []"
  by code_simp

lemma zone_publish_moves_delivery:
  "let s = fanoutStreamCallback one_zone (Stream_data 5 4 (zone_line @ payload)) one_subscriber;
       s' = fanoutStreamCallback one_zone (Stream_fin 5 4 []) s
   in sent (fanoutStreamCallback one_zone pub_a s) = [(5, 4, payload)] \<and>
      subscribers_of s' [97] = [5] \<and> stream_at 5 0 s' \<noteq> None \<and> sent (fanoutStreamCallback one_zone pub_a s') = []"
  by code_simp

text \<open>A header with the three numbers that two of the comments name is refused; six are needed, as the load client sends.\<close>

lemma three_fields_refused:
  "fst (parseZpbFields (take 5 zone_text) (replicate 6 0)) = False \<and> take 5 zone_text = [49, 32, 50, 32, 51] \<and>
   fst (parseZpbFields zone_text (replicate 6 0)) = True"
  by code_simp

text \<open>The least 64-bit integer is accepted from the wire; its magnitude is the negation that overflows.\<close>

lemma magnitude_of_least: "from_chars (to_string (- (2 ^ 63))) = Some (2 ^ 63, []) \<and> absMagnitude (2 ^ 63) = 2 ^ 63"
proof -
  have "word_of_int (- (2 ^ 63)) = (2 ^ 63 :: u64)" "absMagnitude (2 ^ 63) = 2 ^ 63" by code_simp+
  then show ?thesis using from_chars_to_string [of "- (2 ^ 63)" "[]"] by (simp add: no_digit_def)
qed

text \<open>The slot that a new room takes is the one freed last, not the lowest free one.\<close>

lemma alloc_takes_last_freed:
  "let m = SlotMap_free (SlotMap_free \<lparr>slots = [(1, Some a), (1, Some b)], freeList = []\<rparr> \<lparr>slot_index = 0, slot_generation = 1\<rparr>)
       \<lparr>slot_index = 1, slot_generation = 1\<rparr>
   in freeList m = [0, 1] \<and> map_option snd (SlotMap_alloc m c) = Some \<lparr>slot_index = 1, slot_generation = 2\<rparr>"
  by (simp add: SlotMap_free_def SlotMap_alloc_def)

text \<open>After a sketch length above the limit the stream takes no frame any more, and keeps every byte it receives.\<close>

lemma corrupt_length_keeps_bytes:
  assumes "stream_at cnx sid s = Some st" "headerParsed st" "isSketch st" "4 \<le> length (buf st)"
    and "unat (frame_length (buf st)) > kMaxSketchFrame"
  shows "fanoutStreamCallback K (Stream_data cnx sid d) s = set_stream cnx sid (Some (st\<lparr>buf := buf st @ d\<rparr>)) s"
proof -
  have "pump_step K cnx sid (st\<lparr>buf := buf st @ d\<rparr>) s = (Return, st\<lparr>buf := buf st @ d\<rparr>, s)"
    using assms by (simp add: pump_step_def sketch_step_def frame_length_append Let_def)
  then show ?thesis using assms(1) by (simp add: receive_def pumpStream.simps [of K cnx sid "st\<lparr>buf := buf st @ d\<rparr>" s])
qed

end
