(* ===== verification/Qpack.thy ===== *)
theory Qpack
  imports FrameCodec
begin

text \<open>
  The QPACK encoders of \<^verbatim>\<open>picohttp/h3zero.c\<close> that the artifacts client calls: prefixed integers with their decoder, indexed
  fields, literals with a name reference and literals with a name, and the header blocks of a GET and of a POST.

  An encoder takes the room that is left and gives the bytes it writes, or \<open>None\<close> where the code returns \<open>NULL\<close>.
\<close>

subsection \<open>Prefixed integers\<close>

text \<open>The bytes after the first one; the loop stops when the room is used up.\<close>

fun int_continuation :: "nat \<Rightarrow> u64 \<Rightarrow> bytes option" where
  "int_continuation 0 val = None"
| "int_continuation (Suc room) val =
     (if val \<ge> 0x80 then map_option (Cons (0x80 OR ucast (val AND 0x7F))) (int_continuation room (drop_bit 7 val))
      else Some [ucast val])"

text \<open>\<open>first\<close> is the byte that is already there.\<close>

definition h3zero_qpack_int_encode :: "nat \<Rightarrow> u8 \<Rightarrow> u8 \<Rightarrow> u64 \<Rightarrow> bytes option" where
  "h3zero_qpack_int_encode room first msk val =
     (if room = 0 then None
      else if val < ucast msk then Some [first OR ucast val]
      else map_option (Cons (first OR msk)) (int_continuation (room - 1) (val - ucast msk)))"

fun int_decode_loop :: "nat \<Rightarrow> u64 \<Rightarrow> bytes \<Rightarrow> (bytes \<times> u64) option" where
  "int_decode_loop shift v [] = None"
| "int_decode_loop shift v (b # bs) =
     (if shift < 62 then
        (let v = v OR push_bit shift (ucast b AND 0x7F) in
         if b AND 0x80 = 0 then Some (bs, v) else int_decode_loop (shift + 7) v bs)
      else None)"

definition h3zero_qpack_int_decode :: "u8 \<Rightarrow> bytes \<Rightarrow> (bytes \<times> u64) option" where
  "h3zero_qpack_int_decode msk bs =
     (case bs of
        [] \<Rightarrow> None
      | b # bs \<Rightarrow>
          if b AND msk = msk then map_option (\<lambda>(bs, v). (bs, v + ucast msk)) (int_decode_loop 0 0 bs)
          else Some (bs, ucast (b AND msk)))"

subsection \<open>Fields\<close>

text \<open>What follows is written behind what is there, if that has not failed.\<close>

definition then_write :: "nat \<Rightarrow> bytes option \<Rightarrow> (nat \<Rightarrow> bytes option) \<Rightarrow> bytes option" where
  "then_write room acc enc =
     (case acc of None \<Rightarrow> None | Some bs \<Rightarrow> (case enc (room - length bs) of None \<Rightarrow> None | Some cs \<Rightarrow> Some (bs @ cs)))"

definition copy_string :: "bytes \<Rightarrow> nat \<Rightarrow> bytes option" where
  "copy_string val room = (if length val > room then None else Some val)"

definition h3zero_qpack_code_encode :: "u8 \<Rightarrow> u8 \<Rightarrow> u64 \<Rightarrow> nat \<Rightarrow> bytes option" where
  "h3zero_qpack_code_encode prefix msk code room = (if 1 > room then None else h3zero_qpack_int_encode room prefix msk code)"

definition h3zero_qpack_literal_plus_ref_encode :: "u64 \<Rightarrow> bytes \<Rightarrow> nat \<Rightarrow> bytes option" where
  "h3zero_qpack_literal_plus_ref_encode code val room =
     (let acc = h3zero_qpack_code_encode 0x50 0x0F code room;
          acc = then_write room acc (h3zero_qpack_code_encode 0x00 0x7F (of_nat (length val)))
      in then_write room acc (copy_string val))"

definition h3zero_qpack_name_encode :: "u8 \<Rightarrow> u8 \<Rightarrow> bytes \<Rightarrow> nat \<Rightarrow> bytes option" where
  "h3zero_qpack_name_encode prefix msk name room =
     (if 1 > room then None
      else then_write room (h3zero_qpack_int_encode room prefix msk (of_nat (length name))) (copy_string name))"

definition h3zero_qpack_literal_plus_name_encode :: "bytes \<Rightarrow> bytes \<Rightarrow> nat \<Rightarrow> bytes option" where
  "h3zero_qpack_literal_plus_name_encode name val room =
     (let acc = h3zero_qpack_name_encode 0x20 0x07 name room;
          acc = then_write room acc (h3zero_qpack_code_encode 0x00 0x7F (of_nat (length val)))
      in then_write room acc (copy_string val))"

subsection \<open>The static table\<close>

text \<open>Index, header, content and its number.\<close>

definition qpack_static :: "(u64 \<times> string \<times> string option \<times> nat) list" where
  "qpack_static =
    [(0, ''http_pseudo_header_authority'', None, 0),
     (1, ''http_pseudo_header_path'', Some ''/'', 0),
     (2, ''http_header_age'', Some ''0'', 0),
     (3, ''http_header_content_disposition'', None, 0),
     (4, ''http_header_content_length'', Some ''0'', 0),
     (5, ''http_header_cookie'', None, 0),
     (6, ''http_header_date'', None, 0),
     (7, ''http_header_etag'', None, 0),
     (8, ''http_header_if_modified_since'', None, 0),
     (9, ''http_header_if_none_match'', None, 0),
     (10, ''http_header_last_modified'', None, 0),
     (11, ''http_header_link'', None, 0),
     (12, ''http_header_location'', None, 0),
     (13, ''http_header_referer'', None, 0),
     (14, ''http_header_set_cookie'', None, 0),
     (15, ''http_pseudo_header_method'', Some ''CONNECT'', 2),
     (16, ''http_pseudo_header_method'', Some ''DELETE'', 3),
     (17, ''http_pseudo_header_method'', Some ''GET'', 4),
     (18, ''http_pseudo_header_method'', Some ''HEAD'', 5),
     (19, ''http_pseudo_header_method'', Some ''OPTIONS'', 6),
     (20, ''http_pseudo_header_method'', Some ''POST'', 7),
     (21, ''http_pseudo_header_method'', Some ''PUT'', 8),
     (22, ''http_pseudo_header_scheme'', Some ''http'', 0),
     (23, ''http_pseudo_header_scheme'', Some ''https'', 0),
     (24, ''http_pseudo_header_status'', Some ''103'', 103),
     (25, ''http_pseudo_header_status'', Some ''200'', 200),
     (26, ''http_pseudo_header_status'', Some ''304'', 304),
     (27, ''http_pseudo_header_status'', Some ''404'', 404),
     (28, ''http_pseudo_header_status'', Some ''503'', 503),
     (29, ''http_header_accept'', Some ''*/*'', 0),
     (30, ''http_header_accept'', Some ''application/dns-message'', 0),
     (31, ''http_header_accept_encoding'', Some ''gzip, deflate, br'', 0),
     (32, ''http_header_accept_ranges'', Some ''bytes'', 0),
     (33, ''http_header_access_control_allow_headers'', Some ''cache-control'', 0),
     (34, ''http_header_access_control_allow_headers'', Some ''content-type'', 0),
     (35, ''http_header_access_control_allow_origin'', Some ''*'', 0),
     (36, ''http_header_cache_control'', Some ''max-age=0'', 0),
     (37, ''http_header_cache_control'', Some ''max-age=2592000'', 0),
     (38, ''http_header_cache_control'', Some ''max-age=604800'', 0),
     (39, ''http_header_cache_control'', Some ''no-cache'', 0),
     (40, ''http_header_cache_control'', Some ''no-store'', 0),
     (41, ''http_header_cache_control'', Some ''public, max-age=31536000'', 0),
     (42, ''http_header_content_encoding'', Some ''br'', 0),
     (43, ''http_header_content_encoding'', Some ''gzip'', 0),
     (44, ''http_header_content_type'', Some ''application/dns-message'', 7),
     (45, ''http_header_content_type'', Some ''application/javascript'', 8),
     (46, ''http_header_content_type'', Some ''application/json'', 9),
     (47, ''http_header_content_type'', Some ''application/x-www-form-urlencoded'', 10),
     (48, ''http_header_content_type'', Some ''image/gif'', 4),
     (49, ''http_header_content_type'', Some ''image/jpeg'', 5),
     (50, ''http_header_content_type'', Some ''image/png'', 6),
     (51, ''http_header_content_type'', Some ''text/css'', 11),
     (52, ''http_header_content_type'', Some ''text/html; charset=utf-8'', 2),
     (53, ''http_header_content_type'', Some ''text/plain'', 3),
     (54, ''http_header_content_type'', Some ''text/plain;charset=utf-8'', 3),
     (55, ''http_header_range'', Some ''bytes=0-'', 0),
     (56, ''http_header_strict_transport_security'', Some ''max-age=31536000'', 0),
     (57, ''http_header_strict_transport_security'', Some ''max-age=31536000; includesubdomains'', 0),
     (58, ''http_header_strict_transport_security'', Some ''max-age=31536000; includesubdomains; preload'', 0),
     (59, ''http_header_vary'', Some ''accept-encoding'', 0),
     (60, ''http_header_vary'', Some ''origin'', 0),
     (61, ''http_header_x_content_type_options'', Some ''nosniff'', 0),
     (62, ''http_header_x_xss_protection'', Some ''1; mode=block'', 0),
     (63, ''http_pseudo_header_status'', Some ''100'', 100),
     (64, ''http_pseudo_header_status'', Some ''204'', 204),
     (65, ''http_pseudo_header_status'', Some ''206'', 206),
     (66, ''http_pseudo_header_status'', Some ''302'', 302),
     (67, ''http_pseudo_header_status'', Some ''400'', 400),
     (68, ''http_pseudo_header_status'', Some ''403'', 403),
     (69, ''http_pseudo_header_status'', Some ''421'', 421),
     (70, ''http_pseudo_header_status'', Some ''425'', 425),
     (71, ''http_pseudo_header_status'', Some ''500'', 500),
     (72, ''http_header_accept_language'', None, 0),
     (73, ''http_header_access_control_allow_credentials'', Some ''FALSE'', 0),
     (74, ''http_header_access_control_allow_credentials'', Some ''TRUE'', 0),
     (75, ''http_header_access_control_allow_headers'', Some ''*'', 0),
     (76, ''http_header_access_control_allow_methods'', Some ''get'', 0),
     (77, ''http_header_access_control_allow_methods'', Some ''get, post, options'', 0),
     (78, ''http_header_access_control_allow_methods'', Some ''options'', 0),
     (79, ''http_header_access_control_expose_headers'', Some ''content-length'', 0),
     (80, ''http_header_access_control_request_headers'', Some ''content-type'', 0),
     (81, ''http_header_access_control_request_method'', Some ''get'', 0),
     (82, ''http_header_access_control_request_method'', Some ''post'', 0),
     (83, ''http_header_alt_svc'', Some ''clear'', 0),
     (84, ''http_header_authorization'', None, 0),
     (85, ''http_header_content_security_policy'', Some (''script-src '' @ [CHR 0x27] @ ''none'' @ [CHR 0x27] @ ''; object-src '' @ [CHR 0x27] @ ''none'' @ [CHR 0x27] @ ''; base-uri '' @ [CHR 0x27] @ ''none'' @ [CHR 0x27] @ ''''), 0),
     (86, ''http_header_early_data'', Some ''1'', 0),
     (87, ''http_header_expect_ct'', None, 0),
     (88, ''http_header_forwarded'', None, 0),
     (89, ''http_header_if_range'', None, 0),
     (90, ''http_header_origin'', None, 0),
     (91, ''http_header_purpose'', Some ''prefetch'', 0),
     (92, ''http_header_server'', None, 0),
     (93, ''http_header_timing_allow_origin'', Some ''*'', 0),
     (94, ''http_header_upgrade_insecure_requests'', Some ''1'', 0),
     (95, ''http_header_user_agent'', None, 0),
     (96, ''http_header_x_forwarded_for'', None, 0),
     (97, ''http_header_x_frame_options'', Some ''deny'', 0),
     (98, ''http_header_x_frame_options'', Some ''sameorigin'', 0)]"

definition h3zero_encode_content_type :: "nat \<Rightarrow> nat \<Rightarrow> bytes option" where
  "h3zero_encode_content_type content_type room =
     (case find (\<lambda>(i, header, _, n). header = ''http_header_content_type'' \<and> n = content_type) qpack_static of
        None \<Rightarrow> None
      | Some (i, _) \<Rightarrow> h3zero_qpack_code_encode 0xC0 0x3F i room)"

definition h3zero_content_type_json :: nat where "h3zero_content_type_json = 9"

text \<open>"H3Zero/1.0".\<close>

definition H3ZERO_USER_AGENT_STRING :: bytes where
  "H3ZERO_USER_AGENT_STRING = [72, 51, 90, 101, 114, 111, 47, 49, 46, 48]"

definition h3zero_create_request_header_frame_ex ::
  "bytes \<Rightarrow> bytes option \<Rightarrow> bytes option \<Rightarrow> bytes option \<Rightarrow> nat \<Rightarrow> bytes option" where
  "h3zero_create_request_header_frame_ex path rng host ua_string room =
     (if 2 > room then None
      else
        (let acc = Some [0, 0];
             acc = then_write room acc (h3zero_qpack_code_encode 0xC0 0x3F 17);
             acc = then_write room acc (h3zero_qpack_code_encode 0xC0 0x3F 23);
             acc = then_write room acc (h3zero_qpack_literal_plus_ref_encode 1 path);
             acc = (case host of None \<Rightarrow> acc | Some h \<Rightarrow> then_write room acc (h3zero_qpack_literal_plus_ref_encode 0 h));
             acc = (case rng of None \<Rightarrow> acc | Some r \<Rightarrow>
                      if r = [] then acc else then_write room acc (h3zero_qpack_literal_plus_ref_encode 55 r))
         in case ua_string of None \<Rightarrow> acc | Some u \<Rightarrow> then_write room acc (h3zero_qpack_literal_plus_ref_encode 95 u)))"

definition h3zero_create_post_header_frame_ex ::
  "bytes \<Rightarrow> bytes option \<Rightarrow> bytes option \<Rightarrow> nat \<Rightarrow> bytes option \<Rightarrow> nat \<Rightarrow> bytes option" where
  "h3zero_create_post_header_frame_ex path rng host content_type ua_string room =
     (if 2 > room then None
      else
        (let acc = Some [0, 0];
             acc = then_write room acc (h3zero_qpack_code_encode 0xC0 0x3F 20);
             acc = then_write room acc (h3zero_qpack_code_encode 0xC0 0x3F 23);
             acc = then_write room acc (h3zero_qpack_literal_plus_ref_encode 1 path);
             acc = (case host of None \<Rightarrow> acc | Some h \<Rightarrow> then_write room acc (h3zero_qpack_literal_plus_ref_encode 0 h));
             acc = (case rng of None \<Rightarrow> acc | Some r \<Rightarrow>
                      if r = [] then acc else then_write room acc (h3zero_qpack_literal_plus_ref_encode 55 r));
             acc = (case ua_string of None \<Rightarrow> acc | Some u \<Rightarrow> then_write room acc (h3zero_qpack_literal_plus_ref_encode 95 u))
         in then_write room acc (h3zero_encode_content_type content_type)))"

definition h3zero_create_post_header_frame :: "bytes \<Rightarrow> bytes option \<Rightarrow> nat \<Rightarrow> nat \<Rightarrow> bytes option" where
  "h3zero_create_post_header_frame path host content_type room =
     h3zero_create_post_header_frame_ex path None host content_type (Some H3ZERO_USER_AGENT_STRING) room"

subsection \<open>Integers are read back\<close>

fun cont_width :: "nat \<Rightarrow> u64 \<Rightarrow> nat" where
  "cont_width 0 v = 1"
| "cont_width (Suc n) v = (if v \<ge> 0x80 then Suc (cont_width n (drop_bit 7 v)) else 1)"

lemma unat_drop_7: "unat v < 2 ^ (7 + m) \<Longrightarrow> unat (drop_bit 7 v :: u64) < 2 ^ m"
  unfolding unat_drop_bit_eq drop_bit_eq_div [where 'a = nat] power_add by (rule less_mult_imp_div_less) (simp add: mult.commute)

lemma less_0x80: "\<not> v \<ge> 0x80 \<longleftrightarrow> unat v < 2 ^ 7" for v :: u64
  by (simp add: word_le_nat_alt not_le)

lemma bit_0x80: "bit (0x80 :: 'a::len word) n \<longleftrightarrow> n = 7 \<and> 7 < LENGTH('a)" "bit (0x80 :: int) n \<longleftrightarrow> n = 7" "bit (0x80 :: nat) n \<longleftrightarrow> n = 7"
proof -
  have "(0x80 :: 'a word) = push_bit 7 1" "(0x80 :: int) = push_bit 7 1" "(0x80 :: nat) = push_bit 7 1" by simp_all
  then show "bit (0x80 :: 'a word) n \<longleftrightarrow> n = 7 \<and> 7 < LENGTH('a)" "bit (0x80 :: int) n \<longleftrightarrow> n = 7" "bit (0x80 :: nat) n \<longleftrightarrow> n = 7"
    by (simp_all only: bit_push_bit_iff bit_1_iff) auto
qed

lemma bit_0x7F: "bit (0x7F :: 'a::len word) n \<longleftrightarrow> n < 7 \<and> n < LENGTH('a)" "bit (0x7F :: int) n \<longleftrightarrow> n < 7" "bit (0x7F :: nat) n \<longleftrightarrow> n < 7"
proof -
  have "(0x7F :: 'a word) = mask 7" "(0x7F :: int) = mask 7" "(0x7F :: nat) = mask 7" by (simp_all add: mask_eq_exp_minus_1)
  then show "bit (0x7F :: 'a word) n \<longleftrightarrow> n < 7 \<and> n < LENGTH('a)" "bit (0x7F :: int) n \<longleftrightarrow> n < 7" "bit (0x7F :: nat) n \<longleftrightarrow> n < 7"
    by (simp_all only: bit_mask_iff) auto
qed

lemma high_bit: "(0x80 OR w) AND 0x80 \<noteq> (0 :: u8)"
proof -
  have "bit ((0x80 OR w) AND 0x80 :: u8) 7" by (simp add: bit_simps bit_0x80)
  then show ?thesis by auto
qed

lemma continuation_fits:
  "unat v < 2 ^ (7 * Suc n) \<Longrightarrow> cont_width n v \<le> room \<Longrightarrow>
     \<exists>bs. int_continuation room v = Some bs \<and> length bs = cont_width n v"
proof (induction n arbitrary: v room)
  case 0
  then show ?case using less_0x80 [of v] by (cases room) auto
next
  case (Suc n)
  then have "unat (drop_bit 7 v) < 2 ^ (7 * Suc n)" by (intro unat_drop_7) simp
  then show ?case using Suc by (cases room) (fastforce split: if_splits)+
qed

lemma continuation_full:
  "unat v < 2 ^ (7 * Suc n) \<Longrightarrow> room < cont_width n v \<Longrightarrow> int_continuation room v = None"
proof (induction n arbitrary: v room)
  case (Suc n)
  then show ?case using Suc.IH [of "drop_bit 7 v"] unat_drop_7 [of v "7 * Suc n"]
    by (cases room) (auto simp: add.commute split: if_splits)
qed simp

lemma continuation_short: "int_continuation room v = Some bs \<Longrightarrow> k < length bs \<Longrightarrow> int_decode_loop s a (take k bs) = None"
proof (induction room v arbitrary: bs k s a rule: int_continuation.induct)
  case (2 room val)
  show ?case
  proof (cases "val \<ge> 0x80")
    case True
    then obtain cs where cs: "int_continuation room (drop_bit 7 val) = Some cs" "bs = (0x80 OR ucast (val AND 0x7F)) # cs"
      using 2(2) by auto
    then show ?thesis using 2(1) [OF True cs(1)] 2(3) high_bit by (cases k) (auto simp: Let_def)
  next
    case False
    then show ?thesis using 2 by auto
  qed
qed simp

text \<open>Seven bits at a time, from the position \<open>s\<close> up.\<close>

lemma seven_bits: "(a OR push_bit s (val AND 0x7F)) OR push_bit (s + 7) (drop_bit 7 val) = a OR push_bit s (val :: u64)"
proof (rule bit_word_eqI)
  fix n
  show "bit ((a OR push_bit s (val AND 0x7F)) OR push_bit (s + 7) (drop_bit 7 val)) n = bit (a OR push_bit s val) n"
  proof (cases "s + 7 \<le> n")
    case True
    then have "7 + (n - (s + 7)) = n - s" by simp
    then show ?thesis using True by (auto simp: bit_simps bit_0x7F)
  next
    case False
    then show ?thesis by (auto simp: bit_simps bit_0x7F)
  qed
qed

lemma continuation_byte: "(ucast (0x80 OR ucast (val AND 0x7F) :: u8) AND 0x7F) = (val AND 0x7F :: u64)"
  by (rule bit_word_eqI) (auto simp: bit_simps bit_0x7F bit_0x80)

lemma last_byte:
  assumes "\<not> val \<ge> 0x80"
  shows "(ucast (ucast val :: u8) AND 0x7F) = (val :: u64)" and "ucast val AND 0x80 = (0 :: u8)"
proof -
  have nb: "i < 7" if "bit val i" for i using not_bit_if_less [of val 7 i] assms less_0x80 [of val] that by fastforce
  show "(ucast (ucast val :: u8) AND 0x7F) = val"
    by (rule bit_word_eqI) (auto simp: bit_simps bit_0x7F dest: nb)
  show "ucast val AND 0x80 = (0 :: u8)"
    by (rule bit_word_eqI) (auto simp: bit_simps bit_0x80 dest: nb)
qed

lemma continuation_read:
  "int_continuation room val = Some bs \<Longrightarrow> s + 7 * Suc n = 63 \<Longrightarrow> unat val < 2 ^ (7 * Suc n) \<Longrightarrow>
     int_decode_loop s a (bs @ rest) = Some (rest, a OR push_bit s val)"
proof (induction room val arbitrary: bs s a n rule: int_continuation.induct)
  case (2 room val)
  show ?case
  proof (cases "val \<ge> 0x80")
    case True
    then obtain cs where cs: "int_continuation room (drop_bit 7 val) = Some cs" "bs = (0x80 OR ucast (val AND 0x7F)) # cs"
      using 2(2) by auto
    from True 2(4) obtain m where n: "n = Suc m" using less_0x80 [of val] by (cases n) auto
    have "int_decode_loop (s + 7) (a OR push_bit s (val AND 0x7F)) (cs @ rest) =
        Some (rest, (a OR push_bit s (val AND 0x7F)) OR push_bit (s + 7) (drop_bit 7 val))"
      using 2(3,4) unat_drop_7 [of val "7 * Suc m"] n by (intro 2(1) [OF True cs(1), where n = m]) (auto simp: add.commute)
    also have "(a OR push_bit s (val AND 0x7F)) OR push_bit (s + 7) (drop_bit 7 val) = a OR push_bit s val" by (rule seven_bits)
    finally show ?thesis using 2(3) high_bit by (simp add: cs(2) continuation_byte Let_def)
  next
    case False
    then show ?thesis using 2 last_byte [OF False] by (auto simp: Let_def)
  qed
qed simp

definition int_width :: "u8 \<Rightarrow> u64 \<Rightarrow> nat" where
  "int_width msk v = (if v < ucast msk then 1 else Suc (cont_width 9 (v - ucast msk)))"

lemma prefix_byte:
  assumes "take_bit k first = 0" and "msk = mask k" and "k \<le> 8"
  shows "(first OR msk) AND msk = msk" and "v < ucast msk \<Longrightarrow> (first OR ucast v) AND msk = (ucast v :: u8)"
    and "v < ucast msk \<Longrightarrow> (ucast v :: u8) \<noteq> msk" and "v < ucast msk \<Longrightarrow> ucast (ucast v :: u8) = (v :: u64)"
proof -
  show "(first OR msk) AND msk = msk" by (simp add: word_bw_lcs)
  assume less: "v < ucast msk"
  then have u: "unat v < unat msk" by (simp add: word_less_nat_alt)
  then have v8: "unat (ucast v :: u8) = unat v"
    using unat_u8_less [of msk] by (simp add: unsigned_ucast_eq take_bit_nat_eq_self)
  then show "(ucast v :: u8) \<noteq> msk" using u by auto
  show "ucast (ucast v :: u8) = v" by (rule word_unat_eq_iff [THEN iffD2]) (simp add: v8)
  have "take_bit k msk = msk" using assms(2) by simp
  then have "unat msk < 2 ^ k" by (metis unat_take_bit_less)
  then have "unat (take_bit k (ucast v :: u8)) = unat (ucast v :: u8)" using v8 u
    by (simp add: unsigned_take_bit_eq take_bit_nat_eq_self)
  then have "take_bit k (ucast v :: u8) = ucast v" by (rule unsigned_word_eqI)
  then show "(first OR ucast v) AND msk = (ucast v :: u8)" using assms(1,2) by (simp add: take_bit_eq_mask [symmetric])
qed

lemma qpack_int_codec:
  assumes "take_bit k first = 0" and "msk = mask k" and "k \<le> 8"
  shows "wire_codec (\<lambda>room. h3zero_qpack_int_encode room first msk) (h3zero_qpack_int_decode msk) (int_width msk) (\<lambda>v. unat v < 2 ^ 63)"
proof
  note pb = prefix_byte [OF assms]
  fix x :: u64 and room k' bs rest
  have big: "unat (x - ucast msk) < 2 ^ (7 * Suc 9)"
    using unsigned_less [of "x - ucast msk", where 'a = nat] by simp
  show "\<exists>bs. h3zero_qpack_int_encode room first msk x = Some bs \<and> length bs = int_width msk x" if "int_width msk x \<le> room"
    using that continuation_fits [OF big, of "room - 1"] by (fastforce simp: h3zero_qpack_int_encode_def int_width_def split: if_splits)
  show "h3zero_qpack_int_encode room first msk x = None" if "room < int_width msk x"
    using that continuation_full [OF big, of "room - 1"] by (auto simp: h3zero_qpack_int_encode_def int_width_def split: if_splits)
  show "h3zero_qpack_int_decode msk (bs @ rest) = Some (rest, x)"
    if valid: "unat x < 2 ^ 63" and enc: "h3zero_qpack_int_encode room first msk x = Some bs"
  proof (cases "x < ucast msk")
    case True
    then show ?thesis using enc pb(2-4) [OF True] by (auto simp: h3zero_qpack_int_encode_def h3zero_qpack_int_decode_def split: if_splits)
  next
    case False
    then obtain cs where cs: "int_continuation (room - 1) (x - ucast msk) = Some cs" "bs = (first OR msk) # cs"
      using enc by (auto simp: h3zero_qpack_int_encode_def split: if_splits)
    have "unat (x - ucast msk) \<le> unat x" using False by (simp add: unat_sub not_less)
    then have "unat (x - ucast msk) < 2 ^ (7 * Suc 8)" using valid by simp
    then show ?thesis using continuation_read [OF cs(1), of 0 8 0 rest] pb(1) by (simp add: cs(2) h3zero_qpack_int_decode_def)
  qed
  show "h3zero_qpack_int_decode msk (take k' bs) = None"
    if enc: "h3zero_qpack_int_encode room first msk x = Some bs" and k': "k' < length bs"
  proof (cases k')
    case (Suc j)
    then obtain cs where "int_continuation (room - 1) (x - ucast msk) = Some cs" "bs = (first OR msk) # cs"
      using enc k' by (auto simp: h3zero_qpack_int_encode_def split: if_splits)
    then show ?thesis using continuation_short [of "room - 1" "x - ucast msk" cs j 0 0] k' Suc pb(1)
      by (simp add: h3zero_qpack_int_decode_def)
  qed (simp add: h3zero_qpack_int_decode_def)
qed

interpretation index_code: wire_codec "\<lambda>room. h3zero_qpack_int_encode room 0xC0 0x3F" "h3zero_qpack_int_decode 0x3F" "int_width 0x3F" "\<lambda>v. unat v < 2 ^ 63"
  by (rule qpack_int_codec [of 6]) (simp_all add: mask_eq_exp_minus_1 take_bit_eq_mod)

interpretation ref_code: wire_codec "\<lambda>room. h3zero_qpack_int_encode room 0x50 0x0F" "h3zero_qpack_int_decode 0x0F" "int_width 0x0F" "\<lambda>v. unat v < 2 ^ 63"
  by (rule qpack_int_codec [of 4]) (simp_all add: mask_eq_exp_minus_1 take_bit_eq_mod)

interpretation name_code: wire_codec "\<lambda>room. h3zero_qpack_int_encode room 0x20 0x07" "h3zero_qpack_int_decode 0x07" "int_width 0x07" "\<lambda>v. unat v < 2 ^ 63"
  by (rule qpack_int_codec [of 3]) (simp_all add: mask_eq_exp_minus_1 take_bit_eq_mod)

interpretation value_code: wire_codec "\<lambda>room. h3zero_qpack_int_encode room 0x00 0x7F" "h3zero_qpack_int_decode 0x7F" "int_width 0x7F" "\<lambda>v. unat v < 2 ^ 63"
  by (rule qpack_int_codec [of 7]) (simp_all add: mask_eq_exp_minus_1 take_bit_eq_mod)

end
