(* ===== verification/H3Client.thy ===== *)
theory H3Client
  imports Qpack
begin

text \<open>
  The artifacts client, \<^verbatim>\<open>examples/artifacts_mmo_h3_client.c\<close>: the request it builds and the state machine that sends it.
  A C string is the list of its bytes without the final zero.
\<close>

subsection \<open>The request\<close>

definition h3zero_frame_data :: u8 where "h3zero_frame_data = 0"
definition h3zero_frame_header :: u8 where "h3zero_frame_header = 1"

text \<open>"POST", "authorization" and "Bearer ".\<close>

definition POST :: bytes where "POST = [80, 79, 83, 84]"
definition authorization :: bytes where "authorization = [97, 117, 116, 104, 111, 114, 105, 122, 97, 116, 105, 111, 110]"
definition Bearer :: bytes where "Bearer = [66, 101, 97, 114, 101, 114, 32]"

text \<open>The value that \<open>snprintf\<close> gives; it is used only if it fits.\<close>

definition auth_field :: "bytes option \<Rightarrow> nat \<Rightarrow> bytes option \<Rightarrow> bytes option" where
  "auth_field bearer_token room acc =
     (case (acc, bearer_token) of
        (Some _, Some token) \<Rightarrow>
          (let n = length (Bearer @ token) in
           if n > 0 \<and> n < 512 then then_write room acc (h3zero_qpack_literal_plus_name_encode authorization (Bearer @ token))
           else acc)
      | _ \<Rightarrow> acc)"

text \<open>The methods are GET and POST: every verb other than \<open>POST\<close> is encoded as GET.\<close>

definition header_block :: "bytes \<Rightarrow> bytes \<Rightarrow> bytes \<Rightarrow> bytes option \<Rightarrow> nat \<Rightarrow> bytes option" where
  "header_block verb path host bearer_token room =
     auth_field bearer_token room
       (if verb = POST then h3zero_create_post_header_frame path (Some host) h3zero_content_type_json room
        else h3zero_create_request_header_frame_ex path None (Some host) (Some H3ZERO_USER_AGENT_STRING) room)"

definition header_frame :: "bytes \<Rightarrow> bytes" where
  "header_frame block =
     (let header_length = of_nat (length block) :: u64 in
      if header_length < 64 then [h3zero_frame_header, ucast header_length] @ block
      else [h3zero_frame_header, ucast (drop_bit 8 header_length OR 0x40), ucast (header_length AND 0xFF)] @ block)"

definition add_body :: "nat \<Rightarrow> bytes option \<Rightarrow> bytes \<Rightarrow> bytes option" where
  "add_body max_bytes body out =
     (case body of
        None \<Rightarrow> Some out
      | Some b \<Rightarrow>
          if length b = 0 then Some out
          else if length out + 1 + 8 > max_bytes then None
          else
            (let out = out @ [h3zero_frame_data];
                 ll = picoquic_varint_encode (max_bytes - length out) (of_nat (length b))
             in if length ll = 0 then None
                else let out = out @ ll in
                     if length out + length b > max_bytes then None else Some (out @ b)))"

definition build_authenticated_request ::
  "nat \<Rightarrow> bytes \<Rightarrow> bytes \<Rightarrow> bytes option \<Rightarrow> bytes option \<Rightarrow> bytes option \<Rightarrow> bytes option" where
  "build_authenticated_request max_bytes verb path host bearer_token body =
     (if max_bytes < 3 then None
      else case host of
        None \<Rightarrow> None
      | Some h \<Rightarrow>
          (case header_block verb path h bearer_token (max_bytes - 3) of
             None \<Rightarrow> None
           | Some block \<Rightarrow> add_body max_bytes body (header_frame block)))"

subsection \<open>The state machine\<close>

datatype cnx_state = Almost_ready_state | Ready_state | Ready_start_state | Disconnected_state | Other_state

text \<open>\<open>stream_open\<close> is \<open>my_stream->is_open\<close>; it is \<open>None\<close> while there is no stream.  \<open>wire\<close> and \<open>closes\<close> record what has been sent and
  how often the connection was closed.\<close>

record client_loop =
  notified_ready :: bool
  request_sent :: bool
  close_requested :: bool
  stream_open :: "bool option"
  loop_method :: bytes
  loop_path :: bytes
  loop_sni :: "bytes option"
  loop_token :: "bytes option"
  loop_body :: "bytes option"
  wire :: "bytes list"
  closes :: nat

text \<open>The results of the calls of the library are arguments: whether the data could be added to the stream.\<close>

definition send_authenticated_request :: "bool \<Rightarrow> client_loop \<Rightarrow> bool \<times> client_loop" where
  "send_authenticated_request added lc =
     (case build_authenticated_request 4096 (loop_method lc) (loop_path lc) (loop_sni lc) (loop_token lc) (loop_body lc) of
        None \<Rightarrow> (False, lc)
      | Some bs \<Rightarrow>
          (let lc = lc\<lparr>stream_open := Some True\<rparr> in if added then (True, lc\<lparr>wire := wire lc @ [bs]\<rparr>) else (False, lc)))"

datatype loop_result = Go_on | Terminate

definition advance_state_machine :: "bool \<Rightarrow> cnx_state \<Rightarrow> bool \<Rightarrow> client_loop \<Rightarrow> loop_result \<times> client_loop" where
  "advance_state_machine connection_closed state added lc =
     (if connection_closed \<or> state = Disconnected_state then (Terminate, lc)
      else if \<not> notified_ready lc \<and> state = Almost_ready_state then (Go_on, lc\<lparr>notified_ready := True\<rparr>)
      else if \<not> request_sent lc \<and> (state = Ready_state \<or> state = Ready_start_state) then
        (let (ok, lc) = send_authenticated_request added (lc\<lparr>request_sent := True\<rparr>) in (if ok then Go_on else Terminate, lc))
      else if request_sent lc \<and> \<not> close_requested lc \<and> stream_open lc = Some False then
        (Go_on, lc\<lparr>close_requested := True, closes := closes lc + 1\<rparr>)
      else (Go_on, lc))"

datatype loop_cb = Loop_ready | After_receive | After_send | Time_check | Other_cb

definition client_loop_cb :: "loop_cb \<Rightarrow> bool \<Rightarrow> cnx_state \<Rightarrow> bool \<Rightarrow> client_loop \<Rightarrow> loop_result \<times> client_loop" where
  "client_loop_cb cb connection_closed state added lc =
     (if cb \<in> {After_receive, After_send, Time_check} then advance_state_machine connection_closed state added lc
      else (Go_on, lc))"

end
