(* ===== verification/H3Client_Correct.thy ===== *)
theory H3Client_Correct
  imports H3Client
begin

text \<open>
  What the artifacts client sends: a reader of HTTP/3 frames and QPACK field lines gets back the request, and the state
  machine sends it once.
\<close>

subsection \<open>Field lines\<close>

datatype field_line = Indexed u64 | Named u64 bytes | Literal bytes bytes

fun encode_line :: "field_line \<Rightarrow> nat \<Rightarrow> bytes option" where
  "encode_line (Indexed c) = h3zero_qpack_code_encode 0xC0 0x3F c"
| "encode_line (Named c v) = h3zero_qpack_literal_plus_ref_encode c v"
| "encode_line (Literal n v) = h3zero_qpack_literal_plus_name_encode n v"

definition read_string :: "u8 \<Rightarrow> bytes \<Rightarrow> (bytes \<times> bytes) option" where
  "read_string msk bs =
     (case h3zero_qpack_int_decode msk bs of
        None \<Rightarrow> None
      | Some (rest, n) \<Rightarrow> if unat n \<le> length rest then Some (drop (unat n) rest, take (unat n) rest) else None)"

text \<open>The form of a line is in the high bits of its first byte.\<close>

definition read_line :: "bytes \<Rightarrow> (bytes \<times> field_line) option" where
  "read_line bs =
     (case bs of
        [] \<Rightarrow> None
      | b # _ \<Rightarrow>
          if b AND 0xC0 = 0xC0 then map_option (\<lambda>(rest, c). (rest, Indexed c)) (h3zero_qpack_int_decode 0x3F bs)
          else if b AND 0xF0 = 0x50 then
            (case h3zero_qpack_int_decode 0x0F bs of
               None \<Rightarrow> None
             | Some (rest, c) \<Rightarrow> map_option (\<lambda>(rest, v). (rest, Named c v)) (read_string 0x7F rest))
          else if b AND 0xF8 = 0x20 then
            (case read_string 0x07 bs of
               None \<Rightarrow> None
             | Some (rest, n) \<Rightarrow> map_option (\<lambda>(rest, v). (rest, Literal n v)) (read_string 0x7F rest))
          else None)"

fun line_ok :: "field_line \<Rightarrow> bool" where
  "line_ok (Indexed c) = (unat c < 2 ^ 63)"
| "line_ok (Named c v) = (unat c < 2 ^ 63 \<and> length v < 2 ^ 63)"
| "line_ok (Literal n v) = (length n < 2 ^ 63 \<and> length v < 2 ^ 63)"

lemma int_encode_first:
  assumes "h3zero_qpack_int_encode room first msk v = Some bs" and "take_bit k first = 0" "msk = mask k" "k \<le> 8" "hi = NOT msk"
  obtains b cs where "bs = b # cs" "b AND hi = first"
proof -
  have first: "first AND NOT msk = first"
  proof (rule bit_word_eqI)
    fix n assume "n < LENGTH(8)"
    moreover have "\<not> bit (take_bit k first) n" using assms(2) by simp
    ultimately show "bit (first AND NOT msk) n = bit first n" by (auto simp: assms(3) bit_simps)
  qed
  obtain b cs where bs: "bs = b # cs" and b: "b = first OR msk \<or> v < ucast msk \<and> b = first OR ucast v"
    using assms(1) by (auto simp: h3zero_qpack_int_encode_def split: if_splits)
  have "(first OR w) AND NOT msk = first" if "w AND msk = w" for w
    using first that by (metis (no_types, opaque_lifting) and.assoc bit.conj_cancel_right bit.conj_disj_distrib2 bit.conj_zero_right or.right_neutral)
  moreover have "ucast v AND msk = (ucast v :: u8)" if "v < ucast msk"
    using prefix_byte(2) [of k 0 msk v] assms(3,4) that by simp
  ultimately show ?thesis using that [OF bs] b assms(5) by auto
qed

lemma then_write_Some:
  "then_write room acc enc = Some bs \<longleftrightarrow> (\<exists>as cs. acc = Some as \<and> enc (room - length as) = Some cs \<and> bs = as @ cs)"
  by (auto simp: then_write_def split: option.splits)

lemma copy_string_Some: "copy_string v room = Some bs \<longleftrightarrow> bs = v \<and> length v \<le> room"
  by (auto simp: copy_string_def)

lemma code_encode_Some:
  "h3zero_qpack_code_encode p m c room = Some bs \<Longrightarrow> h3zero_qpack_int_encode room p m c = Some bs"
  by (simp add: h3zero_qpack_code_encode_def split: if_splits)

lemma unat_length: "length v < 2 ^ 63 \<Longrightarrow> unat (of_nat (length v) :: u64) = length v"
  by (simp add: unat_of_nat)

lemma read_value:
  assumes "h3zero_qpack_int_encode room 0 0x7F (of_nat (length v)) = Some ls" and "length v < 2 ^ 63"
  shows "read_string 0x7F (ls @ v @ rest) = Some (rest, v)"
  using value_code.dec_enc [OF _ assms(1), of "v @ rest"] assms(2) unat_length [OF assms(2)] by (simp add: read_string_def)

lemma read_name:
  assumes "h3zero_qpack_int_encode room 0x20 0x07 (of_nat (length v)) = Some ls" and "length v < 2 ^ 63"
  shows "read_string 0x07 (ls @ v @ rest) = Some (rest, v)"
  using name_code.dec_enc [OF _ assms(1), of "v @ rest"] assms(2) unat_length [OF assms(2)] by (simp add: read_string_def)

lemma high_masks: "(0xC0 :: u8) = NOT 0x3F" "(0xF0 :: u8) = NOT 0x0F" "(0xF8 :: u8) = NOT 0x07"
  by code_simp+

lemma read_encode_line:
  assumes "encode_line l room = Some bs" and "line_ok l"
  shows "read_line (bs @ rest) = Some (rest, l)"
proof (cases l)
  case (Indexed c)
  then have enc: "h3zero_qpack_int_encode room 0xC0 0x3F c = Some bs" using assms(1) by (auto dest: code_encode_Some)
  obtain b cs where "bs = b # cs" "b AND 0xC0 = 0xC0"
    using enc by (rule int_encode_first [where k = 6, OF _ _ _ _ high_masks(1)]) (simp_all add: mask_eq_exp_minus_1 take_bit_eq_mod)
  then show ?thesis using index_code.dec_enc [OF _ enc, of rest] assms(2) Indexed by (simp add: read_line_def)
next
  case (Named c v)
  then obtain as ls where enc: "h3zero_qpack_int_encode room 0x50 0x0F c = Some as"
      "h3zero_qpack_int_encode (room - length as) 0 0x7F (of_nat (length v)) = Some ls" "bs = as @ ls @ v"
    using assms(1) by (auto simp: h3zero_qpack_literal_plus_ref_encode_def then_write_Some copy_string_Some dest!: code_encode_Some)
  obtain b cs where "as = b # cs" "b AND 0xF0 = 0x50"
    using enc(1) by (rule int_encode_first [where k = 4, OF _ _ _ _ high_masks(2)]) (simp_all add: mask_eq_exp_minus_1 take_bit_eq_mod)
  moreover have "b AND 0xC0 \<noteq> 0xC0" if "b AND 0xF0 = 0x50" for b :: u8
  proof
    assume "b AND 0xC0 = 0xC0"
    then have "(b AND 0xF0) AND 0xC0 = 0xC0" by (simp add: and.assoc)
    with that show False by simp
  qed
  ultimately show ?thesis using ref_code.dec_enc [OF _ enc(1), of "ls @ v @ rest"] read_value [OF enc(2)] assms(2) Named
    by (simp add: read_line_def enc(3))
next
  case (Literal n v)
  then obtain as ls where enc: "h3zero_qpack_int_encode room 0x20 0x07 (of_nat (length n)) = Some as"
      "h3zero_qpack_int_encode (room - length (as @ n)) 0 0x7F (of_nat (length v)) = Some ls" "bs = as @ n @ ls @ v"
    using assms(1) by (auto simp: h3zero_qpack_literal_plus_name_encode_def h3zero_qpack_name_encode_def then_write_Some copy_string_Some
        dest!: code_encode_Some split: if_splits)
  obtain b cs where "as = b # cs" "b AND 0xF8 = 0x20"
    using enc(1) by (rule int_encode_first [where k = 3, OF _ _ _ _ high_masks(3)]) (simp_all add: mask_eq_exp_minus_1 take_bit_eq_mod)
  moreover have "b AND 0xC0 \<noteq> 0xC0 \<and> b AND 0xF0 \<noteq> 0x50" if "b AND 0xF8 = 0x20" for b :: u8
  proof (intro conjI notI)
    assume "b AND 0xC0 = 0xC0"
    then have "(b AND 0xF8) AND 0xC0 = 0xC0" by (simp add: and.assoc)
    with that show False by simp
  next
    assume "b AND 0xF0 = 0x50"
    then have "(b AND 0xF8) AND 0xF0 = 0x50" by (simp add: and.assoc)
    with that show False by simp
  qed
  ultimately show ?thesis using read_name [OF enc(1), of "ls @ v @ rest"] read_value [OF enc(2)] assms(2) Literal
    by (simp add: read_line_def enc(3))
qed

text \<open>The lines of a header block behind its two zero bytes.  Every line takes at least one byte, so the number of bytes is
  enough fuel.\<close>

fun read_lines :: "nat \<Rightarrow> bytes \<Rightarrow> field_line list option" where
  "read_lines n [] = Some []"
| "read_lines 0 (b # bs) = None"
| "read_lines (Suc n) (b # bs) =
     (case read_line (b # bs) of None \<Rightarrow> None | Some (rest, l) \<Rightarrow> map_option (Cons l) (read_lines n rest))"

definition read_block :: "bytes \<Rightarrow> field_line list option" where
  "read_block bs = (if take 2 bs = [0, 0] then read_lines (length bs) (drop 2 bs) else None)"

text \<open>The lines written one after the other.\<close>

definition write_lines :: "nat \<Rightarrow> field_line list \<Rightarrow> bytes option" where
  "write_lines room ls = fold (\<lambda>l acc. then_write room acc (encode_line l)) ls (Some [0, 0])"

lemma read_lines_fuel: "read_lines n bs = Some ls \<Longrightarrow> n \<le> m \<Longrightarrow> read_lines m bs = Some ls"
proof (induction n bs arbitrary: ls m rule: read_lines.induct)
  case (3 n b bs)
  obtain k where k: "m = Suc k" "n \<le> k" using 3(3) by (cases m) auto
  obtain rest l ls' where r: "read_line (b # bs) = Some (rest, l)" "read_lines n rest = Some ls'" "ls = l # ls'"
    using 3(2) by (auto split: option.splits)
  then show ?case using 3(1) [OF r(1) refl r(2) k(2)] k(1) by simp
qed simp_all

lemma encode_line_not_Nil: "encode_line l room = Some bs \<Longrightarrow> line_ok l \<Longrightarrow> bs \<noteq> []"
  using read_encode_line [of l room bs "[]"] by (auto simp: read_line_def)

lemma then_write_simps [simp]:
  "then_write room None enc = None" "then_write room (Some as) enc = map_option ((@) as) (enc (room - length as))"
  by (simp_all add: then_write_def option.map_sel split: option.split)

lemma read_lines_write:
  assumes "fold (\<lambda>l acc. then_write room acc (encode_line l)) ls (Some as) = Some bs" and "\<forall>l \<in> set ls. line_ok l"
  shows "\<exists>cs. bs = as @ cs \<and> read_lines (length cs) cs = Some ls"
  using assms
proof (induction ls arbitrary: as)
  case (Cons l ls)
  have stuck: "fold (\<lambda>l acc. then_write room acc (encode_line l)) ls None = None" for ls
    by (induction ls) simp_all
  from Cons(2) obtain x where x: "encode_line l (room - length as) = Some x"
    and rest: "fold (\<lambda>l acc. then_write room acc (encode_line l)) ls (Some (as @ x)) = Some bs"
    by (cases "encode_line l (room - length as)") (auto simp: stuck)
  obtain cs where cs: "bs = (as @ x) @ cs" "read_lines (length cs) cs = Some ls" using Cons(1) [OF rest] Cons(3) by auto
  obtain b ys where ys: "x = b # ys" using encode_line_not_Nil [OF x] Cons(3) by (cases x) auto
  have "read_line (x @ cs) = Some (cs, l)" using read_encode_line [OF x] Cons(3) by simp
  moreover have "read_lines (length ys + length cs) cs = Some ls" by (rule read_lines_fuel [OF cs(2)]) simp
  ultimately have "read_lines (length (x @ cs)) (x @ cs) = Some (l # ls)" by (simp add: ys)
  then show ?case using cs(1) by auto
qed simp

lemma read_block_write:
  assumes "write_lines room ls = Some bs" and "\<forall>l \<in> set ls. line_ok l"
  shows "read_block bs = Some ls"
proof -
  obtain cs where "bs = [0, 0] @ cs" "read_lines (length cs) cs = Some ls"
    using read_lines_write [OF _ assms(2), of room "[0, 0]" bs] assms(1) by (auto simp: write_lines_def)
  then show ?thesis using read_lines_fuel [of "length cs" cs ls "length bs"] by (simp add: read_block_def)
qed

subsection \<open>The lines of a request\<close>

definition base_lines :: "bytes \<Rightarrow> bytes \<Rightarrow> bytes \<Rightarrow> field_line list" where
  "base_lines verb path host =
     (if verb = POST then [Indexed 20, Indexed 23, Named 1 path, Named 0 host, Named 95 H3ZERO_USER_AGENT_STRING, Indexed 46]
      else [Indexed 17, Indexed 23, Named 1 path, Named 0 host, Named 95 H3ZERO_USER_AGENT_STRING])"

definition token_lines :: "bytes option \<Rightarrow> field_line list" where
  "token_lines token = (case token of None \<Rightarrow> [] | Some t \<Rightarrow> if length t < 505 then [Literal authorization (Bearer @ t)] else [])"

lemma content_type_json: "h3zero_encode_content_type h3zero_content_type_json = h3zero_qpack_code_encode 0xC0 0x3F 46"
proof
  fix room
  have "find (\<lambda>(i, header, _, n). header = ''http_header_content_type'' \<and> n = h3zero_content_type_json) qpack_static =
      Some (46, ''http_header_content_type'', Some ''application/json'', 9)" by code_simp
  then show "h3zero_encode_content_type h3zero_content_type_json room = h3zero_qpack_code_encode 0xC0 0x3F 46 room"
    by (simp add: h3zero_encode_content_type_def)
qed

lemma header_block_lines:
  assumes "2 \<le> room"
  shows "header_block verb path host token room = write_lines room (base_lines verb path host @ token_lines token)"
proof -
  have base: "(if verb = POST then h3zero_create_post_header_frame path (Some host) h3zero_content_type_json room
      else h3zero_create_request_header_frame_ex path None (Some host) (Some H3ZERO_USER_AGENT_STRING) room) =
      write_lines room (base_lines verb path host)"
    using assms by (simp add: h3zero_create_post_header_frame_def h3zero_create_post_header_frame_ex_def Let_def
        h3zero_create_request_header_frame_ex_def write_lines_def base_lines_def content_type_json)
  have "write_lines room (ls @ [l]) = then_write room (write_lines room ls) (encode_line l)" for ls l
    by (simp add: write_lines_def)
  then show ?thesis unfolding header_block_def base
    by (auto simp: auth_field_def token_lines_def Bearer_def split: option.splits)
qed

subsection \<open>What fits\<close>

lemma cont_width_le: "cont_width n v \<le> Suc n"
  by (induction n v rule: cont_width.induct) simp_all

lemma int_width_le: "int_width msk v \<le> 11"
  using cont_width_le [of 9] by (simp add: int_width_def)

fun line_size :: "field_line \<Rightarrow> nat" where
  "line_size (Indexed c) = 11"
| "line_size (Named c v) = 22 + length v"
| "line_size (Literal n v) = 22 + length n + length v"

lemma value_fits: "11 \<le> room \<Longrightarrow> \<exists>ls. h3zero_qpack_code_encode 0 0x7F v room = Some ls \<and> length ls \<le> 11"
  using value_code.enc_fits [of v room] int_width_le [of "0x7F" v] by (fastforce simp: h3zero_qpack_code_encode_def)

lemma encode_line_fits:
  assumes "line_size l \<le> room" shows "\<exists>bs. encode_line l room = Some bs \<and> length bs \<le> line_size l"
proof (cases l)
  case (Indexed c)
  then show ?thesis using index_code.enc_fits [of c room] int_width_le [of "0x3F" c] assms
    by (fastforce simp: h3zero_qpack_code_encode_def)
next
  case (Named c v)
  then obtain as where "h3zero_qpack_code_encode 0x50 0x0F c room = Some as" "length as \<le> 11"
    using ref_code.enc_fits [of c room] int_width_le [of "0x0F" c] assms by (fastforce simp: h3zero_qpack_code_encode_def)
  moreover from this obtain ls where "h3zero_qpack_code_encode 0 0x7F (of_nat (length v)) (room - length as) = Some ls" "length ls \<le> 11"
    using value_fits [of "room - length as" "of_nat (length v)"] assms Named by fastforce
  ultimately show ?thesis using assms Named by (auto simp: h3zero_qpack_literal_plus_ref_encode_def copy_string_def)
next
  case (Literal n v)
  then obtain as where "h3zero_qpack_int_encode room 0x20 0x07 (of_nat (length n)) = Some as" "length as \<le> 11"
    using name_code.enc_fits [of "of_nat (length n)" room] int_width_le [of "0x07" "of_nat (length n)"] assms by fastforce
  moreover from this obtain ls where
      "h3zero_qpack_code_encode 0 0x7F (of_nat (length v)) (room - (length as + length n)) = Some ls" "length ls \<le> 11"
    using value_fits [of "room - (length as + length n)" "of_nat (length v)"] assms Literal by fastforce
  ultimately show ?thesis using assms Literal
    by (auto simp: h3zero_qpack_literal_plus_name_encode_def h3zero_qpack_name_encode_def copy_string_def)
qed

lemma write_lines_fit:
  "length as + sum_list (map line_size ls) \<le> room \<Longrightarrow>
     \<exists>bs. fold (\<lambda>l acc. then_write room acc (encode_line l)) ls (Some as) = Some bs \<and> length bs \<le> length as + sum_list (map line_size ls)"
proof (induction ls arbitrary: as)
  case (Cons l ls)
  have "line_size l \<le> room - length as" using Cons.prems by simp
  then obtain x where "encode_line l (room - length as) = Some x" "length x \<le> line_size l"
    using encode_line_fits by blast
  then show ?case using Cons.IH [of "as @ x"] Cons.prems by fastforce
qed simp

text \<open>The strings of lines that were written are no longer than the room.\<close>

fun code_ok :: "field_line \<Rightarrow> bool" where
  "code_ok (Indexed c) = (unat c < 2 ^ 63)"
| "code_ok (Named c v) = (unat c < 2 ^ 63)"
| "code_ok (Literal n v) = True"

lemma encode_line_room: "encode_line l room = Some bs \<Longrightarrow> room < 2 ^ 63 \<Longrightarrow> code_ok l \<Longrightarrow> line_ok l \<and> length bs \<le> room"
  using index_code.enc_within_room ref_code.enc_within_room name_code.enc_within_room value_code.enc_within_room
  by (cases l) (fastforce simp: h3zero_qpack_literal_plus_ref_encode_def h3zero_qpack_literal_plus_name_encode_def
      h3zero_qpack_name_encode_def then_write_Some copy_string_Some dest!: code_encode_Some split: if_splits)+

lemma write_lines_room:
  "fold (\<lambda>l acc. then_write room acc (encode_line l)) ls (Some as) = Some bs \<Longrightarrow> room < 2 ^ 63 \<Longrightarrow> \<forall>l \<in> set ls. code_ok l \<Longrightarrow>
     length as \<le> room \<Longrightarrow> (\<forall>l \<in> set ls. line_ok l) \<and> length bs \<le> room"
proof (induction ls arbitrary: as)
  case (Cons l ls)
  have stuck: "fold (\<lambda>l acc. then_write room acc (encode_line l)) ls None = None" for ls
    by (induction ls) simp_all
  from Cons(2) obtain x where x: "encode_line l (room - length as) = Some x"
    and rest: "fold (\<lambda>l acc. then_write room acc (encode_line l)) ls (Some (as @ x)) = Some bs"
    by (cases "encode_line l (room - length as)") (auto simp: stuck)
  have "line_ok l" "length x \<le> room - length as" using encode_line_room [OF x] Cons(3,4) by auto
  then show ?case using Cons.IH [OF rest] Cons(3-5) by simp
qed simp

subsection \<open>Frames\<close>

text \<open>A reader of frames: type, length and content, until the bytes end.  Every frame takes at least two bytes, so the number
  of bytes is enough fuel.\<close>

fun read_frames :: "nat \<Rightarrow> bytes \<Rightarrow> (u64 \<times> bytes) list option" where
  "read_frames n [] = Some []"
| "read_frames 0 (b # bs) = None"
| "read_frames (Suc n) (b # bs) =
     (let (k, ty) = picoquic_varint_decode (b # bs); bs1 = drop k (b # bs); (j, len) = picoquic_varint_decode bs1; bs2 = drop j bs1 in
      if k = 0 \<or> j = 0 \<or> length bs2 < unat len then None
      else map_option (Cons (ty, take (unat len) bs2)) (read_frames n (drop (unat len) bs2)))"

lemma read_frame:
  assumes "b < 64" and "unat len < 2 ^ 62" and "picoquic_encode_varint_length len \<le> room" and "unat len = length c"
  shows "read_frames (Suc n) (b # picoquic_varint_encode room len @ c @ rest) = map_option (Cons (ucast b, c)) (read_frames n rest)"
proof -
  have "ucast (ucast b :: u64) = b" by (rule bit_word_eqI) (auto simp: bit_simps)
  then have b: "picoquic_varint_encode 1 (ucast b) = [b]" "picoquic_encode_varint_length (ucast b) = 1"
    using assms(1) by (simp_all add: picoquic_varint_encode_def picoquic_encode_varint_length_def byte_at_def word_less_nat_alt)
  have "picoquic_varint_decode (b # xs) = (1, ucast b)" for xs
    using varint_roundtrip_small [of "ucast b" 1 xs] b assms(1) by (simp add: word_less_nat_alt)
  moreover have "0 < picoquic_encode_varint_length len" by (simp add: picoquic_encode_varint_length_def)
  ultimately show ?thesis using varint_roundtrip_small [OF assms(2,3), of "c @ rest"] varint_encode_length [OF assms(3)] assms(4)
    by simp
qed

lemma header_frame_eq:
  assumes "length block < 16384"
  shows "header_frame block = h3zero_frame_header # picoquic_varint_encode 2 (of_nat (length block)) @ block"
proof -
  have len: "(of_nat (length block) :: u64) < 16384" "unat (of_nat (length block) :: u64) = length block"
    using assms by (simp_all add: word_less_nat_alt unat_of_nat)
  have "ucast (v AND 0xFF) = (byte_at 0 v :: u8)" for v :: u64
  proof -
    have m: "(0xFF :: u64) = mask 8" by (simp add: mask_eq_exp_minus_1)
    show ?thesis unfolding m byte_at_def by (rule bit_word_eqI) (auto simp: bit_simps)
  qed
  then show ?thesis using len by (simp add: header_frame_def picoquic_varint_encode_def byte_at_def Let_def)
qed

declare read_frames.simps(3) [simp del]

lemma read_header_frame:
  assumes "length block < 16384"
  shows "read_frames (Suc n) (header_frame block @ rest) = map_option (Cons (1, block)) (read_frames n rest)"
proof -
  have len: "unat (of_nat (length block) :: u64) = length block" using assms by (simp add: unat_of_nat)
  have "picoquic_encode_varint_length (of_nat (length block)) \<le> 2"
    using assms len by (simp add: picoquic_encode_varint_length_def word_less_nat_alt)
  then show ?thesis using read_frame [of 1 "of_nat (length block)" 2 block n rest] assms len
    by (simp add: header_frame_eq h3zero_frame_header_def)
qed

lemma read_data_frame:
  assumes "length b < 2 ^ 62" and "picoquic_encode_varint_length (of_nat (length b)) \<le> room"
  shows "read_frames (Suc n) (h3zero_frame_data # picoquic_varint_encode room (of_nat (length b)) @ b) =
    map_option (Cons (0, b)) (read_frames n [])"
proof -
  have len: "unat (of_nat (length b) :: u64) = length b" using assms(1) by (simp add: unat_of_nat)
  then show ?thesis using read_frame [of 0 "of_nat (length b)" room b n "[]"] assms by (simp add: h3zero_frame_data_def)
qed

lemma header_frame_length: "length (header_frame block) \<le> 3 + length block"
  by (simp add: header_frame_def Let_def)

text \<open>The bodies that are sent.\<close>

definition body_frames :: "bytes option \<Rightarrow> (u64 \<times> bytes) list" where
  "body_frames body = (case body of None \<Rightarrow> [] | Some b \<Rightarrow> if b = [] then [] else [(0, b)])"

lemma add_body_cases:
  assumes "add_body max_bytes body out = Some bs" and "max_bytes < 2 ^ 62"
  obtains "body_frames body = []" "bs = out"
  | b ll where "body_frames body = [(0, b)]" "bs = out @ h3zero_frame_data # picoquic_varint_encode ll (of_nat (length b)) @ b"
      "length b < 2 ^ 62" "picoquic_encode_varint_length (of_nat (length b)) \<le> ll" "length bs \<le> max_bytes"
proof (cases "body_frames body = []")
  case True
  then show ?thesis using that(1) assms(1) by (auto simp: add_body_def body_frames_def split: option.splits if_splits)
next
  case False
  then obtain b where b: "body = Some b" "b \<noteq> []" by (auto simp: body_frames_def split: option.splits if_splits)
  let ?ll = "max_bytes - length (out @ [h3zero_frame_data])"
  from assms(1) b have "picoquic_varint_encode ?ll (of_nat (length b)) \<noteq> []" and len: "length bs \<le> max_bytes"
    and bs: "bs = out @ h3zero_frame_data # picoquic_varint_encode ?ll (of_nat (length b)) @ b"
    by (auto simp: add_body_def Let_def split: if_splits)
  then have "picoquic_encode_varint_length (of_nat (length b)) \<le> ?ll"
    using varint_encode_no_room [of ?ll "of_nat (length b)"] by fastforce
  moreover have "length b \<le> length bs" by (simp add: bs)
  ultimately show ?thesis using that(2) [of b ?ll] assms(2) b bs len by (simp add: body_frames_def)
qed

lemma codes_ok: "\<forall>l \<in> set (base_lines verb path host @ token_lines token). code_ok l"
  by (auto simp: base_lines_def token_lines_def split: option.splits)

lemma header_block_read:
  assumes "header_block verb path host token room = Some block" and "room < 2 ^ 63"
  shows "(\<forall>l \<in> set (base_lines verb path host @ token_lines token). line_ok l) \<and> length block \<le> room \<and>
    read_block block = Some (base_lines verb path host @ token_lines token)"
proof -
  have room: "2 \<le> room"
    using assms(1) by (auto simp: header_block_def auth_field_def h3zero_create_post_header_frame_def
        h3zero_create_post_header_frame_ex_def h3zero_create_request_header_frame_ex_def split: if_splits option.splits)
  then have w: "write_lines room (base_lines verb path host @ token_lines token) = Some block"
    using header_block_lines assms(1) by metis
  then have "(\<forall>l \<in> set (base_lines verb path host @ token_lines token). line_ok l) \<and> length block \<le> room"
    using write_lines_room [of room "base_lines verb path host @ token_lines token" "[0, 0]" block] codes_ok [of verb path host token]
      assms(2) room by (simp add: write_lines_def)
  then show ?thesis using read_block_write [OF w] by blast
qed

lemma add_body_length: "add_body max_bytes body (header_frame block) = Some out \<Longrightarrow> 2 \<le> length out"
  by (auto simp: add_body_def header_frame_def Let_def split: option.splits if_splits)

lemma build_succeeds:
  assumes "length path + length host + length (case body of None \<Rightarrow> [] | Some b \<Rightarrow> b) + 680 \<le> max_bytes" and "max_bytes \<le> 16384"
  shows "build_authenticated_request max_bytes verb path (Some host) token body \<noteq> None"
proof -
  let ?lines = "base_lines verb path host @ token_lines token"
  have size: "sum_list (map line_size ?lines) \<le> 655 + length path + length host"
    by (auto simp: base_lines_def token_lines_def H3ZERO_USER_AGENT_STRING_def authorization_def Bearer_def split: option.splits)
  then have "length [0 :: u8, 0] + sum_list (map line_size ?lines) \<le> max_bytes - 3" using assms(1) by simp
  from write_lines_fit [OF this] obtain block where "write_lines (max_bytes - 3) ?lines = Some block"
    and "length block \<le> 2 + sum_list (map line_size ?lines)" unfolding write_lines_def by fastforce
  then have len: "length block \<le> 657 + length path + length host" using size by simp
  have "header_block verb path host token (max_bytes - 3) = Some block"
    using header_block_lines [of "max_bytes - 3"] assms(1) \<open>write_lines (max_bytes - 3) ?lines = Some block\<close> by simp
  moreover have "add_body max_bytes body (header_frame block) \<noteq> None"
  proof (cases body)
    case (Some b)
    have f: "length (header_frame block) \<le> 660 + length path + length host" using header_frame_length [of block] len by simp
    let ?ll = "max_bytes - length (header_frame block @ [h3zero_frame_data])"
    have small: "unat (of_nat (length b) :: u64) < 16384" using assms Some by (simp add: unat_of_nat)
    then have w: "picoquic_encode_varint_length (of_nat (length b)) \<le> 2"
      by (simp add: picoquic_encode_varint_length_def word_less_nat_alt)
    moreover have "2 \<le> ?ll" using f assms(1) Some by simp
    ultimately have "length (picoquic_varint_encode ?ll (of_nat (length b))) = picoquic_encode_varint_length (of_nat (length b))"
      by (intro varint_encode_length) simp
    moreover have "0 < picoquic_encode_varint_length (of_nat (length b))" by (simp add: picoquic_encode_varint_length_def)
    ultimately have "length (picoquic_varint_encode ?ll (of_nat (length b))) \<le> 2 \<and> picoquic_varint_encode ?ll (of_nat (length b)) \<noteq> []"
      using w by auto
    then show ?thesis using f assms(1) Some by (auto simp: add_body_def Let_def)
  qed (simp add: add_body_def)
  ultimately show ?thesis using assms(1) by (simp add: build_authenticated_request_def)
qed

text \<open>C23.  The request can be read back: whatever the verb (every verb other than \<open>POST\<close> is sent as the method GET), path, host, token and body, when the request has been built in a
  buffer of at most 16,384 bytes it stays within the buffer, and a reader finds in it a HEADERS frame, followed by a DATA
  frame with exactly the body if there is one, and in the header block the method, the scheme, the path, the host and the
  user agent, the content type for a POST, and the authorization field with the token if the token has fewer than 505
  bytes.  And the request is built whenever the lengths of path, host and body leave 680 bytes of the buffer.\<close>

theorem h3_request_read_back:
  assumes "max_bytes \<le> 16384"
  shows "(\<forall>out. build_authenticated_request max_bytes verb path (Some host) token body = Some out \<longrightarrow>
      length out \<le> max_bytes
      \<and> (\<exists>block. read_frames (length out) out = Some ((1, block) # body_frames body)
                \<and> read_block block = Some (base_lines verb path host @ token_lines token)))
    \<and> (length path + length host + length (case body of None \<Rightarrow> [] | Some b \<Rightarrow> b) + 680 \<le> max_bytes \<longrightarrow>
        build_authenticated_request max_bytes verb path (Some host) token body \<noteq> None)"
proof (intro conjI allI impI)
  let ?lines = "base_lines verb path host @ token_lines token"
  fix out assume built: "build_authenticated_request max_bytes verb path (Some host) token body = Some out"
  then obtain block where three: "3 \<le> max_bytes" and block: "header_block verb path host token (max_bytes - 3) = Some block"
    and body: "add_body max_bytes body (header_frame block) = Some out"
    by (auto simp: build_authenticated_request_def split: if_splits option.splits)
  obtain lines: "\<forall>l \<in> set ?lines. line_ok l" "length block \<le> max_bytes - 3" "read_block block = Some ?lines"
    using header_block_read [OF block] assms by auto
  have small: "length block < 16384" using lines(2) assms three by simp
  show "length out \<le> max_bytes"
  proof (rule add_body_cases [OF body])
    show "max_bytes < 2 ^ 62" using assms by simp
  qed (use header_frame_length [of block] lines(2) three in simp_all)
  show "\<exists>block. read_frames (length out) out = Some ((1, block) # body_frames body) \<and> read_block block = Some ?lines"
  proof (rule exI [of _ block], rule conjI [OF _ lines(3)])
    have big: "max_bytes < 2 ^ 62" using assms by simp
    obtain m where m: "length out = Suc (Suc m)" using add_body_length [OF body] by (metis Suc_le_D numeral_2_eq_2 Suc_le_mono)
    show "read_frames (length out) out = Some ((1, block) # body_frames body)"
    proof (cases rule: add_body_cases [OF body big])
      case 1
      then show ?thesis unfolding m using read_header_frame [OF small, of "Suc m" "[]"] by simp
    next
      case (2 b ll)
      then show ?thesis unfolding m using read_header_frame [OF small, of "Suc m"] read_data_frame [of b ll m] by simp
    qed
  qed
next
  show "build_authenticated_request max_bytes verb path (Some host) token body \<noteq> None"
    if room: "length path + length host + length (case body of None \<Rightarrow> [] | Some b \<Rightarrow> b) + 680 \<le> max_bytes"
    using build_succeeds [OF room assms] .
qed

lemma h3_request_read_back_witness:
  "\<exists>out block. build_authenticated_request 4096 POST [47] (Some [104]) (Some [116]) (Some [123, 125]) = Some out \<and>
     read_frames (length out) out = Some [(1, block), (0, [123, 125])] \<and>
     read_block block = Some [Indexed 20, Indexed 23, Named 1 [47], Named 0 [104], Named 95 H3ZERO_USER_AGENT_STRING, Indexed 46,
       Literal authorization [66, 101, 97, 114, 101, 114, 32, 116]]"
  using h3_request_read_back [of 4096 POST "[47]" "[104]" "Some [116]" "Some [123, 125]"]
  by (fastforce simp: body_frames_def base_lines_def token_lines_def Bearer_def)

text \<open>The authorization field is left out, and the request is sent without it, when the token is long.\<close>

lemma long_token_dropped:
  assumes "505 \<le> length token"
  shows "build_authenticated_request max_bytes verb path host (Some token) body = build_authenticated_request max_bytes verb path host None body"
proof -
  have "auth_field (Some token) room acc = auth_field None room acc" for room acc
    using assms by (simp add: auth_field_def Bearer_def split: option.split)
  then show ?thesis by (cases host) (simp_all add: build_authenticated_request_def header_block_def)
qed

text \<open>The name of the field is in the static table.\<close>

lemma authorization_is_static: "qpack_static ! 84 = (84, ''http_header_authorization'', None, 0)"
  by code_simp

subsection \<open>One request for each run\<close>

text \<open>The callbacks until one of them ends the loop.  Between two callbacks the library may close the stream.\<close>

inductive loop_reachable :: "client_loop \<Rightarrow> client_loop \<Rightarrow> bool" for start where
  start: "loop_reachable start start"
| callback: "loop_reachable start lc \<Longrightarrow> client_loop_cb cb closed state added lc = (r, lc') \<Longrightarrow> loop_reachable start lc'"
| finished: "loop_reachable start lc \<Longrightarrow> stream_open lc = Some True \<Longrightarrow> loop_reachable start (lc\<lparr>stream_open := Some False\<rparr>)"

definition client_start :: "bytes \<Rightarrow> bytes \<Rightarrow> bytes option \<Rightarrow> bytes option \<Rightarrow> bytes option \<Rightarrow> client_loop" where
  "client_start verb path sni token body = \<lparr>notified_ready = False, request_sent = False, close_requested = False, stream_open = None,
     loop_method = verb, loop_path = path, loop_sni = sni, loop_token = token, loop_body = body, wire = [], closes = 0\<rparr>"

definition loop_ok :: "client_loop \<Rightarrow> client_loop \<Rightarrow> bool" where
  "loop_ok st lc =
     (loop_method lc = loop_method st \<and> loop_path lc = loop_path st \<and> loop_sni lc = loop_sni st \<and> loop_token lc = loop_token st \<and>
      loop_body lc = loop_body st \<and>
      (let req = build_authenticated_request 4096 (loop_method st) (loop_path st) (loop_sni st) (loop_token st) (loop_body st) in
       (wire lc = [] \<or> req \<noteq> None \<and> wire lc = [the req]) \<and>
       (wire lc \<noteq> [] \<longrightarrow> request_sent lc) \<and> (stream_open lc \<noteq> None \<longrightarrow> request_sent lc \<and> req \<noteq> None) \<and>
       closes lc = of_bool (close_requested lc) \<and> (close_requested lc \<longrightarrow> stream_open lc = Some False)))"

lemma loop_ok_send:
  assumes "loop_ok st lc" and "\<not> request_sent lc"
  shows "loop_ok st (snd (send_authenticated_request added (lc\<lparr>request_sent := True\<rparr>)))"
proof -
  have "wire lc = []" "stream_open lc = None" "\<not> close_requested lc"
    using assms by (auto simp: loop_ok_def Let_def)
  then show ?thesis using assms(1)
    by (cases "build_authenticated_request 4096 (loop_method st) (loop_path st) (loop_sni st) (loop_token st) (loop_body st)")
      (simp_all add: loop_ok_def send_authenticated_request_def Let_def)
qed

lemma loop_ok_marks:
  "loop_ok st lc \<Longrightarrow> loop_ok st (lc\<lparr>notified_ready := True\<rparr>)"
  "loop_ok st lc \<Longrightarrow> \<not> close_requested lc \<Longrightarrow> stream_open lc = Some False \<Longrightarrow> loop_ok st (lc\<lparr>close_requested := True, closes := Suc (closes lc)\<rparr>)"
  by (simp_all add: loop_ok_def Let_def) blast

lemma loop_ok_callback: "loop_ok st lc \<Longrightarrow> loop_ok st (snd (client_loop_cb cb closed state added lc))"
  by (simp add: client_loop_cb_def advance_state_machine_def split_beta Let_def loop_ok_send loop_ok_marks)

text \<open>C24.  The client sends its request at most once and closes at most once, in every order in which the loop calls it back
  and for every sequence of connection states: what is on the wire is nothing or exactly the request for the arguments of
  the call, and the connection is closed only after the library has closed the stream of that request.\<close>

theorem h3_client_once:
  assumes "loop_reachable (client_start verb path sni token body) lc"
  shows "(wire lc = [] \<or> (\<exists>req. build_authenticated_request 4096 verb path sni token body = Some req \<and> wire lc = [req]))
    \<and> closes lc \<le> 1 \<and> (closes lc = 1 \<longrightarrow> request_sent lc \<and> stream_open lc = Some False)"
proof -
  have "loop_ok (client_start verb path sni token body) lc" using assms
  proof (induction rule: loop_reachable.induct)
    case start
    then show ?case by (simp add: loop_ok_def client_start_def)
  next
    case (callback lc cb closed state added r lc')
    then show ?case using loop_ok_callback [OF callback.IH, of cb closed state added] by simp
  next
    case (finished lc)
    then show ?case by (auto simp: loop_ok_def Let_def)
  qed
  then show ?thesis by (auto simp: loop_ok_def client_start_def Let_def)
qed

lemma h3_client_once_witness:
  "let lc = snd (client_loop_cb After_send False Ready_state True (client_start [71] [47] (Some [104]) None None)) in length (wire lc) = 1 \<and> closes lc \<le> 1"
proof -
  let ?s = "client_start [71] [47] (Some [104]) None None"
  have "loop_reachable ?s (snd (client_loop_cb After_send False Ready_state True ?s))"
    by (rule loop_reachable.callback [OF loop_reachable.start]) (rule surjective_pairing)
  moreover have "length (wire (snd (client_loop_cb After_send False Ready_state True ?s))) = 1" by code_simp
  ultimately show ?thesis using h3_client_once [of "[71]" "[47]" "Some [104]" None None] unfolding Let_def by blast
qed

end
