(* ===== verification/Spec2Isabelle.thy ===== *)
theory Spec2Isabelle
  imports Sacks_Props Base64 Crc32 SipHash PicoHash Streams ByteStream Crc32c_Correct IndexedSet_Props Deque_Correct ThreadSafeQueue_Correct FlowError TaskQueue_Correct PriorityMultiLock_Correct CompressedInt_Correct Fanout_Findings H3Client_Correct
begin

text \<open>
  The repository holds a zone server: \<^verbatim>\<open>flow-toolchain/flow\<close> is the runtime (tasks, queues, containers, errors),
  \<^verbatim>\<open>flow-toolchain/contrib\<close> small libraries of its own build, \<^verbatim>\<open>flow-toolchain/thirdparty/picoquic\<close> the QUIC transport, and
  \<^verbatim>\<open>flow-toolchain/examples\<close> the server that relays messages between connections, with its load client.  The development
  models the parts that decide something and leaves the system calls out.

  \<^bold>\<open>How the parts interact.\<close>  The run loop takes its work from \<open>TaskQueue\<close>, which orders tasks by \<open>TaskPriority\<close> and
  receives tasks of other threads through \<open>ThreadSafeQueue\<close>.  Actors keep their data in \<open>Deque\<close> and \<open>IndexedSet\<close>, limit
  themselves with \<open>PriorityMultiLock\<close>, report failures as \<open>FlowError\<close>, and write keys with \<open>CompressedInt\<close>; blocks carry a
  checksum of \<open>Crc32c\<close>.  QUIC calls the callback of \<open>FanoutServer\<close>, which keeps its rooms in the slot map of \<open>RoomStore\<close>;
  \<open>LoadClient\<close> produces the bytes that the server reads.  Inside picoquic the packet numbers received are kept in \<open>Sacks\<close>,
  which are stored in \<open>Picosplay\<close>; connections are found by \<open>PicoHash\<close> tables over \<open>ConnId\<close> and \<open>SockAddr\<close> with the hash of
  \<open>SipHash\<close>; fields are read and written by \<open>Intformat\<close>, \<open>FrameCodec\<close> and \<open>ByteStream\<close>.

  \<^bold>\<open>Conventions.\<close>  Machine integers are words of their width where they are packed, masked, serialised or can wrap.
  An \<open>int\<close> or \<open>size_t\<close> that only counts is an integer or a natural number, and the theory says why this is the same:
  the counters of \<open>PriorityMultiLock\<close>, whose overflow is an undefined step and which are proved to stay in the range of \<open>int\<close>;
  the balances of \<open>IndexedSet\<close>; the lengths of buffers and lists; the numbers of the player in \<open>LoadClient\<close>; and the counts in
  \<open>Sacks\<close>.  A buffer is the list of its bytes; a C function that
  can fail returns an option or a sum.  A C++ exception, a failed assertion and a read outside an array are values of the
  result, so a theorem that an operation succeeds excludes them.  Memory allocation is taken not to fail, unless a theory
  says otherwise.  \<open>Prelude\<close> holds the types and the lemmas on words and lists that all theories share.

  \<^bold>\<open>Runtime.\<close>
  \<^item> \<open>IndexedSet\<close> models \<^verbatim>\<open>flow/IndexedSet.h\<close>: a tree whose nodes carry a balance and the sum of the metrics below them,
    with zippers for the parent pointers.  \<open>IndexedSet_Inv\<close>, \<open>_Rebalance\<close>, \<open>_Ops\<close>, \<open>_Range\<close>, \<open>_Vector\<close> and \<open>_Free\<close> prove the AVL
    invariant, the rotation, search and sums, the erasure of ranges, the insertion of vectors and the release of nodes;
    \<open>IndexedSet_Props\<close> states the contract of a sorted container as a locale and interprets it on the tree.
  \<^item> \<open>Deque\<close> models \<^verbatim>\<open>flow/Deque.h\<close>, a circular array with 32-bit positions; \<open>Deque_Correct\<close> shows that it implements a list
    up to its maximal size, and which error ends a sequence that the list does not allow.
  \<^item> \<open>ThreadSafeQueue\<close> models \<^verbatim>\<open>flow/ThreadSafeQueue.h\<close> as a machine in which every atomic access of a producer or of the
    consumer is a step; \<open>ThreadSafeQueue_Correct\<close> shows for every interleaving that values come out in the order in which
    the producers entered, that no wake-up is lost and that no node is used after it was freed.  The model is
    sequentially consistent.
  \<^item> \<open>TaskPriority\<close>, \<open>TaskQueue\<close> and \<open>TaskQueue_Correct\<close> model \<^verbatim>\<open>flow/TaskPriority.h\<close> and \<^verbatim>\<open>flow/TaskQueue.h\<close>.  The refinement holds
    while fewer than \<open>2 ^ 32\<close> tasks separate two tasks, the window in which the 64-bit priorities are unique.  Times are
    doubles, rounded as \<open>BinaryFloat\<close> says.
  \<^item> \<open>PriorityMultiLock\<close> and \<open>PriorityMultiLock_Correct\<close> model \<^verbatim>\<open>flow/PriorityMultiLock.h\<close> as a machine of calls and callbacks.
    The weights and counters are \<open>int\<close>s: the sum of the weights can overflow, and the theorem that nothing hangs asks that
    it does not.  What \<open>halt\<close> and \<open>kill\<close> promise is stated over the events of a history.
    The search for a priority runs with fuel twice the number of waiting priorities plus two, and it is proved that this
    is enough for up to 3,000,000 slots, where the error of \<open>float\<close> cannot yet starve the search.
  \<^item> \<open>CompressedInt\<close> and \<open>CompressedInt_Correct\<close> model \<^verbatim>\<open>flow/CompressedInt.h\<close> for every width: reading inverts writing, and the
    byte order of the encodings is the order of the integers.
  \<^item> \<open>ErrorTable\<close> and \<open>FlowError\<close> hold the error definitions and model \<^verbatim>\<open>flow/Error.cpp\<close> and \<^verbatim>\<open>flow/Error.h\<close>.

  \<^bold>\<open>Libraries.\<close>  \<open>Base64\<close> models \<^verbatim>\<open>contrib/libb64\<close>; \<open>Crc32\<close> the wrapper for PowerPC and the bit-serial reference; \<open>Crc32c\<close>,
  \<open>Crc32cTables\<close> and \<open>Crc32c_Correct\<close> model \<^verbatim>\<open>contrib/crc32/crc32c.cpp\<close> with its tables, and show that all routines compute the
  reference on every length and alignment.  The CRC instructions of the processor are parameters with their documented
  behaviour as a locale.

  \<^bold>\<open>Server.\<close>  \<open>RoomStore\<close> models the rooms of \<^verbatim>\<open>fanout-core\<close>; its slot map is interpreted as a store of identified values.
  \<open>FanoutServer\<close> models \<^verbatim>\<open>examples/picoquic_fanout_server.actor.cpp\<close>: one definition per handler, one iteration of
  \<open>pumpStream\<close> with its outcome, the loop, which ends because every iteration that continues takes bytes out of the
  buffer, and the callback for every event.  A close says in which order it visits the streams, because the source
  iterates an unordered map.  The dispatch of zones, the history of sketches and the measured round trip, which may differ at every
  callback, are parameters.
  \<open>FanoutServer_Correct\<close> shows that the state does not depend on how the bytes are cut into callbacks, that the server writes
  to open streams only, and who receives a publication; \<open>LoadClient\<close> models the player of
  \<^verbatim>\<open>examples/fanout_load_client.actor.cpp\<close> and composes it with the server; \<open>Fanout_Findings\<close> holds the cases in which the
  server departs from its comments.

  \<^bold>\<open>Artifacts client.\<close>  \<open>Qpack\<close> models the encoders of \<^verbatim>\<open>picohttp/h3zero.c\<close> that \<^verbatim>\<open>examples/artifacts_mmo_h3_client.c\<close> calls, and
  interprets the codec contract on the integers of every field form; \<open>H3Client\<close> models the request and the state machine of
  the client.  \<open>H3Client_Correct\<close> reads the request back, frame by frame and line by line, and shows that it is sent once.

  \<^bold>\<open>Transport.\<close>  \<open>Intformat\<close> (integers and QUIC varints, below \<open>2 ^ 62\<close>), \<open>FrameCodec\<close> (field codecs of \<^verbatim>\<open>util.c\<close>, a locale for a
  codec), \<open>ByteStream\<close> (\<^verbatim>\<open>bytestream.c\<close>, a locale for a field of a message), \<open>Picosplay\<close> (\<^verbatim>\<open>picosplay.c\<close>), \<open>Sacks\<close> with \<open>_Correct\<close>,
  \<open>_Accounting\<close>, \<open>_Refine\<close> and \<open>_Props\<close> (\<^verbatim>\<open>sacks.c\<close>, as intervals, with their refinement to the splay tree), \<open>SipHash\<close>, \<open>PicoHash\<close>
  (a locale for the clients of a hash table), \<open>ConnId\<close>, \<open>SockAddr\<close> and \<open>Streams\<close> (the list of streams that have data to send,
  partly).

  \<^bold>\<open>Not modelled.\<close>  Sockets, timers, processes and files (\<^verbatim>\<open>Platform.cpp\<close>, \<^verbatim>\<open>Net2.cpp\<close>) are calls of the system.  The futures
  and coroutines of \<^verbatim>\<open>flow.h\<close> and \<^verbatim>\<open>genericactors.actor.h\<close> appear only as the order of the callbacks that the models take as
  steps.  Tracing, metrics, knobs and test support decide nothing here.  \<^verbatim>\<open>flat_buffers.h\<close> and \<^verbatim>\<open>Arena.h\<close> are templates over raw
  memory that the compiler instantiates for message types which this repository does not have.  The zone and sketch cores
  are Lean programs with proofs of their own.  The rest of picoquic, mbedtls, picotls, s7, libriscv, xxhash, sse2neon and
  stacktrace are vendored.
\<close>

end
